(* ===== verification/Prelude.thy ===== *)
theory Prelude
  imports Complex_Main "HOL-Library.Word" "HOL-Library.Char_ord" "HOL-Library.List_Lexorder"
    "HOL-Library.Sublist" "HOL-Library.AList" "HOL-Library.Signed_Division"
begin

text \<open>
  The prelude of the development: the theorem collections, the vocabulary of Go values the
  components share (maps, byte strings, decimal numbers, line scanning, errors), and the generic
  lemmas about them.

  Go values are translated as follows.
  \<^item> A Go \<^verbatim>\<open>map\<close> is an association list with distinct keys (\<open>gomap\<close>); reading is \<open>map_of\<close>,
    writing \<open>AList.update\<close>, \<open>delete\<close> is \<open>AList.delete\<close>, and \<^verbatim>\<open>range\<close> visits the entries in list
    order. Go leaves that order open, so no theorem depends on it: statements read the maps
    through \<open>map_of\<close>.
  \<^item> A Go \<^verbatim>\<open>string\<close> or \<^verbatim>\<open>[]byte\<close> is a \<open>string\<close>, a list of bytes.
  \<^item> Byte counters (\<^verbatim>\<open>int64\<close>) are 64-bit words and wrap around. Sequence numbers, timestamps,
    ports and identifiers are \<open>int\<close>: the program only compares them and adds small constants.
  \<^item> An \<^verbatim>\<open>error\<close> result is the left summand of a sum.
  User-facing messages are not ASCII in the source; a message is a constructor that names it.
\<close>

named_theorems gomap_simps \<open>rewrite rules of Go maps\<close>
named_theorems golib_simps \<open>rewrite rules of the Go string functions\<close>
named_theorems wf_intros \<open>the invariants of the components are kept\<close>

section \<open>Go maps\<close>

type_synonym ('k, 'v) gomap = "('k \<times> 'v) list"

abbreviation wf_gomap :: "('k, 'v) gomap \<Rightarrow> bool" where
  "wf_gomap m \<equiv> distinct (map fst m)"

text \<open>\<^verbatim>\<open>m[k]\<close> with the zero value for a missing key.\<close>

definition mget :: "'v \<Rightarrow> ('k, 'v) gomap \<Rightarrow> 'k \<Rightarrow> 'v" where
  "mget z m k = (case map_of m k of None \<Rightarrow> z | Some v \<Rightarrow> v)"

lemma map_of_update [gomap_simps]: "map_of (AList.update k v m) = (map_of m)(k \<mapsto> v)"
  by (rule update_conv')

lemma map_of_delete [gomap_simps]: "map_of (AList.delete k m) = (map_of m)(k := None)"
  by (rule delete_conv')

lemma set_update_subset: "set (AList.update k v m) \<subseteq> insert (k, v) (set m)"
  by (induction m) auto

lemma wf_gomap_update [wf_intros]: "wf_gomap m \<Longrightarrow> wf_gomap (AList.update k v m)"
  by (rule distinct_update)

lemma wf_gomap_delete [wf_intros]: "wf_gomap m \<Longrightarrow> wf_gomap (AList.delete k m)"
  by (rule distinct_delete)

lemma wf_gomap_filter [wf_intros]: "wf_gomap m \<Longrightarrow> wf_gomap (filter P m)"
  by (induction m) auto

lemma map_of_filter_key:
  "map_of (filter (\<lambda>(k, v). P k) m) k = (if P k then map_of m k else None)"
  by (induction m) auto

lemma map_of_filter_wf:
  "wf_gomap m \<Longrightarrow> map_of (filter (\<lambda>(k, v). P k v) m) k =
     (case map_of m k of None \<Rightarrow> None | Some v \<Rightarrow> if P k v then Some v else None)"
proof (induction m)
  case (Cons p m)
  obtain a b where p: "p = (a, b)" by (cases p)
  have "a = k \<Longrightarrow> map_of (filter (\<lambda>(k, v). P k v) m) k = None"
    using Cons.prems by (auto simp: p map_of_eq_None_iff)
  with Cons show ?case by (auto simp: p)
qed simp

lemma map_of_map_value:
  "map_of (map (\<lambda>(k, v). (k, f k v)) m) k = map_option (f k) (map_of m k)"
  by (induction m) auto

text \<open>A loop that rewrites or drops each entry under its own key.\<close>

lemma map_of_map_filter:
  assumes "\<And>e e'. f e = Some e' \<Longrightarrow> fst e' = fst e" and "wf_gomap m"
  shows "map_of (List.map_filter f m) k =
    (case map_of m k of None \<Rightarrow> None | Some v \<Rightarrow> map_option snd (f (k, v)))"
  using assms(2)
proof (induction m)
  case (Cons p m)
  obtain a b where p: "p = (a, b)" by (cases p)
  have "a = k \<Longrightarrow> map_of m k = None" using Cons.prems by (auto simp: p map_of_eq_None_iff)
  with Cons show ?case
    using assms(1) [of p] by (auto simp: p List.map_filter_simps split: option.splits)
qed (simp add: List.map_filter_simps)

lemma keys_map_filter:
  assumes "\<And>e e'. f e = Some e' \<Longrightarrow> fst e' = fst e"
  shows "set (map fst (List.map_filter f m)) \<subseteq> set (map fst m)"
  using assms by (force simp: List.map_filter_def)

lemma wf_gomap_map_filter:
  assumes "\<And>e e'. f e = Some e' \<Longrightarrow> fst e' = fst e" and "wf_gomap m"
  shows "wf_gomap (List.map_filter f m)"
  using assms(2)
proof (induction m)
  case (Cons p m)
  then show ?case
    using assms(1) [of p] keys_map_filter [OF assms(1), of f m]
    by (auto simp: List.map_filter_simps split: option.splits)
qed (simp add: List.map_filter_simps)

section \<open>Machine integers\<close>

type_synonym int64 = "64 word"

text \<open>Go's integer division truncates towards zero.\<close>

definition quot64 :: "int64 \<Rightarrow> int64 \<Rightarrow> int64" where
  "quot64 a b = word_of_int (sint a sdiv sint b)"

section \<open>Byte strings\<close>

definition go_space :: "char \<Rightarrow> bool" where
  "go_space c \<longleftrightarrow> c \<in> {CHR '' '', CHR 0x09, CHR 0x0A, CHR 0x0B, CHR 0x0C, CHR 0x0D}"

definition TrimSpace :: "string \<Rightarrow> string" where
  "TrimSpace s = rev (dropWhile go_space (rev (dropWhile go_space s)))"

definition TrimLeft :: "char \<Rightarrow> string \<Rightarrow> string" where
  "TrimLeft c s = dropWhile (\<lambda>x. x = c) s"

definition TrimRight :: "char \<Rightarrow> string \<Rightarrow> string" where
  "TrimRight c s = rev (dropWhile (\<lambda>x. x = c) (rev s))"

fun fields_from :: "string \<Rightarrow> string \<Rightarrow> string list" where
  "fields_from acc [] = (if acc = [] then [] else [rev acc])"
| "fields_from acc (c # cs) =
     (if go_space c
      then (if acc = [] then fields_from [] cs else rev acc # fields_from [] cs)
      else fields_from (c # acc) cs)"

definition Fields :: "string \<Rightarrow> string list" where
  "Fields s = fields_from [] s"

fun Split :: "char \<Rightarrow> string \<Rightarrow> string list" where
  "Split c [] = [[]]"
| "Split c (x # xs) =
     (if x = c then [] # Split c xs
      else (case Split c xs of [] \<Rightarrow> [[x]] | w # ws \<Rightarrow> (x # w) # ws))"

fun IndexByte :: "string \<Rightarrow> char \<Rightarrow> nat option" where
  "IndexByte [] c = None"
| "IndexByte (x # xs) c = (if x = c then Some 0 else map_option Suc (IndexByte xs c))"

definition LastIndexByte :: "string \<Rightarrow> char \<Rightarrow> nat option" where
  "LastIndexByte s c =
     (case IndexByte (rev s) c of None \<Rightarrow> None | Some i \<Rightarrow> Some (length s - Suc i))"

definition HasPrefix :: "string \<Rightarrow> string \<Rightarrow> bool" where
  "HasPrefix s p \<longleftrightarrow> prefix p s"

definition HasSuffix :: "string \<Rightarrow> string \<Rightarrow> bool" where
  "HasSuffix s p \<longleftrightarrow> suffix p s"

definition Contains :: "string \<Rightarrow> string \<Rightarrow> bool" where
  "Contains s p \<longleftrightarrow> sublist p s"

definition TrimPrefix :: "string \<Rightarrow> string \<Rightarrow> string" where
  "TrimPrefix s p = (if HasPrefix s p then drop (length p) s else s)"

definition lower_char :: "char \<Rightarrow> char" where
  "lower_char c =
     (let n = of_char c :: nat in if 65 \<le> n \<and> n \<le> 90 then char_of (n + 32) else c)"

definition ToLower :: "string \<Rightarrow> string" where
  "ToLower s = map lower_char s"

text \<open>\<^verbatim>\<open>sort.Strings\<close> orders byte strings lexicographically.\<close>

definition sort_Strings :: "string list \<Rightarrow> string list" where
  "sort_Strings = sort"

lemma Split_nonempty [simp]: "Split c s \<noteq> []"
  by (cases s) (auto split: list.splits)

lemma Split_no_sep: "c \<notin> set s \<Longrightarrow> Split c s = [s]"
  by (induction s) auto

lemma Split_append_sep: "c \<notin> set s \<Longrightarrow> Split c (s @ c # t) = s # Split c t"
  by (induction s) auto

lemma Split_piece_no_sep: "w \<in> set (Split c s) \<Longrightarrow> c \<notin> set w"
proof (induction s arbitrary: w)
  case (Cons x s)
  then show ?case by (cases "Split c s") (auto split: if_splits)
qed simp

lemma IndexByte_append: "c \<notin> set s \<Longrightarrow> IndexByte (s @ c # t) c = Some (length s)"
  by (induction s) auto

lemma IndexByte_None: "IndexByte s c = None \<longleftrightarrow> c \<notin> set s"
  by (induction s) auto

lemma IndexByte_Some:
  "IndexByte s c = Some i \<Longrightarrow> i < length s \<and> s ! i = c \<and> c \<notin> set (take i s)"
  by (induction s arbitrary: i) (auto split: if_splits)

section \<open>Decimal and hexadecimal numbers\<close>

definition digit_char :: "nat \<Rightarrow> char" where
  "digit_char d = char_of (48 + d)"

text \<open>The value of a digit as \<^verbatim>\<open>strconv\<close> reads it: \<open>0-9\<close>, then letters of either case from 10.\<close>

definition digit_val :: "char \<Rightarrow> nat option" where
  "digit_val c =
     (let n = of_char c :: nat in
      if 48 \<le> n \<and> n \<le> 57 then Some (n - 48)
      else if 97 \<le> n \<and> n \<le> 122 then Some (n - 97 + 10)
      else if 65 \<le> n \<and> n \<le> 90 then Some (n - 65 + 10)
      else None)"

fun nat_dec :: "nat \<Rightarrow> string" where
  "nat_dec n = (if n < 10 then [digit_char n] else nat_dec (n div 10) @ [digit_char (n mod 10)])"

declare nat_dec.simps [simp del]

definition Itoa :: "int \<Rightarrow> string" where
  "Itoa i = (if i < 0 then CHR ''-'' # nat_dec (nat (- i)) else nat_dec (nat i))"

fun read_digits :: "nat \<Rightarrow> nat \<Rightarrow> string \<Rightarrow> nat option" where
  "read_digits b acc [] = Some acc"
| "read_digits b acc (c # cs) =
     (case digit_val c of
        None \<Rightarrow> None
      | Some d \<Rightarrow> if d < b then read_digits b (acc * b + d) cs else None)"

text \<open>
  \<^verbatim>\<open>strconv.ParseUint(s, base, bits)\<close>: the value and whether it is error-free. A syntax error gives
  0, a value out of range the nearest one, both with the error set.
\<close>

definition ParseUint :: "string \<Rightarrow> nat \<Rightarrow> nat \<Rightarrow> nat \<times> bool" where
  "ParseUint s base bits =
     (if s = [] then (0, False)
      else (case read_digits base 0 s of
              None \<Rightarrow> (0, False)
            | Some n \<Rightarrow> if n < 2 ^ bits then (n, True) else (2 ^ bits - 1, False)))"

definition ParseInt :: "string \<Rightarrow> nat \<Rightarrow> nat \<Rightarrow> int \<times> bool" where
  "ParseInt s base bits =
     (let neg = (s \<noteq> [] \<and> hd s = CHR ''-'');
          ds = (if s \<noteq> [] \<and> (hd s = CHR ''-'' \<or> hd s = CHR ''+'') then tl s else s)
      in if ds = [] then (0, False)
         else (case read_digits base 0 ds of
                 None \<Rightarrow> (0, False)
               | Some n \<Rightarrow>
                   if neg then (if n \<le> 2 ^ (bits - 1) then (- int n, True) else (- (2 ^ (bits - 1)), False))
                   else (if n < 2 ^ (bits - 1) then (int n, True) else (2 ^ (bits - 1) - 1, False))))"

definition Atoi :: "string \<Rightarrow> int \<times> bool" where
  "Atoi s = ParseInt s 10 64"

lemma of_char_digit: "d < 10 \<Longrightarrow> of_char (digit_char d) = 48 + d"
  by (simp add: digit_char_def)

lemma digit_val_digit_char [simp]: "d < 10 \<Longrightarrow> digit_val (digit_char d) = Some d"
  by (simp add: digit_val_def of_char_digit Let_def)

lemma read_digits_append:
  "read_digits b acc (s @ t) =
     (case read_digits b acc s of None \<Rightarrow> None | Some n \<Rightarrow> read_digits b n t)"
  by (induction s arbitrary: acc) (auto split: option.splits)

lemma nat_dec_nonempty [simp]: "nat_dec n \<noteq> []"
  by (subst nat_dec.simps) simp

lemma read_digits_nat_dec: "read_digits 10 0 (nat_dec n) = Some n"
proof (induction n rule: nat_dec.induct)
  case (1 n)
  show ?case
  proof (cases "n < 10")
    case True
    then show ?thesis by (subst nat_dec.simps) simp
  next
    case False
    with "1.IH" have "read_digits 10 0 (nat_dec (n div 10)) = Some (n div 10)" by simp
    with False show ?thesis by (subst nat_dec.simps) (simp add: read_digits_append)
  qed
qed

lemma pos_mod_bound_nat10: "(n::nat) mod 10 < 10"
  by simp

lemma set_nat_dec: "c \<in> set (nat_dec n) \<Longrightarrow> \<exists>d<10. c = digit_char d"
proof (induction n rule: nat_dec.induct)
  case (1 n)
  show ?case
  proof (cases "n < 10")
    case True
    with "1.prems" show ?thesis by (auto simp: nat_dec.simps [of n])
  next
    case False
    with "1.prems" have "c \<in> set (nat_dec (n div 10)) \<or> c = digit_char (n mod 10)"
      by (auto simp add: nat_dec.simps [of n])
    then show ?thesis using "1.IH" [OF False] pos_mod_bound_nat10 by blast
  qed
qed

lemma digit_char_not: "d < 10 \<Longrightarrow> of_char c < (48::nat) \<or> 57 < (of_char c :: nat) \<Longrightarrow> digit_char d \<noteq> c"
  using of_char_digit by fastforce

lemma nat_dec_no_char:
  "of_char c < (48::nat) \<or> 57 < (of_char c :: nat) \<Longrightarrow> c \<notin> set (nat_dec n)"
  using set_nat_dec digit_char_not by blast

lemma Itoa_no_char:
  "c \<noteq> CHR ''-'' \<Longrightarrow> of_char c < (48::nat) \<or> 57 < (of_char c :: nat) \<Longrightarrow> c \<notin> set (Itoa i)"
  by (auto simp: Itoa_def nat_dec_no_char)

lemma hd_nat_dec: "hd (nat_dec n) \<noteq> CHR ''-'' \<and> hd (nat_dec n) \<noteq> CHR ''+''"
proof -
  have "hd (nat_dec n) \<in> set (nat_dec n)" by (rule hd_in_set) simp
  moreover have "CHR ''-'' \<notin> set (nat_dec n)" "CHR ''+'' \<notin> set (nat_dec n)"
    by (rule nat_dec_no_char, simp)+
  ultimately show ?thesis by metis
qed

text \<open>Printing a number and reading it back is the identity in the range of the type.\<close>

lemma ParseInt_Itoa [golib_simps]:
  assumes "- (2 ^ 63) \<le> i" and "i < 2 ^ 63"
  shows "ParseInt (Itoa i) 10 64 = (i, True)"
proof (cases "i < 0")
  case True
  then show ?thesis using assms
    by (simp add: ParseInt_def Itoa_def Let_def read_digits_nat_dec nat_le_iff)
next
  case False
  then show ?thesis using assms hd_nat_dec
    by (simp add: ParseInt_def Itoa_def Let_def read_digits_nat_dec nat_less_iff)
qed

lemma Itoa_inj: "Itoa i = Itoa j \<Longrightarrow> i = j"
proof -
  assume eq: "Itoa i = Itoa j"
  have nd: "nat_dec m = nat_dec n \<Longrightarrow> m = n" for m n
    using read_digits_nat_dec by (metis option.inject)
  have "hd (Itoa k) = CHR ''-'' \<longleftrightarrow> k < 0" for k
    using hd_nat_dec by (simp add: Itoa_def)
  with eq have "i < 0 \<longleftrightarrow> j < 0" by metis
  with eq show "i = j" by (auto simp: Itoa_def dest!: nd split: if_splits)
qed

section \<open>Line scanning\<close>

text \<open>
  \<^verbatim>\<open>bufio.Scanner\<close> with \<^verbatim>\<open>ScanLines\<close> and a maximal token size \<open>mx\<close>: the lines up to the first one
  that does not fit, a trailing carriage return removed, and whether the scan stopped at such a
  line (\<^verbatim>\<open>ErrTooLong\<close>). Text after the last newline is a line unless it is empty.
\<close>

definition raw_lines :: "string \<Rightarrow> string list" where
  "raw_lines s = (let ls = Split (CHR 0x0A) s in if last ls = [] then butlast ls else ls)"

definition drop_cr :: "string \<Rightarrow> string" where
  "drop_cr l = (if l \<noteq> [] \<and> last l = CHR 0x0D then butlast l else l)"

definition scan_lines :: "nat \<Rightarrow> string \<Rightarrow> string list \<times> bool" where
  "scan_lines mx s =
     (let ls = raw_lines s; good = takeWhile (\<lambda>l. length l < mx) ls
      in (map drop_cr good, length good < length ls))"

lemma raw_lines_Nil [simp]: "raw_lines [] = []"
  by (simp add: raw_lines_def)

lemma raw_lines_line:
  "CHR 0x0A \<notin> set l \<Longrightarrow> raw_lines (l @ CHR 0x0A # t) = l # raw_lines t"
  by (simp add: raw_lines_def Split_append_sep Let_def)

lemma raw_lines_last:
  "CHR 0x0A \<notin> set l \<Longrightarrow> l \<noteq> [] \<Longrightarrow> raw_lines l = [l]"
  by (simp add: raw_lines_def Split_no_sep)

section \<open>Generic lemmas\<close>

text \<open>The last \<open>n\<close> elements of a list, what a bounded buffer keeps of its input.\<close>

definition last_n :: "nat \<Rightarrow> 'a list \<Rightarrow> 'a list" where
  "last_n n xs = drop (length xs - n) xs"

lemma length_last_n: "length (last_n n xs) = min n (length xs)"
  by (simp add: last_n_def)

lemma last_n_all: "length xs \<le> n \<Longrightarrow> last_n n xs = xs"
  by (simp add: last_n_def)

lemma last_n_last_n_append: "last_n n (last_n n xs @ ys) = last_n n (xs @ ys)"
proof (cases "length xs \<le> n")
  case False
  then show ?thesis by (auto simp: last_n_def add.commute)
qed (simp add: last_n_all)

lemma sum_list_map_append: "sum_list (map f (xs @ ys)) = sum_list (map f xs) + sum_list (map f ys)"
  by (simp add: sum_list_append)

lemma sorted_wrt_snoc: "sorted_wrt P (xs @ [x]) \<longleftrightarrow> sorted_wrt P xs \<and> (\<forall>y\<in>set xs. P y x)"
  by (auto simp: sorted_wrt_append)

end
