(* ===== verification/Frpcfg.thy ===== *)
theory Frpcfg
  imports Prelude
begin

text \<open>
  \<^verbatim>\<open>internal/frpcfg/frpcfg.go\<close>: the frpc and frps configuration files, the whitelist of public ports
  frps may bind, and the names of proxies. The lemmas show that the whitelist is exactly the
  requested interval without the excluded ranges, that it is sorted with gaps, that a proxy name
  determines its mapping and node, and that a remark cannot add lines to a configuration.
\<close>

section \<open>Data\<close>

record frpc_proxy =
  px_Name :: string
  px_Type :: string
  px_LocalIP :: string
  px_LocalPort :: int
  px_RemotePort :: int
  px_Comment :: string

record FrpcParams =
  fc_ServerAddr :: string
  fc_ServerPort :: int
  fc_Token :: string
  fc_TLSEnable :: bool
  fc_AdminAddr :: string
  fc_AdminPort :: int
  fc_AdminUser :: string
  fc_AdminPassword :: string
  fc_LogFile :: string
  fc_LogLevel :: string
  fc_Proxies :: "frpc_proxy list"

type_synonym port_range = "int \<times> int"

record FrpsParams =
  fs_BindPort :: int
  fs_Token :: string
  fs_TLSForce :: bool
  fs_AdminAddr :: string
  fs_AdminPort :: int
  fs_AdminUser :: string
  fs_AdminPassword :: string
  fs_LogFile :: string
  fs_LogLevel :: string
  fs_AllowLo :: int
  fs_AllowHi :: int
  fs_Reserved :: "port_range list"

section \<open>Rendering\<close>

definition q_char :: "char \<Rightarrow> string" where
  "q_char c = (if c = CHR 0x5C then [CHR 0x5C, CHR 0x5C]
               else if c = CHR 0x22 then [CHR 0x5C, CHR 0x22] else [c])"

definition q :: "string \<Rightarrow> string" where
  "q s = [CHR 0x22] @ concat (map q_char s) @ [CHR 0x22]"

definition go_bool :: "bool \<Rightarrow> string" where
  "go_bool b = (if b then ''true'' else ''false'')"

definition ln :: "string \<Rightarrow> string" where
  "ln s = s @ [CHR 0x0A]"

definition quote_token :: string where
  "quote_token = ''auth.method = '' @ q ''token''"

text \<open>One \<^verbatim>\<open>[[proxies]]\<close> block, the body of the loop in \<^verbatim>\<open>RenderFrpc\<close>.\<close>

definition render_proxy :: "frpc_proxy \<Rightarrow> string" where
  "render_proxy px =
     (let typ = (if px_Type px = [] then ''tcp'' else px_Type px);
          lip = (if px_LocalIP px = [] then ''127.0.0.1'' else px_LocalIP px)
      in ln [] @ ln ''[[proxies]]''
       @ ln (''name = '' @ q (px_Name px))
       @ ln (''type = '' @ q typ)
       @ ln (''localIP = '' @ q lip)
       @ ln (''localPort = '' @ Itoa (px_LocalPort px))
       @ ln (''remotePort = '' @ Itoa (px_RemotePort px))
       @ (if px_Comment px \<noteq> []
          then ln (''# '' @ map (\<lambda>c. if c = CHR 0x0A then CHR '' '' else c) (px_Comment px))
          else []))"

definition RenderFrpc :: "FrpcParams \<Rightarrow> string" where
  "RenderFrpc p =
     (let lvl = (if fc_LogLevel p = [] then ''info'' else fc_LogLevel p)
      in ln (''serverAddr = '' @ q (fc_ServerAddr p))
       @ ln (''serverPort = '' @ Itoa (fc_ServerPort p))
       @ ln ''loginFailExit = false''
       @ ln quote_token
       @ ln (''auth.token = '' @ q (fc_Token p))
       @ ln (''transport.tls.enable = '' @ go_bool (fc_TLSEnable p))
       @ ln ''transport.heartbeatInterval = 10''
       @ ln ''transport.heartbeatTimeout = 30''
       @ (if fc_AdminPort p > 0
          then ln (''webServer.addr = '' @ q (fc_AdminAddr p))
             @ ln (''webServer.port = '' @ Itoa (fc_AdminPort p))
             @ ln (''webServer.user = '' @ q (fc_AdminUser p))
             @ ln (''webServer.password = '' @ q (fc_AdminPassword p))
          else [])
       @ (if fc_LogFile p \<noteq> []
          then ln (''log.to = '' @ q (fc_LogFile p))
             @ ln (''log.level = '' @ q lvl)
             @ ln ''log.maxDays = 3''
          else [])
       @ concat (map render_proxy (fc_Proxies p)))"

section \<open>Allowed port ranges\<close>

text \<open>Normalise one excluded range and clamp it into \<open>[lo, hi]\<close>; \<open>None\<close> if it lies outside.\<close>

definition clamp_exclude :: "int \<Rightarrow> int \<Rightarrow> port_range \<Rightarrow> port_range option" where
  "clamp_exclude lo hi e =
     (let a = (if fst e > snd e then snd e else fst e);
          b = (if fst e > snd e then fst e else snd e)
      in if b < lo \<or> a > hi then None
         else Some (if a < lo then lo else a, if b > hi then hi else b))"

text \<open>The merge loop; the accumulator holds \<^verbatim>\<open>merged\<close> with its last element first.\<close>

fun merge_ranges :: "port_range list \<Rightarrow> port_range list \<Rightarrow> port_range list" where
  "merge_ranges acc [] = rev acc"
| "merge_ranges [] (e # es) = merge_ranges [e] es"
| "merge_ranges ((a, b) # acc) (e # es) =
     (if fst e \<le> b + 1
      then merge_ranges ((a, if snd e > b then snd e else b) # acc) es
      else merge_ranges (e # (a, b) # acc) es)"

text \<open>The walk over the gaps between the merged ranges, from \<open>cur\<close> on.\<close>

fun walk_gaps :: "int \<Rightarrow> int \<Rightarrow> port_range list \<Rightarrow> port_range list" where
  "walk_gaps hi cur [] = (if cur \<le> hi then [(cur, hi)] else [])"
| "walk_gaps hi cur (e # es) =
     (if fst e > cur then [(cur, fst e - 1)] else [])
     @ walk_gaps hi (if snd e + 1 > cur then snd e + 1 else cur) es"

definition AllowedRanges :: "int \<Rightarrow> int \<Rightarrow> port_range list \<Rightarrow> port_range list" where
  "AllowedRanges lo hi excludes =
     (if lo > hi then []
      else walk_gaps hi lo (merge_ranges [] (sort_key fst (List.map_filter (clamp_exclude lo hi) excludes))))"

definition render_range :: "port_range \<Rightarrow> string" where
  "render_range r = ln (''  { start = '' @ Itoa (fst r) @ '', end = '' @ Itoa (snd r) @ '' },'')"

definition RenderFrps :: "FrpsParams \<Rightarrow> string" where
  "RenderFrps p =
     (let lvl = (if fs_LogLevel p = [] then ''info'' else fs_LogLevel p)
      in ln (''bindPort = '' @ Itoa (fs_BindPort p))
       @ ln quote_token
       @ ln (''auth.token = '' @ q (fs_Token p))
       @ ln (''transport.tls.force = '' @ go_bool (fs_TLSForce p))
       @ (if fs_AdminPort p > 0
          then ln (''webServer.addr = '' @ q (fs_AdminAddr p))
             @ ln (''webServer.port = '' @ Itoa (fs_AdminPort p))
             @ ln (''webServer.user = '' @ q (fs_AdminUser p))
             @ ln (''webServer.password = '' @ q (fs_AdminPassword p))
          else [])
       @ (if fs_LogFile p \<noteq> []
          then ln (''log.to = '' @ q (fs_LogFile p))
             @ ln (''log.level = '' @ q lvl)
             @ ln ''log.maxDays = 3''
          else [])
       @ ln ''allowPorts = [''
       @ concat (map render_range (AllowedRanges (fs_AllowLo p) (fs_AllowHi p) (fs_Reserved p)))
       @ ln '']'')"

section \<open>Proxy names\<close>

definition ProxyName :: "int \<Rightarrow> int \<Rightarrow> string" where
  "ProxyName mappingID nodeID = ''m'' @ Itoa mappingID @ ''_n'' @ Itoa nodeID"

definition ParseProxyName :: "string \<Rightarrow> (int \<times> int) option" where
  "ParseProxyName name =
     (if \<not> HasPrefix name ''m'' then None
      else let rest = tl name in
        (case IndexByte rest (CHR ''_'') of
           None \<Rightarrow> None
         | Some i \<Rightarrow>
             if i + 1 \<ge> length rest \<or> rest ! (i + 1) \<noteq> CHR ''n'' then None
             else let m = ParseInt (take i rest) 10 64;
                      n = ParseInt (drop (i + 2) rest) 10 64
                  in if \<not> snd m \<or> \<not> snd n then None else Some (fst m, fst n)))"

section \<open>The port whitelist is exact\<close>

text \<open>The set a list of ranges denotes, as a membership test.\<close>

definition in_ranges :: "int \<Rightarrow> port_range list \<Rightarrow> bool" where
  "in_ranges p rs \<longleftrightarrow> (\<exists>r\<in>set rs. fst r \<le> p \<and> p \<le> snd r)"

definition excluded :: "int \<Rightarrow> port_range list \<Rightarrow> bool" where
  "excluded p ex \<longleftrightarrow> (\<exists>e\<in>set ex. min (fst e) (snd e) \<le> p \<and> p \<le> max (fst e) (snd e))"

abbreviation proper :: "port_range list \<Rightarrow> bool" where
  "proper rs \<equiv> (\<forall>r\<in>set rs. fst r \<le> snd r)"

lemma in_ranges_simps [simp]:
  "\<not> in_ranges p []"
  "in_ranges p (r # rs) \<longleftrightarrow> (fst r \<le> p \<and> p \<le> snd r) \<or> in_ranges p rs"
  "in_ranges p (rs @ ts) \<longleftrightarrow> in_ranges p rs \<or> in_ranges p ts"
  "in_ranges p (rev rs) \<longleftrightarrow> in_ranges p rs"
  by (auto simp: in_ranges_def)

lemma in_ranges_sort_key [simp]: "in_ranges p (sort_key f rs) \<longleftrightarrow> in_ranges p rs"
  by (simp add: in_ranges_def)

lemma in_ranges_ge_start: "in_ranges p rs \<Longrightarrow> \<forall>r\<in>set rs. a \<le> fst r \<Longrightarrow> a \<le> p"
  by (auto simp: in_ranges_def)

lemma in_ranges_clamped:
  assumes "lo \<le> p" and "p \<le> hi"
  shows "in_ranges p (List.map_filter (clamp_exclude lo hi) ex) \<longleftrightarrow> excluded p ex"
  using assms
  by (induction ex)
    (auto simp: excluded_def clamp_exclude_def Let_def List.map_filter_simps split: if_splits)

lemma clamped_bounds:
  assumes "r \<in> set (List.map_filter (clamp_exclude lo hi) ex)" and "lo \<le> hi"
  shows "lo \<le> fst r" and "fst r \<le> snd r" and "snd r \<le> hi"
  using assms
  by (auto simp: List.map_filter_def clamp_exclude_def Let_def split: if_splits)

lemma in_ranges_merge:
  "(\<forall>r\<in>set acc. \<forall>e\<in>set es. fst r \<le> fst e) \<Longrightarrow> proper acc \<Longrightarrow> proper es
   \<Longrightarrow> sorted (map fst es)
   \<Longrightarrow> in_ranges p (merge_ranges acc es) \<longleftrightarrow> in_ranges p acc \<or> in_ranges p es"
proof (induction acc es rule: merge_ranges.induct)
  case (3 a b acc e es)
  show ?case
  proof (cases "fst e \<le> b + 1")
    case True
    with "3.IH"(1) [OF True] "3.prems"
    have "in_ranges p (merge_ranges ((a, if snd e > b then snd e else b) # acc) es)
      \<longleftrightarrow> in_ranges p ((a, if snd e > b then snd e else b) # acc) \<or> in_ranges p es"
      by simp
    with True "3.prems"(1) show ?thesis by auto
  next
    case False
    with "3.IH"(2) [OF False] "3.prems"
    have "in_ranges p (merge_ranges (e # (a, b) # acc) es)
      \<longleftrightarrow> in_ranges p (e # (a, b) # acc) \<or> in_ranges p es"
      by simp
    with False show ?thesis by auto
  qed
qed auto

definition merge_inv :: "int \<Rightarrow> int \<Rightarrow> port_range list \<Rightarrow> port_range list \<Rightarrow> bool" where
  "merge_inv lo hi acc es \<longleftrightarrow>
     (\<forall>r\<in>set acc \<union> set es. lo \<le> fst r \<and> fst r \<le> snd r \<and> snd r \<le> hi)
     \<and> sorted (map fst (rev acc @ es))"

lemma merge_inv_extend:
  "merge_inv lo hi ((a, b) # acc) (e # es)
   \<Longrightarrow> merge_inv lo hi ((a, if snd e > b then snd e else b) # acc) es"
  unfolding merge_inv_def by (simp add: sorted_append ball_Un)

lemma merge_inv_push:
  "merge_inv lo hi acc (e # es) \<Longrightarrow> merge_inv lo hi (e # acc) es"
  unfolding merge_inv_def by (simp add: sorted_append ball_Un)

lemma merge_ranges_inv:
  "merge_inv lo hi acc es \<Longrightarrow> merge_inv lo hi [] (merge_ranges acc es)"
proof (induction acc es rule: merge_ranges.induct)
  case (1 acc)
  then show ?case by (simp add: merge_inv_def)
next
  case (2 e es)
  then show ?case by (simp add: merge_inv_push)
next
  case (3 a b acc e es)
  then show ?case
    using merge_inv_extend [OF "3.prems"] merge_inv_push [OF "3.prems"] by simp
qed

lemma in_ranges_walk:
  "proper es \<Longrightarrow> sorted (map fst es) \<Longrightarrow> \<forall>r\<in>set es. snd r \<le> hi
   \<Longrightarrow> in_ranges p (walk_gaps hi cur es) \<longleftrightarrow> cur \<le> p \<and> p \<le> hi \<and> \<not> in_ranges p es"
proof (induction hi cur es rule: walk_gaps.induct)
  case (2 hi cur e es)
  have IH: "in_ranges p (walk_gaps hi (if cur < snd e + 1 then snd e + 1 else cur) es)
    \<longleftrightarrow> (if cur < snd e + 1 then snd e + 1 else cur) \<le> p \<and> p \<le> hi \<and> \<not> in_ranges p es"
    using 2 by simp
  have "in_ranges p es \<Longrightarrow> fst e \<le> p"
    using "2.prems"(2) by (auto intro: in_ranges_ge_start)
  with IH "2.prems" show ?case by (auto split: if_splits)
qed auto

lemma walk_gaps_bounds:
  "proper es \<Longrightarrow> sorted (map fst es) \<Longrightarrow> \<forall>r\<in>set es. snd r \<le> hi \<Longrightarrow> r \<in> set (walk_gaps hi cur es)
   \<Longrightarrow> cur \<le> fst r \<and> fst r \<le> snd r \<and> snd r \<le> hi"
  by (induction hi cur es rule: walk_gaps.induct) (fastforce split: if_splits)+

lemma walk_gaps_sorted:
  "proper es \<Longrightarrow> sorted (map fst es) \<Longrightarrow> \<forall>r\<in>set es. snd r \<le> hi
   \<Longrightarrow> sorted_wrt (\<lambda>r s. snd r + 1 < fst s) (walk_gaps hi cur es)"
proof (induction hi cur es rule: walk_gaps.induct)
  case (2 hi cur e es)
  let ?cur' = "if snd e + 1 > cur then snd e + 1 else cur"
  have "sorted_wrt (\<lambda>r s. snd r + 1 < fst s) (walk_gaps hi ?cur' es)"
    using 2 by simp
  moreover have "\<forall>r\<in>set (walk_gaps hi ?cur' es). ?cur' \<le> fst r"
    using walk_gaps_bounds [of es hi _ ?cur'] "2.prems" by auto
  ultimately show ?case using "2.prems" by fastforce
qed simp

lemma merged_props:
  fixes ex :: "port_range list"
  assumes "lo \<le> hi"
  defines "m \<equiv> merge_ranges [] (sort_key fst (List.map_filter (clamp_exclude lo hi) ex))"
  shows "proper m" and "sorted (map fst m)" and "\<forall>r\<in>set m. snd r \<le> hi"
    and "in_ranges p m \<longleftrightarrow> in_ranges p (List.map_filter (clamp_exclude lo hi) ex)"
proof -
  let ?es = "sort_key fst (List.map_filter (clamp_exclude lo hi) ex)"
  have es: "merge_inv lo hi [] ?es"
    unfolding merge_inv_def using clamped_bounds [OF _ assms(1)] by simp
  then have "merge_inv lo hi [] m" unfolding m_def by (rule merge_ranges_inv)
  then show "proper m" "sorted (map fst m)" "\<forall>r\<in>set m. snd r \<le> hi"
    by (auto simp: merge_inv_def)
  from es have "proper ?es" by (auto simp: merge_inv_def)
  then show "in_ranges p m \<longleftrightarrow> in_ranges p (List.map_filter (clamp_exclude lo hi) ex)"
    unfolding m_def using in_ranges_merge [of "[]" ?es p] by simp
qed

lemma AllowedRanges_exact:
  "in_ranges p (AllowedRanges lo hi ex) \<longleftrightarrow> lo \<le> p \<and> p \<le> hi \<and> \<not> excluded p ex"
proof (cases "lo \<le> hi")
  case True
  then show ?thesis
    using in_ranges_walk [OF merged_props(1-3) [OF True, of ex]] merged_props(4) [OF True]
      in_ranges_clamped [of lo p hi ex]
    by (auto simp: AllowedRanges_def)
qed (auto simp: AllowedRanges_def)

lemma AllowedRanges_shape:
  "sorted_wrt (\<lambda>r s. snd r + 1 < fst s) (AllowedRanges lo hi ex)
   \<and> (\<forall>r\<in>set (AllowedRanges lo hi ex). lo \<le> fst r \<and> fst r \<le> snd r \<and> snd r \<le> hi)"
proof (cases "lo \<le> hi")
  case True
  note mp = merged_props(1-3) [OF True, of ex]
  show ?thesis
    using True walk_gaps_sorted [OF mp] walk_gaps_bounds [OF mp] by (auto simp: AllowedRanges_def)
qed (auto simp: AllowedRanges_def)

section \<open>Proxy names are unambiguous\<close>

lemma ParseProxyName_ProxyName:
  assumes "- (2 ^ 63) \<le> m" "m < 2 ^ 63" "- (2 ^ 63) \<le> n" "n < 2 ^ 63"
  shows "ParseProxyName (ProxyName m n) = Some (m, n)"
proof -
  let ?rest = "Itoa m @ CHR ''_'' # CHR ''n'' # Itoa n"
  have "CHR ''_'' \<notin> set (Itoa m)" by (rule Itoa_no_char) simp_all
  then have idx: "IndexByte ?rest (CHR ''_'') = Some (length (Itoa m))"
    by (rule IndexByte_append)
  have "take (length (Itoa m)) ?rest = Itoa m" "drop (length (Itoa m) + 2) ?rest = Itoa n"
    "?rest ! (length (Itoa m) + 1) = CHR ''n''" by (simp_all add: nth_append)
  with idx assms show ?thesis
    by (simp add: ParseProxyName_def ProxyName_def HasPrefix_def Let_def ParseInt_Itoa)
qed

section \<open>Properties\<close>

text \<open>
  C26: the \<^verbatim>\<open>allowPorts\<close> whitelist is exact. A port lies in one of the computed ranges if and only if it
  lies in the interval and in no reserved range; the ranges are in order, do not touch, and stay in
  the interval.
\<close>
theorem allowed_ports_exact:
  "(in_ranges p (AllowedRanges lo hi ex) \<longleftrightarrow> lo \<le> p \<and> p \<le> hi \<and> \<not> excluded p ex) \<and>
   sorted_wrt (\<lambda>r s. snd r + 1 < fst s) (AllowedRanges lo hi ex) \<and>
   (\<forall>r\<in>set (AllowedRanges lo hi ex). lo \<le> fst r \<and> fst r \<le> snd r \<and> snd r \<le> hi)"
  using AllowedRanges_exact AllowedRanges_shape by blast

theorem allowed_ports_exact_witness:
  "(in_ranges 7450 (AllowedRanges 1024 65535 [(7000, 7000), (7500, 7400)]) \<longleftrightarrow>
      (1024::int) \<le> 7450 \<and> (7450::int) \<le> 65535 \<and> \<not> excluded 7450 [(7000, 7000), (7500, 7400)]) \<and>
   sorted_wrt (\<lambda>r s. snd r + 1 < fst s) (AllowedRanges 1024 65535 [(7000, 7000), (7500, 7400)]) \<and>
   AllowedRanges 1024 65535 [(7000, 7000), (7500, 7400)] = [(1024, 6999), (7001, 7399), (7501, 65535)]"
  using allowed_ports_exact[of 7450 1024 65535 "[(7000, 7000), (7500, 7400)]"]
  by (auto simp: AllowedRanges_def clamp_exclude_def List.map_filter_simps)

text \<open>
  Proxy names are a faithful encoding of (mapping, node): parsing the name of any pair of 64-bit
  ids returns the pair, so the reconciliation never confuses two tunnels.
\<close>
theorem proxy_name_roundtrip:
  assumes "- (2 ^ 63) \<le> m" "m < 2 ^ 63" "- (2 ^ 63) \<le> n" "n < 2 ^ 63"
  shows "ParseProxyName (ProxyName m n) = Some (m, n)"
  using assms by (rule ParseProxyName_ProxyName)

theorem proxy_name_roundtrip_witness:
  "ParseProxyName (ProxyName 12 (- 3)) = Some (12, - 3)"
  by (rule proxy_name_roundtrip) simp_all

definition lines_in :: "string \<Rightarrow> nat" where
  "lines_in s = length (filter (\<lambda>c. c = CHR 0x0A) s)"

lemma lines_in_append [simp]: "lines_in (s @ t) = lines_in s + lines_in t"
  by (simp add: lines_in_def)

lemma lines_in_ln [simp]: "lines_in (ln s) = lines_in s + 1"
  by (simp add: ln_def lines_in_def)

lemma lines_in_0: "lines_in s = 0 \<longleftrightarrow> CHR 0x0A \<notin> set s"
  by (auto simp: lines_in_def filter_empty_conv)

lemma lines_in_q [simp]: "lines_in (q s) = lines_in s"
proof -
  have "lines_in (concat (map q_char s)) = lines_in s"
    by (induction s) (auto simp: q_char_def lines_in_def)
  then show ?thesis by (simp add: q_def lines_in_def)
qed

lemma lines_in_Itoa [simp]: "lines_in (Itoa i) = 0"
  unfolding lines_in_0 by (rule Itoa_no_char) simp_all

lemma lines_in_const [simp]:
  "lines_in ''[[proxies]]'' = 0" "lines_in ''name = '' = 0" "lines_in ''type = '' = 0" "lines_in ''localIP = '' = 0"
  "lines_in ''localPort = '' = 0" "lines_in ''remotePort = '' = 0" "lines_in ''# '' = 0" "lines_in [] = 0"
  "lines_in ''tcp'' = 0" "lines_in ''127.0.0.1'' = 0"
  by (simp_all add: lines_in_def)

lemma lines_in_comment [simp]: "lines_in (map (\<lambda>c. if c = CHR 0x0A then CHR '' '' else c) s) = 0"
  by (auto simp: lines_in_0 split: if_splits)

text \<open>
  A remark cannot inject configuration. Whatever the user writes as remark, a proxy block has its
  seven lines plus one comment line; the remark never starts a line of its own.
\<close>
theorem remark_adds_no_line:
  assumes "CHR 0x0A \<notin> set (px_Name px)" "CHR 0x0A \<notin> set (px_Type px)" "CHR 0x0A \<notin> set (px_LocalIP px)"
  shows "lines_in (render_proxy px) = (if px_Comment px = [] then 7 else 8)"
  using assms[folded lines_in_0] by (auto simp: render_proxy_def Let_def simp del: append.simps)

theorem remark_adds_no_line_witness:
  "lines_in (render_proxy \<lparr>px_Name = ''m1_n1'', px_Type = ''tcp'', px_LocalIP = [], px_LocalPort = 22, px_RemotePort = 6000,
     px_Comment = ''x'' @ [CHR 0x0A] @ ''[[proxies]]''\<rparr>) = 8"
  by (subst remark_adds_no_line) simp_all

end
