(* ===== verification/Portutil.thy ===== *)
theory Portutil
  imports Prelude
begin

text \<open>
  \<^verbatim>\<open>internal/portutil\<close>: the reserved-port policy (\<^verbatim>\<open>validate.go\<close>) and the detection of occupied ports
  from \<^verbatim>\<open>/proc/net\<close> (\<^verbatim>\<open>portutil.go\<close>). The operating system is the argument \<open>host\<close>: the readable
  files and, for each process, its file descriptors. The lemmas show which ports the policy
  accepts, and that a port is reported occupied exactly when a row of the tables says so.
\<close>

section \<open>The reserved-port policy\<close>

definition PortSSH :: int where "PortSSH = 22"
definition PortFrpsBind :: int where "PortFrpsBind = 7000"
definition PortAgentMgmt :: int where "PortAgentMgmt = 8443"
definition AdminLow :: int where "AdminLow = 7400"
definition AdminHigh :: int where "AdminHigh = 7500"

lemmas port_consts = PortSSH_def PortFrpsBind_def PortAgentMgmt_def AdminLow_def AdminHigh_def

datatype reserved_reason = ReservedSSH | ReservedFrpsBind | ReservedAgentMgmt | ReservedAdminRange
  | ReservedLowPort

datatype port_error = PortOutOfRange | PortReserved reserved_reason

definition ValidatePort :: "int \<Rightarrow> port_error option" where
  "ValidatePort port = (if port < 1 \<or> port > 65535 then Some PortOutOfRange else None)"

text \<open>\<open>None\<close> is the empty string of the source: the port is allowed by policy.\<close>

definition ReservedReason :: "int \<Rightarrow> reserved_reason option" where
  "ReservedReason port =
     (if port = PortSSH then Some ReservedSSH
      else if port = PortFrpsBind then Some ReservedFrpsBind
      else if port = PortAgentMgmt then Some ReservedAgentMgmt
      else if port \<ge> AdminLow \<and> port \<le> AdminHigh then Some ReservedAdminRange
      else if port < 1024 then Some ReservedLowPort
      else None)"

definition IsReserved :: "int \<Rightarrow> bool" where
  "IsReserved port \<longleftrightarrow> ReservedReason port \<noteq> None"

definition ValidateRemotePort :: "int \<Rightarrow> port_error option" where
  "ValidateRemotePort port =
     (case ValidatePort port of
        Some e \<Rightarrow> Some e
      | None \<Rightarrow> (case ReservedReason port of Some r \<Rightarrow> Some (PortReserved r) | None \<Rightarrow> None))"

lemma ValidateRemotePort_ok_iff:
  "ValidateRemotePort p = None \<longleftrightarrow>
     1024 \<le> p \<and> p \<le> 65535 \<and> p \<noteq> 7000 \<and> p \<noteq> 8443 \<and> \<not> (7400 \<le> p \<and> p \<le> 7500)"
  by (auto simp: ValidateRemotePort_def ValidatePort_def ReservedReason_def port_consts)

section \<open>Socket tables\<close>

record SockEntry =
  se_LocalPort :: int
  se_State :: string
  se_Inode :: string

definition tcpListen :: string where
  "tcpListen = ''0A''"

text \<open>One data row; \<open>None\<close> where the loop continues with the next line.\<close>

definition parse_sock_line :: "string \<Rightarrow> SockEntry option" where
  "parse_sock_line line =
     (let f = Fields line in
      if length f < 10 then None
      else (case LastIndexByte (f ! 1) (CHR '':'') of
              None \<Rightarrow> None
            | Some colon \<Rightarrow>
                let p = ParseInt (drop (colon + 1) (f ! 1)) 16 32
                in if \<not> snd p then None
                   else Some \<lparr>se_LocalPort = fst p, se_State = f ! 3, se_Inode = f ! 9\<rparr>))"

fun sock_lines :: "bool \<Rightarrow> string list \<Rightarrow> SockEntry list" where
  "sock_lines first [] = []"
| "sock_lines first (l # ls) =
     (let line = TrimSpace l in
      if first then sock_lines False ls
      else if line = [] then sock_lines False ls
      else (case parse_sock_line line of
              None \<Rightarrow> sock_lines False ls
            | Some e \<Rightarrow> e # sock_lines False ls))"

definition ParseProcNet :: "string \<Rightarrow> SockEntry list \<times> bool" where
  "ParseProcNet r =
     (case scan_lines (2 ^ 20) r of (ls, err) \<Rightarrow> (sock_lines True ls, err))"

definition is_udp :: "string \<Rightarrow> bool" where
  "is_udp proto = HasPrefix (ToLower proto) ''udp''"

definition occupies :: "bool \<Rightarrow> SockEntry \<Rightarrow> bool" where
  "occupies udp e \<longleftrightarrow> udp \<or> se_State e = tcpListen"

fun listen_ports_from :: "(int, string) gomap \<Rightarrow> bool \<Rightarrow> SockEntry list \<Rightarrow> (int, string) gomap" where
  "listen_ports_from m udp [] = m"
| "listen_ports_from m udp (e # es) =
     (if occupies udp e
      then (if map_of m (se_LocalPort e) = None
            then listen_ports_from (AList.update (se_LocalPort e) (se_Inode e) m) udp es
            else listen_ports_from m udp es)
      else listen_ports_from m udp es)"

definition ListenPorts :: "SockEntry list \<Rightarrow> string \<Rightarrow> (int, string) gomap" where
  "ListenPorts entries proto = listen_ports_from [] (is_udp proto) entries"

definition procFiles :: "string \<Rightarrow> string list" where
  "procFiles proto =
     (if is_udp proto then [''/proc/net/udp'', ''/proc/net/udp6'']
      else [''/proc/net/tcp'', ''/proc/net/tcp6''])"

section \<open>The owning process\<close>

text \<open>A process directory: the targets of its descriptors (\<open>None\<close>: unreadable) and its name.\<close>

record proc_dir =
  pd_fds :: "string option list option"
  pd_comm :: "string option"

record host =
  h_files :: "(string, string) gomap"
  h_pids :: "proc_dir list"

fun find_fd_owner :: "string \<Rightarrow> proc_dir list \<Rightarrow> string option" where
  "find_fd_owner target [] = None"
| "find_fd_owner target (d # ds) =
     (case pd_fds d of
        None \<Rightarrow> find_fd_owner target ds
      | Some fds \<Rightarrow>
          if Some target \<in> set fds then map_option TrimSpace (pd_comm d)
          else find_fd_owner target ds)"

definition processForInode :: "host \<Rightarrow> string \<Rightarrow> string option" where
  "processForInode h inode =
     (if inode = [] \<or> inode = ''0'' then None
      else find_fd_owner (''socket:['' @ inode @ '']'') (h_pids h))"

fun find_listener :: "host \<Rightarrow> int \<Rightarrow> string \<Rightarrow> string list \<Rightarrow> string option" where
  "find_listener h port proto [] = None"
| "find_listener h port proto (fp # fps) =
     (case map_of (h_files h) fp of
        None \<Rightarrow> find_listener h port proto fps
      | Some txt \<Rightarrow>
          (case map_of (ListenPorts (fst (ParseProcNet txt)) proto) port of
             Some inode \<Rightarrow> Some inode
           | None \<Rightarrow> find_listener h port proto fps))"

definition LocalListen :: "host \<Rightarrow> int \<Rightarrow> string \<Rightarrow> bool \<times> string" where
  "LocalListen h port proto =
     (case find_listener h port proto (procFiles proto) of
        None \<Rightarrow> (False, [])
      | Some inode \<Rightarrow>
          (True, (case processForInode h inode of Some name \<Rightarrow> name | None \<Rightarrow> [])))"

section \<open>Occupancy is exact\<close>

lemma map_of_listen_ports_from:
  "map_of (listen_ports_from m udp es) p =
     (case map_of m p of
        Some i \<Rightarrow> Some i
      | None \<Rightarrow> map_option se_Inode (find (\<lambda>e. occupies udp e \<and> se_LocalPort e = p) es))"
  by (induction m udp es rule: listen_ports_from.induct)
    (auto simp: gomap_simps split: option.splits)

text \<open>The table maps a port to the inode of the first row that occupies it.\<close>

lemma map_of_ListenPorts:
  "map_of (ListenPorts es proto) p =
     map_option se_Inode (find (\<lambda>e. occupies (is_udp proto) e \<and> se_LocalPort e = p) es)"
  by (simp add: ListenPorts_def map_of_listen_ports_from)

lemma find_listener_None:
  "find_listener h p proto fps = None \<longleftrightarrow>
     (\<forall>fp\<in>set fps. \<forall>txt. map_of (h_files h) fp = Some txt
        \<longrightarrow> map_of (ListenPorts (fst (ParseProcNet txt)) proto) p = None)"
  by (induction h p proto fps rule: find_listener.induct) (auto split: option.splits)

lemma LocalListen_iff:
  "fst (LocalListen h p proto) \<longleftrightarrow>
     (\<exists>fp\<in>set (procFiles proto). \<exists>txt. map_of (h_files h) fp = Some txt
        \<and> (\<exists>e\<in>set (fst (ParseProcNet txt)). occupies (is_udp proto) e \<and> se_LocalPort e = p))"
proof -
  have "fst (LocalListen h p proto) \<longleftrightarrow> find_listener h p proto (procFiles proto) \<noteq> None"
    by (auto simp: LocalListen_def split: option.splits)
  then show ?thesis
    by (auto simp: find_listener_None map_of_ListenPorts find_None_iff)
qed

section \<open>Properties\<close>

text \<open>
  The public port policy. A remote port is accepted if and only if it is between 1024 and 65535
  and is none of the frps port, the agent port and the admin range.
\<close>
theorem port_policy:
  "ValidateRemotePort p = None \<longleftrightarrow>
     1024 \<le> p \<and> p \<le> 65535 \<and> p \<noteq> 7000 \<and> p \<noteq> 8443 \<and> \<not> (7400 \<le> p \<and> p \<le> 7500)"
  by (rule ValidateRemotePort_ok_iff)

text \<open>
  The port check of a node is exact. A port is reported as taken if and only if one of the
  protocol's socket tables has an entry that occupies it: for TCP a socket in state LISTEN, for UDP
  any bound socket.
\<close>
theorem local_listen_exact:
  "fst (LocalListen h p proto) \<longleftrightarrow>
     (\<exists>fp\<in>set (procFiles proto). \<exists>txt. map_of (h_files h) fp = Some txt
        \<and> (\<exists>e\<in>set (fst (ParseProcNet txt)). occupies (is_udp proto) e \<and> se_LocalPort e = p))"
  by (rule LocalListen_iff)

end
