(* ===== verification/Limiter.thy ===== *)
theory Limiter
  imports Prelude
begin

text \<open>
  The two failure throttles: \<^verbatim>\<open>authLimiter\<close> of \<^verbatim>\<open>internal/agent/ratelimit.go\<close>, which guards the
  agent's public port, and \<^verbatim>\<open>loginLimiter\<close> of \<^verbatim>\<open>internal/panel/auth.go\<close>, which guards the panel's
  login. Times are nanoseconds. Their common contract is the locale \<open>throttle\<close>; inside it the
  brute-force bound is proved once, and both limiters interpret it. The panel's limiter is shown
  to be the agent's with other constants, which carries every law over.
\<close>

section \<open>The agent's limiter\<close>

record authLimiter =
  al_fails :: "(string, int list) gomap"
  al_banned :: "(string, int) gomap"
  al_maxFails :: int
  al_window :: int
  al_banDur :: int
  al_lastPrune :: int

definition second_ns :: int where "second_ns = 1000000000"
definition minute_ns :: int where "minute_ns = 60 * second_ns"

definition newAuthLimiter :: authLimiter where
  "newAuthLimiter = \<lparr>al_fails = [], al_banned = [], al_maxFails = 10, al_window = minute_ns,
     al_banDur = 10 * minute_ns, al_lastPrune = 0\<rparr>"

text \<open>
  One entry in the first loop of \<^verbatim>\<open>prune\<close>: the failures inside the window are kept; an entry
  without any goes, unless its address is still banned, in which case it stays as it is.
\<close>

definition prune_entry :: "(string, int) gomap \<Rightarrow> int \<Rightarrow> int \<Rightarrow> string \<times> int list \<Rightarrow> (string \<times> int list) option" where
  "prune_entry banned now windowCut e =
     (let keep = filter (\<lambda>t. t \<ge> windowCut) (snd e) in
      if keep = []
      then (case map_of banned (fst e) of
              None \<Rightarrow> None
            | Some until \<Rightarrow> if now \<ge> until then None else Some e)
      else Some (fst e, keep))"

definition lapsed :: "(string, int) gomap \<Rightarrow> int \<Rightarrow> string \<Rightarrow> bool" where
  "lapsed banned now ip \<longleftrightarrow> (case map_of banned ip of None \<Rightarrow> False | Some until \<Rightarrow> now \<ge> until)"

definition prune :: "int \<Rightarrow> authLimiter \<Rightarrow> authLimiter" where
  "prune now l =
     (let windowCut = now - al_window l;
          fails1 = List.map_filter (prune_entry (al_banned l) now windowCut) (al_fails l);
          banned = al_banned l
      in l\<lparr>al_fails := filter (\<lambda>(ip, ts). \<not> lapsed banned now ip) fails1,
           al_banned := filter (\<lambda>(ip, until). \<not> now \<ge> until) banned\<rparr>)"

definition maybePrune :: "int \<Rightarrow> authLimiter \<Rightarrow> authLimiter" where
  "maybePrune now l =
     (if now - al_lastPrune l < al_window l then l else prune now (l\<lparr>al_lastPrune := now\<rparr>))"

definition auth_Blocked :: "string \<Rightarrow> int \<Rightarrow> authLimiter \<Rightarrow> bool \<times> authLimiter" where
  "auth_Blocked ip now l =
     (case map_of (al_banned l) ip of
        None \<Rightarrow> (False, l)
      | Some until \<Rightarrow>
          if now \<ge> until
          then (False, l\<lparr>al_banned := AList.delete ip (al_banned l), al_fails := AList.delete ip (al_fails l)\<rparr>)
          else (True, l))"

definition auth_Fail :: "string \<Rightarrow> int \<Rightarrow> authLimiter \<Rightarrow> authLimiter" where
  "auth_Fail ip now l =
     (let l = maybePrune now l;
          cutoff = now - al_window l;
          kept = filter (\<lambda>t. t \<ge> cutoff) (mget [] (al_fails l) ip) @ [now];
          l = l\<lparr>al_fails := AList.update ip kept (al_fails l)\<rparr>
      in if int (length kept) \<ge> al_maxFails l
         then l\<lparr>al_banned := AList.update ip (now + al_banDur l) (al_banned l)\<rparr> else l)"

definition auth_Success :: "string \<Rightarrow> authLimiter \<Rightarrow> authLimiter" where
  "auth_Success ip l =
     l\<lparr>al_fails := AList.delete ip (al_fails l), al_banned := AList.delete ip (al_banned l)\<rparr>"

section \<open>The panel's limiter\<close>

record loginLimiter =
  ll_fails :: "(string, int list) gomap"
  ll_banned :: "(string, int) gomap"
  ll_lastPrune :: int

definition loginLimiterWindow :: int where
  "loginLimiterWindow = 10 * minute_ns"

definition newLoginLimiter :: loginLimiter where
  "newLoginLimiter = \<lparr>ll_fails = [], ll_banned = [], ll_lastPrune = 0\<rparr>"

definition login_prune :: "int \<Rightarrow> loginLimiter \<Rightarrow> loginLimiter" where
  "login_prune now l =
     (let windowCut = now - loginLimiterWindow;
          fails1 = List.map_filter (prune_entry (ll_banned l) now windowCut) (ll_fails l);
          banned = ll_banned l
      in l\<lparr>ll_fails := filter (\<lambda>(ip, ts). \<not> lapsed banned now ip) fails1,
           ll_banned := filter (\<lambda>(ip, until). \<not> now \<ge> until) banned\<rparr>)"

definition login_maybePrune :: "int \<Rightarrow> loginLimiter \<Rightarrow> loginLimiter" where
  "login_maybePrune now l =
     (if now - ll_lastPrune l < loginLimiterWindow then l
      else login_prune now (l\<lparr>ll_lastPrune := now\<rparr>))"

definition login_Blocked :: "string \<Rightarrow> int \<Rightarrow> loginLimiter \<Rightarrow> bool \<times> loginLimiter" where
  "login_Blocked ip now l =
     (case map_of (ll_banned l) ip of
        None \<Rightarrow> (False, l)
      | Some until \<Rightarrow>
          if now \<ge> until
          then (False, l\<lparr>ll_banned := AList.delete ip (ll_banned l), ll_fails := AList.delete ip (ll_fails l)\<rparr>)
          else (True, l))"

definition login_Fail :: "string \<Rightarrow> int \<Rightarrow> loginLimiter \<Rightarrow> loginLimiter" where
  "login_Fail ip now l =
     (let l = login_maybePrune now l;
          cutoff = now - loginLimiterWindow;
          kept = filter (\<lambda>t. t \<ge> cutoff) (mget [] (ll_fails l) ip) @ [now];
          l = l\<lparr>ll_fails := AList.update ip kept (ll_fails l)\<rparr>
      in if length kept \<ge> 5
         then l\<lparr>ll_banned := AList.update ip (now + 10 * minute_ns) (ll_banned l)\<rparr> else l)"

definition login_Success :: "string \<Rightarrow> loginLimiter \<Rightarrow> loginLimiter" where
  "login_Success ip l =
     l\<lparr>ll_fails := AList.delete ip (ll_fails l), ll_banned := AList.delete ip (ll_banned l)\<rparr>"

section \<open>The contract of a throttle\<close>

text \<open>
  \<open>ban l ip\<close> is the end of the ban of \<open>ip\<close>, \<open>recent l ip c\<close> its recorded failures since \<open>c\<close>. A
  check reports the ban and, when it has lapsed, forgets the address. A failure at \<open>now\<close> of an
  address without a ban adds one to its recent failures and bans it when there are \<open>limit\<close> of
  them. Failures of other addresses leave running bans and recent failures alone, whatever they
  prune.
\<close>

locale throttle =
  fixes blocked :: "string \<Rightarrow> int \<Rightarrow> 'l \<Rightarrow> bool \<times> 'l" and fail :: "string \<Rightarrow> int \<Rightarrow> 'l \<Rightarrow> 'l"
    and invar :: "'l \<Rightarrow> bool" and ban :: "'l \<Rightarrow> string \<Rightarrow> int option"
    and recent :: "'l \<Rightarrow> string \<Rightarrow> int \<Rightarrow> int list"
    and limit :: nat and window :: int and dur :: int
  assumes blocked_iff: "invar l \<Longrightarrow> fst (blocked ip now l) \<longleftrightarrow> (\<exists>u. ban l ip = Some u \<and> now < u)"
    and blocked_state: "invar l \<Longrightarrow> fst (blocked ip now l) \<Longrightarrow> snd (blocked ip now l) = l"
    and unblocked_ban: "invar l \<Longrightarrow> \<not> fst (blocked ip now l) \<Longrightarrow>
          ban (snd (blocked ip now l)) = (ban l)(ip := None)"
    and unblocked_recent: "invar l \<Longrightarrow> \<not> fst (blocked ip now l) \<Longrightarrow> ip' \<noteq> ip \<or> ban l ip = None \<Longrightarrow>
          recent (snd (blocked ip now l)) ip' c = recent l ip' c"
    and fail_recent: "invar l \<Longrightarrow> ban l ip = None \<Longrightarrow> c \<le> now \<Longrightarrow> now - window \<le> c \<Longrightarrow>
          recent (fail ip now l) ip c = recent l ip c @ [now]"
    and fail_ban: "invar l \<Longrightarrow> ban l ip = None \<Longrightarrow>
          ban (fail ip now l) ip = (if limit \<le> length (recent l ip (now - window)) + 1 then Some (now + dur) else None)"
    and fail_other_ban: "invar l \<Longrightarrow> ip' \<noteq> ip \<Longrightarrow> (\<forall>u. ban l ip' = Some u \<longrightarrow> now < u) \<Longrightarrow>
          ban (fail ip now l) ip' = ban l ip'"
    and fail_other_recent: "invar l \<Longrightarrow> ip' \<noteq> ip \<Longrightarrow> ban l ip' = None \<Longrightarrow> now - window \<le> c \<Longrightarrow>
          recent (fail ip now l) ip' c = recent l ip' c"
    and fail_other_lapsed: "invar l \<Longrightarrow> ip' \<noteq> ip \<Longrightarrow> ban l ip' = Some u \<Longrightarrow>
          ban (fail ip now l) ip' \<in> {Some u, None}"
    and invar_blocked: "invar l \<Longrightarrow> invar (snd (blocked ip now l))"
    and invar_fail: "invar l \<Longrightarrow> invar (fail ip now l)"
    and recent_mono: "c \<le> c' \<Longrightarrow> length (recent l ip c') \<le> length (recent l ip c)"
begin

text \<open>
  A guarded attempt: the handlers ask \<open>blocked\<close> first and record the failure only when it says no.
  \<open>attempts\<close> runs a sequence of failing attempts and counts the admitted ones of one address.
\<close>

fun attempts :: "string \<Rightarrow> 'l \<Rightarrow> (string \<times> int) list \<Rightarrow> nat" where
  "attempts a l [] = 0"
| "attempts a l ((ip, now) # es) =
     (if fst (blocked ip now l) then attempts a (snd (blocked ip now l)) es
      else (if ip = a then 1 else 0) + attempts a (fail ip now (snd (blocked ip now l))) es)"

text \<open>What holds of the watched address after it was admitted \<open>k\<close> times since time \<open>t0\<close>.\<close>

definition progress :: "string \<Rightarrow> int \<Rightarrow> nat \<Rightarrow> 'l \<Rightarrow> bool" where
  "progress a t0 k l \<longleftrightarrow>
     (ban l a = None \<and> k < limit \<and> k \<le> length (recent l a t0))
     \<or> (\<exists>u. ban l a = Some u \<and> t0 + dur \<le> u \<and> k \<le> limit)
     \<or> (k = 0 \<and> ban l a \<noteq> None)"

lemma progress_step:
  assumes inv: "invar l" and pr: "progress a t0 k l" and now: "t0 \<le> now" "now < t0 + dur" "now \<le> t0 + window"
    and lim: "0 < limit" and nb: "\<not> fst (blocked ip now l)"
  shows "progress a t0 (k + (if ip = a then 1 else 0)) (fail ip now (snd (blocked ip now l)))"
proof -
  let ?l = "snd (blocked ip now l)"
  have inv': "invar ?l" using inv by (rule invar_blocked)
  have lapse: "\<forall>u. ban l ip = Some u \<longrightarrow> u \<le> now" using nb inv blocked_iff by force
  show ?thesis
  proof (cases "ip = a")
    case True
    have k: "k = 0 \<or> (ban l a = None \<and> k < limit \<and> k \<le> length (recent l a t0))"
      using pr lapse now True unfolding progress_def by force
    have b: "ban ?l a = None" using unblocked_ban [OF inv nb] True by simp
    have r: "k \<le> length (recent ?l a t0)"
      using k unblocked_recent [OF inv nb] True by auto
    have "length (recent (fail a now ?l) a t0) = length (recent ?l a t0) + 1"
      using fail_recent [OF inv' b, of t0 now] now by simp
    moreover have "length (recent ?l a t0) \<le> length (recent ?l a (now - window))"
      using now by (intro recent_mono) simp
    ultimately show ?thesis
      using fail_ban [OF inv' b, of now] r k now lim True unfolding progress_def by auto
  next
    case False
    have b: "ban ?l a = ban l a" and r: "ban l a = None \<Longrightarrow> recent ?l a t0 = recent l a t0"
      using unblocked_ban [OF inv nb] unblocked_recent [OF inv nb, of a] False by auto
    consider "ban l a = None" | u where "ban l a = Some u" "now < u" | u where "ban l a = Some u" "u \<le> now"
      by (cases "ban l a") force+
    then show ?thesis
    proof cases
      case 1
      then have "ban (fail ip now ?l) a = None" "recent (fail ip now ?l) a t0 = recent l a t0"
        using fail_other_ban [OF inv', of a ip now] fail_other_recent [OF inv', of a ip now t0] False b r now
        by auto
      with 1 pr False show ?thesis unfolding progress_def by auto
    next
      case 2
      then have "ban (fail ip now ?l) a = Some u"
        using fail_other_ban [OF inv', of a ip now] False b by auto
      with 2 pr False show ?thesis unfolding progress_def by auto
    next
      case 3
      then have "k = 0" using pr now unfolding progress_def by auto
      moreover have "ban (fail ip now ?l) a \<in> {Some u, None}"
        using fail_other_lapsed [OF inv', of a ip u now] False b 3 by simp
      ultimately show ?thesis using False lim unfolding progress_def by auto
    qed
  qed
qed

lemma attempts_bound_from:
  assumes "invar l" and "progress a t0 k l" and "0 < limit"
    and "\<forall>(ip, now)\<in>set es. t0 \<le> now \<and> now < t0 + dur \<and> now \<le> t0 + window"
  shows "k + attempts a l es \<le> limit"
  using assms
proof (induction es arbitrary: l k)
  case Nil
  then show ?case by (auto simp: progress_def)
next
  case (Cons e es)
  obtain ip now where e: "e = (ip, now)" by (cases e)
  show ?case
  proof (cases "fst (blocked ip now l)")
    case True
    then show ?thesis using Cons e blocked_state by simp
  next
    case False
    have "invar (fail ip now (snd (blocked ip now l)))"
      using Cons.prems invar_blocked invar_fail by blast
    moreover have "progress a t0 (k + (if ip = a then 1 else 0)) (fail ip now (snd (blocked ip now l)))"
      using Cons.prems False e by (intro progress_step) auto
    ultimately have "k + (if ip = a then 1 else 0) + attempts a (fail ip now (snd (blocked ip now l))) es \<le> limit"
      using Cons by auto
    then show ?thesis using False e by simp
  qed
qed

text \<open>
  In any span no longer than the window and the ban, an address gets at most \<open>limit\<close> attempts
  through, however the attempts of other addresses interleave.
\<close>

lemma attempts_bound:
  assumes "invar l" and "0 < limit"
    and "\<forall>(ip, now)\<in>set es. t0 \<le> now \<and> now < t0 + dur \<and> now \<le> t0 + window"
  shows "attempts a l es \<le> limit"
proof -
  have "progress a t0 0 l" using assms by (auto simp: progress_def)
  from attempts_bound_from [OF assms(1) this assms(2,3)] show ?thesis by simp
qed

end

section \<open>The limiters fulfil the contract\<close>

abbreviation auth_recent :: "authLimiter \<Rightarrow> string \<Rightarrow> int \<Rightarrow> int list" where
  "auth_recent l ip c \<equiv> filter (\<lambda>t. c \<le> t) (mget [] (al_fails l) ip)"

definition wf_auth :: "int \<Rightarrow> int \<Rightarrow> int \<Rightarrow> authLimiter \<Rightarrow> bool" where
  "wf_auth n w d l \<longleftrightarrow> wf_gomap (al_fails l) \<and> wf_gomap (al_banned l)
     \<and> al_maxFails l = n \<and> al_window l = w \<and> al_banDur l = d"

lemma prune_entry_key: "prune_entry b now c e = Some e' \<Longrightarrow> fst e' = fst e"
  by (auto simp: prune_entry_def Let_def split: if_splits option.splits)

lemma banned_prune:
  "wf_gomap (al_banned l) \<Longrightarrow> map_of (al_banned (prune now l)) ip =
     (case map_of (al_banned l) ip of None \<Rightarrow> None | Some u \<Rightarrow> if now < u then Some u else None)"
  by (auto simp: prune_def Let_def map_of_filter_wf split: option.splits)

lemma recent_prune:
  assumes "wf_gomap (al_fails l)" and "\<not> lapsed (al_banned l) now ip" and "now - al_window l \<le> c"
  shows "auth_recent (prune now l) ip c = auth_recent l ip c"
proof -
  have sub: "filter (\<lambda>t. c \<le> t) (filter (\<lambda>t. now - al_window l \<le> t) v) = filter (\<lambda>t. c \<le> t) v" for v
    using assms(3) by (induction v) auto
  have none: "filter (\<lambda>t. now - al_window l \<le> t) v = [] \<Longrightarrow> filter (\<lambda>t. c \<le> t) v = []" for v
    using sub [of v] by simp
  have "map_of (al_fails (prune now l)) ip =
      (case map_of (al_fails l) ip of None \<Rightarrow> None
       | Some v \<Rightarrow> map_option snd (prune_entry (al_banned l) now (now - al_window l) (ip, v)))"
    using assms(1,2)
    by (simp add: prune_def Let_def map_of_filter_key map_of_map_filter [OF prune_entry_key])
  then show ?thesis
    using assms(2) none sub
    by (cases "map_of (al_fails l) ip")
      (auto simp: mget_def prune_entry_def Let_def lapsed_def split: option.splits if_splits)
qed

lemma wf_auth_prune: "wf_auth n w d l \<Longrightarrow> wf_auth n w d (prune now l)"
  by (auto simp: wf_auth_def prune_def Let_def
      intro!: wf_gomap_filter wf_gomap_map_filter dest: prune_entry_key)

lemma wf_auth_maybePrune: "wf_auth n w d l \<Longrightarrow> wf_auth n w d (maybePrune now l)"
proof -
  assume "wf_auth n w d l"
  moreover from this have "wf_auth n w d (prune now (l\<lparr>al_lastPrune := now\<rparr>))"
    by (intro wf_auth_prune) (simp add: wf_auth_def)
  ultimately show ?thesis by (simp add: maybePrune_def)
qed

lemma banned_maybePrune:
  assumes "wf_auth n w d l"
  shows "map_of (al_banned (maybePrune now l)) ip \<in> {map_of (al_banned l) ip, None}"
    and "\<not> lapsed (al_banned l) now ip \<Longrightarrow> map_of (al_banned (maybePrune now l)) ip = map_of (al_banned l) ip"
proof -
  have "map_of (al_banned (prune now (l\<lparr>al_lastPrune := now\<rparr>))) ip =
      (case map_of (al_banned l) ip of None \<Rightarrow> None | Some u \<Rightarrow> if now < u then Some u else None)"
    using assms banned_prune [of "l\<lparr>al_lastPrune := now\<rparr>" now ip] by (simp add: wf_auth_def)
  then show "map_of (al_banned (maybePrune now l)) ip \<in> {map_of (al_banned l) ip, None}"
    and "\<not> lapsed (al_banned l) now ip \<Longrightarrow> map_of (al_banned (maybePrune now l)) ip = map_of (al_banned l) ip"
    by (cases "map_of (al_banned l) ip"; simp add: maybePrune_def lapsed_def)+
qed

lemma recent_maybePrune:
  assumes "wf_auth n w d l" and "\<not> lapsed (al_banned l) now ip" and "now - w \<le> c"
  shows "auth_recent (maybePrune now l) ip c = auth_recent l ip c"
  using assms recent_prune [of "l\<lparr>al_lastPrune := now\<rparr>" now ip c]
  by (simp add: maybePrune_def wf_auth_def)

text \<open>The effect of a recorded failure, read through the maps.\<close>

lemma auth_Fail_maps:
  fixes now :: int and ip :: string
  assumes "wf_auth n w d l"
  defines "l1 \<equiv> maybePrune now l"
  defines "kept \<equiv> filter (\<lambda>t. now - w \<le> t) (mget [] (al_fails l1) ip) @ [now]"
  shows "map_of (al_fails (auth_Fail ip now l)) = (map_of (al_fails l1))(ip \<mapsto> kept)"
    and "map_of (al_banned (auth_Fail ip now l)) =
          (if n \<le> int (length kept) then (map_of (al_banned l1))(ip \<mapsto> now + d) else map_of (al_banned l1))"
    and "wf_auth n w d (auth_Fail ip now l)"
proof -
  have wf1: "wf_auth n w d l1" unfolding l1_def using assms(1) by (rule wf_auth_maybePrune)
  then show "map_of (al_fails (auth_Fail ip now l)) = (map_of (al_fails l1))(ip \<mapsto> kept)"
    and "map_of (al_banned (auth_Fail ip now l)) =
          (if n \<le> int (length kept) then (map_of (al_banned l1))(ip \<mapsto> now + d) else map_of (al_banned l1))"
    and "wf_auth n w d (auth_Fail ip now l)"
    unfolding kept_def l1_def
    by (auto simp: auth_Fail_def Let_def wf_auth_def gomap_simps intro!: wf_gomap_update)
qed

lemma lapsed_iff: "lapsed b now ip \<longleftrightarrow> (\<exists>u. map_of b ip = Some u \<and> u \<le> now)"
  by (auto simp: lapsed_def split: option.splits)

lemma auth_throttle:
  assumes "n = int n'"
  shows "throttle auth_Blocked auth_Fail (wf_auth n w d) (\<lambda>l. map_of (al_banned l)) auth_recent n' w d"
proof
  fix l ip now
  assume wf: "wf_auth n w d l"
  show "fst (auth_Blocked ip now l) \<longleftrightarrow> (\<exists>u. map_of (al_banned l) ip = Some u \<and> now < u)"
    by (auto simp: auth_Blocked_def split: option.splits)
  show "fst (auth_Blocked ip now l) \<Longrightarrow> snd (auth_Blocked ip now l) = l"
    by (auto simp: auth_Blocked_def split: option.splits if_splits)
  show "\<not> fst (auth_Blocked ip now l) \<Longrightarrow>
      map_of (al_banned (snd (auth_Blocked ip now l))) = (map_of (al_banned l))(ip := None)"
    by (auto simp: auth_Blocked_def gomap_simps split: option.splits if_splits)
  show "wf_auth n w d (snd (auth_Blocked ip now l))"
    using wf by (auto simp: auth_Blocked_def wf_auth_def split: option.splits intro!: wf_gomap_delete)
  show "wf_auth n w d (auth_Fail ip now l)" using wf by (rule auth_Fail_maps)
next
  fix l ip now ip' c
  assume "wf_auth n w d l" and "\<not> fst (auth_Blocked ip now l)" and "ip' \<noteq> ip \<or> map_of (al_banned l) ip = None"
  then show "auth_recent (snd (auth_Blocked ip now l)) ip' c = auth_recent l ip' c"
    by (auto simp: auth_Blocked_def gomap_simps mget_def split: option.splits if_splits)
next
  fix l ip c now
  assume wf: "wf_auth n w d l" and b: "map_of (al_banned l) ip = None" and c: "c \<le> now" "now - w \<le> c"
  have "auth_recent (maybePrune now l) ip c = auth_recent l ip c"
    using recent_maybePrune [OF wf _ c(2)] b by (simp add: lapsed_iff)
  moreover have "filter (\<lambda>t. c \<le> t) (filter (\<lambda>t. now - w \<le> t) xs) = filter (\<lambda>t. c \<le> t) xs" for xs
    using c by (induction xs) auto
  ultimately show "auth_recent (auth_Fail ip now l) ip c = auth_recent l ip c @ [now]"
    using auth_Fail_maps(1) [OF wf, of ip now] c by (simp add: mget_def)
next
  fix l ip now
  assume wf: "wf_auth n w d l" and b: "map_of (al_banned l) ip = None"
  have nl: "\<not> lapsed (al_banned l) now ip" using b by (simp add: lapsed_iff)
  show "map_of (al_banned (auth_Fail ip now l)) ip =
      (if n' \<le> length (auth_recent l ip (now - w)) + 1 then Some (now + d) else None)"
    using auth_Fail_maps(2) [OF wf, of ip now] recent_maybePrune [OF wf nl, of "now - w"]
      banned_maybePrune(2) [OF wf nl] b assms by auto
next
  fix l ip' ip now
  assume wf: "wf_auth n w d l" and ne: "ip' \<noteq> ip"
    and u: "\<forall>u. map_of (al_banned l) ip' = Some u \<longrightarrow> now < u"
  then have "\<not> lapsed (al_banned l) now ip'" by (auto simp: lapsed_iff)
  from banned_maybePrune(2) [OF wf this] ne
  show "map_of (al_banned (auth_Fail ip now l)) ip' = map_of (al_banned l) ip'"
    using auth_Fail_maps(2) [OF wf, of ip now] by simp
next
  fix l ip' ip now c
  assume wf: "wf_auth n w d l" and ne: "ip' \<noteq> ip" and b: "map_of (al_banned l) ip' = None" and c: "now - w \<le> c"
  have "auth_recent (maybePrune now l) ip' c = auth_recent l ip' c"
    using recent_maybePrune [OF wf _ c] b by (simp add: lapsed_iff)
  then show "auth_recent (auth_Fail ip now l) ip' c = auth_recent l ip' c"
    using auth_Fail_maps(1) [OF wf, of ip now] ne by (simp add: mget_def)
next
  fix l ip' ip u now
  assume wf: "wf_auth n w d l" and ne: "ip' \<noteq> ip" and b: "map_of (al_banned l) ip' = Some u"
  show "map_of (al_banned (auth_Fail ip now l)) ip' \<in> {Some u, None}"
    using auth_Fail_maps(2) [OF wf, of ip now] banned_maybePrune(1) [OF wf, of now ip'] ne b by auto
next
  fix c c' :: int and l ip
  assume "c \<le> c'"
  then have "filter (\<lambda>t. c' \<le> t) (filter (\<lambda>t. c \<le> t) xs) = filter (\<lambda>t. c' \<le> t) xs" for xs
    by (induction xs) auto
  then show "length (auth_recent l ip c') \<le> length (auth_recent l ip c)"
    by (metis length_filter_le)
qed

interpretation auth: throttle auth_Blocked auth_Fail "wf_auth 10 minute_ns (10 * minute_ns)"
  "\<lambda>l. map_of (al_banned l)" auth_recent 10 minute_ns "10 * minute_ns"
  by (rule auth_throttle) simp

text \<open>The panel's limiter is the agent's with five failures and ten minutes for window and ban.\<close>

definition as_auth :: "loginLimiter \<Rightarrow> authLimiter" where
  "as_auth l = \<lparr>al_fails = ll_fails l, al_banned = ll_banned l, al_maxFails = 5,
     al_window = loginLimiterWindow, al_banDur = 10 * minute_ns, al_lastPrune = ll_lastPrune l\<rparr>"

lemma as_auth_fields [simp]:
  "al_fails (as_auth l) = ll_fails l" "al_banned (as_auth l) = ll_banned l"
  by (simp_all add: as_auth_def)

lemma login_Blocked_as_auth:
  "fst (auth_Blocked ip now (as_auth l)) = fst (login_Blocked ip now l)"
  "as_auth (snd (login_Blocked ip now l)) = snd (auth_Blocked ip now (as_auth l))"
  by (auto simp: login_Blocked_def auth_Blocked_def as_auth_def split: option.splits)

lemma login_Fail_as_auth: "as_auth (login_Fail ip now l) = auth_Fail ip now (as_auth l)"
proof -
  have "maybePrune now (as_auth l) = as_auth (login_maybePrune now l)"
    by (simp add: login_maybePrune_def maybePrune_def login_prune_def prune_def as_auth_def Let_def)
  then show ?thesis
    unfolding login_Fail_def auth_Fail_def Let_def by (simp add: as_auth_def)
qed

lemma login_Success_as_auth: "as_auth (login_Success ip l) = auth_Success ip (as_auth l)"
  by (simp add: login_Success_def auth_Success_def as_auth_def)

definition wf_login :: "loginLimiter \<Rightarrow> bool" where
  "wf_login l \<longleftrightarrow> wf_gomap (ll_fails l) \<and> wf_gomap (ll_banned l)"

lemma wf_login_iff: "wf_login l \<longleftrightarrow> wf_auth 5 loginLimiterWindow (10 * minute_ns) (as_auth l)"
  by (simp add: wf_login_def wf_auth_def as_auth_def)

abbreviation login_recent :: "loginLimiter \<Rightarrow> string \<Rightarrow> int \<Rightarrow> int list" where
  "login_recent l ip c \<equiv> filter (\<lambda>t. c \<le> t) (mget [] (ll_fails l) ip)"

lemmas to_auth = wf_login_iff as_auth_fields [symmetric] login_Blocked_as_auth(1) [symmetric]
  login_Blocked_as_auth(2) login_Fail_as_auth

interpretation auth5: throttle auth_Blocked auth_Fail
  "wf_auth 5 loginLimiterWindow (10 * minute_ns)" "\<lambda>l. map_of (al_banned l)" auth_recent 5
  loginLimiterWindow "10 * minute_ns"
  by (rule auth_throttle) simp

interpretation login: throttle login_Blocked login_Fail wf_login "\<lambda>l. map_of (ll_banned l)"
  login_recent 5 loginLimiterWindow "10 * minute_ns"
proof (unfold_locales, goal_cases)
  case 1 then show ?case unfolding to_auth by (rule auth5.blocked_iff)
next
  case (2 l ip now)
  then have "as_auth (snd (login_Blocked ip now l)) = as_auth l"
    unfolding to_auth by (rule auth5.blocked_state)
  then show ?case by (simp add: as_auth_def)
next
  case 3 then show ?case unfolding to_auth by (rule auth5.unblocked_ban)
next
  case 4 then show ?case unfolding to_auth by (rule auth5.unblocked_recent)
next
  case 5 then show ?case unfolding to_auth by (rule auth5.fail_recent)
next
  case 6 then show ?case unfolding to_auth by (rule auth5.fail_ban)
next
  case 7 then show ?case unfolding to_auth by (rule auth5.fail_other_ban)
next
  case 8 then show ?case unfolding to_auth by (rule auth5.fail_other_recent)
next
  case 9 then show ?case unfolding to_auth by (rule auth5.fail_other_lapsed)
next
  case 10 then show ?case unfolding to_auth by (rule auth5.invar_blocked)
next
  case 11 then show ?case unfolding to_auth by (rule auth5.invar_fail)
next
  case 12 then show ?case unfolding to_auth by (rule auth5.recent_mono)
qed

section \<open>Brute force is bounded\<close>

text \<open>
  The attempts of \<^verbatim>\<open>handleWS\<close> and \<^verbatim>\<open>handleLogin\<close> that reach the credential check and fail, for one
  address \<open>a\<close> in a sequence of failing attempts \<open>(address, time)\<close>.
\<close>

fun auth_admitted :: "string \<Rightarrow> authLimiter \<Rightarrow> (string \<times> int) list \<Rightarrow> nat" where
  "auth_admitted a l [] = 0"
| "auth_admitted a l ((ip, now) # es) =
     (case auth_Blocked ip now l of
        (True, l') \<Rightarrow> auth_admitted a l' es
      | (False, l') \<Rightarrow> (if ip = a then 1 else 0) + auth_admitted a (auth_Fail ip now l') es)"

fun login_admitted :: "string \<Rightarrow> loginLimiter \<Rightarrow> (string \<times> int) list \<Rightarrow> nat" where
  "login_admitted a l [] = 0"
| "login_admitted a l ((ip, now) # es) =
     (case login_Blocked ip now l of
        (True, l') \<Rightarrow> login_admitted a l' es
      | (False, l') \<Rightarrow> (if ip = a then 1 else 0) + login_admitted a (login_Fail ip now l') es)"

lemma auth_admitted_attempts: "auth_admitted a l es = auth.attempts a l es"
  by (induction a l es rule: auth_admitted.induct) (auto split: prod.splits bool.splits)

lemma login_admitted_attempts: "login_admitted a l es = login.attempts a l es"
  by (induction a l es rule: login_admitted.induct) (auto split: prod.splits bool.splits)

lemma wf_newAuthLimiter: "wf_auth 10 minute_ns (10 * minute_ns) newAuthLimiter"
  by (simp add: wf_auth_def newAuthLimiter_def)

lemma wf_newLoginLimiter: "wf_login newLoginLimiter"
  by (simp add: wf_login_def newLoginLimiter_def)

lemma wf_auth_Success: "wf_auth n w d l \<Longrightarrow> wf_auth n w d (auth_Success ip l)"
  by (auto simp: wf_auth_def auth_Success_def intro!: wf_gomap_delete)

lemma wf_login_Success: "wf_login l \<Longrightarrow> wf_login (login_Success ip l)"
  by (auto simp: wf_login_def login_Success_def intro!: wf_gomap_delete)

lemma keys_pruned:
  assumes "wf_gomap (al_fails l)" and "wf_gomap (al_banned l)" and "ip \<in> fst ` set (al_fails (prune now l))"
  shows "(\<exists>t\<in>set (mget [] (al_fails l) ip). now - al_window l \<le> t)
    \<or> (\<exists>u. map_of (al_banned l) ip = Some u \<and> now < u)"
proof -
  have "map_of (al_fails (prune now l)) ip \<noteq> None" using assms(3) by (simp add: map_of_eq_None_iff)
  then have "case map_of (al_fails l) ip of None \<Rightarrow> False
      | Some v \<Rightarrow> prune_entry (al_banned l) now (now - al_window l) (ip, v) \<noteq> None"
    by (cases "map_of (al_fails l) ip")
      (auto simp add: prune_def Let_def map_of_filter_key map_of_map_filter [OF prune_entry_key assms(1)]
        split: if_splits)
  then show ?thesis
    by (auto simp: prune_entry_def Let_def mget_def filter_empty_conv
        split: option.splits if_splits)
qed

section \<open>Properties\<close>



text \<open>
  Brute force against the panel login is bounded. Of any sequence of failing logins within less
  than ten minutes, from any addresses in any order, at most five of one address are tried.
\<close>
theorem login_brute_force_bound:
  assumes "wf_login l" "\<forall>(ip, now)\<in>set es. t0 \<le> now \<and> now < t0 + 10 * minute_ns"
  shows "login_admitted a l es \<le> 5"
proof -
  have "\<forall>(ip, now)\<in>set es. t0 \<le> now \<and> now < t0 + 10 * minute_ns \<and> now \<le> t0 + loginLimiterWindow"
    using assms(2) by (auto simp: loginLimiterWindow_def minute_ns_def second_ns_def)
  from login.attempts_bound[OF assms(1) _ this] show ?thesis by (simp add: login_admitted_attempts)
qed

theorem login_brute_force_bound_witness:
  "login_admitted ''10.0.0.9'' newLoginLimiter (replicate 50 (''10.0.0.9'', 1000)) \<le> 5"
  by (rule login_brute_force_bound[where ?t0.0 = 1000, OF wf_newLoginLimiter]) (auto simp: minute_ns_def second_ns_def)

text \<open>
  The limiter's memory is bounded by recent activity. After a sweep, every address still in the
  failure map failed within the window or is banned at present; one-shot scanners leave nothing.
\<close>
theorem prune_keeps_recent_only:
  assumes "wf_gomap (al_fails l)" "wf_gomap (al_banned l)" "ip \<in> fst ` set (al_fails (prune now l))"
  shows "(\<exists>t\<in>set (mget [] (al_fails l) ip). now - al_window l \<le> t) \<or> (\<exists>u. map_of (al_banned l) ip = Some u \<and> now < u)"
  using assms by (rule keys_pruned)

theorem prune_keeps_recent_only_witness:
  "(\<exists>t\<in>set (mget [] (al_fails (auth_Fail ''a'' 5 newAuthLimiter)) ''a''). 6 - minute_ns \<le> t) \<or>
   (\<exists>u. map_of (al_banned (auth_Fail ''a'' 5 newAuthLimiter)) ''a'' = Some u \<and> 6 < u)"
  using prune_keeps_recent_only[of "auth_Fail ''a'' 5 newAuthLimiter" "''a''" 6]
  by (simp add: auth_Fail_def newAuthLimiter_def maybePrune_def prune_def Let_def minute_ns_def second_ns_def mget_def prune_entry_def
      lapsed_def List.map_filter_simps)

end
