(* ===== verification/Gotime.thy ===== *)
theory Gotime
  imports Prelude
begin

text \<open>
  The part of Go's \<^verbatim>\<open>time\<close> package the panel uses: the civil date of a day number (as
  \<^verbatim>\<open>absDate\<close> computes it, with the 400, 100, 4 and 1 year cycles), \<^verbatim>\<open>AddDate\<close>, the layout
  \<^verbatim>\<open>2006-01-02\<close>, and \<^verbatim>\<open>ShanghaiDay\<close> of \<^verbatim>\<open>internal/panel/store_metrics.go\<close>. Times are Unix
  seconds or milliseconds. Asia/Shanghai is the fixed zone UTC+8, which is what the code falls back
  to and what the zone has been since September 1991. The last lemmas show that the day strings
  the database compares are in the order of the days they name.
\<close>

section \<open>The civil date of a day\<close>

definition is_leap :: "int \<Rightarrow> bool" where
  "is_leap y \<longleftrightarrow> y mod 4 = 0 \<and> (y mod 100 \<noteq> 0 \<or> y mod 400 = 0)"

definition month_lens :: "bool \<Rightarrow> int list" where
  "month_lens leap = [31, if leap then 29 else 28, 31, 30, 31, 30, 31, 31, 30, 31, 30, 31]"

fun month_walk :: "int \<Rightarrow> int list \<Rightarrow> int \<Rightarrow> int \<times> int" where
  "month_walk m [] d = (m, d + 1)"
| "month_walk m (l # ls) d = (if d < l then (m, d + 1) else month_walk (m + 1) ls (d - l))"

text \<open>The year and the day of the year of day \<open>z\<close>, where day \<open>0\<close> is the first of January of year \<open>1\<close>.\<close>

definition year_yday :: "int \<Rightarrow> int \<times> int" where
  "year_yday z =
     (let a = z div 146097; d1 = z mod 146097;
          b = d1 div 36524 - d1 div 36524 div 4; d2 = d1 - 36524 * b;
          c = d2 div 1461; d3 = d2 mod 1461;
          e = d3 div 365 - d3 div 365 div 4
      in (400 * a + 100 * b + 4 * c + e + 1, d3 - 365 * e))"

definition absDate :: "int \<Rightarrow> int \<times> int \<times> int" where
  "absDate z = (let (y, yd) = year_yday z; (m, d) = month_walk 1 (month_lens (is_leap y)) yd in (y, m, d))"

definition days_before_year :: "int \<Rightarrow> int" where
  "days_before_year y = 365 * (y - 1) + (y - 1) div 4 - (y - 1) div 100 + (y - 1) div 400"

definition civil_day :: "int \<Rightarrow> int \<Rightarrow> int \<Rightarrow> int" where
  "civil_day y m d = days_before_year y + sum_list (take (nat (m - 1)) (month_lens (is_leap y))) + d - 1"

definition epoch_day :: int where "epoch_day = 719162"

definition unix_date :: "int \<Rightarrow> int \<times> int \<times> int" where
  "unix_date sec = absDate (sec div 86400 + epoch_day)"

text \<open>\<^verbatim>\<open>AddDate(0, 0, days)\<close> and \<^verbatim>\<open>AddDate(years, 0, 0)\<close> in a fixed zone.\<close>

definition AddDate_days :: "int \<Rightarrow> int \<Rightarrow> int" where
  "AddDate_days sec k = sec + 86400 * k"

definition AddDate_years :: "int \<Rightarrow> int \<Rightarrow> int" where
  "AddDate_years sec k = (let (y, m, d) = unix_date sec in
     86400 * (civil_day (y + k) m d - epoch_day) + sec mod 86400)"

fun pad :: "nat \<Rightarrow> nat \<Rightarrow> string" where
  "pad 0 n = []"
| "pad (Suc k) n = digit_char (n div 10 ^ k mod 10) # pad k (n mod 10 ^ k)"

definition format_date :: "int \<times> int \<times> int \<Rightarrow> string" where
  "format_date ymd = (case ymd of (y, m, d) \<Rightarrow> pad 4 (nat y) @ CHR ''-'' # pad 2 (nat m) @ CHR ''-'' # pad 2 (nat d))"

text \<open>The Shanghai day of a Unix time in seconds, and \<^verbatim>\<open>ShanghaiDay\<close> of one in milliseconds.\<close>

definition shanghai_day_number :: "int \<Rightarrow> int" where
  "shanghai_day_number sec = (sec + 8 * 3600) div 86400 + epoch_day"

definition shanghai_date :: "int \<Rightarrow> string" where
  "shanghai_date sec = format_date (absDate (shanghai_day_number sec))"

definition ShanghaiDay :: "int \<Rightarrow> string" where
  "ShanghaiDay ms = shanghai_date (ms div 1000)"

section \<open>Day strings are in the order of days\<close>

text \<open>Quotient and remainder by a cycle of four, the last of which may be one day longer.\<close>

lemma div_mod_obtain:
  fixes z k :: int
  assumes "0 < k"
  obtains q r where "z div k = q" "z mod k = r" "z = k * q + r" "0 \<le> r" "r < k"
  using that[of "z div k" "z mod k"] assms by (simp add: mult.commute)

lemma cycle_div:
  fixes p l :: int
  assumes "0 \<le> p" "p \<le> 4 * l" "0 < l"
  obtains k where "p div l - p div l div 4 = k" "0 \<le> k" "k \<le> 3" "0 \<le> p - l * k"
    "k < 3 \<Longrightarrow> p - l * k < l" "p - l * k \<le> l"
proof -
  obtain n r where n: "p div l = n" "p = l * n + r" "0 \<le> r" "r < l"
    using assms(3) by (metis mult_div_mod_eq pos_mod_bound pos_mod_sign)
  have "0 \<le> n" "n \<le> 4"
    using pos_imp_zdiv_nonneg_iff[of l p] zdiv_mono1[of p "4 * l" l] assms unfolding n(1) by simp_all
  then consider "n = 0" | "n = 1" | "n = 2" | "n = 3" | "n = 4" by linarith
  then show ?thesis
    using that[of "min 3 n"] n assms by cases auto
qed

lemma civil_divs:
  fixes y :: int
  assumes "y - 1 = 400 * a + (100 * b + (4 * c + e))" "0 \<le> b" "b \<le> 3" "0 \<le> c" "c \<le> 24" "0 \<le> e" "e \<le> 3"
  shows "(y - 1) div 4 = 100 * a + 25 * b + c" "(y - 1) div 100 = 4 * a + b" "(y - 1) div 400 = a"
    "is_leap y \<longleftrightarrow> e = 3 \<and> (c < 24 \<or> b = 3)"
proof -
  show "(y - 1) div 4 = 100 * a + 25 * b + c"
    using assms by (intro int_div_pos_eq[where r = e]) auto
  show "(y - 1) div 100 = 4 * a + b"
    using assms by (intro int_div_pos_eq[where r = "4 * c + e"]) auto
  show "(y - 1) div 400 = a"
    using assms by (intro int_div_pos_eq[where r = "100 * b + (4 * c + e)"]) auto
  have y: "y = 4 * (100 * a + 25 * b + c) + (e + 1)" using assms(1) by simp
  show "is_leap y \<longleftrightarrow> e = 3 \<and> (c < 24 \<or> b = 3)"
  proof (cases "e = 3")
    case False
    then have "y mod 4 = e + 1" using assms by (subst y, subst mod_mult_self4) auto
    then show ?thesis using False assms by (simp add: is_leap_def)
  next
    case True
    then have m4: "y mod 4 = 0" using y by presburger
    show ?thesis
    proof (cases "c < 24")
      case True
      have "y mod 100 = 4 * c + e + 1"
        using assms True by (intro int_mod_pos_eq[where q = "4 * a + b"]) auto
      then show ?thesis using m4 True \<open>e = 3\<close> assms by (simp add: is_leap_def)
    next
      case False
      then have y: "y = 100 * (4 * a + b + 1)" using assms \<open>e = 3\<close> by auto
      have "y mod 400 = (if b = 3 then 0 else 100 * (b + 1))"
        using assms y by (intro int_mod_pos_eq[where q = "if b = 3 then a + 1 else a"]) auto
      then have "y mod 400 = 0 \<longleftrightarrow> b = 3" using assms(2) by (simp split: if_splits)
      moreover have "y mod 100 = 0" unfolding y by simp
      ultimately show ?thesis unfolding is_leap_def using m4 False \<open>e = 3\<close> by simp
    qed
  qed
qed

lemma year_yday_days:
  assumes "year_yday z = (y, d)"
  shows "z = days_before_year y + d" "0 \<le> d" "d < (if is_leap y then 366 else 365)"
proof -
  obtain a p where p: "z div 146097 = a" "z mod 146097 = p" "z = 146097 * a + p" "0 \<le> p" "p < 146097"
    by (rule div_mod_obtain[of 146097 z]) simp_all
  obtain b where b: "p div 36524 - p div 36524 div 4 = b" "0 \<le> b" "b \<le> 3" "0 \<le> p - 36524 * b"
      "b < 3 \<Longrightarrow> p - 36524 * b < 36524" "p - 36524 * b \<le> 36524"
    by (rule cycle_div[of p 36524]) (use p(4,5) in auto)
  obtain q where q: "p - 36524 * b = q" by simp
  obtain c r where c: "q div 1461 = c" "q mod 1461 = r" "q = 1461 * c + r" "0 \<le> r" "r < 1461"
    by (rule div_mod_obtain[of 1461 q]) simp_all
  obtain e where e: "r div 365 - r div 365 div 4 = e" "0 \<le> e" "e \<le> 3" "0 \<le> r - 365 * e"
      "e < 3 \<Longrightarrow> r - 365 * e < 365" "r - 365 * e \<le> 365"
    by (rule cycle_div[of r 365]) (use c(4,5) in auto)
  have cb: "0 \<le> c" "c \<le> 24" using b(4,6) c(3,4,5) q by linarith+
  have y: "y - 1 = 400 * a + (100 * b + (4 * c + e))" "d = r - 365 * e"
    using assms unfolding year_yday_def Let_def p(1,2) b(1) q c(1,2) e(1) by simp_all
  note D = civil_divs[OF y(1) b(2,3) cb e(2,3)]
  show "z = days_before_year y + d"
    unfolding days_before_year_def D unfolding y p(3) using c(3) q by simp
  show "0 \<le> d" using e(4) y by simp
  show "d < (if is_leap y then 366 else 365)"
    using D(4) y(2) e(3,5,6) b(3,5) c(3,5) cb q by (cases "e < 3"; cases "c < 24") auto
qed

lemma div_pred:
  fixes y k :: int
  assumes "0 < k"
  shows "y div k = (y - 1) div k + (if y mod k = 0 then 1 else 0)"
proof -
  obtain q r where y: "y div k = q" "y mod k = r" "y = k * q + r" "0 \<le> r" "r < k"
    using assms by (rule div_mod_obtain)
  have "(y - 1) div k = (if r = 0 then q - 1 else q)"
    using y assms by (intro int_div_pos_eq[where r = "if r = 0 then k - 1 else r - 1"]) (auto simp: algebra_simps)
  then show ?thesis using y by simp
qed

lemma leap_count:
  fixes y :: int
  assumes "A = q4 + (if P then 1 else 0)" "B = q100 + (if Q then 1 else 0)" "C = q400 + (if R then 1 else 0)"
    "R \<Longrightarrow> Q" "Q \<Longrightarrow> P"
  shows "365 * y + A - B + C = 365 * (y - 1) + q4 - q100 + q400 + (if P \<and> (\<not> Q \<or> R) then 366 else 365)"
  using assms(4,5) unfolding assms(1-3) by (cases P; cases Q; cases R; simp)

lemma days_before_year_Suc:
  "days_before_year (y + 1) = days_before_year y + (if is_leap y then 366 else 365)"
proof -
  have "365 * y + y div 4 - y div 100 + y div 400 = days_before_year y + (if is_leap y then 366 else 365)"
    unfolding days_before_year_def is_leap_def
    by (rule leap_count[OF div_pred[of 4 y] div_pred[of 100 y] div_pred[of 400 y]])
      (simp_all, use mod_mod_cancel[of 100 400 y] mod_mod_cancel[of 4 100 y] in simp_all)
  then show ?thesis by (simp add: days_before_year_def)
qed

lemma days_before_year_mono: "y \<le> y' \<Longrightarrow> days_before_year y \<le> days_before_year y'"
proof (induction y' rule: int_ge_induct)
  case (step y')
  then show ?case using days_before_year_Suc[of y'] by (simp split: if_splits)
qed simp

lemma year_yday_lex:
  assumes "z < z'" "year_yday z = (y, d)" "year_yday z' = (y', d')"
  shows "y < y' \<or> y = y' \<and> d < d'"
proof -
  note Z = year_yday_days[OF assms(2)] and Z' = year_yday_days[OF assms(3)]
  have "\<not> y' < y"
    using days_before_year_mono[of "y' + 1" y] days_before_year_Suc[of y'] Z Z' assms(1) by auto
  moreover have "y = y' \<Longrightarrow> d < d'" using Z Z' assms(1) by simp
  ultimately show ?thesis by auto
qed

lemma month_walk_ge: "m \<le> fst (month_walk m ls d)"
proof (induction ls arbitrary: m d)
  case (Cons l ls)
  show ?case using Cons.IH[of "m + 1" "d - l"] by simp
qed simp

lemma month_walk_lex:
  assumes "d < d'" "month_walk m ls d = (a, b)" "month_walk m ls d' = (a', b')" "\<forall>l\<in>set ls. 0 < l"
  shows "a < a' \<or> a = a' \<and> b < b'"
  using assms
proof (induction ls arbitrary: m d d')
  case (Cons l ls)
  consider "d' < l" | "d < l" "\<not> d' < l" | "\<not> d < l" using Cons.prems(1) by linarith
  then show ?case
  proof cases
    case 2
    then show ?thesis using Cons.prems month_walk_ge[of "m + 1" ls "d' - l"] by simp
  next
    case 3
    then show ?thesis using Cons.prems Cons.IH[of "d - l" "d' - l" "m + 1"] by simp
  qed (use Cons.prems in auto)
qed auto

lemma absDate_lex:
  assumes "z < z'" "absDate z = (y, m, d)" "absDate z' = (y', m', d')"
  shows "y < y' \<or> y = y' \<and> (m < m' \<or> m = m' \<and> d < d')"
proof -
  obtain k k' where k: "year_yday z = (y, k)" "year_yday z' = (y', k')"
      "month_walk 1 (month_lens (is_leap y)) k = (m, d)" "month_walk 1 (month_lens (is_leap y')) k' = (m', d')"
    using assms(2,3) by (auto simp: absDate_def Let_def split: prod.splits)
  show ?thesis
    using year_yday_lex[OF assms(1) k(1,2)] month_walk_lex[of k k' 1 "month_lens (is_leap y)" m d m' d'] k(3,4)
    by (auto simp: month_lens_def)
qed

text \<open>The month is between 1 and 12 and the day between 1 and 31, so two digits hold them.\<close>

lemma month_walk_bounds:
  assumes "0 \<le> d" "d < sum_list ls" "\<forall>l\<in>set ls. l \<le> 31" "month_walk m ls d = (a, b)"
  shows "m \<le> a" "a < m + int (length ls)" "1 \<le> b" "b \<le> 31"
proof -
  have "m \<le> a \<and> a < m + int (length ls) \<and> 1 \<le> b \<and> b \<le> 31"
    using assms
  proof (induction m ls d arbitrary: a b rule: month_walk.induct)
    case (2 m l ls d)
    show ?case
    proof (cases "d < l")
      case False
      then show ?thesis using 2 by fastforce
    qed (use 2 in auto)
  qed simp
  then show "m \<le> a" "a < m + int (length ls)" "1 \<le> b" "b \<le> 31" by simp_all
qed

lemma absDate_bounds:
  assumes "absDate z = (y, m, d)"
  shows "1 \<le> m" "m \<le> 12" "1 \<le> d" "d \<le> 31"
proof -
  obtain k where k: "year_yday z = (y, k)" "month_walk 1 (month_lens (is_leap y)) k = (m, d)"
    using assms by (auto simp: absDate_def Let_def split: prod.splits)
  have "k < sum_list (month_lens (is_leap y))" "\<forall>l\<in>set (month_lens (is_leap y)). l \<le> 31"
    "length (month_lens (is_leap y)) = 12"
    using year_yday_days(3)[OF k(1)] by (auto simp: month_lens_def)
  then show "1 \<le> m" "m \<le> 12" "1 \<le> d" "d \<le> 31"
    using month_walk_bounds[OF year_yday_days(2)[OF k(1)] _ _ k(2)] by auto
qed

lemma length_pad [simp]: "length (pad k n) = k"
  by (induction k arbitrary: n) auto

lemma digit_char_less: "i < 10 \<Longrightarrow> j < 10 \<Longrightarrow> digit_char i < digit_char j \<longleftrightarrow> i < j"
  by (simp add: digit_char_def less_char_def)

lemma pad_less: "n < n' \<Longrightarrow> n' < 10 ^ k \<Longrightarrow> pad k n < pad k n'"
proof (induction k arbitrary: n n')
  case (Suc k)
  let ?q = "n div 10 ^ k" and ?q' = "n' div 10 ^ k"
  have q: "?q \<le> ?q'" "?q' < 10" "?q < 10" 
    using Suc.prems div_le_mono[of n n' "10 ^ k"] by (auto simp: less_mult_imp_div_less)
  show ?case
  proof (cases "?q = ?q'")
    case True
    then have "n mod 10 ^ k < n' mod 10 ^ k"
      using Suc.prems(1) by (metis div_mult_mod_eq nat_add_left_cancel_less)
    then show ?thesis using Suc.IH[of "n mod 10 ^ k" "n' mod 10 ^ k"] True by simp
  next
    case False
    then show ?thesis using q by (simp add: digit_char_less)
  qed
qed simp

lemma append_less_same_length:
  fixes xs ys us vs :: string
  assumes "length xs = length ys"
  shows "xs @ us < ys @ vs \<longleftrightarrow> xs < ys \<or> xs = ys \<and> us < vs"
  using assms by (induction xs ys rule: list_induct2) auto

lemma format_date_less:
  assumes "z < z'" "absDate z = (y, m, d)" "absDate z' = (y', m', d')" "0 \<le> y" "y' \<le> 9999"
  shows "format_date (absDate z) < format_date (absDate z')"
proof -
  note B = absDate_bounds[OF assms(2)] and B' = absDate_bounds[OF assms(3)]
  have n: "nat y' < 10 ^ 4" "nat m' < 10 ^ 2" "nat d' < 10 ^ 2" using B' assms(5) by simp_all
  have "pad 4 (nat y) < pad 4 (nat y') \<or> y = y' \<and> (pad 2 (nat m) < pad 2 (nat m') \<or> m = m' \<and> pad 2 (nat d) < pad 2 (nat d'))"
    using absDate_lex[OF assms(1-3)] B B' assms(4) pad_less[OF _ n(1), of "nat y"]
      pad_less[OF _ n(2), of "nat m"] pad_less[OF _ n(3), of "nat d"] by (auto simp del: pad.simps)
  then show ?thesis
    unfolding assms(2,3) format_date_def by (auto simp: append_less_same_length simp del: pad.simps)
qed

definition fits_four_digits :: "int \<Rightarrow> bool" where
  "fits_four_digits z \<longleftrightarrow> - 366 \<le> z \<and> z < 3652059"

lemma absDate_four_digits:
  assumes "fits_four_digits z" "absDate z = (y, m, d)"
  shows "0 \<le> y" "y \<le> 9999"
proof -
  obtain k where k: "year_yday z = (y, k)"
    using assms(2) by (auto simp: absDate_def Let_def split: prod.splits)
  note Z = year_yday_days[OF k]
  have "days_before_year 0 = - 366" "days_before_year 10000 = 3652059" by (simp_all add: days_before_year_def)
  then have "\<not> y < 0" "\<not> 10000 \<le> y"
    using Z days_before_year_mono[of "y + 1" 0] days_before_year_mono[of 10000 y] days_before_year_Suc[of y]
      assms(1) by (auto simp: fits_four_digits_def)
  then show "0 \<le> y" "y \<le> 9999" by auto
qed

lemma shanghai_date_less_iff:
  assumes "fits_four_digits (shanghai_day_number s)" "fits_four_digits (shanghai_day_number t)"
  shows "shanghai_date s < shanghai_date t \<longleftrightarrow> shanghai_day_number s < shanghai_day_number t"
proof -
  have *: "shanghai_day_number a < shanghai_day_number b \<Longrightarrow> shanghai_date a < shanghai_date b"
    if "fits_four_digits (shanghai_day_number a)" "fits_four_digits (shanghai_day_number b)" for a b
  proof -
    assume less: "shanghai_day_number a < shanghai_day_number b"
    obtain y m d y' m' d' where D: "absDate (shanghai_day_number a) = (y, m, d)" "absDate (shanghai_day_number b) = (y', m', d')"
      by (metis prod_cases3)
    show "shanghai_date a < shanghai_date b"
      unfolding shanghai_date_def
      using format_date_less[OF less D] absDate_four_digits[OF that(1) D(1)] absDate_four_digits[OF that(2) D(2)] by simp
  qed
  show ?thesis
  proof (cases "shanghai_day_number s" "shanghai_day_number t" rule: linorder_cases)
    case equal
    then show ?thesis by (simp add: shanghai_date_def)
  next
    case greater
    then show ?thesis using *[OF assms(2,1)] by auto
  qed (use *[OF assms] in auto)
qed

end
