(* ===== verification/Store.thy ===== *)
theory Store
  imports Gotime
begin

text \<open>
  The persistent state and the data-access layer: \<^verbatim>\<open>internal/panel/models.go\<close>, the operations of
  \<^verbatim>\<open>store.go\<close> and the tables of \<^verbatim>\<open>migrations\<close> they address. A table is a list of rows in the order of
  their primary key. A statement can fail for reasons outside the program; which ones do is the
  field \<open>db_faults\<close>, a script the environment fixes: each statement consumes one entry, and an
  empty script means that everything succeeds. A transaction that meets an error restores the
  tables. Times are Unix seconds and are passed in.
\<close>

section \<open>Rows\<close>

record User =
  u_ID :: int
  u_Username :: string
  u_PasswordHash :: string
  u_PwdVersion :: int
  u_CreatedAt :: int
  u_UpdatedAt :: int

record Node =
  nd_ID :: int
  nd_Name :: string
  nd_IP :: string
  nd_AgentPort :: int
  nd_AgentToken :: string
  nd_Fingerprint :: string
  nd_FrpsToken :: string
  nd_FrpsPort :: int
  nd_Region :: string
  nd_Status :: string
  nd_AgentVersion :: string
  nd_FrpsVersion :: string
  nd_LastCommitSeq :: int
  nd_LastSeen :: "int option"
  nd_CreatedAt :: int
  nd_UpdatedAt :: int

record Mapping =
  mp_ID :: int
  mp_LocalPort :: int
  mp_Proto :: string
  mp_Remark :: string
  mp_Enabled :: bool
  mp_Version :: int
  mp_CreatedAt :: int
  mp_UpdatedAt :: int

record MappingTarget =
  mt_ID :: int
  mt_MappingID :: int
  mt_NodeID :: int
  mt_RemotePort :: int
  mt_TunnelStatus :: string
  mt_StatusDetail :: string
  mt_CreatedAt :: int

record OperationLog =
  lg_ID :: int
  lg_Type :: string
  lg_Source :: string
  lg_NodeID :: "int option"
  lg_Detail :: string
  lg_CreatedAt :: int

record TrafficDaily =
  td_NodeID :: int
  td_Day :: string
  td_NodeRxBytes :: int64
  td_NodeTxBytes :: int64
  td_TunInBytes :: int64
  td_TunOutBytes :: int64

record MinuteRow =
  mr_NodeID :: int
  mr_TS :: int
  mr_CPUAvg :: real
  mr_MemAvg :: real
  mr_RxPeak :: int64
  mr_TxPeak :: int64

record TargetInput =
  ti_NodeID :: int
  ti_RemotePort :: int

record Store =
  db_users :: "User list"
  db_nodes :: "Node list"
  db_mappings :: "Mapping list"
  db_targets :: "MappingTarget list"
  db_minutely :: "MinuteRow list"
  db_hourly :: "MinuteRow list"
  db_daily :: "MinuteRow list"
  db_traffic :: "TrafficDaily list"
  db_logs :: "OperationLog list"
  db_settings :: "(string, string) gomap"
  db_nextUser :: int
  db_nextNode :: int
  db_nextMapping :: int
  db_nextTarget :: int
  db_nextLog :: int
  db_faults :: "bool list"

definition empty_store :: Store where
  "empty_store = \<lparr>db_users = [], db_nodes = [], db_mappings = [], db_targets = [], db_minutely = [],
     db_hourly = [], db_daily = [], db_traffic = [], db_logs = [], db_settings = [],
     db_nextUser = 1, db_nextNode = 1, db_nextMapping = 1, db_nextTarget = 1, db_nextLog = 1,
     db_faults = []\<rparr>"

section \<open>Statements and transactions\<close>

datatype db_error = DBFault | DBDuplicate string | ErrOptimisticConflict

type_synonym 'a db = "Store \<Rightarrow> (db_error + 'a) \<times> Store"

text \<open>Run one statement: it consumes an entry of the fault script and fails if that says so.\<close>

definition stmt :: "'a db \<Rightarrow> 'a db" where
  "stmt f s =
     (case db_faults s of
        [] \<Rightarrow> f s
      | b # bs \<Rightarrow> if b then (Inl DBFault, s\<lparr>db_faults := bs\<rparr>) else f (s\<lparr>db_faults := bs\<rparr>))"

definition db_return :: "'a \<Rightarrow> 'a db" where
  "db_return x s = (Inr x, s)"

definition db_fail :: "db_error \<Rightarrow> 'a db" where
  "db_fail e s = (Inl e, s)"

definition db_bind :: "'a db \<Rightarrow> ('a \<Rightarrow> 'b db) \<Rightarrow> 'b db" where
  "db_bind f g s = (case f s of (Inl e, s') \<Rightarrow> (Inl e, s') | (Inr x, s') \<Rightarrow> g x s')"

definition db_upd :: "(Store \<Rightarrow> Store) \<Rightarrow> unit db" where
  "db_upd f s = (Inr (), f s)"

definition db_read :: "(Store \<Rightarrow> 'a) \<Rightarrow> 'a db" where
  "db_read f s = (Inr (f s), s)"

text \<open>
  \<^verbatim>\<open>BeginTxx\<close>, the body, \<^verbatim>\<open>Commit\<close>; with \<^verbatim>\<open>defer tx.Rollback()\<close>, an error of any of them leaves the
  tables as they were.
\<close>

definition in_tx :: "'a db \<Rightarrow> 'a db" where
  "in_tx body s =
     (case db_bind (stmt (db_return ())) (\<lambda>_. db_bind body (\<lambda>x. stmt (db_return x))) s of
        (Inl e, s') \<Rightarrow> (Inl e, s\<lparr>db_faults := db_faults s'\<rparr>)
      | (Inr x, s') \<Rightarrow> (Inr x, s'))"

lemmas db_defs = db_return_def db_fail_def db_bind_def db_upd_def db_read_def

section \<open>Users\<close>

definition GetUserByUsername :: "string \<Rightarrow> User option db" where
  "GetUserByUsername name = stmt (db_read (\<lambda>s. find (\<lambda>u. u_Username u = name) (db_users s)))"

definition GetUserByID :: "int \<Rightarrow> User option db" where
  "GetUserByID i = stmt (db_read (\<lambda>s. find (\<lambda>u. u_ID u = i) (db_users s)))"

text \<open>\<^verbatim>\<open>ON DUPLICATE KEY UPDATE id=LAST_INSERT_ID(id)\<close>: an existing user name yields its id.\<close>

definition CreateUser :: "int \<Rightarrow> string \<Rightarrow> string \<Rightarrow> int db" where
  "CreateUser t name hash = stmt (\<lambda>s.
     (case find (\<lambda>u. u_Username u = name) (db_users s) of
        Some u \<Rightarrow> (Inr (u_ID u), s)
      | None \<Rightarrow>
          (Inr (db_nextUser s),
           s\<lparr>db_users := db_users s @ [\<lparr>u_ID = db_nextUser s, u_Username = name, u_PasswordHash = hash,
                u_PwdVersion = 1, u_CreatedAt = t, u_UpdatedAt = t\<rparr>],
             db_nextUser := db_nextUser s + 1\<rparr>)))"

definition UpdatePassword :: "int \<Rightarrow> int \<Rightarrow> string \<Rightarrow> int db" where
  "UpdatePassword t i hash =
     db_bind (stmt (db_upd (\<lambda>s. s\<lparr>db_users := map (\<lambda>u. if u_ID u = i
          then u\<lparr>u_PasswordHash := hash, u_PwdVersion := u_PwdVersion u + 1, u_UpdatedAt := t\<rparr> else u) (db_users s)\<rparr>)))
     (\<lambda>_. stmt (\<lambda>s. (case find (\<lambda>u. u_ID u = i) (db_users s) of
                       Some u \<Rightarrow> (Inr (u_PwdVersion u), s)
                     | None \<Rightarrow> (Inl DBFault, s))))"

section \<open>Nodes\<close>

text \<open>
  The unique key is \<open>(ip, agent_port)\<close>; a second registration updates the row and keeps its id,
  status, frps token and committed sequence number.
\<close>

definition CreateOrUpdateNode :: "int \<Rightarrow> Node \<Rightarrow> int db" where
  "CreateOrUpdateNode t n = stmt (\<lambda>s.
     (case find (\<lambda>x. nd_IP x = nd_IP n \<and> nd_AgentPort x = nd_AgentPort n) (db_nodes s) of
        Some x \<Rightarrow>
          (Inr (nd_ID x),
           s\<lparr>db_nodes := map (\<lambda>y. if nd_ID y = nd_ID x
                then y\<lparr>nd_Name := nd_Name n, nd_AgentToken := nd_AgentToken n,
                       nd_Fingerprint := nd_Fingerprint n, nd_Region := nd_Region n,
                       nd_FrpsPort := nd_FrpsPort n, nd_UpdatedAt := t\<rparr> else y) (db_nodes s)\<rparr>)
      | None \<Rightarrow>
          (Inr (db_nextNode s),
           s\<lparr>db_nodes := db_nodes s @ [n\<lparr>nd_ID := db_nextNode s, nd_Status := ''offline'',
                nd_AgentVersion := [], nd_FrpsVersion := [], nd_LastCommitSeq := 0, nd_LastSeen := None,
                nd_CreatedAt := t, nd_UpdatedAt := t\<rparr>],
             db_nextNode := db_nextNode s + 1\<rparr>)))"

definition GetNode :: "int \<Rightarrow> Node option db" where
  "GetNode i = stmt (db_read (\<lambda>s. find (\<lambda>n. nd_ID n = i) (db_nodes s)))"

definition ListNodes :: "Node list db" where
  "ListNodes = stmt (db_read db_nodes)"

text \<open>\<^verbatim>\<open>UPDATE nodes SET ... WHERE id=? [AND ...]\<close>.\<close>

definition upd_node :: "(Node \<Rightarrow> bool) \<Rightarrow> (Node \<Rightarrow> Node) \<Rightarrow> Store \<Rightarrow> Store" where
  "upd_node P f s = s\<lparr>db_nodes := map (\<lambda>n. if P n then f n else n) (db_nodes s)\<rparr>"

definition UpdateNodeStatus :: "int \<Rightarrow> int \<Rightarrow> string \<Rightarrow> string \<Rightarrow> string \<Rightarrow> unit db" where
  "UpdateNodeStatus t i status agentVer frpsVer = stmt (db_upd (upd_node (\<lambda>n. nd_ID n = i)
     (\<lambda>n. n\<lparr>nd_Status := status, nd_AgentVersion := agentVer, nd_FrpsVersion := frpsVer,
            nd_LastSeen := Some t, nd_UpdatedAt := t\<rparr>)))"

definition SetNodeOffline :: "int \<Rightarrow> int \<Rightarrow> unit db" where
  "SetNodeOffline t i = stmt (db_upd (upd_node (\<lambda>n. nd_ID n = i)
     (\<lambda>n. n\<lparr>nd_Status := ''offline'', nd_UpdatedAt := t\<rparr>)))"

definition UpdateNodeFrps :: "int \<Rightarrow> int \<Rightarrow> string \<Rightarrow> int \<Rightarrow> unit db" where
  "UpdateNodeFrps t i frpsToken frpsPort = stmt (db_upd (upd_node (\<lambda>n. nd_ID n = i)
     (\<lambda>n. n\<lparr>nd_FrpsToken := frpsToken, nd_FrpsPort := frpsPort, nd_UpdatedAt := t\<rparr>)))"

definition UpdateNodeMeta :: "int \<Rightarrow> int \<Rightarrow> string \<Rightarrow> string \<Rightarrow> unit db" where
  "UpdateNodeMeta t i name region = stmt (db_upd (upd_node (\<lambda>n. nd_ID n = i)
     (\<lambda>n. n\<lparr>nd_Name := name, nd_Region := region, nd_UpdatedAt := t\<rparr>)))"

definition SetNodeLastCommitSeq :: "int \<Rightarrow> int \<Rightarrow> unit db" where
  "SetNodeLastCommitSeq i seq = stmt (db_upd (upd_node (\<lambda>n. nd_ID n = i \<and> nd_LastCommitSeq n < seq)
     (\<lambda>n. n\<lparr>nd_LastCommitSeq := seq\<rparr>)))"

definition DeleteNode :: "int \<Rightarrow> unit db" where
  "DeleteNode i = in_tx
     (db_bind (stmt (db_upd (\<lambda>s. s\<lparr>db_targets := filter (\<lambda>x. mt_NodeID x \<noteq> i) (db_targets s)\<rparr>))) (\<lambda>_.
      db_bind (stmt (db_upd (\<lambda>s. s\<lparr>db_minutely := filter (\<lambda>x. mr_NodeID x \<noteq> i) (db_minutely s)\<rparr>))) (\<lambda>_.
      db_bind (stmt (db_upd (\<lambda>s. s\<lparr>db_hourly := filter (\<lambda>x. mr_NodeID x \<noteq> i) (db_hourly s)\<rparr>))) (\<lambda>_.
      db_bind (stmt (db_upd (\<lambda>s. s\<lparr>db_daily := filter (\<lambda>x. mr_NodeID x \<noteq> i) (db_daily s)\<rparr>))) (\<lambda>_.
      db_bind (stmt (db_upd (\<lambda>s. s\<lparr>db_traffic := filter (\<lambda>x. td_NodeID x \<noteq> i) (db_traffic s)\<rparr>))) (\<lambda>_.
      stmt (db_upd (\<lambda>s. s\<lparr>db_nodes := filter (\<lambda>x. nd_ID x \<noteq> i) (db_nodes s)\<rparr>))))))))"

definition TargetCounts :: "(int, int) gomap db" where
  "TargetCounts = stmt (db_read (\<lambda>s.
     map (\<lambda>i. (i, int (length (filter (\<lambda>t. mt_NodeID t = i) (db_targets s)))))
       (remdups (map mt_NodeID (db_targets s)))))"

section \<open>Mappings and their targets\<close>

definition ListMappings :: "Mapping list db" where
  "ListMappings = stmt (db_read (\<lambda>s. rev (db_mappings s)))"

definition GetMapping :: "int \<Rightarrow> Mapping option db" where
  "GetMapping i = stmt (db_read (\<lambda>s. find (\<lambda>m. mp_ID m = i) (db_mappings s)))"

definition ListTargetsForMappings :: "int list \<Rightarrow> MappingTarget list db" where
  "ListTargetsForMappings ids =
     (if ids = [] then db_return []
      else stmt (db_read (\<lambda>s. filter (\<lambda>t. mt_MappingID t \<in> set ids) (db_targets s))))"

definition ListTargetsByMapping :: "int \<Rightarrow> MappingTarget list db" where
  "ListTargetsByMapping i = stmt (db_read (\<lambda>s. filter (\<lambda>t. mt_MappingID t = i) (db_targets s)))"

definition ListTargetsByNode :: "int \<Rightarrow> MappingTarget list db" where
  "ListTargetsByNode i = stmt (db_read (\<lambda>s. filter (\<lambda>t. mt_NodeID t = i) (db_targets s)))"

text \<open>
  \<^verbatim>\<open>INSERT INTO mapping_targets\<close>, refused by either unique key of the table. (A refused insert also
  uses up an auto-increment value in MySQL; the gap it leaves is not observable by the program.)
\<close>

definition insert_target :: "int \<Rightarrow> int \<Rightarrow> TargetInput \<Rightarrow> unit db" where
  "insert_target t mid tg = stmt (\<lambda>s.
     if \<exists>x\<in>set (db_targets s). mt_MappingID x = mid \<and> mt_NodeID x = ti_NodeID tg
     then (Inl (DBDuplicate ''uq_mt_mapping_node''), s)
     else if \<exists>x\<in>set (db_targets s). mt_NodeID x = ti_NodeID tg \<and> mt_RemotePort x = ti_RemotePort tg
     then (Inl (DBDuplicate ''uq_mt_node_port''), s)
     else (Inr (),
           s\<lparr>db_targets := db_targets s @ [\<lparr>mt_ID = db_nextTarget s, mt_MappingID = mid, mt_NodeID = ti_NodeID tg,
                mt_RemotePort = ti_RemotePort tg, mt_TunnelStatus = ''pending'', mt_StatusDetail = [],
                mt_CreatedAt = t\<rparr>],
             db_nextTarget := db_nextTarget s + 1\<rparr>))"

fun insert_targets :: "int \<Rightarrow> int \<Rightarrow> TargetInput list \<Rightarrow> unit db" where
  "insert_targets t mid [] = db_return ()"
| "insert_targets t mid (tg # tgs) = db_bind (insert_target t mid tg) (\<lambda>_. insert_targets t mid tgs)"

definition insert_mapping :: "int \<Rightarrow> Mapping \<Rightarrow> int db" where
  "insert_mapping t m = stmt (\<lambda>s.
     (Inr (db_nextMapping s),
      s\<lparr>db_mappings := db_mappings s @ [m\<lparr>mp_ID := db_nextMapping s, mp_Version := 1,
            mp_CreatedAt := t, mp_UpdatedAt := t\<rparr>],
        db_nextMapping := db_nextMapping s + 1\<rparr>))"

definition CreateMapping :: "int \<Rightarrow> Mapping \<Rightarrow> TargetInput list \<Rightarrow> int db" where
  "CreateMapping t m targets = in_tx
     (db_bind (insert_mapping t m) (\<lambda>mid. db_bind (insert_targets t mid targets) (\<lambda>_. db_return mid)))"

text \<open>The guarded update of a mapping: \<^verbatim>\<open>WHERE id=? AND version=?\<close>, and whether a row matched.\<close>

definition bump_version :: "int \<Rightarrow> int \<Rightarrow> (Mapping \<Rightarrow> Mapping) \<Rightarrow> Mapping \<Rightarrow> Mapping" where
  "bump_version i expectVersion f m =
     (if mp_ID m = i \<and> mp_Version m = expectVersion then (f m)\<lparr>mp_Version := mp_Version m + 1\<rparr> else m)"

definition update_versioned :: "int \<Rightarrow> int \<Rightarrow> (Mapping \<Rightarrow> Mapping) \<Rightarrow> bool db" where
  "update_versioned i expectVersion f = stmt (\<lambda>s.
     (Inr (\<exists>m\<in>set (db_mappings s). mp_ID m = i \<and> mp_Version m = expectVersion),
      s\<lparr>db_mappings := map (bump_version i expectVersion f) (db_mappings s)\<rparr>))"

definition UpdateMapping :: "int \<Rightarrow> int \<Rightarrow> int \<Rightarrow> Mapping \<Rightarrow> TargetInput list \<Rightarrow> unit db" where
  "UpdateMapping t i expectVersion m targets = in_tx
     (db_bind (update_versioned i expectVersion (\<lambda>old. old\<lparr>mp_LocalPort := mp_LocalPort m,
          mp_Proto := mp_Proto m, mp_Remark := mp_Remark m, mp_Enabled := mp_Enabled m, mp_UpdatedAt := t\<rparr>))
      (\<lambda>hit. if \<not> hit then db_fail ErrOptimisticConflict
        else db_bind (stmt (db_upd (\<lambda>s. s\<lparr>db_targets := filter (\<lambda>x. mt_MappingID x \<noteq> i) (db_targets s)\<rparr>)))
          (\<lambda>_. insert_targets t i targets)))"

definition SetMappingEnabled :: "int \<Rightarrow> int \<Rightarrow> int \<Rightarrow> bool \<Rightarrow> unit db" where
  "SetMappingEnabled t i expectVersion enabled =
     db_bind (update_versioned i expectVersion (\<lambda>old. old\<lparr>mp_Enabled := enabled, mp_UpdatedAt := t\<rparr>))
       (\<lambda>hit. if hit then db_return () else db_fail ErrOptimisticConflict)"

definition DeleteMapping :: "int \<Rightarrow> unit db" where
  "DeleteMapping i = in_tx
     (db_bind (stmt (db_upd (\<lambda>s. s\<lparr>db_targets := filter (\<lambda>x. mt_MappingID x \<noteq> i) (db_targets s)\<rparr>)))
       (\<lambda>_. stmt (db_upd (\<lambda>s. s\<lparr>db_mappings := filter (\<lambda>x. mp_ID x \<noteq> i) (db_mappings s)\<rparr>))))"

definition UpdateTargetStatus :: "int \<Rightarrow> int \<Rightarrow> string \<Rightarrow> string \<Rightarrow> unit db" where
  "UpdateTargetStatus mid nid status detail = stmt (db_upd (\<lambda>s.
     s\<lparr>db_targets := map (\<lambda>x. if mt_MappingID x = mid \<and> mt_NodeID x = nid
          then x\<lparr>mt_TunnelStatus := status, mt_StatusDetail := detail\<rparr> else x) (db_targets s)\<rparr>))"

definition UpdateTargetStatusByPort :: "int \<Rightarrow> int \<Rightarrow> string \<Rightarrow> unit db" where
  "UpdateTargetStatusByPort nid port status = stmt (db_upd (\<lambda>s.
     s\<lparr>db_targets := map (\<lambda>x. if mt_NodeID x = nid \<and> mt_RemotePort x = port
          then x\<lparr>mt_TunnelStatus := status\<rparr> else x) (db_targets s)\<rparr>))"

record NodeProxyRow =
  np_MappingID :: int
  np_NodeID :: int
  np_LocalPort :: int
  np_Proto :: string
  np_RemotePort :: int
  np_Remark :: string

record ProbeTarget =
  pt_NodeID :: int
  pt_IP :: string
  pt_RemotePort :: int

definition EnabledTargetsForProbe :: "ProbeTarget list db" where
  "EnabledTargetsForProbe = stmt (db_read (\<lambda>s.
     [\<lparr>pt_NodeID = mt_NodeID t, pt_IP = nd_IP n, pt_RemotePort = mt_RemotePort t\<rparr>.
        t \<leftarrow> db_targets s, m \<leftarrow> db_mappings s, mp_ID m = mt_MappingID t \<and> mp_Enabled m,
        n \<leftarrow> db_nodes s, nd_ID n = mt_NodeID t]))"

text \<open>The join in the order of the mapping ids, the order in which mappings are stored.\<close>

definition EnabledProxiesForNode :: "int \<Rightarrow> NodeProxyRow list db" where
  "EnabledProxiesForNode nid = stmt (db_read (\<lambda>s.
     [\<lparr>np_MappingID = mp_ID m, np_NodeID = mt_NodeID t, np_LocalPort = mp_LocalPort m, np_Proto = mp_Proto m,
       np_RemotePort = mt_RemotePort t, np_Remark = mp_Remark m\<rparr>.
        m \<leftarrow> db_mappings s, mp_Enabled m, t \<leftarrow> db_targets s, mt_MappingID t = mp_ID m \<and> mt_NodeID t = nid]))"

section \<open>Logs and settings\<close>

definition AddLog :: "int \<Rightarrow> string \<Rightarrow> string \<Rightarrow> int option \<Rightarrow> string \<Rightarrow> unit db" where
  "AddLog t typ source nodeID detail = stmt (db_upd (\<lambda>s.
     s\<lparr>db_logs := db_logs s @ [\<lparr>lg_ID = db_nextLog s, lg_Type = typ, lg_Source = source, lg_NodeID = nodeID,
          lg_Detail = detail, lg_CreatedAt = t\<rparr>],
       db_nextLog := db_nextLog s + 1\<rparr>))"

record LogFilter =
  lf_Type :: string
  lf_NodeID :: "int option"
  lf_Since :: "int option"
  lf_Until :: "int option"
  lf_Page :: int
  lf_Size :: int

text \<open>The \<^verbatim>\<open>WHERE\<close> clause the filter builds.\<close>

definition log_where :: "LogFilter \<Rightarrow> OperationLog \<Rightarrow> bool" where
  "log_where f l \<longleftrightarrow>
     (lf_Type f \<noteq> [] \<longrightarrow> lg_Type l = lf_Type f) \<and>
     (lf_NodeID f \<noteq> None \<longrightarrow> lg_NodeID l = lf_NodeID f) \<and>
     (case lf_Since f of None \<Rightarrow> True | Some t \<Rightarrow> t \<le> lg_CreatedAt l) \<and>
     (case lf_Until f of None \<Rightarrow> True | Some t \<Rightarrow> lg_CreatedAt l \<le> t)"

definition page_size :: "LogFilter \<Rightarrow> int" where
  "page_size f = (if lf_Size f \<le> 0 then 20 else lf_Size f)"

definition page_no :: "LogFilter \<Rightarrow> int" where
  "page_no f = (if lf_Page f \<le> 0 then 1 else lf_Page f)"

definition ListLogs :: "LogFilter \<Rightarrow> (OperationLog list \<times> int) db" where
  "ListLogs f =
     db_bind (stmt (db_read (\<lambda>s. int (length (filter (log_where f) (db_logs s))))))
       (\<lambda>total. db_bind (stmt (db_read (\<lambda>s.
            take (nat (page_size f)) (drop (nat ((page_no f - 1) * page_size f)) (filter (log_where f) (rev (db_logs s)))))))
          (\<lambda>logs. db_return (logs, total)))"

definition CleanLogs :: "int \<Rightarrow> bool \<Rightarrow> int db" where
  "CleanLogs t all = stmt (\<lambda>s.
     let gone = (\<lambda>l. all \<or> lg_CreatedAt l < AddDate_days t (-30))
     in (Inr (int (length (filter gone (db_logs s)))), s\<lparr>db_logs := filter (\<lambda>l. \<not> gone l) (db_logs s)\<rparr>))"

definition GetSetting :: "string \<Rightarrow> string db" where
  "GetSetting k = stmt (db_read (\<lambda>s. mget [] (db_settings s) k))"

definition SetSetting :: "string \<Rightarrow> string \<Rightarrow> unit db" where
  "SetSetting k v = stmt (db_upd (\<lambda>s. s\<lparr>db_settings := AList.update k v (db_settings s)\<rparr>))"

section \<open>Metrics tables\<close>

text \<open>\<^verbatim>\<open>INSERT ... ON DUPLICATE KEY UPDATE\<close> of all columns: the row of the key \<open>(node_id, ts)\<close> is replaced.\<close>

definition mr_key :: "MinuteRow \<Rightarrow> int \<times> int" where
  "mr_key r = (mr_NodeID r, mr_TS r)"

definition upsert_row :: "MinuteRow \<Rightarrow> MinuteRow list \<Rightarrow> MinuteRow list" where
  "upsert_row r rows =
     (if mr_key r \<in> mr_key ` set rows then map (\<lambda>x. if mr_key x = mr_key r then r else x) rows else rows @ [r])"

fun upsert_minutely :: "MinuteRow list \<Rightarrow> unit db" where
  "upsert_minutely [] = db_return ()"
| "upsert_minutely (r # rows) =
     db_bind (stmt (db_upd (\<lambda>s. s\<lparr>db_minutely := upsert_row r (db_minutely s)\<rparr>))) (\<lambda>_. upsert_minutely rows)"

definition BatchUpsertMinutely :: "MinuteRow list \<Rightarrow> unit db" where
  "BatchUpsertMinutely rows =
     (if rows = [] then db_return ()
      else in_tx (db_bind (stmt (db_return ())) (\<lambda>_. upsert_minutely rows)))"

text \<open>
  \<^verbatim>\<open>node_rx_bytes + VALUES(node_rx_bytes)\<close> on \<^verbatim>\<open>BIGINT\<close> columns: a sum outside the range of the column
  is an error of the statement and not a wrap-around.
\<close>

definition add_in_range :: "int64 \<Rightarrow> int64 \<Rightarrow> bool" where
  "add_in_range x y \<longleftrightarrow> - (2 ^ 63) \<le> sint x + sint y \<and> sint x + sint y < 2 ^ 63"

definition incr_row :: "TrafficDaily \<Rightarrow> TrafficDaily \<Rightarrow> TrafficDaily" where
  "incr_row d r = r\<lparr>td_NodeRxBytes := td_NodeRxBytes r + td_NodeRxBytes d, td_NodeTxBytes := td_NodeTxBytes r + td_NodeTxBytes d,
     td_TunInBytes := td_TunInBytes r + td_TunInBytes d, td_TunOutBytes := td_TunOutBytes r + td_TunOutBytes d\<rparr>"

definition incr_ok :: "TrafficDaily \<Rightarrow> TrafficDaily \<Rightarrow> bool" where
  "incr_ok d r \<longleftrightarrow> add_in_range (td_NodeRxBytes r) (td_NodeRxBytes d) \<and> add_in_range (td_NodeTxBytes r) (td_NodeTxBytes d) \<and>
     add_in_range (td_TunInBytes r) (td_TunInBytes d) \<and> add_in_range (td_TunOutBytes r) (td_TunOutBytes d)"

definition td_key :: "TrafficDaily \<Rightarrow> int \<times> string" where
  "td_key r = (td_NodeID r, td_Day r)"

definition IncrTrafficDaily :: "TrafficDaily \<Rightarrow> unit db" where
  "IncrTrafficDaily d = stmt (\<lambda>s.
     (case find (\<lambda>r. td_key r = td_key d) (db_traffic s) of
        None \<Rightarrow> (Inr (), s\<lparr>db_traffic := db_traffic s @ [d]\<rparr>)
      | Some r \<Rightarrow>
          if incr_ok d r
          then (Inr (), s\<lparr>db_traffic := map (\<lambda>x. if td_key x = td_key d then incr_row d x else x) (db_traffic s)\<rparr>)
          else (Inl DBFault, s)))"

text \<open>\<^verbatim>\<open>GROUP BY node_id, h\<close> of the rows since a time, each group with its averages and maxima.\<close>

definition word_max :: "int64 list \<Rightarrow> int64" where
  "word_max ws = foldl (\<lambda>a b. if sint a < sint b then b else a) (hd ws) (tl ws)"

definition mean :: "real list \<Rightarrow> real" where
  "mean xs = sum_list xs / real (length xs)"

definition rollup_group :: "(int \<times> int) \<Rightarrow> MinuteRow list \<Rightarrow> MinuteRow" where
  "rollup_group k g = \<lparr>mr_NodeID = fst k, mr_TS = snd k, mr_CPUAvg = mean (map mr_CPUAvg g), mr_MemAvg = mean (map mr_MemAvg g),
     mr_RxPeak = word_max (map mr_RxPeak g), mr_TxPeak = word_max (map mr_TxPeak g)\<rparr>"

definition bucket_of :: "int \<Rightarrow> int \<Rightarrow> int" where
  "bucket_of w t = t - t mod w"

definition rollup_rows :: "int \<Rightarrow> int \<Rightarrow> MinuteRow list \<Rightarrow> MinuteRow list" where
  "rollup_rows w since rows =
     (let recent = filter (\<lambda>r. since \<le> mr_TS r) rows;
          key = (\<lambda>r. (mr_NodeID r, bucket_of w (mr_TS r)))
      in map (\<lambda>k. rollup_group k (filter (\<lambda>r. key r = k) recent)) (remdups (map key recent)))"

definition RollupHourly :: "int \<Rightarrow> unit db" where
  "RollupHourly t = stmt (db_upd (\<lambda>s.
     s\<lparr>db_hourly := fold upsert_row (rollup_rows 3600 (t - 3 * 3600) (db_minutely s)) (db_hourly s)\<rparr>))"

definition RollupDaily :: "int \<Rightarrow> unit db" where
  "RollupDaily t = stmt (db_upd (\<lambda>s.
     s\<lparr>db_daily := fold upsert_row (rollup_rows 86400 (t - 48 * 3600) (db_hourly s)) (db_daily s)\<rparr>))"

definition CleanupMetrics :: "int \<Rightarrow> unit db" where
  "CleanupMetrics t =
     db_bind (stmt (db_upd (\<lambda>s. s\<lparr>db_minutely := filter (\<lambda>r. \<not> mr_TS r < AddDate_days t (-30)) (db_minutely s)\<rparr>)))
       (\<lambda>_. stmt (db_upd (\<lambda>s. s\<lparr>db_hourly := filter (\<lambda>r. \<not> mr_TS r < AddDate_years t (-1)) (db_hourly s)\<rparr>)))"

text \<open>\<^verbatim>\<open>hours / 24\<close> truncates toward zero; only positive values reach the second branch.\<close>

definition NodeHistory :: "int \<Rightarrow> int \<Rightarrow> int \<Rightarrow> MinuteRow list db" where
  "NodeHistory t nodeID hours =
     (if hours \<le> 48
      then stmt (db_read (\<lambda>s. sort_key mr_TS
             (filter (\<lambda>r. mr_NodeID r = nodeID \<and> t - hours * 3600 \<le> mr_TS r) (db_hourly s))))
      else stmt (db_read (\<lambda>s. sort_key mr_TS
             (filter (\<lambda>r. mr_NodeID r = nodeID \<and> AddDate_days t (- (hours div 24)) \<le> mr_TS r) (db_daily s)))))"

record TrafficTop =
  tt_NodeID :: int
  tt_NodeRx :: int
  tt_NodeTx :: int
  tt_TunIn :: int
  tt_TunOut :: int

text \<open>\<^verbatim>\<open>SUM\<close> over \<^verbatim>\<open>BIGINT\<close> columns is a \<^verbatim>\<open>DECIMAL\<close>, so it is exact.\<close>

definition sum_traffic :: "int \<Rightarrow> TrafficDaily list \<Rightarrow> TrafficTop" where
  "sum_traffic i rows = \<lparr>tt_NodeID = i, tt_NodeRx = sum_list (map (\<lambda>r. sint (td_NodeRxBytes r)) rows),
     tt_NodeTx = sum_list (map (\<lambda>r. sint (td_NodeTxBytes r)) rows),
     tt_TunIn = sum_list (map (\<lambda>r. sint (td_TunInBytes r)) rows), tt_TunOut = sum_list (map (\<lambda>r. sint (td_TunOutBytes r)) rows)\<rparr>"

definition TrafficTopN :: "int \<Rightarrow> int \<Rightarrow> int \<Rightarrow> TrafficTop list db" where
  "TrafficTopN t days limit = stmt (db_read (\<lambda>s.
     let from = shanghai_date (AddDate_days t (- (days - 1)));
         rows = filter (\<lambda>r. from \<le> td_Day r) (db_traffic s)
     in take (nat limit) (sort_key (\<lambda>x. - (tt_TunIn x + tt_TunOut x))
          (map (\<lambda>i. sum_traffic i (filter (\<lambda>r. td_NodeID r = i) rows)) (remdups (map td_NodeID rows))))))"

definition TrafficForNodeDays :: "int \<Rightarrow> int \<Rightarrow> int \<Rightarrow> TrafficDaily list db" where
  "TrafficForNodeDays t nodeID days = stmt (db_read (\<lambda>s.
     sort_key td_Day (filter (\<lambda>r. td_NodeID r = nodeID \<and> shanghai_date (AddDate_days t (- (days - 1))) \<le> td_Day r) (db_traffic s))))"

definition TrafficTotals :: "int \<Rightarrow> (TrafficTop \<times> TrafficTop) db" where
  "TrafficTotals t =
     db_bind (stmt (db_read (\<lambda>s. sum_traffic 0 (filter (\<lambda>r. td_Day r = shanghai_date t) (db_traffic s)))))
       (\<lambda>today. db_bind (stmt (db_read (\<lambda>s. sum_traffic 0 (filter (\<lambda>r. shanghai_date (AddDate_days t (-29)) \<le> td_Day r) (db_traffic s)))))
          (\<lambda>last30. db_return (today, last30)))"

definition TodayTrafficByNode :: "int \<Rightarrow> (int, TrafficDaily) gomap db" where
  "TodayTrafficByNode t = stmt (db_read (\<lambda>s.
     fold (\<lambda>r m. AList.update (td_NodeID r) r m) (filter (\<lambda>r. td_Day r = shanghai_date t) (db_traffic s)) []))"

end
