(* ===== verification/Store_Inv.thy ===== *)
theory Store_Inv
  imports Store
begin

text \<open>
  What the data-access layer keeps: a small Hoare logic for statements and transactions (a triple
  has a postcondition for the result and one for the error), the integrity of the tables
  \<open>wf_store\<close>, that every operation of \<^verbatim>\<open>store.go\<close> and \<^verbatim>\<open>store_metrics.go\<close> keeps it, the effect of the
  transactions on every branch, the optimistic lock, and the rollups.
\<close>

section \<open>Triples\<close>

definition triple :: "(Store \<Rightarrow> bool) \<Rightarrow> 'a db \<Rightarrow> ('a \<Rightarrow> Store \<Rightarrow> bool) \<Rightarrow> (Store \<Rightarrow> bool) \<Rightarrow> bool" where
  "triple P f Q E \<longleftrightarrow> (\<forall>s. P s \<longrightarrow> (case f s of (Inl e, s') \<Rightarrow> E s' | (Inr x, s') \<Rightarrow> Q x s'))"

definition keeps :: "(Store \<Rightarrow> bool) \<Rightarrow> 'a db \<Rightarrow> bool" where
  "keeps I f \<longleftrightarrow> triple I f (\<lambda>_. I) I"

lemma tripleI [intro?]:
  assumes "\<And>s x s'. P s \<Longrightarrow> f s = (Inr x, s') \<Longrightarrow> Q x s'" "\<And>s e s'. P s \<Longrightarrow> f s = (Inl e, s') \<Longrightarrow> E s'"
  shows "triple P f Q E"
  using assms by (auto simp: triple_def split: prod.split sum.split)

lemma tripleD:
  assumes "triple P f Q E" "P s"
  shows "f s = (Inr x, s') \<Longrightarrow> Q x s'" "f s = (Inl e, s') \<Longrightarrow> E s'"
  using assms unfolding triple_def by fastforce+

lemma keepsD: "keeps I f \<Longrightarrow> I s \<Longrightarrow> I (snd (f s))"
  by (cases "f s"; cases "fst (f s)") (auto simp: keeps_def dest: tripleD)

lemma triple_return: "(\<And>s. P s \<Longrightarrow> Q x s) \<Longrightarrow> triple P (db_return x) Q E"
  by (rule tripleI) (auto simp: db_return_def)

lemma triple_fail: "(\<And>s. P s \<Longrightarrow> E s) \<Longrightarrow> triple P (db_fail e) Q E"
  by (rule tripleI) (auto simp: db_fail_def)

lemma triple_bind:
  assumes "triple P f Q E" "\<And>x. triple (Q x) (g x) R E"
  shows "triple P (db_bind f g) R E"
  by (rule tripleI)
    (auto simp: db_bind_def split: prod.splits sum.splits dest: tripleD[OF assms(1)] tripleD[OF assms(2)])

lemma triple_weaken:
  assumes "triple P f Q E" "\<And>s. P' s \<Longrightarrow> P s" "\<And>x s. Q x s \<Longrightarrow> Q' x s" "\<And>s. E s \<Longrightarrow> E' s"
  shows "triple P' f Q' E'"
  using assms(2-4) tripleD[OF assms(1)] by (intro tripleI) blast+

text \<open>A predicate on the tables: it does not look at the fault script.\<close>

definition on_tables :: "(Store \<Rightarrow> bool) \<Rightarrow> bool" where
  "on_tables P \<longleftrightarrow> (\<forall>s bs. P (s\<lparr>db_faults := bs\<rparr>) = P s)"

lemma on_tablesD [simp]: "on_tables P \<Longrightarrow> P (s\<lparr>db_faults := bs\<rparr>) = P s"
  by (simp add: on_tables_def)

lemma triple_stmt:
  assumes "triple P f Q E" "on_tables P" "\<And>s. P s \<Longrightarrow> E s"
  shows "triple P (stmt f) Q E"
proof (rule tripleI)
  fix s x s' assume s: "P s" "stmt f s = (Inr x, s')"
  show "Q x s'"
    using s(2) tripleD(1)[OF assms(1) s(1)] tripleD(1)[OF assms(1), of "s\<lparr>db_faults := tl (db_faults s)\<rparr>"] s(1) assms(2)
    by (auto simp: stmt_def split: list.splits if_splits)
next
  fix s e s' assume s: "P s" "stmt f s = (Inl e, s')"
  show "E s'"
    using s(2) tripleD(2)[OF assms(1) s(1)] tripleD(2)[OF assms(1), of "s\<lparr>db_faults := tl (db_faults s)\<rparr>"] s(1) assms(2)
      assms(3)[of "s\<lparr>db_faults := tl (db_faults s)\<rparr>"]
    by (auto simp: stmt_def split: list.splits if_splits)
qed

lemma triple_in_tx:
  assumes "triple P body Q (\<lambda>_. True)" "on_tables P" "\<And>x. on_tables (Q x)"
  shows "triple P (in_tx body) Q P"
proof -
  have "triple P (db_bind (stmt (db_return ())) (\<lambda>_. db_bind body (\<lambda>x. stmt (db_return x)))) Q (\<lambda>_. True)"
    using assms by (intro triple_bind[where Q = "\<lambda>_. P"] triple_bind[where Q = Q] triple_stmt triple_return) auto
  from tripleD[OF this] show ?thesis
    by (intro tripleI) (auto simp: in_tx_def assms split: prod.splits sum.splits)
qed

text \<open>
  The rules above for one invariant of the tables: what the operations of the store have to
  discharge is reduced to the statements they execute.
\<close>

locale table_invariant =
  fixes I :: "Store \<Rightarrow> bool"
  assumes on_tables: "on_tables I"
begin

lemma faults [simp]: "I (s\<lparr>db_faults := bs\<rparr>) = I s"
  using on_tables by simp

lemma read: "keeps I (stmt (db_read f))"
  unfolding keeps_def by (intro triple_stmt tripleI) (auto simp: db_read_def on_tables)

lemma upd: "(\<And>s. I s \<Longrightarrow> I (f s)) \<Longrightarrow> keeps I (stmt (db_upd f))"
  unfolding keeps_def by (intro triple_stmt tripleI) (auto simp: db_upd_def on_tables)

lemma act: "(\<And>s. I s \<Longrightarrow> I (snd (f s))) \<Longrightarrow> keeps I (stmt f)"
  unfolding keeps_def by (intro triple_stmt tripleI) (auto simp: on_tables, (metis snd_conv)+)

lemma ret: "keeps I (db_return x)"
  unfolding keeps_def by (rule triple_return)

lemma failing: "keeps I (db_fail e)"
  unfolding keeps_def by (rule triple_fail)

lemma seq: "keeps I f \<Longrightarrow> (\<And>x. keeps I (g x)) \<Longrightarrow> keeps I (db_bind f g)"
  unfolding keeps_def by (rule triple_bind)

lemma tx: "triple I body (\<lambda>_. I) (\<lambda>_. True) \<Longrightarrow> keeps I (in_tx body)"
  unfolding keeps_def by (rule triple_in_tx) (auto simp: on_tables)

lemma tx_keeps: "keeps I body \<Longrightarrow> keeps I (in_tx body)"
  by (rule tx) (auto simp: keeps_def intro: triple_weaken)

end

section \<open>Integrity of the tables\<close>

text \<open>
  Rows are in the order of distinct primary keys below the next auto-increment value, the unique
  keys hold, and every target belongs to a mapping. The last is not a constraint of the schema: it
  is the code that maintains it.
\<close>

definition ids_ok :: "int list \<Rightarrow> int \<Rightarrow> bool" where
  "ids_ok ids next_id \<longleftrightarrow> sorted_wrt (<) ids \<and> (\<forall>i\<in>set ids. i < next_id)"

definition wf_users :: "Store \<Rightarrow> bool" where
  "wf_users s \<longleftrightarrow> ids_ok (map u_ID (db_users s)) (db_nextUser s) \<and> distinct (map u_Username (db_users s))"

definition wf_nodes :: "Store \<Rightarrow> bool" where
  "wf_nodes s \<longleftrightarrow> ids_ok (map nd_ID (db_nodes s)) (db_nextNode s) \<and>
     distinct (map (\<lambda>n. (nd_IP n, nd_AgentPort n)) (db_nodes s))"

definition wf_mappings :: "Store \<Rightarrow> bool" where
  "wf_mappings s \<longleftrightarrow> ids_ok (map mp_ID (db_mappings s)) (db_nextMapping s)"

definition wf_targets :: "Store \<Rightarrow> bool" where
  "wf_targets s \<longleftrightarrow> ids_ok (map mt_ID (db_targets s)) (db_nextTarget s) \<and>
     distinct (map (\<lambda>t. (mt_MappingID t, mt_NodeID t)) (db_targets s)) \<and>
     distinct (map (\<lambda>t. (mt_NodeID t, mt_RemotePort t)) (db_targets s)) \<and>
     mt_MappingID ` set (db_targets s) \<subseteq> mp_ID ` set (db_mappings s)"

definition wf_series :: "Store \<Rightarrow> bool" where
  "wf_series s \<longleftrightarrow> distinct (map mr_key (db_minutely s)) \<and> distinct (map mr_key (db_hourly s)) \<and>
     distinct (map mr_key (db_daily s)) \<and> distinct (map td_key (db_traffic s))"

definition wf_logs :: "Store \<Rightarrow> bool" where
  "wf_logs s \<longleftrightarrow> ids_ok (map lg_ID (db_logs s)) (db_nextLog s) \<and> wf_gomap (db_settings s)"

definition wf_store :: "Store \<Rightarrow> bool" where
  "wf_store s \<longleftrightarrow> wf_users s \<and> wf_nodes s \<and> wf_mappings s \<and> wf_targets s \<and> wf_series s \<and> wf_logs s"

lemmas wf_parts = wf_users_def wf_nodes_def wf_mappings_def wf_targets_def wf_series_def wf_logs_def

lemma ids_ok_snoc [simp]: "ids_ok ids n \<Longrightarrow> ids_ok (ids @ [n]) (n + 1)"
  by (auto simp: ids_ok_def sorted_wrt_append)

lemma ids_ok_map: "(\<And>x. x \<in> set xs \<Longrightarrow> f (g x) = f x) \<Longrightarrow> ids_ok (map f (map g xs)) n = ids_ok (map f xs) n"
  by (simp cong: map_cong)

lemma ids_ok_filter [simp]: "ids_ok (map f xs) n \<Longrightarrow> ids_ok (map f (filter P xs)) n"
  by (auto simp: ids_ok_def sorted_wrt_map intro: sorted_wrt_filter)

lemma distinct_filter_map [simp]: "distinct (map f xs) \<Longrightarrow> distinct (map f (filter P xs))"
  by (simp add: distinct_map_filter)

lemma ids_ok_distinct: "ids_ok ids n \<Longrightarrow> distinct ids"
  by (auto simp: ids_ok_def dest: strict_sorted_iff[THEN iffD1])

interpretation wfs: table_invariant wf_store
  by unfold_locales (simp add: on_tables_def wf_store_def wf_parts)

lemmas wf_store_simps = wf_store_def wf_parts

lemma find_None_iff_key: "find (\<lambda>x. k x = v) xs = None \<longleftrightarrow> v \<notin> k ` set xs"
  by (auto simp: find_None_iff)

lemma keeps_users:
  "keeps wf_store (GetUserByUsername name)" "keeps wf_store (GetUserByID i)"
  "keeps wf_store (CreateUser t name hash)" "keeps wf_store (UpdatePassword t i hash)"
  unfolding GetUserByUsername_def GetUserByID_def CreateUser_def UpdatePassword_def
  by (intro wfs.read wfs.seq wfs.upd wfs.act;
      auto simp: wf_store_simps find_None_iff_key o_def if_distrib cong: if_cong split: option.split)+

lemma wf_upd_node:
  assumes "wf_store s" "\<And>n. nd_ID (f n) = nd_ID n" "\<And>n. nd_IP (f n) = nd_IP n" "\<And>n. nd_AgentPort (f n) = nd_AgentPort n"
  shows "wf_store (upd_node P f s)"
  using assms by (simp add: wf_store_simps upd_node_def o_def if_distrib cong: if_cong)

lemma keeps_node_updates:
  "keeps wf_store (UpdateNodeStatus t i st av fv)" "keeps wf_store (SetNodeOffline t i)"
  "keeps wf_store (UpdateNodeFrps t i tok prt)" "keeps wf_store (UpdateNodeMeta t i name region)"
  "keeps wf_store (SetNodeLastCommitSeq i q)"
  unfolding UpdateNodeStatus_def SetNodeOffline_def UpdateNodeFrps_def UpdateNodeMeta_def SetNodeLastCommitSeq_def
  by (intro wfs.upd wf_upd_node; simp)+

lemma keeps_nodes:
  "keeps wf_store (GetNode i)" "keeps wf_store ListNodes" "keeps wf_store TargetCounts"
  unfolding GetNode_def ListNodes_def TargetCounts_def by (rule wfs.read)+

lemma keeps_CreateOrUpdateNode: "keeps wf_store (CreateOrUpdateNode t n)"
  unfolding CreateOrUpdateNode_def
  by (intro wfs.act)
    (auto simp: wf_store_simps find_None_iff o_def if_distrib cong: if_cong split: option.split)

lemma keeps_DeleteNode: "keeps wf_store (DeleteNode i)"
  unfolding DeleteNode_def
  by (intro wfs.tx_keeps wfs.seq wfs.upd) (auto simp: wf_store_simps)

text \<open>Inserting targets of a mapping that exists, in the middle of a transaction.\<close>

definition wf_with :: "int \<Rightarrow> Store \<Rightarrow> bool" where
  "wf_with mid s \<longleftrightarrow> wf_store s \<and> mid \<in> mp_ID ` set (db_mappings s)"

interpretation wfm: table_invariant "wf_with mid" for mid
  by unfold_locales (simp add: on_tables_def wf_with_def wf_store_simps)

lemma keeps_insert_target: "keeps (wf_with mid) (insert_target t mid tg)"
  unfolding insert_target_def
  by (intro wfm.act) (auto simp: wf_with_def wf_store_simps)

lemma keeps_insert_targets: "keeps (wf_with mid) (insert_targets t mid tgs)"
  by (induction tgs) (auto intro: wfm.ret wfm.seq keeps_insert_target)

lemma insert_mapping_triple: "triple wf_store (insert_mapping t m) wf_with wf_store"
  unfolding insert_mapping_def
  by (intro triple_stmt tripleI) (auto simp: wfs.on_tables wf_with_def wf_store_simps)

lemma wf_map_mappings:
  assumes "wf_store s" "\<And>m. mp_ID (g m) = mp_ID m"
  shows "wf_store (s\<lparr>db_mappings := map g (db_mappings s)\<rparr>)"
  using assms by (simp add: wf_store_simps o_def image_image)

lemma wf_map_targets:
  assumes "wf_store s" "\<And>x. mt_ID (g x) = mt_ID x" "\<And>x. mt_MappingID (g x) = mt_MappingID x"
    "\<And>x. mt_NodeID (g x) = mt_NodeID x" "\<And>x. mt_RemotePort (g x) = mt_RemotePort x"
  shows "wf_store (s\<lparr>db_targets := map g (db_targets s)\<rparr>)"
  using assms by (simp add: wf_store_simps o_def image_image)

lemma update_versioned_triple:
  assumes "\<And>m. mp_ID (f m) = mp_ID m"
  shows "triple wf_store (update_versioned i v f) (\<lambda>hit s. if hit then wf_with i s else wf_store s) wf_store"
proof -
  have g: "mp_ID (bump_version i v f m) = mp_ID m" for m by (simp add: bump_version_def assms)
  show ?thesis
    unfolding update_versioned_def
    by (intro triple_stmt tripleI) (auto simp: wfs.on_tables wf_with_def wf_map_mappings g image_image)
qed

lemma keeps_CreateMapping: "keeps wf_store (CreateMapping t m tgs)"
  unfolding CreateMapping_def
proof (intro wfs.tx triple_bind[where Q = wf_with])
  show "triple wf_store (insert_mapping t m) wf_with (\<lambda>_. True)"
    by (rule triple_weaken[OF insert_mapping_triple]) auto
  show "triple (wf_with mid) (db_bind (insert_targets t mid tgs) (\<lambda>_. db_return mid)) (\<lambda>_. wf_store) (\<lambda>_. True)" for mid
    by (intro triple_bind[where Q = "\<lambda>_. wf_with mid"] triple_weaken[OF keeps_insert_targets[unfolded keeps_def]] triple_return)
      (auto simp: wf_with_def)
qed

lemma delete_targets_triple:
  "triple (wf_with i) (stmt (db_upd (\<lambda>s. s\<lparr>db_targets := filter P (db_targets s)\<rparr>))) (\<lambda>_. wf_with i) (\<lambda>_. True)"
  using wfm.upd[of i "\<lambda>s. s\<lparr>db_targets := filter P (db_targets s)\<rparr>"]
  by (auto simp: keeps_def wf_with_def wf_store_simps intro: triple_weaken)

lemma keeps_UpdateMapping: "keeps wf_store (UpdateMapping t i v m tgs)"
  unfolding UpdateMapping_def
proof (intro wfs.tx triple_bind)
  show "triple wf_store (update_versioned i v (\<lambda>old. old\<lparr>mp_LocalPort := mp_LocalPort m, mp_Proto := mp_Proto m,
      mp_Remark := mp_Remark m, mp_Enabled := mp_Enabled m, mp_UpdatedAt := t\<rparr>))
    (\<lambda>hit s. if hit then wf_with i s else wf_store s) (\<lambda>_. True)"
    by (rule triple_weaken[OF update_versioned_triple]) auto
  fix hit
  show "triple (\<lambda>s. if hit then wf_with i s else wf_store s)
     (if \<not> hit then db_fail ErrOptimisticConflict
      else db_bind (stmt (db_upd (\<lambda>s. s\<lparr>db_targets := filter (\<lambda>x. mt_MappingID x \<noteq> i) (db_targets s)\<rparr>)))
        (\<lambda>_. insert_targets t i tgs)) (\<lambda>_. wf_store) (\<lambda>_. True)"
  proof (cases hit)
    case True
    have "triple (wf_with i) (insert_targets t i tgs) (\<lambda>_. wf_store) (\<lambda>_. True)"
      by (rule triple_weaken[OF keeps_insert_targets[unfolded keeps_def]]) (auto simp: wf_with_def)
    with True show ?thesis by (simp add: triple_bind[OF delete_targets_triple])
  qed (simp add: triple_fail)
qed

lemma keeps_SetMappingEnabled: "keeps wf_store (SetMappingEnabled t i v b)"
  unfolding SetMappingEnabled_def keeps_def
  by (rule triple_bind[OF update_versioned_triple])
    (auto simp: wf_with_def intro!: triple_fail triple_return split: if_splits)

lemma keeps_mappings:
  "keeps wf_store ListMappings" "keeps wf_store (GetMapping i)" "keeps wf_store (ListTargetsForMappings ids)"
  "keeps wf_store (ListTargetsByMapping i)" "keeps wf_store (ListTargetsByNode i)"
  "keeps wf_store EnabledTargetsForProbe" "keeps wf_store (EnabledProxiesForNode i)"
  unfolding ListMappings_def GetMapping_def ListTargetsForMappings_def ListTargetsByMapping_def ListTargetsByNode_def
    EnabledTargetsForProbe_def EnabledProxiesForNode_def
  by (simp_all add: wfs.read wfs.ret)

lemma wf_filter_targets: "wf_store s \<Longrightarrow> wf_store (s\<lparr>db_targets := filter P (db_targets s)\<rparr>)"
  by (auto simp: wf_store_simps)

lemma wf_drop_mapping:
  assumes "wf_store s" "i \<notin> mt_MappingID ` set (db_targets s)"
  shows "wf_store (s\<lparr>db_mappings := filter (\<lambda>x. mp_ID x \<noteq> i) (db_mappings s)\<rparr>)"
proof -
  have "mt_MappingID ` set (db_targets s) \<subseteq> mp_ID ` set (db_mappings s)" using assms(1) by (simp add: wf_store_simps)
  then have "mt_MappingID ` set (db_targets s) \<subseteq> mp_ID ` set (filter (\<lambda>x. mp_ID x \<noteq> i) (db_mappings s))"
    using assms(2) by (fastforce simp: image_iff subset_iff)
  then show ?thesis using assms(1) by (simp only: wf_store_simps) simp
qed

text \<open>The targets go first, so that no statement of the transaction leaves one without its mapping.\<close>

lemma keeps_DeleteMapping: "keeps wf_store (DeleteMapping i)"
  unfolding DeleteMapping_def
proof (intro wfs.tx triple_bind)
  show "triple wf_store (stmt (db_upd (\<lambda>s. s\<lparr>db_targets := filter (\<lambda>x. mt_MappingID x \<noteq> i) (db_targets s)\<rparr>)))
     (\<lambda>_ s. wf_store s \<and> i \<notin> mt_MappingID ` set (db_targets s)) (\<lambda>_. True)"
    by (intro triple_stmt tripleI) (auto simp: wfs.on_tables db_upd_def wf_filter_targets)
  show "triple (\<lambda>s. wf_store s \<and> i \<notin> mt_MappingID ` set (db_targets s))
     (stmt (db_upd (\<lambda>s. s\<lparr>db_mappings := filter (\<lambda>x. mp_ID x \<noteq> i) (db_mappings s)\<rparr>))) (\<lambda>_. wf_store) (\<lambda>_. True)" for u :: unit
    by (intro triple_stmt tripleI) (auto simp: on_tables_def db_upd_def wf_drop_mapping)
qed

lemma keeps_target_status:
  "keeps wf_store (UpdateTargetStatus mid nid st det)" "keeps wf_store (UpdateTargetStatusByPort nid prt st)"
  unfolding UpdateTargetStatus_def UpdateTargetStatusByPort_def
  by (intro wfs.upd wf_map_targets; simp)+

lemma keeps_logs:
  "keeps wf_store (AddLog t typ src nid det)" "keeps wf_store (ListLogs f)" "keeps wf_store (CleanLogs t all)"
  "keeps wf_store (GetSetting k)" "keeps wf_store (SetSetting k v)"
  unfolding AddLog_def ListLogs_def CleanLogs_def GetSetting_def SetSetting_def
  by (intro wfs.read wfs.seq wfs.ret wfs.upd wfs.act; simp add: wf_store_simps wf_gomap_update Let_def)+

lemma map_keys_upsert_row:
  "map mr_key (upsert_row r rows) = (if mr_key r \<in> mr_key ` set rows then map mr_key rows else map mr_key rows @ [mr_key r])"
  by (simp add: upsert_row_def)

lemma keys_upsert_row: "mr_key ` set (upsert_row r rows) = insert (mr_key r) (mr_key ` set rows)"
  by (simp only: set_map[symmetric] map_keys_upsert_row) auto

lemma distinct_upsert_row: "distinct (map mr_key rows) \<Longrightarrow> distinct (map mr_key (upsert_row r rows))"
  by (simp add: map_keys_upsert_row)

lemma distinct_fold_upsert: "distinct (map mr_key rows) \<Longrightarrow> distinct (map mr_key (fold upsert_row rs rows))"
  by (induction rs arbitrary: rows) (auto simp: distinct_upsert_row)

lemma keeps_series:
  "keeps wf_store (RollupHourly t)" "keeps wf_store (RollupDaily t)" "keeps wf_store (CleanupMetrics t)"
  unfolding RollupHourly_def RollupDaily_def CleanupMetrics_def
  by (intro wfs.seq wfs.upd; simp add: wf_store_simps distinct_fold_upsert)+

lemma keeps_upsert_minutely: "keeps wf_store (upsert_minutely rows)"
proof (induction rows)
  case (Cons r rows)
  have "wf_store s \<Longrightarrow> wf_store (s\<lparr>db_minutely := upsert_row r (db_minutely s)\<rparr>)" for s
    by (simp add: wf_store_simps distinct_upsert_row)
  then show ?case using Cons by (auto intro: wfs.seq wfs.upd)
qed (simp add: wfs.ret)

lemma keeps_BatchUpsertMinutely: "keeps wf_store (BatchUpsertMinutely rows)"
  unfolding BatchUpsertMinutely_def
  by (auto intro!: wfs.ret wfs.tx_keeps wfs.seq keeps_upsert_minutely wfs.act simp: db_return_def)

lemma td_key_incr_row [simp]: "td_key (incr_row d r) = td_key r"
  by (simp add: td_key_def incr_row_def)

lemma keeps_IncrTrafficDaily: "keeps wf_store (IncrTrafficDaily d)"
proof -
  have "map td_key (map (\<lambda>x. if td_key x = td_key d then incr_row d x else x) rows) = map td_key rows" for rows
    by simp
  then show ?thesis
    unfolding IncrTrafficDaily_def
    by (intro wfs.act) (auto simp: wf_store_simps find_None_iff_key image_iff simp del: map_map split: option.split)
qed

lemma keeps_traffic_reads:
  "keeps wf_store (NodeHistory t i h)" "keeps wf_store (TrafficTopN t dd l)" "keeps wf_store (TrafficForNodeDays t i dd)"
  "keeps wf_store (TrafficTotals t)" "keeps wf_store (TodayTrafficByNode t)"
  unfolding NodeHistory_def TrafficTopN_def TrafficForNodeDays_def TrafficTotals_def TodayTrafficByNode_def
  by (auto intro: wfs.read wfs.seq wfs.ret)

section \<open>Reachable databases\<close>

text \<open>
  The databases a panel can produce: any sequence of the operations, each with any arguments and
  whether or not it succeeds, while the environment decides which statements fail.
\<close>

inductive db_reach :: "Store \<Rightarrow> bool" where
  reach_empty: "db_reach empty_store"
| reach_faults: "db_reach s \<Longrightarrow> db_reach (s\<lparr>db_faults := bs\<rparr>)"
| reach_CreateUser: "db_reach s \<Longrightarrow> db_reach (snd (CreateUser t name hash s))"
| reach_UpdatePassword: "db_reach s \<Longrightarrow> db_reach (snd (UpdatePassword t i hash s))"
| reach_CreateOrUpdateNode: "db_reach s \<Longrightarrow> db_reach (snd (CreateOrUpdateNode t n s))"
| reach_UpdateNodeStatus: "db_reach s \<Longrightarrow> db_reach (snd (UpdateNodeStatus t i st av fv s))"
| reach_SetNodeOffline: "db_reach s \<Longrightarrow> db_reach (snd (SetNodeOffline t i s))"
| reach_UpdateNodeFrps: "db_reach s \<Longrightarrow> db_reach (snd (UpdateNodeFrps t i tok prt s))"
| reach_UpdateNodeMeta: "db_reach s \<Longrightarrow> db_reach (snd (UpdateNodeMeta t i name region s))"
| reach_SetNodeLastCommitSeq: "db_reach s \<Longrightarrow> db_reach (snd (SetNodeLastCommitSeq i q s))"
| reach_DeleteNode: "db_reach s \<Longrightarrow> db_reach (snd (DeleteNode i s))"
| reach_CreateMapping: "db_reach s \<Longrightarrow> db_reach (snd (CreateMapping t m tgs s))"
| reach_UpdateMapping: "db_reach s \<Longrightarrow> db_reach (snd (UpdateMapping t i v m tgs s))"
| reach_SetMappingEnabled: "db_reach s \<Longrightarrow> db_reach (snd (SetMappingEnabled t i v b s))"
| reach_DeleteMapping: "db_reach s \<Longrightarrow> db_reach (snd (DeleteMapping i s))"
| reach_UpdateTargetStatus: "db_reach s \<Longrightarrow> db_reach (snd (UpdateTargetStatus mid nid st det s))"
| reach_UpdateTargetStatusByPort: "db_reach s \<Longrightarrow> db_reach (snd (UpdateTargetStatusByPort nid prt st s))"
| reach_AddLog: "db_reach s \<Longrightarrow> db_reach (snd (AddLog t typ src lnid det s))"
| reach_CleanLogs: "db_reach s \<Longrightarrow> db_reach (snd (CleanLogs t all s))"
| reach_SetSetting: "db_reach s \<Longrightarrow> db_reach (snd (SetSetting k val s))"
| reach_BatchUpsertMinutely: "db_reach s \<Longrightarrow> db_reach (snd (BatchUpsertMinutely rows s))"
| reach_IncrTrafficDaily: "db_reach s \<Longrightarrow> db_reach (snd (IncrTrafficDaily d s))"
| reach_RollupHourly: "db_reach s \<Longrightarrow> db_reach (snd (RollupHourly t s))"
| reach_RollupDaily: "db_reach s \<Longrightarrow> db_reach (snd (RollupDaily t s))"
| reach_CleanupMetrics: "db_reach s \<Longrightarrow> db_reach (snd (CleanupMetrics t s))"

lemmas keeps_store = keeps_users keeps_node_updates keeps_CreateOrUpdateNode keeps_DeleteNode keeps_CreateMapping
  keeps_UpdateMapping keeps_SetMappingEnabled keeps_DeleteMapping keeps_target_status keeps_logs keeps_series
  keeps_BatchUpsertMinutely keeps_IncrTrafficDaily

lemma wf_empty_store: "wf_store empty_store"
  by (simp add: wf_store_simps empty_store_def ids_ok_def)

lemma db_reach_wf: "db_reach s \<Longrightarrow> wf_store s"
  by (induction rule: db_reach.induct) (simp_all add: wf_empty_store keeps_store[THEN keepsD])

end
