(* ===== verification/Store_Tx.thy ===== *)
theory Store_Tx
  imports Store_Inv
begin

text \<open>
  What the transactions of the store do: an error leaves the tables as they were, the exact effect
  of creating and replacing a mapping with its targets, the optimistic lock, and the rollup tables.
\<close>

section \<open>Runs without injected faults\<close>

lemma stmt_ok [simp]: "db_faults s = [] \<Longrightarrow> stmt f s = f s"
  by (simp add: stmt_def)

lemma in_tx_ok:
  assumes "db_faults s = []" "\<And>x s'. body s = (x, s') \<Longrightarrow> db_faults s' = []"
  shows "in_tx body s = (case body s of (Inl e, s') \<Rightarrow> (Inl e, s) | (Inr x, s') \<Rightarrow> (Inr x, s'))"
  using assms by (auto simp: in_tx_def db_bind_def db_return_def split: prod.split sum.split)

lemma in_tx_error:
  assumes "in_tx body s = (Inl e, s')"
  shows "s' = s\<lparr>db_faults := db_faults s'\<rparr>"
  using assms by (auto simp: in_tx_def split: prod.splits sum.splits)

text \<open>No operation writes to an empty fault script.\<close>

lemma faultless: "triple (\<lambda>s. db_faults s = []) f (\<lambda>_ s. db_faults s = []) (\<lambda>s. db_faults s = []) \<Longrightarrow>
    db_faults s = [] \<Longrightarrow> f s = (x, s') \<Longrightarrow> db_faults s' = []"
  by (cases x) (auto dest: tripleD)

section \<open>Inserting the targets of a mapping\<close>

fun new_targets :: "int \<Rightarrow> int \<Rightarrow> int \<Rightarrow> TargetInput list \<Rightarrow> MappingTarget list" where
  "new_targets t mid k [] = []"
| "new_targets t mid k (tg # tgs) =
     \<lparr>mt_ID = k, mt_MappingID = mid, mt_NodeID = ti_NodeID tg, mt_RemotePort = ti_RemotePort tg,
      mt_TunnelStatus = ''pending'', mt_StatusDetail = [], mt_CreatedAt = t\<rparr> # new_targets t mid (k + 1) tgs"

text \<open>The inputs fit: one target per node, none on a port of its node that is taken.\<close>

definition targets_fit :: "int \<Rightarrow> MappingTarget list \<Rightarrow> TargetInput list \<Rightarrow> bool" where
  "targets_fit mid old tgs \<longleftrightarrow> distinct (map ti_NodeID tgs) \<and>
     (\<forall>tg\<in>set tgs. \<forall>x\<in>set old. mt_NodeID x = ti_NodeID tg \<longrightarrow> mt_MappingID x \<noteq> mid \<and> mt_RemotePort x \<noteq> ti_RemotePort tg)"

lemma insert_targets_ok:
  assumes "db_faults s = []" "targets_fit mid (db_targets s) tgs"
  shows "insert_targets t mid tgs s =
    (Inr (), s\<lparr>db_targets := db_targets s @ new_targets t mid (db_nextTarget s) tgs,
               db_nextTarget := db_nextTarget s + int (length tgs)\<rparr>)"
  using assms
proof (induction tgs arbitrary: s)
  case (Cons tg tgs)
  let ?new = "\<lparr>mt_ID = db_nextTarget s, mt_MappingID = mid, mt_NodeID = ti_NodeID tg, mt_RemotePort = ti_RemotePort tg,
      mt_TunnelStatus = ''pending'', mt_StatusDetail = [], mt_CreatedAt = t\<rparr>"
  let ?s = "s\<lparr>db_targets := db_targets s @ [?new], db_nextTarget := db_nextTarget s + 1\<rparr>"
  have "insert_target t mid tg s = (Inr (), ?s)"
    using Cons.prems by (auto simp: insert_target_def targets_fit_def)
  moreover have "targets_fit mid (db_targets ?s) tgs"
    using Cons.prems(2) by (auto simp: targets_fit_def)
  ultimately show ?case using Cons.IH[of ?s] Cons.prems(1) by (simp add: db_bind_def algebra_simps)
qed (simp add: db_return_def)

lemma insert_targets_clash:
  assumes "db_faults s = []" "\<not> targets_fit mid (db_targets s) tgs"
  shows "\<exists>k s'. insert_targets t mid tgs s = (Inl (DBDuplicate k), s') \<and> db_faults s' = []"
  using assms
proof (induction tgs arbitrary: s)
  case (Cons tg tgs)
  let ?new = "\<lparr>mt_ID = db_nextTarget s, mt_MappingID = mid, mt_NodeID = ti_NodeID tg, mt_RemotePort = ti_RemotePort tg,
      mt_TunnelStatus = ''pending'', mt_StatusDetail = [], mt_CreatedAt = t\<rparr>"
  let ?s = "s\<lparr>db_targets := db_targets s @ [?new], db_nextTarget := db_nextTarget s + 1\<rparr>"
  show ?case
  proof (cases "\<exists>x\<in>set (db_targets s). mt_NodeID x = ti_NodeID tg \<and> (mt_MappingID x = mid \<or> mt_RemotePort x = ti_RemotePort tg)")
    case True
    then show ?thesis using Cons.prems(1) by (auto simp: insert_target_def db_bind_def)
  next
    case False
    then have "insert_target t mid tg s = (Inr (), ?s)" using Cons.prems(1) by (auto simp: insert_target_def)
    moreover have "\<not> targets_fit mid (db_targets ?s) tgs"
      using Cons.prems(2) False by (auto simp: targets_fit_def)
    ultimately show ?thesis using Cons.IH[of ?s] Cons.prems(1) by (simp add: db_bind_def)
  qed
qed (simp add: targets_fit_def)

section \<open>Creating and replacing a mapping\<close>

definition with_mapping :: "int \<Rightarrow> Mapping \<Rightarrow> Store \<Rightarrow> Store" where
  "with_mapping t m s = s\<lparr>db_mappings := db_mappings s @ [m\<lparr>mp_ID := db_nextMapping s, mp_Version := 1,
     mp_CreatedAt := t, mp_UpdatedAt := t\<rparr>], db_nextMapping := db_nextMapping s + 1\<rparr>"

lemma CreateMapping_ok:
  assumes "db_faults s = []" "targets_fit (db_nextMapping s) (db_targets s) tgs"
  shows "CreateMapping t m tgs s =
    (Inr (db_nextMapping s), (with_mapping t m s)\<lparr>db_targets := db_targets s @ new_targets t (db_nextMapping s) (db_nextTarget s) tgs,
       db_nextTarget := db_nextTarget s + int (length tgs)\<rparr>)"
proof -
  have "insert_mapping t m s = (Inr (db_nextMapping s), with_mapping t m s)"
    using assms(1) by (simp add: insert_mapping_def with_mapping_def)
  moreover have "db_faults (with_mapping t m s) = []" "db_targets (with_mapping t m s) = db_targets s"
    "db_nextTarget (with_mapping t m s) = db_nextTarget s"
    using assms(1) by (simp_all add: with_mapping_def)
  ultimately show ?thesis
    unfolding CreateMapping_def using assms
    by (subst in_tx_ok) (auto simp: db_bind_def db_return_def insert_targets_ok)
qed

lemma CreateMapping_clash:
  assumes "db_faults s = []" "\<not> targets_fit (db_nextMapping s) (db_targets s) tgs"
  shows "\<exists>k. CreateMapping t m tgs s = (Inl (DBDuplicate k), s)"
proof -
  have i: "insert_mapping t m s = (Inr (db_nextMapping s), with_mapping t m s)"
    using assms(1) by (simp add: insert_mapping_def with_mapping_def)
  obtain k s' where "insert_targets t (db_nextMapping s) tgs (with_mapping t m s) = (Inl (DBDuplicate k), s')" "db_faults s' = []"
    using insert_targets_clash[of "with_mapping t m s" "db_nextMapping s" tgs t] assms by (auto simp: with_mapping_def)
  with i assms(1) show ?thesis
    unfolding CreateMapping_def by (subst in_tx_ok) (auto simp: db_bind_def)
qed

definition edit_mapping :: "int \<Rightarrow> Mapping \<Rightarrow> Mapping \<Rightarrow> Mapping" where
  "edit_mapping t m old = old\<lparr>mp_LocalPort := mp_LocalPort m, mp_Proto := mp_Proto m, mp_Remark := mp_Remark m,
     mp_Enabled := mp_Enabled m, mp_UpdatedAt := t\<rparr>"

definition has_version :: "int \<Rightarrow> int \<Rightarrow> Store \<Rightarrow> bool" where
  "has_version i v s \<longleftrightarrow> (\<exists>m\<in>set (db_mappings s). mp_ID m = i \<and> mp_Version m = v)"

definition other_targets :: "int \<Rightarrow> Store \<Rightarrow> MappingTarget list" where
  "other_targets i s = filter (\<lambda>x. mt_MappingID x \<noteq> i) (db_targets s)"

text \<open>The three outcomes of \<^verbatim>\<open>UpdateMapping\<close> when the database answers.\<close>

lemma UpdateMapping_cases:
  assumes "db_faults s = []"
  shows "\<not> has_version i v s \<Longrightarrow> UpdateMapping t i v m tgs s = (Inl ErrOptimisticConflict, s)"
    and "has_version i v s \<Longrightarrow> \<not> targets_fit i (other_targets i s) tgs \<Longrightarrow>
      \<exists>k. UpdateMapping t i v m tgs s = (Inl (DBDuplicate k), s)"
    and "has_version i v s \<Longrightarrow> targets_fit i (other_targets i s) tgs \<Longrightarrow>
      UpdateMapping t i v m tgs s =
        (Inr (), s\<lparr>db_mappings := map (bump_version i v (edit_mapping t m)) (db_mappings s),
           db_targets := other_targets i s @ new_targets t i (db_nextTarget s) tgs,
           db_nextTarget := db_nextTarget s + int (length tgs)\<rparr>)"
proof -
  define s1 where "s1 = s\<lparr>db_mappings := map (bump_version i v (edit_mapping t m)) (db_mappings s)\<rparr>"
  define s2 where "s2 = s1\<lparr>db_targets := other_targets i s\<rparr>"
  have f: "db_faults s1 = []" "db_faults s2 = []" "db_targets s2 = other_targets i s" "db_nextTarget s2 = db_nextTarget s"
    using assms by (simp_all add: s1_def s2_def)
  have u: "update_versioned i v (\<lambda>old. old\<lparr>mp_LocalPort := mp_LocalPort m, mp_Proto := mp_Proto m, mp_Remark := mp_Remark m,
      mp_Enabled := mp_Enabled m, mp_UpdatedAt := t\<rparr>) s = (Inr (has_version i v s), s1)"
    using assms by (simp add: update_versioned_def has_version_def s1_def edit_mapping_def[abs_def])
  have d: "stmt (db_upd (\<lambda>s. s\<lparr>db_targets := filter (\<lambda>x. mt_MappingID x \<noteq> i) (db_targets s)\<rparr>)) s1 = (Inr (), s2)"
    using f by (simp add: db_upd_def s2_def other_targets_def s1_def)
  show "\<not> has_version i v s \<Longrightarrow> UpdateMapping t i v m tgs s = (Inl ErrOptimisticConflict, s)"
    unfolding UpdateMapping_def by (subst in_tx_ok) (use assms f in \<open>auto simp: db_bind_def db_fail_def u\<close>)
  show "\<exists>k. UpdateMapping t i v m tgs s = (Inl (DBDuplicate k), s)"
    if "has_version i v s" "\<not> targets_fit i (other_targets i s) tgs"
    using insert_targets_clash[of s2 i tgs t] f that assms
    unfolding UpdateMapping_def by (subst in_tx_ok) (auto simp: db_bind_def u d)
  show "UpdateMapping t i v m tgs s =
      (Inr (), s\<lparr>db_mappings := map (bump_version i v (edit_mapping t m)) (db_mappings s),
         db_targets := other_targets i s @ new_targets t i (db_nextTarget s) tgs,
         db_nextTarget := db_nextTarget s + int (length tgs)\<rparr>)"
    if "has_version i v s" "targets_fit i (other_targets i s) tgs"
    using insert_targets_ok[of s2 i tgs t] f that assms
    unfolding UpdateMapping_def by (subst in_tx_ok) (auto simp: db_bind_def u d db_upd_def other_targets_def s2_def s1_def)
qed

section \<open>The optimistic lock\<close>

text \<open>What the operations do to the table of mappings, under any fault script.\<close>

definition mappings_are :: "Mapping list \<Rightarrow> Store \<Rightarrow> bool" where
  "mappings_are M s \<longleftrightarrow> db_mappings s = M"

interpretation maps: table_invariant "mappings_are M" for M
  by unfold_locales (simp add: on_tables_def mappings_are_def)

definition row_version :: "int \<Rightarrow> int \<Rightarrow> Mapping list \<Rightarrow> bool" where
  "row_version i v M \<longleftrightarrow> (\<exists>m\<in>set M. mp_ID m = i \<and> mp_Version m = v)"

lemma insert_targets_mappings: "keeps (mappings_are M) (insert_targets t mid tgs)"
proof (induction tgs)
  case (Cons tg tgs)
  have "keeps (mappings_are M) (insert_target t mid tg)"
    unfolding insert_target_def by (rule maps.act) (auto simp: mappings_are_def)
  then show ?case using Cons by (simp add: maps.seq)
qed (simp add: maps.ret)

lemma update_versioned_mappings:
  "triple (mappings_are M) (update_versioned i v f)
     (\<lambda>hit s. hit = row_version i v M \<and> mappings_are (map (bump_version i v f) M) s) (\<lambda>_. True)"
  unfolding update_versioned_def
  by (intro triple_stmt tripleI) (auto simp: maps.on_tables mappings_are_def row_version_def)

definition bumped :: "int \<Rightarrow> int \<Rightarrow> (Mapping \<Rightarrow> Mapping) \<Rightarrow> Mapping list \<Rightarrow> Store \<Rightarrow> bool" where
  "bumped i v f M s \<longleftrightarrow> row_version i v M \<and> mappings_are (map (bump_version i v f) M) s"

lemma on_tables_bumped: "on_tables (bumped i v f M)"
  by (simp add: on_tables_def bumped_def mappings_are_def)

lemma UpdateMapping_bumps:
  "triple (mappings_are M) (UpdateMapping t i v m tgs) (\<lambda>_. bumped i v (edit_mapping t m) M) (mappings_are M)"
proof -
  let ?f = "edit_mapping t m" and ?del = "stmt (db_upd (\<lambda>s. s\<lparr>db_targets := filter (\<lambda>x. mt_MappingID x \<noteq> i) (db_targets s)\<rparr>))"
  have body: "keeps (mappings_are M') (db_bind ?del (\<lambda>_. insert_targets t i tgs))" for M'
    by (intro maps.seq maps.upd insert_targets_mappings) (simp add: mappings_are_def)
  have "triple (\<lambda>s. hit = row_version i v M \<and> mappings_are (map (bump_version i v ?f) M) s)
     (if \<not> hit then db_fail ErrOptimisticConflict else db_bind ?del (\<lambda>_. insert_targets t i tgs))
     (\<lambda>_. bumped i v ?f M) (\<lambda>_. True)" for hit
    using tripleD(1)[OF body[unfolded keeps_def]]
    by (cases hit) (auto simp: bumped_def intro!: triple_fail tripleI)
  then show ?thesis
    unfolding UpdateMapping_def edit_mapping_def[abs_def]
    by (intro triple_in_tx triple_bind[OF update_versioned_mappings])
      (auto simp: maps.on_tables on_tables_bumped)
qed

lemma SetMappingEnabled_bumps:
  "triple (mappings_are M) (SetMappingEnabled t i v b)
     (\<lambda>_. bumped i v (\<lambda>old. old\<lparr>mp_Enabled := b, mp_UpdatedAt := t\<rparr>) M) (\<lambda>_. True)"
  unfolding SetMappingEnabled_def
  by (intro triple_bind[OF update_versioned_mappings])
    (auto simp: bumped_def intro!: triple_return triple_fail split: if_splits)

lemma bumped_version_gone:
  assumes "bumped i v f M s" "distinct (map mp_ID M)"
  shows "\<not> row_version i v (db_mappings s)"
proof -
  obtain m where m: "m \<in> set M" "mp_ID m = i" "mp_Version m = v"
    using assms(1) by (auto simp: bumped_def row_version_def)
  have "mp_Version (bump_version i v f x) \<noteq> v \<or> mp_ID (bump_version i v f x) \<noteq> i" if "x \<in> set M" for x
  proof (cases "mp_ID x = i")
    case True
    then have "x = m" using that m assms(2) by (auto simp: distinct_map inj_on_def)
    then show ?thesis using m by (simp add: bump_version_def)
  qed (simp add: bump_version_def)
  then show ?thesis using assms(1) by (auto simp: bumped_def mappings_are_def row_version_def)
qed

lemma stale_version_refused:
  assumes "\<not> row_version i v (db_mappings s)"
  shows "fst (UpdateMapping t i v m tgs s) \<noteq> Inr ()" "fst (SetMappingEnabled t i v b s) \<noteq> Inr ()"
proof -
  have "mappings_are (db_mappings s) s" by (simp add: mappings_are_def)
  with tripleD(1)[OF UpdateMapping_bumps this] tripleD(1)[OF SetMappingEnabled_bumps this] assms
  show "fst (UpdateMapping t i v m tgs s) \<noteq> Inr ()" "fst (SetMappingEnabled t i v b s) \<noteq> Inr ()"
    by (metis bumped_def eq_fst_iff)+
qed

section \<open>Traffic rows\<close>

definition traffic_of :: "Store \<Rightarrow> int \<Rightarrow> string \<Rightarrow> TrafficDaily option" where
  "traffic_of s i day = find (\<lambda>r. td_key r = (i, day)) (db_traffic s)"

lemma find_update_key:
  assumes "\<And>x. k x = w \<Longrightarrow> k (g x) = w"
  shows "find (\<lambda>x. k x = v) (map (\<lambda>x. if k x = w then g x else x) xs)
    = (if v = w then map_option g (find (\<lambda>x. k x = w) xs) else find (\<lambda>x. k x = v) xs)"
  using assms by (induction xs) auto

lemma find_map_section: "(\<And>y. k (h y) = y) \<Longrightarrow> find (\<lambda>x. k x = v) (map h ks) = map_option h (find (\<lambda>y. y = v) ks)"
  by (induction ks) auto

lemma find_SomeD: "find P xs = Some x \<Longrightarrow> P x \<and> x \<in> set xs"
  by (auto simp: find_Some_iff)

lemma find_append: "find P (xs @ ys) = (case find P xs of None \<Rightarrow> find P ys | Some x \<Rightarrow> Some x)"
  by (induction xs) auto

text \<open>A successful increment adds to the row of its key and touches no other.\<close>

lemma IncrTrafficDaily_row:
  assumes "IncrTrafficDaily d s = (Inr (), s')"
  shows "traffic_of s' i day =
    (if (i, day) = td_key d
     then Some (case traffic_of s i day of None \<Rightarrow> d | Some r \<Rightarrow> incr_row d r)
     else traffic_of s i day)"
proof -
  have "db_traffic s' = (case find (\<lambda>r. td_key r = td_key d) (db_traffic s) of None \<Rightarrow> db_traffic s @ [d]
      | Some r \<Rightarrow> map (\<lambda>x. if td_key x = td_key d then incr_row d x else x) (db_traffic s))"
    using assms by (auto simp: IncrTrafficDaily_def stmt_def split: list.splits if_splits option.splits)
  then show ?thesis
    by (auto simp: traffic_of_def find_append find_update_key split: option.split)
qed

lemma IncrTrafficDaily_fails: "IncrTrafficDaily d s = (Inl e, s') \<Longrightarrow> db_traffic s' = db_traffic s"
  by (auto simp: IncrTrafficDaily_def stmt_def split: list.splits if_splits option.splits)

section \<open>Rollups\<close>

definition row_of :: "MinuteRow list \<Rightarrow> int \<times> int \<Rightarrow> MinuteRow option" where
  "row_of rows k = find (\<lambda>r. mr_key r = k) rows"

lemma row_of_upsert: "row_of (upsert_row r rows) k = (if k = mr_key r then Some r else row_of rows k)"
proof (cases "mr_key r \<in> mr_key ` set rows")
  case True
  then have "find (\<lambda>x. mr_key x = mr_key r) rows \<noteq> None" by (simp add: find_None_iff_key)
  then show ?thesis using True by (auto simp: upsert_row_def row_of_def find_update_key)
next
  case False
  then have "find (\<lambda>x. mr_key x = mr_key r) rows = None" by (simp add: find_None_iff_key)
  then show ?thesis using False by (auto simp: upsert_row_def row_of_def find_append split: option.splits)
qed

lemma row_of_fold_upsert:
  assumes "distinct (map mr_key rs)"
  shows "row_of (fold upsert_row rs rows) k = (case row_of rs k of Some r \<Rightarrow> Some r | None \<Rightarrow> row_of rows k)"
  using assms
proof (induction rs arbitrary: rows)
  case (Cons r rs)
  then have "row_of rs (mr_key r) = None" by (simp add: row_of_def find_None_iff_key)
  moreover have "row_of (r # rs) k = (if k = mr_key r then Some r else row_of rs k)" by (simp add: row_of_def)
  ultimately show ?case using Cons by (auto simp: row_of_upsert split: option.split)
qed (simp add: row_of_def)

definition bucket_rows :: "int \<Rightarrow> int \<Rightarrow> MinuteRow list \<Rightarrow> int \<times> int \<Rightarrow> MinuteRow list" where
  "bucket_rows w since rows k =
     filter (\<lambda>r. since \<le> mr_TS r \<and> mr_NodeID r = fst k \<and> bucket_of w (mr_TS r) = snd k) rows"

lemma keys_rollup_rows:
  "map mr_key (rollup_rows w since rows)
   = remdups (map (\<lambda>r. (mr_NodeID r, bucket_of w (mr_TS r))) (filter (\<lambda>r. since \<le> mr_TS r) rows))"
  by (simp add: rollup_rows_def Let_def o_def rollup_group_def mr_key_def)

lemma find_map_inj: "find (\<lambda>x. x = k) (remdups ks) = (if k \<in> set ks then Some k else None)"
  by (induction ks) auto

lemma row_of_rollup:
  "row_of (rollup_rows w since rows) k
   = (let g = bucket_rows w since rows k in if g = [] then None else Some (rollup_group k g))"
proof -
  let ?key = "\<lambda>r. (mr_NodeID r, bucket_of w (mr_TS r))" and ?recent = "filter (\<lambda>r. since \<le> mr_TS r) rows"
  have "row_of (rollup_rows w since rows) k
      = map_option (\<lambda>k. rollup_group k (filter (\<lambda>r. ?key r = k) ?recent)) (find (\<lambda>x. x = k) (remdups (map ?key ?recent)))"
    unfolding rollup_rows_def Let_def row_of_def by (rule find_map_section) (simp add: mr_key_def rollup_group_def)
  moreover have "filter (\<lambda>r. ?key r = k) ?recent = bucket_rows w since rows k"
    by (auto simp: bucket_rows_def intro: filter_cong)
  moreover have "k \<in> set (map ?key ?recent) \<longleftrightarrow> bucket_rows w since rows k \<noteq> []"
    by (cases k) (force simp: bucket_rows_def filter_empty_conv)
  ultimately show ?thesis by (simp only: find_map_inj Let_def) auto
qed

text \<open>
  The rows of a rollup table after \<^verbatim>\<open>RollupHourly\<close>: a bucket with minutes since \<open>t - 3h\<close> holds the
  aggregate of \<^emph>\<open>those\<close> minutes, every other row is the old one.
\<close>

lemma RollupHourly_row:
  assumes "RollupHourly t s = (Inr (), s')"
  shows "row_of (db_hourly s') k =
    (let g = bucket_rows 3600 (t - 3 * 3600) (db_minutely s) k
     in if g = [] then row_of (db_hourly s) k else Some (rollup_group k g))"
proof -
  have "db_hourly s' = fold upsert_row (rollup_rows 3600 (t - 3 * 3600) (db_minutely s)) (db_hourly s)"
    using assms by (auto simp: RollupHourly_def stmt_def db_upd_def split: list.splits if_splits)
  then show ?thesis
    by (simp add: row_of_fold_upsert keys_rollup_rows row_of_rollup Let_def)
qed

text \<open>A bucket that begins inside the window is aggregated from all of its minutes.\<close>

lemma bucket_rows_full:
  assumes "since \<le> snd k" "0 < w"
  shows "bucket_rows w since rows k = filter (\<lambda>r. mr_NodeID r = fst k \<and> bucket_of w (mr_TS r) = snd k) rows"
proof -
  have "since \<le> x" if "bucket_of w x = snd k" for x
  proof -
    have "0 \<le> x mod w" using assms(2) by simp
    then show ?thesis using assms(1) that unfolding bucket_of_def by linarith
  qed
  then show ?thesis by (auto simp: bucket_rows_def intro: filter_cong)
qed

lemma fold_upsert_idem:
  assumes "distinct (map mr_key rs)" "distinct (map mr_key rows)" "\<And>k r. row_of rs k = Some r \<Longrightarrow> row_of rows k = Some r"
  shows "fold upsert_row rs rows = rows"
proof -
  have same: "upsert_row r rows = rows" if "r \<in> set rs" for r
  proof -
    have "row_of rs (mr_key r) = Some r"
      using that assms(1)
      by (cases "row_of rs (mr_key r)") (auto simp: row_of_def find_None_iff distinct_map inj_on_def dest: find_SomeD)
    from assms(3)[OF this] have "r \<in> set rows" by (auto simp: row_of_def dest: find_SomeD)
    then have "map (\<lambda>x. if mr_key x = mr_key r then r else x) rows = rows"
      using assms(2) by (auto simp: distinct_map inj_on_def intro!: map_idI)
    then show ?thesis using \<open>r \<in> set rows\<close> by (simp add: upsert_row_def)
  qed
  have "fold upsert_row rs' rows = rows" if "set rs' \<subseteq> set rs" for rs'
    using that by (induction rs') (auto simp: same)
  then show ?thesis by simp
qed

lemma RollupHourly_idem:
  assumes "wf_store s" "RollupHourly t s = (Inr (), s')" "db_faults s' = []"
  shows "RollupHourly t s' = (Inr (), s')"
proof -
  let ?rs = "rollup_rows 3600 (t - 3 * 3600) (db_minutely s)"
  have s': "db_hourly s' = fold upsert_row ?rs (db_hourly s)" "db_minutely s' = db_minutely s"
    using assms(2) by (auto simp: RollupHourly_def stmt_def db_upd_def split: list.splits if_splits)
  have d: "distinct (map mr_key ?rs)" by (simp add: keys_rollup_rows)
  have "fold upsert_row ?rs (db_hourly s') = db_hourly s'"
    using assms(1) d by (intro fold_upsert_idem)
      (auto simp: s' row_of_fold_upsert wf_store_simps distinct_fold_upsert split: option.split)
  then show ?thesis
    using assms(3) by (simp add: RollupHourly_def db_upd_def s'(2))
qed

section \<open>Windows of days\<close>

lemma AddDate_days_number: "shanghai_day_number (AddDate_days t k) = shanghai_day_number t + k"
  by (simp add: shanghai_day_number_def AddDate_days_def algebra_simps)

lemma shanghai_date_le_iff:
  assumes "fits_four_digits (shanghai_day_number s)" "fits_four_digits (shanghai_day_number t)"
  shows "shanghai_date s \<le> shanghai_date t \<longleftrightarrow> shanghai_day_number s \<le> shanghai_day_number t"
  using shanghai_date_less_iff[OF assms(2,1)] by (simp flip: not_less)

section \<open>Properties\<close>

definition ex_mapping :: Mapping where
  "ex_mapping = \<lparr>mp_ID = 0, mp_LocalPort = 22, mp_Proto = ''tcp'', mp_Remark = [], mp_Enabled = True, mp_Version = 0,
     mp_CreatedAt = 0, mp_UpdatedAt = 0\<rparr>"

definition ex_targets :: "TargetInput list" where
  "ex_targets = [\<lparr>ti_NodeID = 1, ti_RemotePort = 6000\<rparr>]"

definition ex_db :: Store where
  "ex_db = snd (CreateMapping 5 ex_mapping ex_targets empty_store)"

lemma ex_db_eq: "ex_db = (with_mapping 5 ex_mapping empty_store)\<lparr>db_targets := new_targets 5 1 1 ex_targets, db_nextTarget := 2\<rparr>"
proof -
  have "targets_fit (db_nextMapping empty_store) (db_targets empty_store) ex_targets"
    by (simp add: targets_fit_def ex_targets_def empty_store_def)
  from CreateMapping_ok[OF _ this, of 5 ex_mapping] show ?thesis
    by (simp add: ex_db_def empty_store_def ex_targets_def)
qed

lemma ex_db_wf: "wf_store ex_db"
  unfolding ex_db_def by (rule keepsD[OF keeps_CreateMapping wf_empty_store])

text \<open>
  C3: integrity of the database. In every database the panel can produce, under any sequence of
  operations and any pattern of failing statements, ids are distinct and below the next
  auto-increment value, the unique keys hold and no target belongs to a mapping that does not exist.
\<close>
theorem db_integrity:
  assumes "db_reach s"
  shows "wf_store s"
  using assms by (rule db_reach_wf)

theorem db_integrity_witness: "wf_store (snd (CreateMapping 5 ex_mapping ex_targets empty_store))"
  by (rule db_integrity) (intro reach_CreateMapping reach_empty)

text \<open>
  No two tunnels share a public port. In every reachable database, two targets on the same node
  and remote port are the same row.
\<close>
theorem public_port_unique:
  assumes "db_reach s" "x \<in> set (db_targets s)" "y \<in> set (db_targets s)" "mt_NodeID x = mt_NodeID y" "mt_RemotePort x = mt_RemotePort y"
  shows "x = y"
  using db_reach_wf[OF assms(1)] assms(2-) by (auto simp: wf_store_simps distinct_map inj_on_def)

theorem public_port_unique_witness: "hd (db_targets ex_db) = last (db_targets ex_db)"
proof -
  have "db_reach ex_db" by (simp add: ex_db_def reach_CreateMapping reach_empty)
  from public_port_unique[OF this] show ?thesis by (simp add: ex_db_eq ex_targets_def)
qed

text \<open>
  C11: the optimistic lock. After an update of a mapping from version \<open>v\<close> has succeeded, no update and
  no toggle that was based on version \<open>v\<close> succeeds: of two editors of the same version at most one
  wins, whatever statements fail.
\<close>
theorem optimistic_lock:
  assumes "wf_store s" "UpdateMapping t i v m tgs s = (Inr (), s')"
  shows "fst (UpdateMapping t' i v m' tgs' s') \<noteq> Inr () \<and> fst (SetMappingEnabled t' i v b s') \<noteq> Inr ()"
proof -
  have "distinct (map mp_ID (db_mappings s))" using assms(1) by (auto simp: wf_store_simps dest: ids_ok_distinct)
  moreover have "bumped i v (edit_mapping t m) (db_mappings s) s'"
    by (rule tripleD(1)[OF UpdateMapping_bumps _ assms(2)]) (simp add: mappings_are_def)
  ultimately have "\<not> row_version i v (db_mappings s')" using bumped_version_gone by blast
  then show ?thesis by (simp add: stale_version_refused)
qed

theorem optimistic_lock_witness:
  "fst (UpdateMapping 7 1 1 ex_mapping [] (snd (UpdateMapping 6 1 1 ex_mapping ex_targets ex_db))) \<noteq> Inr () \<and>
   fst (SetMappingEnabled 7 1 1 True (snd (UpdateMapping 6 1 1 ex_mapping ex_targets ex_db))) \<noteq> Inr ()"
proof -
  have "db_faults ex_db = []" "has_version 1 1 ex_db" "targets_fit 1 (other_targets 1 ex_db) ex_targets"
    by (simp_all add: ex_db_eq with_mapping_def empty_store_def has_version_def targets_fit_def other_targets_def ex_targets_def ex_mapping_def)
  from UpdateMapping_cases(3)[OF this, of 6 ex_mapping]
  obtain s' where "UpdateMapping 6 1 1 ex_mapping ex_targets ex_db = (Inr (), s')" by blast
  with optimistic_lock[OF ex_db_wf this, of 7 ex_mapping "[]" True] show ?thesis by simp
qed

text \<open>
  The outcomes of replacing a mapping, when the database answers: a version that is not current
  gives the optimistic-lock error and a target that clashes gives the duplicate-key error, both with
  all tables unchanged; otherwise the row is edited, its version is increased, and its targets are
  exactly the requested ones while all other targets stay.
\<close>
theorem UpdateMapping_outcomes:
  assumes "db_faults s = []"
  shows "if \<not> has_version i v s then UpdateMapping t i v m tgs s = (Inl ErrOptimisticConflict, s)
    else if \<not> targets_fit i (other_targets i s) tgs then \<exists>k. UpdateMapping t i v m tgs s = (Inl (DBDuplicate k), s)
    else UpdateMapping t i v m tgs s =
        (Inr (), s\<lparr>db_mappings := map (bump_version i v (edit_mapping t m)) (db_mappings s),
           db_targets := other_targets i s @ new_targets t i (db_nextTarget s) tgs,
           db_nextTarget := db_nextTarget s + int (length tgs)\<rparr>)"
  using UpdateMapping_cases[OF assms] by auto

theorem UpdateMapping_outcomes_witness:
  "UpdateMapping 6 1 9 ex_mapping ex_targets ex_db = (Inl ErrOptimisticConflict, ex_db)"
proof -
  have "db_faults ex_db = []" "\<not> has_version 1 9 ex_db"
    by (simp_all add: ex_db_eq with_mapping_def empty_store_def has_version_def)
  with UpdateMapping_outcomes[of ex_db 1 9 6 ex_mapping ex_targets] show ?thesis by simp
qed

text \<open>
  Transactions are all or nothing. When creating, replacing or deleting a mapping, deleting a node
  or writing a batch of minute rows fails, for whatever reason and at whatever statement, every table
  is as it was.
\<close>
theorem failed_transaction_changes_nothing:
  "(CreateMapping t m tgs s = (Inl e, s') \<longrightarrow> s' = s\<lparr>db_faults := db_faults s'\<rparr>) \<and>
   (UpdateMapping t i v m tgs s = (Inl e, s') \<longrightarrow> s' = s\<lparr>db_faults := db_faults s'\<rparr>) \<and>
   (DeleteMapping i s = (Inl e, s') \<longrightarrow> s' = s\<lparr>db_faults := db_faults s'\<rparr>) \<and>
   (DeleteNode i s = (Inl e, s') \<longrightarrow> s' = s\<lparr>db_faults := db_faults s'\<rparr>) \<and>
   (BatchUpsertMinutely rows s = (Inl e, s') \<longrightarrow> s' = s\<lparr>db_faults := db_faults s'\<rparr>)"
  by (auto simp only: CreateMapping_def UpdateMapping_def DeleteMapping_def DeleteNode_def BatchUpsertMinutely_def db_return_def
      split: if_splits dest!: in_tx_error)

theorem failed_transaction_changes_nothing_witness:
  "snd (DeleteMapping 1 (ex_db\<lparr>db_faults := [False, False, True]\<rparr>)) = ex_db"
proof -
  let ?s = "ex_db\<lparr>db_faults := [False, False, True]\<rparr>"
  have "DeleteMapping 1 ?s = (Inl DBFault, ex_db)"
    by (simp add: DeleteMapping_def in_tx_def db_bind_def stmt_def db_return_def db_upd_def ex_db_eq with_mapping_def empty_store_def)
  with failed_transaction_changes_nothing[of _ _ _ ?s DBFault ex_db 1] show ?thesis by auto
qed

text \<open>
  Hourly rollup. After \<^verbatim>\<open>RollupHourly\<close> the row of a node and hour that has minutes in the three-hour
  window is the average and maximum of those minutes, every other row is unchanged, an hour that
  begins in the window is aggregated from all of its minutes, and repeating the rollup changes
  nothing.
\<close>
theorem hourly_rollup:
  assumes "wf_store s" "RollupHourly t s = (Inr (), s')"
  shows "(\<forall>k. row_of (db_hourly s') k =
      (let g = bucket_rows 3600 (t - 3 * 3600) (db_minutely s) k
       in if g = [] then row_of (db_hourly s) k else Some (rollup_group k g))) \<and>
    (\<forall>k. t - 3 * 3600 \<le> snd k \<longrightarrow> bucket_rows 3600 (t - 3 * 3600) (db_minutely s) k
       = filter (\<lambda>r. mr_NodeID r = fst k \<and> bucket_of 3600 (mr_TS r) = snd k) (db_minutely s)) \<and>
    (db_faults s' = [] \<longrightarrow> RollupHourly t s' = (Inr (), s'))"
  using RollupHourly_row[OF assms(2)] RollupHourly_idem[OF assms] bucket_rows_full by auto

definition ex_minutes :: "MinuteRow list" where
  "ex_minutes = [\<lparr>mr_NodeID = 1, mr_TS = 36000, mr_CPUAvg = 10, mr_MemAvg = 0, mr_RxPeak = 5, mr_TxPeak = 0\<rparr>,
                 \<lparr>mr_NodeID = 1, mr_TS = 38000, mr_CPUAvg = 90, mr_MemAvg = 0, mr_RxPeak = 1, mr_TxPeak = 0\<rparr>]"

definition ex_metrics_db :: Store where
  "ex_metrics_db = empty_store\<lparr>db_minutely := ex_minutes\<rparr>"

lemma ex_metrics_db_wf: "wf_store ex_metrics_db" "db_faults ex_metrics_db = []"
  by (simp_all add: ex_metrics_db_def wf_store_simps empty_store_def ids_ok_def ex_minutes_def mr_key_def)

lemma RollupHourly_ok: "db_faults s = [] \<Longrightarrow> \<exists>s'. RollupHourly t s = (Inr (), s') \<and> db_faults s' = [] \<and> db_minutely s' = db_minutely s"
  by (simp add: RollupHourly_def db_upd_def)

theorem hourly_rollup_witness:
  "row_of (db_hourly (snd (RollupHourly 39000 ex_metrics_db))) (1, 36000) = Some (rollup_group (1, 36000) ex_minutes)"
proof -
  obtain s' where s': "RollupHourly 39000 ex_metrics_db = (Inr (), s')" using RollupHourly_ok[OF ex_metrics_db_wf(2)] by blast
  have "bucket_rows 3600 (39000 - 3 * 3600) (db_minutely ex_metrics_db) (1, 36000) = ex_minutes"
    by (simp add: bucket_rows_def ex_metrics_db_def ex_minutes_def bucket_of_def)
  with hourly_rollup[OF ex_metrics_db_wf(1) s'] s' show ?thesis by (simp add: ex_minutes_def)
qed

text \<open>
  The rollup forgets. When the start of the window falls inside an hour, the rollup replaces the
  hour's row by the aggregate of its later minutes alone, although the minutes before are still in
  the table and were part of the row: rolling up at 11:00 and again at 13:20 changes the average CPU
  of the hour from 10:00 without any new sample.
\<close>
theorem rollup_overwrites_full_hour:
  "map_option mr_CPUAvg (row_of (db_hourly (snd (RollupHourly 39600 ex_metrics_db))) (1, 36000)) = Some 50 \<and>
   map_option mr_CPUAvg (row_of (db_hourly (snd (RollupHourly 48000 (snd (RollupHourly 39600 ex_metrics_db))))) (1, 36000)) = Some 90"
proof -
  obtain s1 where s1: "RollupHourly 39600 ex_metrics_db = (Inr (), s1)" "db_faults s1 = []" "db_minutely s1 = ex_minutes"
    using RollupHourly_ok[OF ex_metrics_db_wf(2)] by (auto simp: ex_metrics_db_def)
  obtain s2 where s2: "RollupHourly 48000 s1 = (Inr (), s2)" using RollupHourly_ok[OF s1(2)] by blast
  show ?thesis
    using RollupHourly_row[OF s1(1), of "(1, 36000)"] RollupHourly_row[OF s2, of "(1, 36000)"] s1 s2
    by (simp add: bucket_rows_def ex_metrics_db_def ex_minutes_def bucket_of_def rollup_group_def mean_def)
qed

text \<open>
  Day windows. For dates with a four-digit year, the string comparison of the traffic queries
  selects exactly the rows of the last \<open>days\<close> Shanghai days: the day of an instant passes the filter
  if and only if it lies at most \<open>days - 1\<close> days back.
\<close>
theorem traffic_window:
  assumes "db_faults s = []" "TrafficForNodeDays t i days s = (Inr rows, s')" "r \<in> set (db_traffic s)" "td_NodeID r = i"
    "td_Day r = shanghai_date u" "fits_four_digits (shanghai_day_number u)" "fits_four_digits (shanghai_day_number t - (days - 1))"
  shows "r \<in> set rows \<longleftrightarrow> shanghai_day_number t - (days - 1) \<le> shanghai_day_number u"
proof -
  have "shanghai_day_number (AddDate_days t (- (days - 1))) = shanghai_day_number t - (days - 1)"
    by (simp add: AddDate_days_number)
  then show ?thesis
    using assms shanghai_date_le_iff[of "AddDate_days t (- (days - 1))" u]
    by (auto simp: TrafficForNodeDays_def db_read_def)
qed

theorem traffic_window_witness:
  "let r = \<lparr>td_NodeID = 1, td_Day = shanghai_date 86400, td_NodeRxBytes = 1, td_NodeTxBytes = 0, td_TunInBytes = 0, td_TunOutBytes = 0\<rparr>;
       s = empty_store\<lparr>db_traffic := [r]\<rparr>
   in r \<in> set (projr (fst (TrafficForNodeDays (3 * 86400) 1 3 s))) \<and> r \<notin> set (projr (fst (TrafficForNodeDays (3 * 86400) 1 2 s)))"
proof -
  let ?r = "\<lparr>td_NodeID = 1, td_Day = shanghai_date 86400, td_NodeRxBytes = 1, td_NodeTxBytes = 0, td_TunInBytes = 0, td_TunOutBytes = 0\<rparr>"
  let ?s = "empty_store\<lparr>db_traffic := [?r]\<rparr>"
  have f: "db_faults ?s = []" by (simp add: empty_store_def)
  have q: "\<exists>rows. TrafficForNodeDays t 1 d ?s = (Inr rows, ?s)" for t d
    using f by (simp add: TrafficForNodeDays_def db_read_def)
  obtain r3 r2 where r: "TrafficForNodeDays (3 * 86400) 1 3 ?s = (Inr r3, ?s)" "TrafficForNodeDays (3 * 86400) 1 2 ?s = (Inr r2, ?s)"
    using q by blast
  have "?r \<in> set r3" "?r \<notin> set r2"
    using traffic_window[OF f r(1), of ?r 86400] traffic_window[OF f r(2), of ?r 86400]
    by (simp_all add: shanghai_day_number_def epoch_day_def fits_four_digits_def)
  then show ?thesis using r by (simp add: Let_def)
qed

end
