(* ===== verification/Metrics.thy ===== *)
theory Metrics
  imports Prelude
begin

text \<open>
  \<^verbatim>\<open>internal/metrics/metrics.go\<close>: the ring buffer of realtime samples, the sequence tracker behind
  exactly-once accounting, and the minute aggregate. Two interfaces are stated as locales:
  \<open>bounded_buffer\<close> (a buffer that keeps the newest \<open>cap\<close> elements; the ring here and the browser
  queue in \<open>Hub\<close>) and \<open>watermark\<close> (a filter that accepts each sequence number at most once).
  CPU and memory percentages, \<^verbatim>\<open>float64\<close> in the source, are reals.
\<close>

section \<open>Samples and the ring buffer\<close>

record Sample =
  sm_AtUnixMs :: int
  sm_CPU :: real
  sm_Mem :: real
  sm_NetRxBps :: int64
  sm_NetTxBps :: int64
  sm_TunInBps :: int64
  sm_TunOutBps :: int64

definition zero_sample :: Sample where
  "zero_sample = \<lparr>sm_AtUnixMs = 0, sm_CPU = 0, sm_Mem = 0, sm_NetRxBps = 0, sm_NetTxBps = 0,
     sm_TunInBps = 0, sm_TunOutBps = 0\<rparr>"

record Ring =
  rg_buf :: "Sample list"
  rg_head :: nat
  rg_size :: nat

definition NewRing :: "int \<Rightarrow> Ring" where
  "NewRing capacity =
     \<lparr>rg_buf = replicate (nat (if capacity < 1 then 1 else capacity)) zero_sample,
      rg_head = 0, rg_size = 0\<rparr>"

definition ring_Add :: "Sample \<Rightarrow> Ring \<Rightarrow> Ring" where
  "ring_Add s r =
     (let n = length (rg_buf r) in
      r\<lparr>rg_buf := (rg_buf r)[rg_head r := s],
        rg_head := (rg_head r + 1) mod n,
        rg_size := (if rg_size r < n then rg_size r + 1 else rg_size r)\<rparr>)"

definition Snapshot :: "Ring \<Rightarrow> Sample list" where
  "Snapshot r =
     (let n = length (rg_buf r); start = (rg_head r + n - rg_size r) mod n
      in map (\<lambda>i. rg_buf r ! ((start + i) mod n)) [0..<rg_size r])"

text \<open>\<^verbatim>\<open>Since\<close> drops the leading samples older than the limit.\<close>

definition Since :: "int \<Rightarrow> Ring \<Rightarrow> Sample list" where
  "Since sinceMs r = dropWhile (\<lambda>s. sm_AtUnixMs s < sinceMs) (Snapshot r)"

definition ring_Len :: "Ring \<Rightarrow> nat" where
  "ring_Len r = rg_size r"

definition wf_ring :: "Ring \<Rightarrow> bool" where
  "wf_ring r \<longleftrightarrow> rg_head r < length (rg_buf r) \<and> rg_size r \<le> length (rg_buf r)"

section \<open>The interface of a bounded buffer\<close>

locale bounded_buffer =
  fixes invar :: "'b \<Rightarrow> bool" and cap :: "'b \<Rightarrow> nat"
    and contents :: "'b \<Rightarrow> 'a list" and add :: "'a \<Rightarrow> 'b \<Rightarrow> 'b"
  assumes invar_add: "invar b \<Longrightarrow> invar (add x b)"
    and cap_add: "invar b \<Longrightarrow> cap (add x b) = cap b"
    and contents_add: "invar b \<Longrightarrow> contents (add x b) = last_n (cap b) (contents b @ [x])"
    and contents_le_cap: "invar b \<Longrightarrow> length (contents b) \<le> cap b"
begin

lemma fold_add:
  "invar b \<Longrightarrow> invar (fold add xs b) \<and> cap (fold add xs b) = cap b
     \<and> contents (fold add xs b) = last_n (cap b) (contents b @ xs)"
proof (induction xs arbitrary: b)
  case Nil
  then show ?case using contents_le_cap by (simp add: last_n_all)
next
  case (Cons x xs)
  then show ?case
    using last_n_last_n_append [of "cap b" "contents b @ [x]" xs]
    by (simp add: invar_add cap_add contents_add)
qed

end

section \<open>The ring implements it\<close>

lemma length_Snapshot: "length (Snapshot r) = rg_size r"
  by (simp add: Snapshot_def Let_def)

lemma Snapshot_nth:
  "i < rg_size r \<Longrightarrow> Snapshot r ! i =
     rg_buf r ! ((rg_head r + length (rg_buf r) - rg_size r + i) mod length (rg_buf r))"
  by (simp add: Snapshot_def Let_def mod_add_left_eq)

lemma wf_ring_Add: "wf_ring r \<Longrightarrow> wf_ring (ring_Add s r)"
  by (auto simp: wf_ring_def ring_Add_def Let_def intro!: mod_less_divisor)

text \<open>Index arithmetic: where the slots of a ring of \<open>n\<close> cells with \<open>k\<close> entries lie.\<close>

lemma ring_slot:
  assumes "h < n" and "i < k" and "k \<le> (n::nat)"
  shows "(h + n - k + i) mod n = (if h + i < k then h + n - k + i else h + i - k)"
proof (cases "h + i < k")
  case False
  then have "(h + n - k + i) mod n = (h + n - k + i - n) mod n" using assms by (simp add: le_mod_geq)
  with False assms show ?thesis by simp
qed (use assms in simp)

lemma Snapshot_Add_notfull:
  assumes "wf_ring r" and "rg_size r < length (rg_buf r)"
  shows "Snapshot (ring_Add s r) = Snapshot r @ [s]"
proof (rule nth_equalityI)
  show "length (Snapshot (ring_Add s r)) = length (Snapshot r @ [s])"
    using assms by (simp add: length_Snapshot ring_Add_def Let_def)
next
  fix i assume "i < length (Snapshot (ring_Add s r))"
  then have i: "i < rg_size r + 1" using assms by (simp add: length_Snapshot ring_Add_def Let_def)
  let ?n = "length (rg_buf r)" and ?h = "rg_head r" and ?k = "rg_size r"
  have hn: "?h < ?n" using assms by (simp add: wf_ring_def)
  have slot: "((?h + 1) mod ?n + ?n - (?k + 1) + i) mod ?n = (?h + ?n - ?k + i) mod ?n"
  proof (cases "?h + 1 = ?n")
    case True
    then have "?h + ?n - ?k + i = (?n - (?k + 1) + i) + ?n"
      and "(?h + 1) mod ?n + ?n - (?k + 1) + i = ?n - (?k + 1) + i" using assms by simp_all
    then show ?thesis by (simp only: mod_add_self2)
  next
    case False
    then show ?thesis using hn assms by (simp add: Suc_diff_Suc)
  qed
  show "Snapshot (ring_Add s r) ! i = (Snapshot r @ [s]) ! i"
  proof (cases "i = ?k")
    case True
    have "(?h + ?n - ?k + ?k) mod ?n = ?h" using hn assms by simp
    then show ?thesis using True slot hn assms i
      by (simp add: Snapshot_nth nth_append length_Snapshot ring_Add_def Let_def)
  next
    case False
    then have "i < ?k" using i by simp
    moreover have "(?h + ?n - ?k + i) mod ?n \<noteq> ?h"
      using ring_slot [of ?h ?n i ?k] hn assms \<open>i < ?k\<close> by auto
    ultimately show ?thesis using slot assms
      by (simp add: Snapshot_nth nth_append length_Snapshot ring_Add_def Let_def)
  qed
qed

lemma Snapshot_Add_full:
  assumes "wf_ring r" and "rg_size r = length (rg_buf r)"
  shows "Snapshot (ring_Add s r) = tl (Snapshot r) @ [s]"
proof (rule nth_equalityI)
  let ?n = "length (rg_buf r)" and ?h = "rg_head r"
  have hn: "?h < ?n" using assms by (simp add: wf_ring_def)
  show len: "length (Snapshot (ring_Add s r)) = length (tl (Snapshot r) @ [s])"
    using assms hn by (simp add: length_Snapshot ring_Add_def Let_def)
  fix i assume "i < length (Snapshot (ring_Add s r))"
  then have i: "i < ?n" using assms by (simp add: length_Snapshot ring_Add_def Let_def)
  have slot: "((?h + 1) mod ?n + i) mod ?n = (?h + (i + 1)) mod ?n"
    by (simp add: mod_add_left_eq)
  show "Snapshot (ring_Add s r) ! i = (tl (Snapshot r) @ [s]) ! i"
  proof (cases "i + 1 = ?n")
    case True
    have "(?h + ?n) mod ?n = ?h" using hn by simp
    then show ?thesis using True slot hn assms i
      by (simp add: Snapshot_nth nth_append length_Snapshot ring_Add_def Let_def)
  next
    case False
    then have "i + 1 < ?n" using i by simp
    then have "(?h + (i + 1)) mod ?n \<noteq> ?h"
      using ring_slot [of ?h ?n "i + 1" ?n] hn by (auto split: if_splits)
    then show ?thesis using slot assms \<open>i + 1 < ?n\<close>
      by (simp add: Snapshot_nth nth_append nth_tl length_Snapshot ring_Add_def Let_def)
  qed
qed

lemma Snapshot_Add:
  assumes "wf_ring r"
  shows "Snapshot (ring_Add s r) = last_n (length (rg_buf r)) (Snapshot r @ [s])"
proof (cases "rg_size r < length (rg_buf r)")
  case True
  then show ?thesis using assms
    by (simp add: Snapshot_Add_notfull last_n_all length_Snapshot)
next
  case False
  then have full: "rg_size r = length (rg_buf r)" using assms by (simp add: wf_ring_def)
  have "length (Snapshot r) = length (rg_buf r)" using full by (simp add: length_Snapshot)
  moreover have "Snapshot r \<noteq> []" using full assms
    by (auto simp: wf_ring_def simp flip: length_0_conv simp: length_Snapshot)
  moreover have "Suc 0 \<le> length (rg_buf r)" using assms by (simp add: wf_ring_def)
  ultimately show ?thesis
    by (simp add: Snapshot_Add_full [OF assms full] last_n_def drop_Suc)
qed

lemma wf_NewRing [wf_intros]: "wf_ring (NewRing c)"
  by (simp add: wf_ring_def NewRing_def)

lemma Snapshot_NewRing [simp]: "Snapshot (NewRing c) = []"
  by (simp add: Snapshot_def NewRing_def)

interpretation ring: bounded_buffer wf_ring "\<lambda>r. length (rg_buf r)" Snapshot ring_Add
proof unfold_locales
  fix r x
  assume wf: "wf_ring r"
  show "wf_ring (ring_Add x r)" using wf by (rule wf_ring_Add)
  show "length (rg_buf (ring_Add x r)) = length (rg_buf r)" by (simp add: ring_Add_def Let_def)
  show "Snapshot (ring_Add x r) = last_n (length (rg_buf r)) (Snapshot r @ [x])"
    using wf by (rule Snapshot_Add)
  show "length (Snapshot r) \<le> length (rg_buf r)"
    using wf by (simp add: length_Snapshot wf_ring_def)
qed

section \<open>The sequence tracker\<close>

record SeqTracker =
  st_last :: int

definition NewSeqTracker :: "int \<Rightarrow> SeqTracker" where
  "NewSeqTracker l = \<lparr>st_last = l\<rparr>"

definition Accept :: "int \<Rightarrow> SeqTracker \<Rightarrow> bool \<times> SeqTracker" where
  "Accept seq t = (if seq \<le> st_last t then (False, t) else (True, t\<lparr>st_last := seq\<rparr>))"

definition seq_Last :: "SeqTracker \<Rightarrow> int" where
  "seq_Last t = st_last t"

text \<open>
  What the pipeline relies on: a number is accepted iff it exceeds the watermark, and accepting
  moves the watermark to it. The client lemmas follow a whole stream of numbers.
\<close>

locale watermark =
  fixes accept :: "int \<Rightarrow> 't \<Rightarrow> bool \<times> 't" and mark :: "'t \<Rightarrow> int"
  assumes accept_iff: "fst (accept s t) \<longleftrightarrow> mark t < s"
    and mark_accept: "mark (snd (accept s t)) = max (mark t) s"
begin

fun run :: "'t \<Rightarrow> int list \<Rightarrow> int list" where
  "run t [] = []"
| "run t (s # ss) = (if fst (accept s t) then [s] else []) @ run (snd (accept s t)) ss"

lemma run_above: "x \<in> set (run t ss) \<Longrightarrow> mark t < x \<and> x \<in> set ss"
proof (induction ss arbitrary: t)
  case (Cons s ss)
  have "mark t \<le> mark (snd (accept s t))" by (simp add: mark_accept)
  with Cons show ?case by (fastforce simp: accept_iff split: if_splits)
qed simp

lemma run_ascending: "sorted_wrt (<) (run t ss)"
proof (induction ss arbitrary: t)
  case (Cons s ss)
  have "x \<in> set (run (snd (accept s t)) ss) \<Longrightarrow> s < x" for x
    using run_above by (fastforce simp: mark_accept)
  with Cons show ?case by auto
qed simp

lemma run_once: "distinct (run t ss)"
  using run_ascending strict_sorted_iff by blast

lemma run_replay: "sorted_wrt (<) ss \<Longrightarrow> run t ss = filter (\<lambda>s. mark t < s) ss"
proof (induction ss arbitrary: t)
  case (Cons s ss)
  have "filter (\<lambda>x. mark (snd (accept s t)) < x) ss = filter (\<lambda>x. mark t < x) ss"
    using Cons.prems by (intro filter_cong) (auto simp: mark_accept)
  with Cons show ?case by (simp add: accept_iff)
qed simp

end

interpretation seq: watermark Accept seq_Last
  by unfold_locales (auto simp: Accept_def seq_Last_def)

section \<open>The minute aggregate\<close>

record MinuteAgg =
  ma_MinuteUnix :: int
  ma_Count :: int
  ma_sumCPU :: real
  ma_sumMem :: real
  ma_PeakRxBps :: int64
  ma_PeakTxBps :: int64
  ma_NodeRxBytes :: int64
  ma_NodeTxBytes :: int64
  ma_TunInBytes :: int64
  ma_TunOutBytes :: int64

definition zero_agg :: MinuteAgg where
  "zero_agg = \<lparr>ma_MinuteUnix = 0, ma_Count = 0, ma_sumCPU = 0, ma_sumMem = 0, ma_PeakRxBps = 0,
     ma_PeakTxBps = 0, ma_NodeRxBytes = 0, ma_NodeTxBytes = 0, ma_TunInBytes = 0, ma_TunOutBytes = 0\<rparr>"

record AggInput =
  ai_AtUnixMs :: int
  ai_CPU :: real
  ai_Mem :: real
  ai_NetRxBps :: int64
  ai_NetTxBps :: int64
  ai_NodeRxDelta :: int64
  ai_NodeTxDelta :: int64
  ai_TunInDelta :: int64
  ai_TunOutDelta :: int64

text \<open>The start of the minute in seconds; \<^verbatim>\<open>Truncate\<close> rounds down for every date after year 1.\<close>

definition MinuteOf :: "int \<Rightarrow> int" where
  "MinuteOf atUnixMs = (atUnixMs div 60000) * 60"

definition agg_Add :: "AggInput \<Rightarrow> MinuteAgg \<Rightarrow> MinuteAgg" where
  "agg_Add i a =
     (let a = (if ma_Count a = 0 then a\<lparr>ma_MinuteUnix := MinuteOf (ai_AtUnixMs i)\<rparr> else a)
      in a\<lparr>ma_Count := ma_Count a + 1,
           ma_sumCPU := ma_sumCPU a + ai_CPU i,
           ma_sumMem := ma_sumMem a + ai_Mem i,
           ma_PeakRxBps := (if ma_PeakRxBps a <s ai_NetRxBps i then ai_NetRxBps i else ma_PeakRxBps a),
           ma_PeakTxBps := (if ma_PeakTxBps a <s ai_NetTxBps i then ai_NetTxBps i else ma_PeakTxBps a),
           ma_NodeRxBytes := ma_NodeRxBytes a + ai_NodeRxDelta i,
           ma_NodeTxBytes := ma_NodeTxBytes a + ai_NodeTxDelta i,
           ma_TunInBytes := ma_TunInBytes a + ai_TunInDelta i,
           ma_TunOutBytes := ma_TunOutBytes a + ai_TunOutDelta i\<rparr>)"

definition AvgCPU :: "MinuteAgg \<Rightarrow> real" where
  "AvgCPU a = (if ma_Count a = 0 then 0 else ma_sumCPU a / of_int (ma_Count a))"

definition AvgMem :: "MinuteAgg \<Rightarrow> real" where
  "AvgMem a = (if ma_Count a = 0 then 0 else ma_sumMem a / of_int (ma_Count a))"

lemma agg_fold_fields:
  "ma_Count (fold agg_Add is a) = ma_Count a + int (length is)"
  "ma_sumCPU (fold agg_Add is a) = ma_sumCPU a + sum_list (map ai_CPU is)"
  "ma_sumMem (fold agg_Add is a) = ma_sumMem a + sum_list (map ai_Mem is)"
  "ma_TunInBytes (fold agg_Add is a) = ma_TunInBytes a + sum_list (map ai_TunInDelta is)"
  "ma_TunOutBytes (fold agg_Add is a) = ma_TunOutBytes a + sum_list (map ai_TunOutDelta is)"
  by (induction "is" arbitrary: a) (simp_all add: agg_Add_def Let_def algebra_simps)

lemma agg_fold_peak:
  "sint (ma_PeakRxBps (fold agg_Add is a)) = fold max (map (\<lambda>i. sint (ai_NetRxBps i)) is) (sint (ma_PeakRxBps a))"
proof (induction "is" arbitrary: a)
  case (Cons i "is")
  have "sint (ma_PeakRxBps (agg_Add i a)) = max (sint (ai_NetRxBps i)) (sint (ma_PeakRxBps a))"
    by (auto simp: agg_Add_def Let_def word_sless_alt)
  with Cons show ?case by simp
qed simp

text \<open>A minute bucket starts at the minute of its first sample, a multiple of 60 seconds.\<close>

lemma MinuteOf_bounds: "MinuteOf ms * 1000 \<le> ms \<and> ms < MinuteOf ms * 1000 + 60000 \<and> MinuteOf ms mod 60 = 0"
  unfolding MinuteOf_def by (simp add: mult.commute) presburger

section \<open>Properties\<close>

text \<open>
  The ring buffer holds the newest samples in order. After any sequence of additions to a new
  ring its snapshot is the last \<open>capacity\<close> samples of the sequence (one for a capacity below one).
\<close>
theorem ring_keeps_newest:
  "Snapshot (fold ring_Add ss (NewRing c)) = last_n (nat (max 1 c)) ss"
proof -
  have "length (rg_buf (NewRing c)) = nat (max 1 c)" by (auto simp: NewRing_def)
  then show ?thesis using ring.fold_add[OF wf_NewRing, of ss c] by simp
qed

text \<open>
  The sequence tracker accepts each sample at most once and only forward: the numbers accepted
  from any stream are strictly ascending, above the initial watermark, and from an ascending replay
  exactly those above the watermark.
\<close>
theorem tracker_accepts_once:
  "sorted_wrt (<) (seq.run t ss) \<and> (\<forall>x\<in>set (seq.run t ss). seq_Last t < x \<and> x \<in> set ss) \<and>
   (sorted_wrt (<) ss \<longrightarrow> seq.run t ss = filter (\<lambda>s. st_last t < s) ss)"
  using seq.run_ascending seq.run_above seq.run_replay[of ss t] by (auto simp: seq_Last_def)

theorem tracker_accepts_once_witness:
  "sorted_wrt (<) (seq.run (NewSeqTracker 2) [1, 3, 3, 5]) \<and> seq.run (NewSeqTracker 2) [1, 3, 5] = [3, 5]"
  using tracker_accepts_once[of "NewSeqTracker 2" "[1, 3, 3, 5]"] tracker_accepts_once[of "NewSeqTracker 2" "[1, 3, 5]"]
  by (auto simp: NewSeqTracker_def)

end
