(* ===== verification/Hub.thy ===== *)
theory Hub
  imports Metrics
begin

text \<open>
  \<^verbatim>\<open>internal/panel/hub.go\<close>: the messages pushed to browsers, the bounded queue of a client
  (\<^verbatim>\<open>trySend\<close> drops the oldest message when it is full) and \<^verbatim>\<open>Broadcast\<close>. A message is kept as the
  value that is marshalled. The queue is a \<open>bounded_buffer\<close>, as the ring of samples is.
\<close>

definition browserSendBuffer :: nat where "browserSendBuffer = 256"

record wsPoint =
  wp_TS :: int
  wp_CPU :: real
  wp_Mem :: real
  wp_RxBps :: int64
  wp_TxBps :: int64
  wp_TunInBps :: int64
  wp_TunOutBps :: int64

datatype ws_msg =
    wsMetric int wsPoint
  | wsNodeStatus int string
  | wsTunnelStatus int int string
  | wsEvent string string "int option" int
  | wsInit string "(int, string) gomap" "(int, wsPoint list) gomap"

record browserClient =
  bc_send :: "ws_msg list"

text \<open>
  The three \<^verbatim>\<open>select\<close> statements of \<^verbatim>\<open>trySend\<close>: offer the message; when the queue is full take one out
  and offer it again.
\<close>

definition offer :: "nat \<Rightarrow> 'm \<Rightarrow> 'm list \<Rightarrow> 'm list option" where
  "offer cap m q = (if length q < cap then Some (q @ [m]) else None)"

definition trySend :: "ws_msg \<Rightarrow> browserClient \<Rightarrow> browserClient" where
  "trySend m c =
     (case offer browserSendBuffer m (bc_send c) of
        Some q \<Rightarrow> c\<lparr>bc_send := q\<rparr>
      | None \<Rightarrow>
          (let q = tl (bc_send c)
           in case offer browserSendBuffer m q of Some q' \<Rightarrow> c\<lparr>bc_send := q'\<rparr> | None \<Rightarrow> c\<lparr>bc_send := q\<rparr>))"

type_synonym Hub = "(int, browserClient) gomap"

definition Broadcast :: "ws_msg \<Rightarrow> Hub \<Rightarrow> Hub" where
  "Broadcast m h = map (\<lambda>(k, c). (k, trySend m c)) h"

definition hub_Clients :: "Hub \<Rightarrow> nat" where
  "hub_Clients h = length h"

definition point_of :: "Sample \<Rightarrow> wsPoint" where
  "point_of s = \<lparr>wp_TS = sm_AtUnixMs s, wp_CPU = sm_CPU s, wp_Mem = sm_Mem s, wp_RxBps = sm_NetRxBps s,
     wp_TxBps = sm_NetTxBps s, wp_TunInBps = sm_TunInBps s, wp_TunOutBps = sm_TunOutBps s\<rparr>"

section \<open>The origin check\<close>

text \<open>\<^verbatim>\<open>url.Parse\<close> is an argument: the host of the parsed origin, or an error.\<close>

definition CheckOrigin :: "(string \<Rightarrow> string option) \<Rightarrow> string \<Rightarrow> string \<Rightarrow> bool" where
  "CheckOrigin parse_host origin request_host =
     (if origin = [] then True
      else case parse_host origin of None \<Rightarrow> False | Some h \<Rightarrow> h = request_host)"

section \<open>The queue is bounded and keeps the newest messages\<close>

definition wf_client :: "browserClient \<Rightarrow> bool" where
  "wf_client c \<longleftrightarrow> length (bc_send c) \<le> browserSendBuffer"

lemma trySend_queue:
  assumes "wf_client c"
  shows "bc_send (trySend m c) = last_n browserSendBuffer (bc_send c @ [m])"
proof (cases "length (bc_send c) < browserSendBuffer")
  case True
  then show ?thesis by (simp add: trySend_def offer_def last_n_all)
next
  case False
  then have "length (bc_send c) = browserSendBuffer" using assms by (simp add: wf_client_def)
  moreover from this have "bc_send c \<noteq> []" by (auto simp: browserSendBuffer_def)
  ultimately show ?thesis by (auto simp: trySend_def offer_def last_n_def Let_def drop_Suc browserSendBuffer_def)
qed

interpretation client: bounded_buffer wf_client "\<lambda>_. browserSendBuffer" bc_send trySend
proof unfold_locales
  fix c m
  assume wf: "wf_client c"
  show "bc_send (trySend m c) = last_n browserSendBuffer (bc_send c @ [m])" using wf by (rule trySend_queue)
  then show "wf_client (trySend m c)" by (simp add: wf_client_def last_n_def)
qed (simp_all add: wf_client_def)

definition wf_hub :: "Hub \<Rightarrow> bool" where
  "wf_hub h \<longleftrightarrow> (\<forall>(k, c)\<in>set h. wf_client c)"

lemma wf_hub_Broadcast [wf_intros]: "wf_hub h \<Longrightarrow> wf_hub (Broadcast m h)"
  by (auto simp: wf_hub_def Broadcast_def client.invar_add)

lemma map_of_Broadcast: "map_of (fold Broadcast ms h) k = map_option (fold trySend ms) (map_of h k)"
proof (induction ms arbitrary: h)
  case Nil
  show ?case by (simp add: option.map_ident)
next
  case (Cons m ms)
  have "map_of (Broadcast m h) k = map_option (trySend m) (map_of h k)"
    by (simp add: Broadcast_def map_of_map_value)
  then show ?case using Cons by (simp add: option.map_comp o_def)
qed

lemma broadcast_queue:
  assumes "wf_hub h" "map_of h k = Some c"
  shows "\<exists>c'. map_of (fold Broadcast ms h) k = Some c' \<and> bc_send c' = last_n browserSendBuffer (bc_send c @ ms)"
proof -
  have "wf_client c" using assms map_of_SomeD[OF assms(2)] by (auto simp: wf_hub_def)
  then show ?thesis using client.fold_add[of c ms] assms(2) by (simp add: map_of_Broadcast)
qed

section \<open>Properties\<close>

text \<open>
  A slow browser costs bounded memory and sees the newest messages. After any number of
  broadcasts the queue of a connected client is the last 256 messages in the order they were sent.
\<close>
theorem broadcast_bounded:
  assumes "wf_hub h" "map_of h k = Some c"
  shows "\<exists>c'. map_of (fold Broadcast ms h) k = Some c' \<and> bc_send c' = last_n browserSendBuffer (bc_send c @ ms)"
  using assms by (rule broadcast_queue)

theorem broadcast_bounded_witness:
  "\<exists>c'. map_of (fold Broadcast (replicate 300 (wsNodeStatus 1 ''online'')) [(0, \<lparr>bc_send = []\<rparr>)]) 0 = Some c' \<and>
     length (bc_send c') = 256"
proof -
  have "wf_hub [(0, \<lparr>bc_send = []\<rparr>)]" "map_of [(0, \<lparr>bc_send = []\<rparr>)] (0::int) = Some \<lparr>bc_send = []\<rparr>"
    by (simp_all add: wf_hub_def wf_client_def)
  from broadcast_bounded[OF this, of "replicate 300 (wsNodeStatus 1 ''online'')"] show ?thesis
    by (auto simp: last_n_def browserSendBuffer_def)
qed

end
