(* ===== verification/Protocol.thy ===== *)
theory Protocol
  imports Prelude
begin

text \<open>
  The control channel: \<^verbatim>\<open>internal/protocol/protocol.go\<close> (envelope and messages) and \<^verbatim>\<open>sign.go\<close> (the
  canonical form, \<^verbatim>\<open>Sign\<close> and \<^verbatim>\<open>Verify\<close>). HMAC-SHA256 in hex is an argument \<open>hmac\<close> of the
  definitions that use it; payloads are the bytes \<^verbatim>\<open>json.Marshal\<close> produced. Time stamps are 64-bit
  words, because the replay check subtracts them. The lemmas show that the canonical form determines
  the envelope and exactly which envelopes \<^verbatim>\<open>Verify\<close> accepts.
\<close>

section \<open>Messages\<close>

definition TypeHello :: string where "TypeHello = ''hello''"
definition TypeHelloAck :: string where "TypeHelloAck = ''hello_ack''"
definition TypePing :: string where "TypePing = ''ping''"
definition TypePong :: string where "TypePong = ''pong''"
definition TypePortCheck :: string where "TypePortCheck = ''port_check''"
definition TypePortCheckRes :: string where "TypePortCheckRes = ''port_check_res''"
definition TypeListProxies :: string where "TypeListProxies = ''list_proxies''"
definition TypeProxyList :: string where "TypeProxyList = ''proxy_list''"
definition TypeRestartFrps :: string where "TypeRestartFrps = ''restart_frps''"
definition TypeRestartRes :: string where "TypeRestartRes = ''restart_res''"
definition TypeSetRateLimit :: string where "TypeSetRateLimit = ''set_ratelimit''"
definition TypeRateLimitRes :: string where "TypeRateLimitRes = ''ratelimit_res''"
definition TypeUpdateAgent :: string where "TypeUpdateAgent = ''update_agent''"
definition TypeUpdateRes :: string where "TypeUpdateRes = ''update_res''"
definition TypeMetrics :: string where "TypeMetrics = ''metrics''"
definition TypeEvent :: string where "TypeEvent = ''event''"
definition TypeError :: string where "TypeError = ''error''"

lemmas message_types = TypeHello_def TypeHelloAck_def TypePing_def TypePong_def TypePortCheck_def TypePortCheckRes_def
  TypeListProxies_def TypeProxyList_def TypeRestartFrps_def TypeRestartRes_def TypeSetRateLimit_def TypeRateLimitRes_def
  TypeUpdateAgent_def TypeUpdateRes_def TypeMetrics_def TypeEvent_def TypeError_def

record Envelope =
  e_Ver :: int
  e_Type :: string
  e_ID :: string
  e_TS :: int64
  e_Nonce :: string
  e_Sig :: string
  e_Payload :: string

record Hello =
  h_PanelVersion :: string
  h_MinAgentProto :: int
  h_LastCommitSeq :: int

record HelloAck =
  ha_AgentVersion :: string
  ha_FrpsVersion :: string
  ha_Proto :: int
  ha_FrpsPort :: int
  ha_FrpsToken :: string
  ha_Compatible :: bool
  ha_Message :: string

record PortCheck =
  pc_Port :: int
  pc_Proto :: string

record PortCheckRes =
  pr_Port :: int
  pr_Proto :: string
  pr_Available :: bool
  pr_Reason :: string
  pr_Process :: string

record ProxyInfo =
  pi_Name :: string
  pi_Proto :: string
  pi_RemotePort :: int
  pi_Status :: string
  pi_TodayIn :: int64
  pi_TodayOut :: int64

record PortSpec =
  ps_Port :: int
  ps_Proto :: string

record SetRateLimit =
  rl_Rate :: int
  rl_Ports :: "PortSpec list"

record RestartFrps =
  rf_NewFrpsToken :: string
  rf_Reason :: string

record RestartRes =
  rr_OK :: bool
  rr_FrpsVersion :: string
  rr_Message :: string

record RateLimitRes =
  lr_OK :: bool
  lr_Applied :: int
  lr_Message :: string

record UpdateAgent =
  ua_Version :: string
  ua_BaseURL :: string
  ua_Mirror :: string

record UpdateRes =
  ur_OK :: bool
  ur_Started :: bool
  ur_Message :: string

record ProxyTraffic =
  tr_RemotePort :: int
  tr_Proto :: string
  tr_Status :: string
  tr_DeltaIn :: int64
  tr_DeltaOut :: int64

record Metrics =
  m_Seq :: int
  m_CPU :: real
  m_Mem :: real
  m_MemTotal :: int64
  m_NetRxBps :: int64
  m_NetTxBps :: int64
  m_NetRxDelta :: int64
  m_NetTxDelta :: int64
  m_FrpsUp :: bool
  m_Proxies :: "ProxyTraffic list"
  m_SampledAt :: int
  m_Backfill :: bool

record Event =
  ev_Kind :: string
  ev_Detail :: string
  ev_AtMs :: int

definition ProtocolVersion :: int where "ProtocolVersion = 2"
definition MinAgentProtocol :: int where "MinAgentProtocol = 1"

section \<open>Signing\<close>

definition ReplayToleranceSec :: int where "ReplayToleranceSec = 60"

definition nl :: char where "nl = CHR 0x0A"

definition canonical :: "Envelope \<Rightarrow> string" where
  "canonical e = Itoa (e_Ver e) @ nl # e_Type e @ nl # e_ID e @ nl # Itoa (sint (e_TS e)) @ nl # e_Nonce e @ nl # e_Payload e"

type_synonym mac = "string \<Rightarrow> string \<Rightarrow> string"

definition Sign :: "mac \<Rightarrow> Envelope \<Rightarrow> string \<Rightarrow> Envelope" where
  "Sign hmac e token = e\<lparr>e_Sig := hmac token (canonical e)\<rparr>"

datatype verify_error = ErrBadSig | ErrReplay

text \<open>\<^verbatim>\<open>d := now - e.TS; if d < 0 { d = -d }\<close> on 64-bit integers, both of which can wrap.\<close>

definition time_distance :: "int64 \<Rightarrow> int64 \<Rightarrow> int64" where
  "time_distance now ts = (let d = now - ts in if d <s 0 then - d else d)"

definition Verify :: "mac \<Rightarrow> Envelope \<Rightarrow> string \<Rightarrow> int64 \<Rightarrow> verify_error option" where
  "Verify hmac e token now =
     (let want = e_Sig e; got = hmac token (canonical (e\<lparr>e_Sig := []\<rparr>))
      in if got \<noteq> want then Some ErrBadSig
         else if 0 <s now \<and> ReplayToleranceSec < sint (time_distance now (e_TS e)) then Some ErrReplay
         else None)"

definition Marshal :: "int64 \<Rightarrow> int \<Rightarrow> string \<Rightarrow> string \<Rightarrow> string \<Rightarrow> Envelope" where
  "Marshal now ver typ i payload = \<lparr>e_Ver = ver, e_Type = typ, e_ID = i, e_TS = now, e_Nonce = [], e_Sig = [], e_Payload = payload\<rparr>"

section \<open>The canonical form determines the envelope\<close>

lemma canonical_sig [simp]: "canonical (e\<lparr>e_Sig := x\<rparr>) = canonical e"
  by (simp add: canonical_def)

lemma split_at_sep: "c \<notin> set xs \<Longrightarrow> c \<notin> set ys \<Longrightarrow> xs @ c # us = ys @ c # vs \<longleftrightarrow> xs = ys \<and> us = vs"
  by (induction xs arbitrary: ys) (case_tac ys; auto)+

definition no_newline :: "Envelope \<Rightarrow> bool" where
  "no_newline e \<longleftrightarrow> nl \<notin> set (e_Type e) \<and> nl \<notin> set (e_ID e) \<and> nl \<notin> set (e_Nonce e)"

lemma Itoa_no_nl: "nl \<notin> set (Itoa n)"
  unfolding nl_def by (rule Itoa_no_char) simp_all

lemma canonical_inj:
  assumes "no_newline e" "no_newline e'" "canonical e = canonical e'"
  shows "e\<lparr>e_Sig := []\<rparr> = e'\<lparr>e_Sig := []\<rparr>"
  using assms
  by (cases e; cases e') (auto simp: canonical_def no_newline_def split_at_sep Itoa_no_nl dest: signed_word_eqI dest!: Itoa_inj)

section \<open>What \<^verbatim>\<open>Verify\<close> accepts\<close>

text \<open>
  For a clock before the year \<open>2^62\<close> the wrapped distance is the true one, with one exception: a time
  stamp exactly \<open>2^63\<close> seconds in the past has distance \<open>-(2^63)\<close>, whose negation is itself.
\<close>

lemma sint_range: "- (2 ^ 63) \<le> sint (w :: int64)" "sint (w :: int64) < 2 ^ 63"
  using sint_greater_eq[of w] sint_less[of w] by simp_all

lemma sint_of_int_small: "- (2 ^ 63) \<le> i \<Longrightarrow> i < 2 ^ 63 \<Longrightarrow> sint (word_of_int i :: int64) = i"
  by (simp add: sint_sbintrunc' signed_take_bit_int_eq_self)

lemma word_diff_sint: "(a :: int64) - b = word_of_int (sint a - sint b)"
  by simp

lemma word_wrap: "(word_of_int (i - 2 ^ 64) :: int64) = word_of_int i" "(word_of_int (2 ^ 64 - i) :: int64) = word_of_int (- i)"
  by (simp_all add: word_of_int_eq_iff take_bit_eq_mod mod_simps)

lemma time_distance_small:
  assumes "0 <s now" "sint now < 2 ^ 62"
  shows "sint (time_distance now ts) \<le> 60 \<longleftrightarrow>
    \<bar>sint now - sint ts\<bar> \<le> 60 \<or> sint ts = sint now - 2 ^ 63"
proof -
  let ?D = "sint now - sint ts"
  have n: "0 < sint now" using assms(1) by (simp add: word_sless_alt)
  note r = sint_range[of ts]
  consider "?D < 2 ^ 63" | "?D = 2 ^ 63" | "2 ^ 63 < ?D" by linarith
  then show ?thesis
  proof cases
    case 1
    then have d: "sint (now - ts) = ?D" using n r by (subst word_diff_sint) (rule sint_of_int_small, auto)
    show ?thesis
    proof (cases "?D < 0")
      case True
      have "- (now - ts) = word_of_int (- ?D)" by simp
      then have "sint (- (now - ts)) = - ?D" using True n r sint_of_int_small[of "- ?D"] by simp
      then show ?thesis using True d r n by (auto simp: time_distance_def Let_def word_sless_alt)
    next
      case False
      then show ?thesis using d 1 r n by (auto simp: time_distance_def Let_def word_sless_alt)
    qed
  next
    case 2
    have "now - ts = word_of_int (2 ^ 63)" using word_diff_sint[of now ts] 2 by simp
    then have "time_distance now ts = word_of_int (2 ^ 63)" by (simp add: time_distance_def Let_def)
    then show ?thesis using 2 by (simp add: sint_sbintrunc' signed_take_bit_def not_eq_complement mask_eq_exp_minus_1)
  next
    case 3
    have "sint (word_of_int (?D - 2 ^ 64) :: int64) = ?D - 2 ^ 64"
      by (rule sint_of_int_small; use 3 r n assms(2) in simp)
    moreover have "sint (word_of_int (2 ^ 64 - ?D) :: int64) = 2 ^ 64 - ?D"
      by (rule sint_of_int_small; use 3 r n assms(2) in simp)
    ultimately have d: "sint (now - ts) = ?D - 2 ^ 64" and "sint (- (now - ts)) = 2 ^ 64 - ?D"
      unfolding word_wrap by simp_all
    then show ?thesis using d 3 r assms(2) by (auto simp: time_distance_def Let_def word_sless_alt)
  qed
qed

lemma Verify_iff:
  assumes "0 <s now" "sint now < 2 ^ 62"
  shows "Verify hmac e token now = None \<longleftrightarrow>
    e_Sig e = hmac token (canonical e) \<and> (\<bar>sint now - sint (e_TS e)\<bar> \<le> 60 \<or> sint (e_TS e) = sint now - 2 ^ 63)"
  using time_distance_small[OF assms, of "e_TS e"] assms(1)
  by (auto simp: Verify_def Let_def ReplayToleranceSec_def not_less)

lemma Verify_Sign:
  "Verify hmac (Sign hmac e token) token now = None \<longleftrightarrow> \<not> (0 <s now \<and> 60 < sint (time_distance now (e_TS e)))"
  by (simp add: Verify_def Sign_def Let_def ReplayToleranceSec_def canonical_def)

lemma Sign_sig: "e_Sig (Sign hmac e token) = hmac token (canonical (Sign hmac e token))"
  by (simp add: Sign_def)

section \<open>Properties\<close>

text \<open>
  The signed text determines the message. Two envelopes whose type, id and nonce contain no
  newline and which have the same canonical form agree in version, type, id, time stamp, nonce and
  payload; a signature cannot be moved from one message to another by shifting field borders.
\<close>
theorem canonical_determines_envelope:
  assumes "no_newline e" "no_newline e'" "canonical e = canonical e'"
  shows "e\<lparr>e_Sig := []\<rparr> = e'\<lparr>e_Sig := []\<rparr>"
  using assms by (rule canonical_inj)

theorem canonical_determines_envelope_witness:
  "(Marshal 7 2 ''ping'' ''1'' [])\<lparr>e_Sig := []\<rparr> = (Marshal 7 2 ''ping'' ''1'' [])\<lparr>e_Sig := []\<rparr>"
  by (rule canonical_determines_envelope) (simp_all add: no_newline_def Marshal_def nl_def)

text \<open>
  C20: what \<^verbatim>\<open>Verify\<close> accepts. For a clock in the range of any real date, an envelope is accepted if and
  only if its signature is the MAC of its canonical form and its time stamp is within 60 seconds of
  the clock, or exactly \<open>2^63\<close> seconds before it, where the 64-bit distance is not representable.
\<close>
theorem verify_accepts:
  assumes "0 <s now" "sint now < 2 ^ 62"
  shows "Verify hmac e token now = None \<longleftrightarrow>
    e_Sig e = hmac token (canonical e) \<and> (\<bar>sint now - sint (e_TS e)\<bar> \<le> 60 \<or> sint (e_TS e) = sint now - 2 ^ 63)"
  using assms by (rule Verify_iff)

theorem verify_accepts_witness:
  "Verify (\<lambda>t m. t @ m) (Sign (\<lambda>t m. t @ m) (Marshal 1000 2 ''ping'' ''1'' []) ''k'') ''k'' 1060 = None \<and>
   Verify (\<lambda>t m. t @ m) (Sign (\<lambda>t m. t @ m) (Marshal 1000 2 ''ping'' ''1'' []) ''k'') ''k'' 1061 \<noteq> None"
proof -
  define e where "e = Sign (\<lambda>t m. t @ m) (Marshal 1000 2 ''ping'' ''1'' []) ''k''"
  have e: "e_Sig e = ''k'' @ canonical e" "sint (e_TS e) = 1000" unfolding e_def by (rule Sign_sig) (simp add: Sign_def Marshal_def)
  have n: "0 <s (1060 :: int64)" "0 <s (1061 :: int64)" "sint (1060 :: int64) = 1060" "sint (1061 :: int64) = 1061"
    by (simp_all add: word_sless_alt)
  show ?thesis unfolding e_def[symmetric]
    using verify_accepts[OF n(1), of "\<lambda>t m. t @ m" e "''k''"] verify_accepts[OF n(2), of "\<lambda>t m. t @ m" e "''k''"] e n(3,4) by simp
qed

text \<open>
  Honest messages pass. A message signed with the shared token verifies under that token exactly
  as long as its age is in the replay window; with the clock check disabled it always does.
\<close>
theorem sign_verify:
  "Verify hmac (Sign hmac e token) token 0 = None \<and>
   (0 <s now \<and> sint now < 2 ^ 62 \<and> \<bar>sint now - sint (e_TS e)\<bar> \<le> 60 \<longrightarrow> Verify hmac (Sign hmac e token) token now = None)"
  using time_distance_small[of now "e_TS e"] by (auto simp: Verify_Sign)

theorem sign_verify_witness:
  "Verify (\<lambda>t m. t @ m) (Sign (\<lambda>t m. t @ m) (Marshal 1000 2 ''ping'' ''1'' []) ''k'') ''k'' 960 = None"
  using sign_verify[of "\<lambda>t m. t @ m" "Marshal 1000 2 ''ping'' ''1'' []" "''k''" 960] by (simp add: Marshal_def word_sless_alt)

end
