(* ===== verification/App.thy ===== *)
theory App
  imports Store_Tx Hub Protocol Frpcfg
begin

text \<open>
  \<^verbatim>\<open>internal/panel/app.go\<close>: the state the panel's subsystems share (database health, live tunnel
  statuses, latencies, the browser hub, the metrics pipeline's per-node state) and the operations
  on it. Times of database rows are Unix seconds and are passed in. Log texts, Chinese in the
  source, are ASCII keys followed by the same data.
\<close>

section \<open>State\<close>

record dayTraffic =
  dt_nodeRx :: int64
  dt_nodeTx :: int64
  dt_tunIn :: int64
  dt_tunOut :: int64

record nodeState =
  ns_ring :: Ring
  ns_seq :: SeqTracker
  ns_agg :: MinuteAgg
  ns_traf :: "(string, dayTraffic) gomap"
  ns_lastPersistedSeq :: int

record App =
  app_store :: Store
  app_hub :: Hub
  app_pipe :: "(int, nodeState) gomap"
  app_dbHealthy :: bool
  app_panelName :: string
  app_updateBaseURL :: string
  app_live :: "(string, string) gomap"
  app_ctrlLat :: "(int, int) gomap"
  app_linkLat :: "(string, int) gomap"
  app_droppedBatches :: int

definition New :: "Store \<Rightarrow> string \<Rightarrow> string \<Rightarrow> App" where
  "New s name updateBase = \<lparr>app_store = s, app_hub = [], app_pipe = [], app_dbHealthy = True, app_panelName = name,
     app_updateBaseURL = updateBase, app_live = [], app_ctrlLat = [], app_linkLat = [], app_droppedBatches = 0\<rparr>"

definition run_db :: "'a db \<Rightarrow> App \<Rightarrow> (db_error + 'a) \<times> App" where
  "run_db f a = (let (r, s) = f (app_store a) in (r, a\<lparr>app_store := s\<rparr>))"

abbreviation DBUp :: "App \<Rightarrow> bool" where "DBUp \<equiv> app_dbHealthy"

definition broadcast :: "ws_msg \<Rightarrow> App \<Rightarrow> App" where
  "broadcast m a = a\<lparr>app_hub := Broadcast m (app_hub a)\<rparr>"

definition broadcastEvent :: "string \<Rightarrow> string \<Rightarrow> int option \<Rightarrow> int \<Rightarrow> App \<Rightarrow> App" where
  "broadcastEvent kind detail nodeID atMs = broadcast (wsEvent kind detail nodeID atMs)"

definition app_AddLog :: "int \<Rightarrow> string \<Rightarrow> string \<Rightarrow> int option \<Rightarrow> string \<Rightarrow> App \<Rightarrow> App" where
  "app_AddLog t typ source nodeID detail a =
     (if \<not> DBUp a then a else snd (run_db (AddLog t typ source nodeID detail) a))"

definition setDBHealth :: "int \<Rightarrow> bool \<Rightarrow> App \<Rightarrow> App" where
  "setDBHealth t up a =
     (let prev = app_dbHealthy a; a = a\<lparr>app_dbHealthy := up\<rparr>
      in if prev = up then a
         else if up then app_AddLog t ''panel_op'' ''system'' None ''mysql_recovered'' a
         else app_AddLog t ''panel_op'' ''system'' None ''mysql_degraded'' a)"

section \<open>Live tunnel statuses\<close>

definition liveKey :: "int \<Rightarrow> int \<Rightarrow> string" where
  "liveKey nodeID remotePort = Itoa nodeID @ CHR '':'' # Itoa remotePort"

definition setLive :: "int \<Rightarrow> int \<Rightarrow> string \<Rightarrow> App \<Rightarrow> bool \<times> App" where
  "setLive nodeID remotePort status a =
     (let k = liveKey nodeID remotePort
      in if mget [] (app_live a) k = status then (False, a)
         else (True, a\<lparr>app_live := AList.update k status (app_live a)\<rparr>))"

definition getLive :: "int \<Rightarrow> int \<Rightarrow> App \<Rightarrow> string" where
  "getLive nodeID remotePort a = mget [] (app_live a) (liveKey nodeID remotePort)"

definition node_prefix :: "int \<Rightarrow> string" where
  "node_prefix nodeID = Itoa nodeID @ '':''"

definition clearLiveForNode :: "int \<Rightarrow> App \<Rightarrow> App" where
  "clearLiveForNode nodeID a =
     a\<lparr>app_live := filter (\<lambda>(k, v). \<not> HasPrefix k (node_prefix nodeID)) (app_live a)\<rparr>"

definition markNodeOnline :: "int \<Rightarrow> int \<Rightarrow> string \<Rightarrow> string \<Rightarrow> App \<Rightarrow> App" where
  "markNodeOnline t nodeID agentVer frpsVer a =
     (let a = (if DBUp a then snd (run_db (UpdateNodeStatus t nodeID ''online'' agentVer frpsVer) a) else a)
      in broadcast (wsNodeStatus nodeID ''online'') a)"

definition markNodeOffline :: "int \<Rightarrow> int \<Rightarrow> App \<Rightarrow> App" where
  "markNodeOffline t nodeID a =
     (let a = (if DBUp a then snd (run_db (SetNodeOffline t nodeID) a) else a);
          a = clearLiveForNode nodeID a
      in broadcast (wsNodeStatus nodeID ''offline'') a)"

definition onTunnelStatusChange :: "int \<Rightarrow> int \<Rightarrow> int \<Rightarrow> string \<Rightarrow> string \<Rightarrow> App \<Rightarrow> App" where
  "onTunnelStatusChange t nodeID remotePort proto status a =
     (let a = broadcast (wsTunnelStatus nodeID remotePort status) a;
          a = (if DBUp a then snd (run_db (UpdateTargetStatusByPort nodeID remotePort status) a) else a)
      in app_AddLog t ''frp_event'' ''node'' (Some nodeID)
           (''tunnel_status '' @ proto @ CHR '':'' # Itoa remotePort @ CHR '' '' # status) a)"

section \<open>Settings\<close>

definition setting :: "string \<Rightarrow> App \<Rightarrow> string \<times> App" where
  "setting k a = (case run_db (GetSetting k) a of (Inl _, a') \<Rightarrow> ([], a') | (Inr v, a') \<Rightarrow> (v, a'))"

definition LoadRuntimeSettings :: "App \<Rightarrow> App" where
  "LoadRuntimeSettings a = (let (v, a) = setting ''panel_name'' a in if v \<noteq> [] then a\<lparr>app_panelName := v\<rparr> else a)"

definition defaultConnRateLimit :: int where "defaultConnRateLimit = 200"
definition defaultPingInterval :: int where "defaultPingInterval = 15"

definition connRateLimit :: "App \<Rightarrow> int \<times> App" where
  "connRateLimit a =
     (if \<not> DBUp a then (defaultConnRateLimit, a)
      else case run_db (GetSetting ''conn_rate_limit'') a of
             (Inl _, a') \<Rightarrow> (defaultConnRateLimit, a')
           | (Inr v, a') \<Rightarrow>
               (if v = [] then defaultConnRateLimit
                else let (n, ok) = Atoi v in if \<not> ok \<or> n < 0 then defaultConnRateLimit else n, a'))"

definition pingIntervalSec :: "App \<Rightarrow> int \<times> App" where
  "pingIntervalSec a =
     (if DBUp a
      then let (v, a') = setting ''tcp_ping_interval'' a; (n, ok) = Atoi v
           in (if ok \<and> 5 \<le> n then n else defaultPingInterval, a')
      else (defaultPingInterval, a))"

definition updateSource :: "App \<Rightarrow> (string \<times> string) \<times> App" where
  "updateSource a =
     (let base = app_updateBaseURL a;
          (base, mirror, a) =
            (if DBUp a
             then let (base, a) = (if base = [] then setting ''update_base_url'' a else (base, a));
                      (mirror, a) = setting ''update_mirror'' a
                  in (base, mirror, a)
             else (base, [], a))
      in ((TrimRight CHR ''/'' (TrimSpace base), TrimSpace mirror), a))"

section \<open>Latencies\<close>

definition setCtrlLat :: "int \<Rightarrow> int \<Rightarrow> App \<Rightarrow> App" where
  "setCtrlLat i ms a = a\<lparr>app_ctrlLat := AList.update i ms (app_ctrlLat a)\<rparr>"

definition setLinkLat :: "int \<Rightarrow> int \<Rightarrow> int \<Rightarrow> App \<Rightarrow> App" where
  "setLinkLat nodeID remotePort ms a = a\<lparr>app_linkLat := AList.update (liveKey nodeID remotePort) ms (app_linkLat a)\<rparr>"

definition clearLatForNode :: "int \<Rightarrow> App \<Rightarrow> App" where
  "clearLatForNode nodeID a =
     a\<lparr>app_ctrlLat := AList.delete nodeID (app_ctrlLat a),
       app_linkLat := filter (\<lambda>(k, v). \<not> HasPrefix k (node_prefix nodeID)) (app_linkLat a)\<rparr>"

definition LinkLatency :: "int \<Rightarrow> int \<Rightarrow> App \<Rightarrow> int" where
  "LinkLatency nodeID remotePort a = mget 0 (app_linkLat a) (liveKey nodeID remotePort)"

definition best_step :: "string \<Rightarrow> string \<times> int \<Rightarrow> int \<Rightarrow> int" where
  "best_step pre e best =
     (case e of (k, v) \<Rightarrow> if HasPrefix k pre \<and> 0 < v \<and> (best = 0 \<or> v < best) then v else best)"

definition best_latency :: "string \<Rightarrow> (string, int) gomap \<Rightarrow> int" where
  "best_latency pre lat = fold (best_step pre) lat 0"

definition NodeLatency :: "int \<Rightarrow> App \<Rightarrow> int" where
  "NodeLatency nodeID a =
     (let best = best_latency (node_prefix nodeID) (app_linkLat a)
      in if 0 < best then best else mget 0 (app_ctrlLat a) nodeID)"

section \<open>Desired proxies of a node\<close>

definition desired_proxy :: "NodeProxyRow \<Rightarrow> frpc_proxy" where
  "desired_proxy r = \<lparr>px_Name = ProxyName (np_MappingID r) (np_NodeID r), px_Type = np_Proto r, px_LocalIP = ''127.0.0.1'',
     px_LocalPort = np_LocalPort r, px_RemotePort = np_RemotePort r, px_Comment = np_Remark r\<rparr>"

definition desiredProxies :: "int \<Rightarrow> App \<Rightarrow> (db_error + frpc_proxy list \<times> PortSpec list) \<times> App" where
  "desiredProxies nodeID a =
     (case run_db (EnabledProxiesForNode nodeID) a of
        (Inl e, a') \<Rightarrow> (Inl e, a')
      | (Inr rows, a') \<Rightarrow> (Inr (map desired_proxy rows, map (\<lambda>r. \<lparr>ps_Port = np_RemotePort r, ps_Proto = np_Proto r\<rparr>) rows), a'))"

section \<open>Keys of a node\<close>

lemma colon_notin_Itoa: "CHR '':'' \<notin> set (Itoa i)"
  by (rule Itoa_no_char) simp_all

text \<open>The key of a tunnel starts with the prefix of its own node and of no other.\<close>

lemma HasPrefix_liveKey [simp]: "HasPrefix (liveKey i p) (node_prefix j) \<longleftrightarrow> i = j"
proof
  assume "HasPrefix (liveKey i p) (node_prefix j)"
  then obtain zs where "Itoa i @ CHR '':'' # Itoa p = Itoa j @ CHR '':'' # zs"
    by (auto simp: HasPrefix_def liveKey_def node_prefix_def prefix_def)
  then show "i = j"
    using split_at_sep[OF colon_notin_Itoa colon_notin_Itoa] Itoa_inj by blast
qed (simp add: HasPrefix_def liveKey_def node_prefix_def)

lemma liveKey_inj [simp]: "liveKey i p = liveKey j p' \<longleftrightarrow> i = j \<and> p = p'"
  using split_at_sep[OF colon_notin_Itoa[of i] colon_notin_Itoa[of j]] Itoa_inj
  by (auto simp: liveKey_def)

lemma mget_filter_key: "mget z (filter (\<lambda>(k, v). P k) m) k = (if P k then mget z m k else z)"
  by (simp add: mget_def map_of_filter_key)

lemma getLive_clear: "getLive i p (clearLiveForNode j a) = (if i = j then [] else getLive i p a)"
  by (simp add: getLive_def clearLiveForNode_def mget_filter_key)

lemma setLive_get:
  "getLive i p (snd (setLive j p' st a)) = (if (i, p) = (j, p') then st else getLive i p a)"
  by (auto simp: getLive_def setLive_def Let_def mget_def map_of_update)

lemma LinkLatency_clear: "LinkLatency i p (clearLatForNode j a) = (if i = j then 0 else LinkLatency i p a)"
  by (simp add: LinkLatency_def clearLatForNode_def mget_filter_key)

text \<open>The best latency is the least positive one of the node's tunnels, in whatever order they come.\<close>

lemma best_latency_fold:
  assumes "0 \<le> b" "r = fold (best_step pre) lat b"
  shows "0 \<le> r \<and> (b \<noteq> 0 \<longrightarrow> 0 < r \<and> r \<le> b) \<and> (\<forall>(k, v)\<in>set lat. HasPrefix k pre \<and> 0 < v \<longrightarrow> 0 < r \<and> r \<le> v) \<and>
    (r = b \<or> 0 < r \<and> (\<exists>k. (k, r) \<in> set lat \<and> HasPrefix k pre))"
  using assms
proof (induction lat arbitrary: b)
  case (Cons e lat)
  obtain k v where e: "e = (k, v)" by (cases e)
  obtain b' where b': "b' = best_step pre e b" by simp
  have eq: "b' = (if HasPrefix k pre \<and> 0 < v \<and> (b = 0 \<or> v < b) then v else b)" by (simp add: b' e best_step_def)
  have "0 \<le> b'" using Cons.prems(1) by (simp add: eq)
  from Cons.IH[OF this] Cons.prems show ?case
    by (auto simp: e b'[unfolded e, symmetric] eq split: if_splits)
qed simp

section \<open>Properties\<close>

text \<open>
  The statuses and latencies of nodes are separate. Taking a node offline or deleting it clears
  all of its tunnel entries and none of another node, also when one id is a prefix of the other.
\<close>
theorem node_entries_separate:
  "getLive i p (clearLiveForNode j a) = (if i = j then [] else getLive i p a) \<and>
   LinkLatency i p (clearLatForNode j a) = (if i = j then 0 else LinkLatency i p a)"
  by (simp add: getLive_clear LinkLatency_clear)

text \<open>
  The latency shown for a node. If some tunnel of the node has a positive measurement, it is the
  least of them, in whatever order the map is walked; otherwise it is the control-path measurement.
\<close>
theorem node_latency_best:
  "(\<forall>(k, v)\<in>set (app_linkLat a). HasPrefix k (node_prefix i) \<and> 0 < v \<longrightarrow> NodeLatency i a \<le> v) \<and>
   ((\<exists>(k, v)\<in>set (app_linkLat a). HasPrefix k (node_prefix i) \<and> 0 < v) \<longrightarrow>
      0 < NodeLatency i a \<and> (\<exists>k. (k, NodeLatency i a) \<in> set (app_linkLat a) \<and> HasPrefix k (node_prefix i))) \<and>
   ((\<forall>(k, v)\<in>set (app_linkLat a). HasPrefix k (node_prefix i) \<longrightarrow> v \<le> 0) \<longrightarrow> NodeLatency i a = mget 0 (app_ctrlLat a) i)"
  using best_latency_fold[of 0 "best_latency (node_prefix i) (app_linkLat a)" "node_prefix i" "app_linkLat a"]
  by (fastforce simp: NodeLatency_def Let_def best_latency_def)

definition ex_lat :: App where
  "ex_lat = setLinkLat 1 6001 40 (setLinkLat 1 6000 25 (setLinkLat 12 6000 3 (New empty_store [] [])))"

theorem node_latency_best_witness: "0 < NodeLatency 1 ex_lat \<and> NodeLatency 1 ex_lat \<le> 25"
proof -
  have m: "(liveKey 1 6000, 25) \<in> set (app_linkLat ex_lat)"
    by (rule map_of_SomeD) (simp add: ex_lat_def setLinkLat_def map_of_update)
  show ?thesis
    using node_latency_best[of ex_lat 1] m by fastforce
qed

end
