(* ===== verification/Pipeline.thy ===== *)
theory Pipeline
  imports App
begin

text \<open>
  \<^verbatim>\<open>internal/panel/pipeline.go\<close>: the metrics path of the panel. \<^verbatim>\<open>Account\<close> folds a sample into the
  node's state, \<^verbatim>\<open>flush\<close> moves the buffered traffic and minute aggregates to the database and
  persists the sequence watermark. An operation runs with the state of the whole panel, because it
  also updates live statuses, logs and the browsers.
\<close>

section \<open>Per-node state\<close>

definition metricsIntervalSec :: int64 where "metricsIntervalSec = 5"
definition ringCapacity :: int where "ringCapacity = 90"

definition zero_day :: dayTraffic where
  "zero_day = \<lparr>dt_nodeRx = 0, dt_nodeTx = 0, dt_tunIn = 0, dt_tunOut = 0\<rparr>"

definition new_nodeState :: "int \<Rightarrow> int \<Rightarrow> nodeState" where
  "new_nodeState lastSeq persisted = \<lparr>ns_ring = NewRing ringCapacity, ns_seq = NewSeqTracker lastSeq, ns_agg = zero_agg,
     ns_traf = [], ns_lastPersistedSeq = persisted\<rparr>"

definition InitNode :: "int \<Rightarrow> int \<Rightarrow> App \<Rightarrow> App" where
  "InitNode nodeID lastSeq a =
     (case map_of (app_pipe a) nodeID of
        Some s \<Rightarrow>
          if seq_Last (ns_seq s) < lastSeq
          then a\<lparr>app_pipe := AList.update nodeID (s\<lparr>ns_seq := NewSeqTracker lastSeq\<rparr>) (app_pipe a)\<rparr>
          else a
      | None \<Rightarrow> a\<lparr>app_pipe := AList.update nodeID (new_nodeState lastSeq lastSeq) (app_pipe a)\<rparr>)"

definition RemoveNode :: "int \<Rightarrow> App \<Rightarrow> App" where
  "RemoveNode nodeID a = a\<lparr>app_pipe := AList.delete nodeID (app_pipe a)\<rparr>"

definition pipe_get :: "int \<Rightarrow> App \<Rightarrow> nodeState \<times> App" where
  "pipe_get nodeID a =
     (case map_of (app_pipe a) nodeID of
        Some s \<Rightarrow> (s, a)
      | None \<Rightarrow> (let s = new_nodeState 0 0 in (s, a\<lparr>app_pipe := AList.update nodeID s (app_pipe a)\<rparr>)))"

definition put_node :: "int \<Rightarrow> nodeState \<Rightarrow> App \<Rightarrow> App" where
  "put_node nodeID s a = a\<lparr>app_pipe := AList.update nodeID s (app_pipe a)\<rparr>"

definition RingSnapshot :: "int \<Rightarrow> App \<Rightarrow> Sample list" where
  "RingSnapshot nodeID a = (case map_of (app_pipe a) nodeID of None \<Rightarrow> [] | Some s \<Rightarrow> Snapshot (ns_ring s))"

definition LastSample :: "int \<Rightarrow> App \<Rightarrow> Sample option" where
  "LastSample nodeID a = (let snap = RingSnapshot nodeID a in if snap = [] then None else Some (last snap))"

definition CommitSeq :: "int \<Rightarrow> App \<Rightarrow> int" where
  "CommitSeq nodeID a = (case map_of (app_pipe a) nodeID of None \<Rightarrow> 0 | Some s \<Rightarrow> seq_Last (ns_seq s))"

section \<open>Accounting a sample\<close>

definition account_proxy :: "int \<Rightarrow> int \<Rightarrow> ProxyTraffic \<Rightarrow> App \<times> int64 \<times> int64 \<Rightarrow> App \<times> int64 \<times> int64" where
  "account_proxy t nodeID px acc =
     (case acc of (a, tunIn, tunOut) \<Rightarrow>
       let tunIn = tunIn + tr_DeltaIn px; tunOut = tunOut + tr_DeltaOut px
       in if tr_RemotePort px \<le> 0 then (a, tunIn, tunOut)
          else if tr_Status px \<noteq> []
          then (case setLive nodeID (tr_RemotePort px) (tr_Status px) a of
                  (True, a') \<Rightarrow> (onTunnelStatusChange t nodeID (tr_RemotePort px) (tr_Proto px) (tr_Status px) a', tunIn, tunOut)
                | (False, a') \<Rightarrow> (a', tunIn, tunOut))
          else (a, tunIn, tunOut))"

definition add_day :: "Metrics \<Rightarrow> int64 \<Rightarrow> int64 \<Rightarrow> dayTraffic \<Rightarrow> dayTraffic" where
  "add_day m tunIn tunOut d = d\<lparr>dt_nodeRx := dt_nodeRx d + m_NetRxDelta m, dt_nodeTx := dt_nodeTx d + m_NetTxDelta m,
     dt_tunIn := dt_tunIn d + tunIn, dt_tunOut := dt_tunOut d + tunOut\<rparr>"

text \<open>The time a sample is accounted to: its own, or the clock of the panel when it has none.\<close>

definition sample_time :: "int \<Rightarrow> Metrics \<Rightarrow> int" where
  "sample_time nowMs m = (if m_SampledAt m = 0 then nowMs else m_SampledAt m)"

definition Account :: "int \<Rightarrow> int \<Rightarrow> Metrics \<Rightarrow> App \<Rightarrow> Sample option \<times> App" where
  "Account nowMs nodeID m a =
     (let (s, a) = pipe_get nodeID a;
          (ok, tracker) = Accept (m_Seq m) (ns_seq s);
          s = s\<lparr>ns_seq := tracker\<rparr>; a = put_node nodeID s a
      in if \<not> ok then (None, a)
         else
           (let (a, tunIn, tunOut) = fold (account_proxy (nowMs div 1000) nodeID) (m_Proxies m) (a, 0, 0);
                atMs = sample_time nowMs m;
                day = ShanghaiDay atMs;
                s = s\<lparr>ns_traf := AList.update day (add_day m tunIn tunOut (mget zero_day (ns_traf s) day)) (ns_traf s),
                      ns_agg := agg_Add \<lparr>ai_AtUnixMs = atMs, ai_CPU = m_CPU m, ai_Mem = m_Mem m, ai_NetRxBps = m_NetRxBps m,
                         ai_NetTxBps = m_NetTxBps m, ai_NodeRxDelta = m_NetRxDelta m, ai_NodeTxDelta = m_NetTxDelta m,
                         ai_TunInDelta = tunIn, ai_TunOutDelta = tunOut\<rparr> (ns_agg s)\<rparr>
            in if m_Backfill m then (None, put_node nodeID s a)
               else
                 (let sample = \<lparr>sm_AtUnixMs = atMs, sm_CPU = m_CPU m, sm_Mem = m_Mem m, sm_NetRxBps = m_NetRxBps m,
                         sm_NetTxBps = m_NetTxBps m, sm_TunInBps = quot64 tunIn metricsIntervalSec,
                         sm_TunOutBps = quot64 tunOut metricsIntervalSec\<rparr>
                  in (Some sample, put_node nodeID (s\<lparr>ns_ring := ring_Add sample (ns_ring s)\<rparr>) a))))"

section \<open>Flushing\<close>

definition minute_row :: "int \<Rightarrow> MinuteAgg \<Rightarrow> MinuteRow list" where
  "minute_row nodeID agg =
     (if 0 < ma_Count agg
      then [\<lparr>mr_NodeID = nodeID, mr_TS = ma_MinuteUnix agg, mr_CPUAvg = AvgCPU agg, mr_MemAvg = AvgMem agg,
             mr_RxPeak = ma_PeakRxBps agg, mr_TxPeak = ma_PeakTxBps agg\<rparr>]
      else [])"

definition day_row :: "int \<Rightarrow> string \<times> dayTraffic \<Rightarrow> TrafficDaily list" where
  "day_row nodeID e =
     (case e of (day, d) \<Rightarrow>
       if or (or (or (dt_nodeRx d) (dt_nodeTx d)) (dt_tunIn d)) (dt_tunOut d) \<noteq> 0
       then [\<lparr>td_NodeID = nodeID, td_Day = day, td_NodeRxBytes = dt_nodeRx d, td_NodeTxBytes = dt_nodeTx d,
              td_TunInBytes = dt_tunIn d, td_TunOutBytes = dt_tunOut d\<rparr>]
       else [])"

text \<open>The first loop: watermarks, minute rows and traffic rows of all nodes; the buffers are emptied.\<close>

definition drain_state :: "nodeState \<Rightarrow> nodeState" where
  "drain_state s = s\<lparr>ns_agg := zero_agg, ns_traf := []\<rparr>"

definition flush_rows :: "App \<Rightarrow> MinuteRow list" where
  "flush_rows a = concat (map (\<lambda>(i, s). minute_row i (ns_agg s)) (app_pipe a))"

definition flush_traffic :: "App \<Rightarrow> TrafficDaily list" where
  "flush_traffic a = concat (map (\<lambda>(i, s). concat (map (day_row i) (ns_traf s))) (app_pipe a))"

definition drain :: "App \<Rightarrow> App" where
  "drain a = a\<lparr>app_pipe := map (\<lambda>(i, s). (i, drain_state s)) (app_pipe a)\<rparr>"

definition drop_batch :: "App \<Rightarrow> App" where
  "drop_batch a = a\<lparr>app_droppedBatches := app_droppedBatches a + 1\<rparr>"

text \<open>The second loop writes the traffic rows and notes the nodes with a failed write.\<close>

fun write_traffic :: "TrafficDaily list \<Rightarrow> int list \<Rightarrow> App \<Rightarrow> int list \<times> App" where
  "write_traffic [] failed a = (failed, a)"
| "write_traffic (r # rs) failed a =
     (case run_db (IncrTrafficDaily r) a of
        (Inl _, a') \<Rightarrow> write_traffic rs (td_NodeID r # failed) (drop_batch a')
      | (Inr _, a') \<Rightarrow> write_traffic rs failed a')"

text \<open>The third loop persists the watermarks of the nodes without a failed write.\<close>

definition persist_one :: "int list \<Rightarrow> int \<times> int \<Rightarrow> App \<Rightarrow> App" where
  "persist_one failed e a =
     (case e of (i, seqAt) \<Rightarrow>
       if i \<in> set failed then a
       else case map_of (app_pipe a) i of
              None \<Rightarrow> a
            | Some s \<Rightarrow>
                if ns_lastPersistedSeq s < seqAt
                then (case run_db (SetNodeLastCommitSeq i seqAt) a of
                        (Inl _, a') \<Rightarrow> a'
                      | (Inr _, a') \<Rightarrow> put_node i (s\<lparr>ns_lastPersistedSeq := seqAt\<rparr>) a')
                else a)"

definition persist_marks :: "(int \<times> int) list \<Rightarrow> int list \<Rightarrow> App \<Rightarrow> App" where
  "persist_marks ms failed a = fold (persist_one failed) ms a"

definition seq_marks :: "App \<Rightarrow> (int \<times> int) list" where
  "seq_marks a = map (\<lambda>(i, s). (i, seq_Last (ns_seq s))) (app_pipe a)"

definition flush :: "App \<Rightarrow> App" where
  "flush a =
     (let rows = flush_rows a; trafRows = flush_traffic a; seqAt = seq_marks a; a = drain a
      in if \<not> DBUp a then (if rows \<noteq> [] \<or> trafRows \<noteq> [] then drop_batch a else a)
         else
           (let a = (if rows \<noteq> []
                     then (case run_db (BatchUpsertMinutely rows) a of (Inl _, a') \<Rightarrow> drop_batch a' | (Inr _, a') \<Rightarrow> a')
                     else a);
                (failed, a) = write_traffic trafRows [] a
            in persist_marks seqAt failed a))"

text \<open>The rollup and cleanup ticks of \<^verbatim>\<open>Run\<close>.\<close>

definition rollup_tick :: "int \<Rightarrow> App \<Rightarrow> App" where
  "rollup_tick t a = (if DBUp a then snd (run_db (RollupDaily t) (snd (run_db (RollupHourly t) a))) else a)"

definition cleanup_tick :: "int \<Rightarrow> App \<Rightarrow> App" where
  "cleanup_tick t a = (if DBUp a then snd (run_db (CleanupMetrics t) a) else a)"

end
