(* ===== verification/Accounting.thy ===== *)
theory Accounting
  imports Pipeline
begin

text \<open>
  Exactly-once traffic accounting. The traffic of a node and day is counted in two places, the
  database row (durable) and the buffer of the pipeline (pending). The lemmas follow their sum
  through \<^verbatim>\<open>Account\<close> and \<^verbatim>\<open>flush\<close>, and the step relation \<open>acct_step\<close> follows a panel through deliveries,
  duplicates, flushes and restarts. The four byte counters are treated alike through \<open>chan\<close>.
\<close>

section \<open>Counters\<close>

datatype chan = NodeRx | NodeTx | TunIn | TunOut

fun td_get :: "chan \<Rightarrow> TrafficDaily \<Rightarrow> int64" where
  "td_get NodeRx r = td_NodeRxBytes r"
| "td_get NodeTx r = td_NodeTxBytes r"
| "td_get TunIn r = td_TunInBytes r"
| "td_get TunOut r = td_TunOutBytes r"

fun dt_get :: "chan \<Rightarrow> dayTraffic \<Rightarrow> int64" where
  "dt_get NodeRx d = dt_nodeRx d"
| "dt_get NodeTx d = dt_nodeTx d"
| "dt_get TunIn d = dt_tunIn d"
| "dt_get TunOut d = dt_tunOut d"

fun m_get :: "chan \<Rightarrow> Metrics \<Rightarrow> int64" where
  "m_get NodeRx m = m_NetRxDelta m"
| "m_get NodeTx m = m_NetTxDelta m"
| "m_get TunIn m = sum_list (map tr_DeltaIn (m_Proxies m))"
| "m_get TunOut m = sum_list (map tr_DeltaOut (m_Proxies m))"

definition durable :: "Store \<Rightarrow> int \<Rightarrow> string \<Rightarrow> chan \<Rightarrow> int64" where
  "durable s i day c = (case traffic_of s i day of None \<Rightarrow> 0 | Some r \<Rightarrow> td_get c r)"

definition buffered :: "nodeState \<Rightarrow> string \<Rightarrow> chan \<Rightarrow> int64" where
  "buffered s day c = dt_get c (mget zero_day (ns_traf s) day)"

definition pending :: "App \<Rightarrow> int \<Rightarrow> string \<Rightarrow> chan \<Rightarrow> int64" where
  "pending a i day c = (case map_of (app_pipe a) i of None \<Rightarrow> 0 | Some s \<Rightarrow> buffered s day c)"

definition counted :: "App \<Rightarrow> int \<Rightarrow> string \<Rightarrow> chan \<Rightarrow> int64" where
  "counted a i day c = durable (app_store a) i day c + pending a i day c"

definition commit_marks :: "Store \<Rightarrow> (int \<times> int) list" where
  "commit_marks s = map (\<lambda>n. (nd_ID n, nd_LastCommitSeq n)) (db_nodes s)"

lemma dt_get_zero [simp]: "dt_get c zero_day = 0"
  by (cases c) (simp_all add: zero_day_def)

lemma dt_get_add_day:
  "dt_get c (add_day m (m_get TunIn m) (m_get TunOut m) d) = dt_get c d + m_get c m"
  by (cases c) (simp_all add: add_day_def)

lemma td_get_incr_row [simp]: "td_get c (incr_row d r) = td_get c r + td_get c d"
  by (cases c) (simp_all add: incr_row_def)

section \<open>Steps that do not touch the accounts\<close>

definition frame :: "App \<Rightarrow> App \<Rightarrow> bool" where
  "frame a a' \<longleftrightarrow> app_pipe a' = app_pipe a \<and> app_dbHealthy a' = app_dbHealthy a \<and>
     db_traffic (app_store a') = db_traffic (app_store a) \<and> commit_marks (app_store a') = commit_marks (app_store a) \<and>
     (db_faults (app_store a) = [] \<longrightarrow> db_faults (app_store a') = [])"

lemma frame_refl [simp]: "frame a a"
  by (simp add: frame_def)

lemma frame_trans: "frame a b \<Longrightarrow> frame b c \<Longrightarrow> frame a c"
  by (auto simp: frame_def)

text \<open>A statement that leaves traffic and watermarks alone.\<close>

definition quiet :: "'a db \<Rightarrow> bool" where
  "quiet f \<longleftrightarrow> (\<forall>s. db_traffic (snd (f s)) = db_traffic s \<and> commit_marks (snd (f s)) = commit_marks s \<and>
     (db_faults s = [] \<longrightarrow> db_faults (snd (f s)) = []))"

lemma quiet_stmt:
  assumes "\<And>s. db_traffic (snd (f s)) = db_traffic s" "\<And>s. commit_marks (snd (f s)) = commit_marks s"
    "\<And>s. db_faults (snd (f s)) = db_faults s"
  shows "quiet (stmt f)"
  using assms by (auto simp: quiet_def stmt_def commit_marks_def split: list.split)

lemma quiet_AddLog: "quiet (AddLog t typ src nid det)"
  unfolding AddLog_def by (rule quiet_stmt) (simp_all add: db_upd_def commit_marks_def)

lemma quiet_UpdateTargetStatusByPort: "quiet (UpdateTargetStatusByPort i p st)"
  unfolding UpdateTargetStatusByPort_def by (rule quiet_stmt) (simp_all add: db_upd_def commit_marks_def)

lemma frame_run_db: "quiet f \<Longrightarrow> frame a (snd (run_db f a))"
  by (auto simp: quiet_def run_db_def frame_def Let_def split: prod.splits) (metis snd_conv)+

lemma frame_broadcast: "frame a (broadcast m a)"
  by (simp add: frame_def broadcast_def)

lemma frame_app_AddLog: "frame a (app_AddLog t typ src nid det a)"
  by (simp add: app_AddLog_def frame_run_db quiet_AddLog)

lemma frame_setLive: "frame a (snd (setLive i p st a))"
  by (simp add: setLive_def Let_def frame_def)

lemma frame_onTunnelStatusChange: "frame a (onTunnelStatusChange t i p proto st a)"
  unfolding onTunnelStatusChange_def Let_def
  by (cases "DBUp (broadcast (wsTunnelStatus i p st) a)")
    (simp_all del: append.simps add: frame_trans[OF frame_trans[OF frame_broadcast frame_run_db[OF quiet_UpdateTargetStatusByPort]] frame_app_AddLog]
       frame_trans[OF frame_broadcast frame_app_AddLog])

lemma account_proxy_frame:
  "account_proxy t i px (a, x, y) = (a', x', y') \<Longrightarrow> frame a a' \<and> x' = x + tr_DeltaIn px \<and> y' = y + tr_DeltaOut px"
  using frame_setLive[of a i "tr_RemotePort px" "tr_Status px"]
  by (auto simp: account_proxy_def Let_def split: if_splits prod.splits bool.splits
      intro: frame_trans[OF _ frame_onTunnelStatusChange])

lemma account_proxies_frame:
  "fold (account_proxy t i) pxs (a, x, y) = (a', x', y') \<Longrightarrow>
     frame a a' \<and> x' = x + sum_list (map tr_DeltaIn pxs) \<and> y' = y + sum_list (map tr_DeltaOut pxs)"
proof (induction pxs arbitrary: a x y)
  case (Cons px pxs)
  obtain a1 x1 y1 where s: "account_proxy t i px (a, x, y) = (a1, x1, y1)" by (cases "account_proxy t i px (a, x, y)")
  then have "fold (account_proxy t i) pxs (a1, x1, y1) = (a', x', y')" using Cons.prems by simp
  from Cons.IH[OF this] account_proxy_frame[OF s] show ?case
    by (auto simp: algebra_simps intro: frame_trans)
qed simp

section \<open>Accounting a sample\<close>

lemma pipe_put_node [simp]:
  "map_of (app_pipe (put_node i s a)) = (map_of (app_pipe a))(i \<mapsto> s)" "app_store (put_node i s a) = app_store a"
  "app_dbHealthy (put_node i s a) = app_dbHealthy a" "app_droppedBatches (put_node i s a) = app_droppedBatches a"
  by (simp_all add: put_node_def map_of_update)

definition node_of :: "int \<Rightarrow> App \<Rightarrow> nodeState" where
  "node_of i a = (case map_of (app_pipe a) i of Some s \<Rightarrow> s | None \<Rightarrow> new_nodeState 0 0)"

lemma fst_pipe_get: "fst (pipe_get i a) = node_of i a"
  by (auto simp: pipe_get_def node_of_def Let_def split: option.split)

lemma put_pipe_get: "put_node i s (snd (pipe_get i a)) = put_node i s a"
  by (auto simp: pipe_get_def put_node_def Let_def split: option.split)

lemma CommitSeq_node_of: "CommitSeq i a = seq_Last (ns_seq (node_of i a))"
  by (auto simp: CommitSeq_def node_of_def new_nodeState_def NewSeqTracker_def seq_Last_def split: option.split)

lemma pending_node_of: "pending a i day c = buffered (node_of i a) day c"
  by (auto simp: pending_def node_of_def buffered_def new_nodeState_def mget_def split: option.split)

text \<open>What \<^verbatim>\<open>Account\<close> leaves in the node's state and in the rest of the panel.\<close>

lemma Account_shape:
  obtains s' a' where "snd (Account nowMs i m a) = put_node i s' a'" "frame (put_node i s' a) (put_node i s' a')"
    "seq_Last (ns_seq s') = max (CommitSeq i a) (m_Seq m)" "ns_lastPersistedSeq s' = ns_lastPersistedSeq (node_of i a)"
    "ns_traf s' = (let tr = ns_traf (node_of i a); day = ShanghaiDay (sample_time nowMs m) in
       if CommitSeq i a < m_Seq m
       then AList.update day (add_day m (m_get TunIn m) (m_get TunOut m) (mget zero_day tr day)) tr else tr)"
proof -
  let ?s = "node_of i a"
  obtain ok tracker where acc: "Accept (m_Seq m) (ns_seq ?s) = (ok, tracker)" by (cases "Accept (m_Seq m) (ns_seq ?s)")
  have ok: "ok \<longleftrightarrow> CommitSeq i a < m_Seq m" and tr: "seq_Last tracker = max (CommitSeq i a) (m_Seq m)"
    using seq.accept_iff[of "m_Seq m" "ns_seq ?s"] seq.mark_accept[of "m_Seq m" "ns_seq ?s"]
    by (simp_all add: acc CommitSeq_node_of)
  let ?s1 = "?s\<lparr>ns_seq := tracker\<rparr>" and ?a1 = "put_node i (?s\<lparr>ns_seq := tracker\<rparr>) a"
  obtain a0 where pg: "pipe_get i a = (?s, a0)" "\<And>s. put_node i s a0 = put_node i s a"
    using fst_pipe_get[of i a] put_pipe_get[of i _ a] by (metis prod.collapse)
  show ?thesis
  proof (cases ok)
    case False
    then have "snd (Account nowMs i m a) = ?a1"
      using acc by (simp add: Account_def Let_def pg)
    with False ok tr show ?thesis by (intro that[of ?s1 a]) (simp_all add: Let_def)
  next
    case True
    obtain a2 x y where f: "fold (account_proxy (nowMs div 1000) i) (m_Proxies m) (?a1, 0, 0) = (a2, x, y)"
      by (cases "fold (account_proxy (nowMs div 1000) i) (m_Proxies m) (?a1, 0, 0)")
    from account_proxies_frame[OF f] have fr: "frame ?a1 a2" "x = m_get TunIn m" "y = m_get TunOut m" by auto
    have fr': "frame (put_node i s' a) (put_node i s' a2)" for s'
      using fr(1) by (simp add: frame_def put_node_def)
    define day where "day = ShanghaiDay (sample_time nowMs m)"
    have "\<exists>s'. snd (Account nowMs i m a) = put_node i s' a2 \<and> ns_seq s' = tracker \<and> ns_lastPersistedSeq s' = ns_lastPersistedSeq ?s \<and>
        ns_traf s' = AList.update day (add_day m x y (mget zero_day (ns_traf ?s) day)) (ns_traf ?s)"
    proof (cases "m_Backfill m")
      case True
      then show ?thesis using \<open>ok\<close> acc f
        by (simp only: Account_def Let_def pg split_conv if_True if_False not_True_eq_False day_def[symmetric] snd_conv)
          (rule exI, rule conjI, rule refl, simp)
    next
      case False
      then show ?thesis using \<open>ok\<close> acc f
        by (simp only: Account_def Let_def pg split_conv if_True if_False not_True_eq_False day_def[symmetric] snd_conv)
          (rule exI, rule conjI, rule refl, simp)
    qed
    then obtain s' where s': "snd (Account nowMs i m a) = put_node i s' a2" "ns_seq s' = tracker" "ns_lastPersistedSeq s' = ns_lastPersistedSeq ?s"
      "ns_traf s' = AList.update day (add_day m x y (mget zero_day (ns_traf ?s) day)) (ns_traf ?s)"
      by blast
    then show ?thesis using True ok tr fr fr' by (intro that[of s' a2]) (simp_all add: Let_def day_def)
  qed
qed

lemma Account_node_of:
  obtains s' where "\<And>j. node_of j (snd (Account nowMs i m a)) = (if j = i then s' else node_of j a)"
    "\<And>j. j \<in> dom (map_of (app_pipe (snd (Account nowMs i m a)))) \<longleftrightarrow> j = i \<or> j \<in> dom (map_of (app_pipe a))"
    "seq_Last (ns_seq s') = max (CommitSeq i a) (m_Seq m)" "ns_lastPersistedSeq s' = ns_lastPersistedSeq (node_of i a)"
    "\<And>day c. buffered s' day c = pending a i day c
       + (if CommitSeq i a < m_Seq m \<and> day = ShanghaiDay (sample_time nowMs m) then m_get c m else 0)"
proof -
  obtain s' a' where S: "snd (Account nowMs i m a) = put_node i s' a'" "frame (put_node i s' a) (put_node i s' a')"
    "seq_Last (ns_seq s') = max (CommitSeq i a) (m_Seq m)" "ns_lastPersistedSeq s' = ns_lastPersistedSeq (node_of i a)"
    "ns_traf s' = (let tr = ns_traf (node_of i a); day = ShanghaiDay (sample_time nowMs m) in
       if CommitSeq i a < m_Seq m
       then AList.update day (add_day m (m_get TunIn m) (m_get TunOut m) (mget zero_day tr day)) tr else tr)"
    by (rule Account_shape)
  have pipe: "app_pipe (snd (Account nowMs i m a)) = app_pipe (put_node i s' a)" using S(1,2) by (simp add: frame_def)
  show ?thesis
  proof (rule that[of s'])
    show "node_of j (snd (Account nowMs i m a)) = (if j = i then s' else node_of j a)" for j
      by (simp add: node_of_def pipe)
    show "j \<in> dom (map_of (app_pipe (snd (Account nowMs i m a)))) \<longleftrightarrow> j = i \<or> j \<in> dom (map_of (app_pipe a))" for j
      by (auto simp: pipe)
    show "buffered s' day c = pending a i day c
       + (if CommitSeq i a < m_Seq m \<and> day = ShanghaiDay (sample_time nowMs m) then m_get c m else 0)" for day c
      unfolding pending_node_of buffered_def S(5) Let_def
      by (simp add: mget_def map_of_update dt_get_add_day del: m_get.simps)
  qed (use S in auto)
qed

definition wf_pipe :: "App \<Rightarrow> bool" where
  "wf_pipe a \<longleftrightarrow> wf_gomap (app_pipe a) \<and> (\<forall>(i, s)\<in>set (app_pipe a). wf_gomap (ns_traf s))"

lemma wf_pipe_put: "wf_pipe a \<Longrightarrow> wf_gomap (ns_traf s) \<Longrightarrow> wf_pipe (put_node i s a)"
  by (auto simp: wf_pipe_def put_node_def wf_gomap_update dest!: set_update_subset[THEN subsetD])

lemma wf_pipe_Account: "wf_pipe a \<Longrightarrow> wf_pipe (snd (Account nowMs i m a))"
proof -
  assume wf: "wf_pipe a"
  then have n: "wf_gomap (ns_traf (node_of i a))"
    by (auto simp: wf_pipe_def node_of_def new_nodeState_def dest: map_of_SomeD split: option.split)
  obtain s' a' where S: "snd (Account nowMs i m a) = put_node i s' a'" "frame (put_node i s' a) (put_node i s' a')"
    "ns_traf s' = (let tr = ns_traf (node_of i a); day = ShanghaiDay (sample_time nowMs m) in
       if CommitSeq i a < m_Seq m
       then AList.update day (add_day m (m_get TunIn m) (m_get TunOut m) (mget zero_day tr day)) tr else tr)"
    by (rule Account_shape)
  have "wf_pipe (put_node i s' a)" using wf n by (intro wf_pipe_put) (simp_all add: S(3) Let_def wf_gomap_update)
  then show ?thesis using S(1,2) by (simp add: wf_pipe_def frame_def)
qed

lemma Account_store:
  "db_traffic (app_store (snd (Account nowMs i m a))) = db_traffic (app_store a)"
  "commit_marks (app_store (snd (Account nowMs i m a))) = commit_marks (app_store a)"
  "db_faults (app_store a) = [] \<Longrightarrow> db_faults (app_store (snd (Account nowMs i m a))) = []"
  "app_dbHealthy (snd (Account nowMs i m a)) = app_dbHealthy a"
  by (rule Account_shape[of nowMs i m a], simp add: frame_def)+

section \<open>Flushing\<close>

lemma quiet_bind: "quiet f \<Longrightarrow> (\<And>x. quiet (g x)) \<Longrightarrow> quiet (db_bind f g)"
  unfolding quiet_def db_bind_def by (auto split: prod.split sum.split) (metis snd_conv)+

lemma quiet_return: "quiet (db_return x)"
  by (simp add: quiet_def db_return_def)

lemma quiet_stmt_return: "quiet (stmt (db_return x))"
  by (rule quiet_stmt) (simp_all add: db_return_def)

lemma quiet_in_tx: "quiet body \<Longrightarrow> quiet (in_tx body)"
proof -
  assume "quiet body"
  then have "quiet (db_bind (stmt (db_return ())) (\<lambda>_. db_bind body (\<lambda>x. stmt (db_return x))))"
    by (intro quiet_bind quiet_stmt_return)
  then have b: "db_traffic s' = db_traffic s \<and> commit_marks s' = commit_marks s \<and> (db_faults s = [] \<longrightarrow> db_faults s' = [])"
    if "db_bind (stmt (db_return ())) (\<lambda>_. db_bind body (\<lambda>x. stmt (db_return x))) s = (r, s')" for s r s'
    using that unfolding quiet_def by (metis snd_conv)
  show ?thesis
    unfolding quiet_def in_tx_def by (auto simp: commit_marks_def[of "s\<lparr>db_faults := x\<rparr>" for s x] commit_marks_def[symmetric]
        split: prod.split sum.split dest: b)
qed

lemma quiet_BatchUpsertMinutely: "quiet (BatchUpsertMinutely rows)"
proof -
  have "quiet (upsert_minutely rs)" for rs
    by (induction rs) (auto intro!: quiet_return quiet_bind quiet_stmt simp: db_upd_def commit_marks_def)
  then show ?thesis
    by (simp add: BatchUpsertMinutely_def quiet_return quiet_in_tx quiet_bind quiet_stmt_return)
qed

definition key_sum :: "TrafficDaily list \<Rightarrow> int \<Rightarrow> string \<Rightarrow> chan \<Rightarrow> int64" where
  "key_sum rs i day c = sum_list (map (\<lambda>r. if td_key r = (i, day) then td_get c r else 0) rs)"

lemma durable_IncrTrafficDaily:
  assumes "IncrTrafficDaily d s = (Inr (), s')"
  shows "durable s' i day c = durable s i day c + (if td_key d = (i, day) then td_get c d else 0)"
  unfolding durable_def IncrTrafficDaily_row[OF assms] by (auto split: option.split)

lemma IncrTrafficDaily_rest:
  "commit_marks (snd (IncrTrafficDaily d s)) = commit_marks s"
  "db_faults s = [] \<Longrightarrow> db_faults (snd (IncrTrafficDaily d s)) = []"
  by (auto simp: IncrTrafficDaily_def stmt_def commit_marks_def split: list.splits option.split)

lemma write_traffic_rest:
  assumes "write_traffic rs failed a = (failed', a')"
  shows "app_pipe a' = app_pipe a \<and> app_dbHealthy a' = app_dbHealthy a \<and> commit_marks (app_store a') = commit_marks (app_store a) \<and>
    app_droppedBatches a \<le> app_droppedBatches a' \<and> (db_faults (app_store a) = [] \<longrightarrow> db_faults (app_store a') = [])"
  using assms
proof (induction rs failed a rule: write_traffic.induct)
  case (2 r rs failed a)
  obtain res st where i: "IncrTrafficDaily r (app_store a) = (res, st)" by (cases "IncrTrafficDaily r (app_store a)")
  have st: "commit_marks st = commit_marks (app_store a)" "db_faults (app_store a) = [] \<longrightarrow> db_faults st = []"
    using IncrTrafficDaily_rest[where d = r and s = "app_store a"] i by auto
  show ?case
  proof (cases res)
    case (Inl e)
    then have r: "run_db (IncrTrafficDaily r) a = (Inl e, a\<lparr>app_store := st\<rparr>)" by (simp add: run_db_def i)
    then show ?thesis using "2.IH"(1)[OF r[symmetric] refl] "2.prems" st by (simp add: drop_batch_def)
  next
    case (Inr u)
    then have r: "run_db (IncrTrafficDaily r) a = (Inr u, a\<lparr>app_store := st\<rparr>)" by (simp add: run_db_def i)
    then show ?thesis using "2.IH"(2)[OF r[symmetric] refl] "2.prems" st by simp
  qed
qed simp

text \<open>If no batch was dropped, every row was added to the database.\<close>

lemma write_traffic_durable:
  assumes "write_traffic rs failed a = (failed', a')" "app_droppedBatches a' = app_droppedBatches a"
  shows "failed' = failed \<and> durable (app_store a') i day c = durable (app_store a) i day c + key_sum rs i day c"
  using assms
proof (induction rs failed a rule: write_traffic.induct)
  case (2 r rs failed a)
  show ?case
  proof (cases "fst (IncrTrafficDaily r (app_store a))")
    case (Inl e)
    then obtain st where r: "run_db (IncrTrafficDaily r) a = (Inl e, a\<lparr>app_store := st\<rparr>)"
      by (cases "IncrTrafficDaily r (app_store a)") (auto simp: run_db_def)
    then have "app_droppedBatches a + 1 \<le> app_droppedBatches a'"
      using write_traffic_rest[of rs "td_NodeID r # failed" "drop_batch (a\<lparr>app_store := st\<rparr>)" failed' a'] "2.prems"(1)
      by (simp add: drop_batch_def)
    then show ?thesis using "2.prems"(2) by simp
  next
    case (Inr u)
    then obtain st where i: "IncrTrafficDaily r (app_store a) = (Inr (), st)" by (cases "IncrTrafficDaily r (app_store a)") auto
    then have r: "run_db (IncrTrafficDaily r) a = (Inr (), a\<lparr>app_store := st\<rparr>)" by (simp add: run_db_def)
    show ?thesis
      using "2.IH"(2)[OF r[symmetric] refl] "2.prems" r durable_IncrTrafficDaily[OF i]
      by (simp add: key_sum_def)
  qed
qed (simp add: key_sum_def)

lemma sum_list_by_key:
  "wf_gomap m \<Longrightarrow> sum_list (map (\<lambda>(k, v). if k = x then f v else (0 :: int64)) m) = (case map_of m x of None \<Rightarrow> 0 | Some v \<Rightarrow> f v)"
proof (induction m)
  case (Cons e m)
  then have "fst e = x \<Longrightarrow> map_of m x = None" by (auto simp: map_of_eq_None_iff)
  with Cons show ?case by (cases e) auto
qed simp

lemma key_sum_append [simp]: "key_sum (xs @ ys) i day c = key_sum xs i day c + key_sum ys i day c"
  by (simp add: key_sum_def)

lemma key_sum_concat: "key_sum (concat xss) i day c = sum_list (map (\<lambda>xs. key_sum xs i day c) xss)"
  by (induction xss) (simp_all add: key_sum_def)

lemma key_sum_day_row: "key_sum (day_row i e) j day c = (if fst e = day then if i = j then dt_get c (snd e) else 0 else 0)"
  by (cases e; cases c) (auto simp: day_row_def key_sum_def td_key_def or_eq_0_iff)

text \<open>The rows of a flush carry exactly what the buffers hold.\<close>

lemma key_sum_flush_traffic:
  assumes "wf_pipe a"
  shows "key_sum (flush_traffic a) i day c = pending a i day c"
proof -
  have "key_sum (concat (map (day_row k) (ns_traf s))) i day c = (if k = i then buffered s day c else 0)"
    if "(k, s) \<in> set (app_pipe a)" for k s
  proof -
    have "wf_gomap (ns_traf s)" using assms that by (auto simp: wf_pipe_def)
    moreover have "key_sum (concat (map (day_row k) (ns_traf s))) i day c
        = sum_list (map (\<lambda>(d, v). if d = day then (if k = i then dt_get c v else 0) else 0) (ns_traf s))"
      by (simp add: key_sum_concat o_def key_sum_day_row case_prod_unfold)
    ultimately show ?thesis by (simp add: sum_list_by_key buffered_def mget_def split: option.split)
  qed
  then have "map (\<lambda>(k, s). key_sum (concat (map (day_row k) (ns_traf s))) i day c) (app_pipe a)
      = map (\<lambda>(k, s). if k = i then buffered s day c else 0) (app_pipe a)"
    by (intro map_cong) (auto simp del: concat.simps)
  moreover have "key_sum (flush_traffic a) i day c
      = sum_list (map (\<lambda>(k, s). key_sum (concat (map (day_row k) (ns_traf s))) i day c) (app_pipe a))"
    unfolding flush_traffic_def by (subst key_sum_concat) (simp add: o_def case_prod_unfold)
  ultimately have "key_sum (flush_traffic a) i day c = sum_list (map (\<lambda>(k, s). if k = i then buffered s day c else 0) (app_pipe a))"
    by (simp only:)
  then show ?thesis
    using assms by (simp add: sum_list_by_key wf_pipe_def pending_def)
qed

lemma drain_simps [simp]:
  "map_of (app_pipe (drain a)) i = map_option drain_state (map_of (app_pipe a) i)"
  "app_store (drain a) = app_store a" "app_dbHealthy (drain a) = app_dbHealthy a"
  "app_droppedBatches (drain a) = app_droppedBatches a"
  by (simp_all add: drain_def map_of_map_value)

lemma map_of_seq_marks: "map_of (seq_marks a) i = map_option (\<lambda>s. seq_Last (ns_seq s)) (map_of (app_pipe a) i)"
  by (simp add: seq_marks_def map_of_map_value)

lemma fst_seq_marks [simp]: "map fst (seq_marks a) = map fst (app_pipe a)"
  by (simp add: seq_marks_def o_def split_beta)

section \<open>Persisting the watermarks\<close>

lemma commit_marks_set:
  "commit_marks (upd_node (\<lambda>n. nd_ID n = i \<and> nd_LastCommitSeq n < v) (\<lambda>n. n\<lparr>nd_LastCommitSeq := v\<rparr>) s)
   = map (\<lambda>(k, w). (k, if k = i then max w v else w)) (commit_marks s)"
  by (auto simp: commit_marks_def upd_node_def)

lemma persist_one_ok:
  assumes "db_faults (app_store a) = []"
  shows "persist_one failed (i, v) a =
    (if i \<in> set failed then a else case map_of (app_pipe a) i of None \<Rightarrow> a
     | Some s \<Rightarrow> if ns_lastPersistedSeq s < v
         then put_node i (s\<lparr>ns_lastPersistedSeq := v\<rparr>) (a\<lparr>app_store := upd_node (\<lambda>n. nd_ID n = i \<and> nd_LastCommitSeq n < v)
                (\<lambda>n. n\<lparr>nd_LastCommitSeq := v\<rparr>) (app_store a)\<rparr>)
         else a)"
  using assms by (simp add: persist_one_def run_db_def SetNodeLastCommitSeq_def db_upd_def split: option.split)

lemma map_of_commit_marks_set:
  "map_of (commit_marks (upd_node (\<lambda>n. nd_ID n = i \<and> nd_LastCommitSeq n < v) (\<lambda>n. n\<lparr>nd_LastCommitSeq := v\<rparr>) s)) j
   = map_option (\<lambda>w. if j = i then max w v else w) (map_of (commit_marks s) j)"
  by (simp add: commit_marks_set map_of_map_value)

lemma persist_one_rest:
  assumes "db_faults (app_store a) = []"
  shows "db_faults (app_store (persist_one failed e a)) = [] \<and>
    db_traffic (app_store (persist_one failed e a)) = db_traffic (app_store a) \<and>
    app_dbHealthy (persist_one failed e a) = app_dbHealthy a \<and> app_droppedBatches (persist_one failed e a) = app_droppedBatches a \<and>
    (fst e \<noteq> j \<longrightarrow> map_of (app_pipe (persist_one failed e a)) j = map_of (app_pipe a) j \<and>
       map_of (commit_marks (app_store (persist_one failed e a))) j = map_of (commit_marks (app_store a)) j)"
proof -
  obtain i v where e: "e = (i, v)" by (cases e)
  have f: "db_faults (upd_node P f s) = db_faults s" "db_traffic (upd_node P f s) = db_traffic s" for P f s
    by (simp_all add: upd_node_def)
  show ?thesis
    using assms by (auto simp: e persist_one_ok[OF assms] f map_of_commit_marks_set option.map_ident split: option.split)
qed

lemma persist_marks_rest:
  assumes "db_faults (app_store a) = []"
  shows "db_faults (app_store (persist_marks ms failed a)) = [] \<and>
    db_traffic (app_store (persist_marks ms failed a)) = db_traffic (app_store a) \<and>
    app_dbHealthy (persist_marks ms failed a) = app_dbHealthy a \<and>
    app_droppedBatches (persist_marks ms failed a) = app_droppedBatches a \<and>
    (j \<notin> fst ` set ms \<longrightarrow> map_of (app_pipe (persist_marks ms failed a)) j = map_of (app_pipe a) j \<and>
       map_of (commit_marks (app_store (persist_marks ms failed a))) j = map_of (commit_marks (app_store a)) j)"
  using assms unfolding persist_marks_def
  by (induction ms arbitrary: a) (auto simp: persist_one_rest)

text \<open>The watermark of a node without a failed write becomes durable.\<close>

lemma persist_marks_node:
  assumes "db_faults (app_store a) = []" "wf_gomap ms" "(i, v) \<in> set ms" "i \<notin> set failed"
    "map_of (app_pipe a) i = Some s" "map_of (commit_marks (app_store a)) i = Some w" "ns_lastPersistedSeq s = w"
  shows "map_of (app_pipe (persist_marks ms failed a)) i = Some (s\<lparr>ns_lastPersistedSeq := max w v\<rparr>)"
    "map_of (commit_marks (app_store (persist_marks ms failed a))) i = Some (max w v)"
proof -
  obtain ms1 ms2 where ms: "ms = ms1 @ (i, v) # ms2" using assms(3) by (meson split_list)
  then have notin: "i \<notin> fst ` set ms1" "i \<notin> fst ` set ms2" using assms(2) by auto
  define a1 where "a1 = persist_marks ms1 failed a"
  define a2 where "a2 = persist_one failed (i, v) a1"
  have a1: "db_faults (app_store a1) = []" "map_of (app_pipe a1) i = Some s" "map_of (commit_marks (app_store a1)) i = Some w"
    using persist_marks_rest[OF assms(1), of ms1 failed i] assms notin by (auto simp: a1_def)
  have a2: "db_faults (app_store a2) = []" "map_of (app_pipe a2) i = Some (s\<lparr>ns_lastPersistedSeq := max w v\<rparr>)"
    "map_of (commit_marks (app_store a2)) i = Some (max w v)"
    using a1 assms(4,7) persist_one_rest[OF a1(1), of failed "(i, v)" i]
    by (auto simp: a2_def persist_one_ok[OF a1(1)] map_of_commit_marks_set max_def)
  have "persist_marks ms failed a = persist_marks ms2 failed a2"
    by (simp add: ms persist_marks_def a1_def a2_def)
  then show "map_of (app_pipe (persist_marks ms failed a)) i = Some (s\<lparr>ns_lastPersistedSeq := max w v\<rparr>)"
    "map_of (commit_marks (app_store (persist_marks ms failed a))) i = Some (max w v)"
    using persist_marks_rest[OF a2(1), of ms2 failed i] a2 notin by auto
qed

text \<open>The state before the watermarks are written.\<close>

lemma flush_up:
  assumes "wf_pipe a" "DBUp a" "db_faults (app_store a) = []"
  obtains failed a1 where "flush a = persist_marks (seq_marks a) failed a1" "app_pipe a1 = app_pipe (drain a)"
    "db_faults (app_store a1) = []" "commit_marks (app_store a1) = commit_marks (app_store a)" "DBUp a1"
    "app_droppedBatches a \<le> app_droppedBatches a1"
    "app_droppedBatches a1 = app_droppedBatches a \<Longrightarrow> failed = [] \<and>
       (\<forall>i day c. durable (app_store a1) i day c = durable (app_store a) i day c + pending a i day c)"
proof -
  define a0 where "a0 = (if flush_rows a \<noteq> []
      then (case run_db (BatchUpsertMinutely (flush_rows a)) (drain a) of (Inl _, a') \<Rightarrow> drop_batch a' | (Inr _, a') \<Rightarrow> a')
      else drain a)"
  obtain failed a1 where w: "write_traffic (flush_traffic a) [] a0 = (failed, a1)" by (cases "write_traffic (flush_traffic a) [] a0")
  have fl: "flush a = persist_marks (seq_marks a) failed a1"
    using assms(2) w by (simp add: flush_def Let_def a0_def)
  obtain r b where b: "run_db (BatchUpsertMinutely (flush_rows a)) (drain a) = (r, b)" by (cases "run_db (BatchUpsertMinutely (flush_rows a)) (drain a)")
  have "frame (drain a) b" "app_droppedBatches b = app_droppedBatches a"
    using frame_run_db[OF quiet_BatchUpsertMinutely, of "drain a" "flush_rows a"] b by (auto simp: run_db_def split: prod.splits)
  then have a0: "app_pipe a0 = app_pipe (drain a)" "db_faults (app_store a0) = []" "commit_marks (app_store a0) = commit_marks (app_store a)"
    "DBUp a0" "app_droppedBatches a \<le> app_droppedBatches a0" "db_traffic (app_store a0) = db_traffic (app_store a)"
    using assms b by (auto simp: a0_def frame_def drop_batch_def split: sum.split)
  note R = write_traffic_rest[OF w]
  have d: "durable (app_store a0) i day c = durable (app_store a) i day c" for i day c
    using a0(6) by (simp add: durable_def traffic_of_def)
  show ?thesis
  proof (rule that[OF fl])
    assume "app_droppedBatches a1 = app_droppedBatches a"
    then have "app_droppedBatches a1 = app_droppedBatches a0" using R a0(5) by linarith
    from write_traffic_durable[OF w this]
    show "failed = [] \<and> (\<forall>i day c. durable (app_store a1) i day c = durable (app_store a) i day c + pending a i day c)"
      by (simp add: d key_sum_flush_traffic[OF assms(1)])
  qed (use R a0 in auto)
qed

section \<open>Starting the panel\<close>

text \<open>
  The pipeline part of \<^verbatim>\<open>NodeManager.tryStartAll\<close>: the state of each node starts from the watermark of
  its database row. Everything that was only in memory is gone.
\<close>

definition panel_start :: "string \<Rightarrow> string \<Rightarrow> Store \<Rightarrow> App" where
  "panel_start name updateBase st =
     (case run_db ListNodes (New st name updateBase) of
        (Inl _, a) \<Rightarrow> a
      | (Inr nodes, a) \<Rightarrow> fold (\<lambda>nd. InitNode (nd_ID nd) (nd_LastCommitSeq nd)) nodes a)"

lemma fold_InitNode:
  assumes "distinct (map nd_ID nodes)" "\<forall>nd\<in>set nodes. nd_ID nd \<notin> dom (map_of (app_pipe a))"
  shows "map_of (app_pipe (fold (\<lambda>nd. InitNode (nd_ID nd) (nd_LastCommitSeq nd)) nodes a)) i
      = (case map_of (map (\<lambda>nd. (nd_ID nd, nd_LastCommitSeq nd)) nodes) i of
           Some v \<Rightarrow> Some (new_nodeState v v) | None \<Rightarrow> map_of (app_pipe a) i)
    \<and> app_store (fold (\<lambda>nd. InitNode (nd_ID nd) (nd_LastCommitSeq nd)) nodes a) = app_store a"
  using assms
proof (induction nodes arbitrary: a)
  case (Cons nd nodes)
  let ?a = "InitNode (nd_ID nd) (nd_LastCommitSeq nd) a"
  have "map_of (app_pipe a) (nd_ID nd) = None" using Cons.prems by auto
  then have a: "map_of (app_pipe ?a) = (map_of (app_pipe a))(nd_ID nd \<mapsto> new_nodeState (nd_LastCommitSeq nd) (nd_LastCommitSeq nd))"
    "app_store ?a = app_store a"
    by (simp_all add: InitNode_def map_of_update)
  have "nd_ID nd = i \<Longrightarrow> map_of (map (\<lambda>nd. (nd_ID nd, nd_LastCommitSeq nd)) nodes) i = None"
    using Cons.prems(1) by (force simp: map_of_eq_None_iff)
  moreover have "\<forall>x\<in>set nodes. nd_ID x \<notin> dom (map_of (app_pipe ?a))"
  proof
    fix x assume x: "x \<in> set nodes"
    then have "nd_ID x \<noteq> nd_ID nd" using Cons.prems(1) by (simp, metis rev_image_eqI)
    then show "nd_ID x \<notin> dom (map_of (app_pipe ?a))" using Cons.prems(2) x by (simp add: a(1))
  qed
  then have "map_of (app_pipe (fold (\<lambda>nd. InitNode (nd_ID nd) (nd_LastCommitSeq nd)) nodes ?a)) i
      = (case map_of (map (\<lambda>nd. (nd_ID nd, nd_LastCommitSeq nd)) nodes) i of
           Some v \<Rightarrow> Some (new_nodeState v v) | None \<Rightarrow> map_of (app_pipe ?a) i)
    \<and> app_store (fold (\<lambda>nd. InitNode (nd_ID nd) (nd_LastCommitSeq nd)) nodes ?a) = app_store ?a"
    using Cons.prems(1) by (intro Cons.IH) simp_all
  ultimately show ?case by (cases "nd_ID nd = i") (auto simp: a split: option.split)
qed auto

lemma wf_pipe_InitNode: "wf_pipe a \<Longrightarrow> wf_pipe (InitNode i v a)"
proof -
  assume wf: "wf_pipe a"
  have "wf_pipe (a\<lparr>app_pipe := AList.update i s (app_pipe a)\<rparr>)" if "wf_gomap (ns_traf s)" for s
    using wf_pipe_put[OF wf that, of i] by (simp add: put_node_def)
  moreover have "map_of (app_pipe a) i = Some s \<Longrightarrow> wf_gomap (ns_traf s)" for s
    using wf by (auto simp: wf_pipe_def dest: map_of_SomeD)
  ultimately show ?thesis using wf by (auto simp: InitNode_def new_nodeState_def split: option.split)
qed

lemma panel_start_ok:
  assumes "db_faults st = []" "wf_gomap (commit_marks st)"
  shows "map_of (app_pipe (panel_start name url st)) i = map_option (\<lambda>v. new_nodeState v v) (map_of (commit_marks st) i)"
    "app_store (panel_start name url st) = st" "wf_pipe (panel_start name url st)"
proof -
  let ?a = "New st name url"
  have eq: "panel_start name url st = fold (\<lambda>nd. InitNode (nd_ID nd) (nd_LastCommitSeq nd)) (db_nodes st) ?a"
    using assms(1) by (simp add: panel_start_def run_db_def ListNodes_def db_read_def New_def)
  have d: "distinct (map nd_ID (db_nodes st))" using assms(2) by (simp add: commit_marks_def o_def)
  show "map_of (app_pipe (panel_start name url st)) i = map_option (\<lambda>v. new_nodeState v v) (map_of (commit_marks st) i)"
    "app_store (panel_start name url st) = st"
    unfolding eq using fold_InitNode[OF d, of ?a i] by (auto simp: New_def commit_marks_def split: option.split)
  have "wf_pipe a \<Longrightarrow> wf_pipe (fold (\<lambda>nd. InitNode (nd_ID nd) (nd_LastCommitSeq nd)) nodes a)" for nodes a
    by (induction nodes arbitrary: a) (auto simp: wf_pipe_InitNode)
  moreover have "wf_pipe ?a" by (simp add: New_def wf_pipe_def)
  ultimately show "wf_pipe (panel_start name url st)" unfolding eq by blast
qed

section \<open>Runs of the panel\<close>

text \<open>
  \<open>smp\<close> is what the agent's sampler produced: the sample of each sequence number. A delivery carries
  the traffic of a logged sample, live or replayed, and does not skip ahead of the watermark by more
  than one; replayed duplicates are allowed.
\<close>

definition same_traffic :: "Metrics \<Rightarrow> Metrics \<Rightarrow> bool" where
  "same_traffic m m' \<longleftrightarrow> m_SampledAt m = m_SampledAt m' \<and> m_SampledAt m \<noteq> 0 \<and> (\<forall>c. m_get c m = m_get c m')"

inductive acct_step :: "int \<Rightarrow> (int \<Rightarrow> Metrics) \<Rightarrow> App \<Rightarrow> App \<Rightarrow> bool" for n smp where
  step_deliver: "1 \<le> m_Seq m \<Longrightarrow> m_Seq m \<le> CommitSeq n a + 1 \<Longrightarrow> same_traffic m (smp (m_Seq m)) \<Longrightarrow>
     acct_step n smp a (snd (Account nowMs n m a))"
| step_other: "i \<noteq> n \<Longrightarrow> acct_step n smp a (snd (Account nowMs i m a))"
| step_handshake: "v \<le> CommitSeq n a \<Longrightarrow> acct_step n smp a (InitNode n v a)"
| step_flush: "DBUp a \<Longrightarrow> app_droppedBatches (flush a) = app_droppedBatches a \<Longrightarrow> acct_step n smp a (flush a)"
| step_restart: "acct_step n smp a (panel_start name url (app_store a))"
| step_frame: "frame a a' \<Longrightarrow> acct_step n smp a a'"

inductive_cases acct_stepE: "acct_step n smp a a'"

definition fresh_node :: "int \<Rightarrow> Store \<Rightarrow> bool" where
  "fresh_node n st \<longleftrightarrow> db_faults st = [] \<and> wf_gomap (commit_marks st) \<and> map_of (commit_marks st) n = Some 0 \<and>
     (\<forall>day. traffic_of st n day = None)"

inductive acct_reach :: "int \<Rightarrow> (int \<Rightarrow> Metrics) \<Rightarrow> App \<Rightarrow> bool" for n smp where
  acct_start: "fresh_node n st \<Longrightarrow> acct_reach n smp (panel_start name url st)"
| acct_next: "acct_reach n smp a \<Longrightarrow> acct_step n smp a a' \<Longrightarrow> acct_reach n smp a'"

definition tally :: "(int \<Rightarrow> Metrics) \<Rightarrow> int set \<Rightarrow> string \<Rightarrow> chan \<Rightarrow> int64" where
  "tally smp S day c = (\<Sum>k\<in>S. if ShanghaiDay (m_SampledAt (smp k)) = day then m_get c (smp k) else 0)"

definition acct_inv :: "int \<Rightarrow> (int \<Rightarrow> Metrics) \<Rightarrow> App \<Rightarrow> bool" where
  "acct_inv n smp a \<longleftrightarrow> db_faults (app_store a) = [] \<and> wf_pipe a \<and> wf_gomap (commit_marks (app_store a)) \<and>
     (\<exists>w s. map_of (commit_marks (app_store a)) n = Some w \<and> map_of (app_pipe a) n = Some s \<and> ns_lastPersistedSeq s = w \<and>
        0 \<le> w \<and> w \<le> seq_Last (ns_seq s) \<and>
        (\<forall>day c. durable (app_store a) n day c = tally smp {1..w} day c \<and>
                 buffered s day c = tally smp {w + 1..seq_Last (ns_seq s)} day c))"

lemma tally_split: "0 \<le> w \<Longrightarrow> w \<le> v \<Longrightarrow> tally smp {1..w} day c + tally smp {w + 1..v} day c = tally smp {1..v} day c"
proof -
  assume "0 \<le> w" "w \<le> v"
  then have "{1..v} = {1..w} \<union> {w + 1..v}" "{1..w} \<inter> {w + 1..v} = {}" by auto
  then show ?thesis unfolding tally_def by (simp add: sum.union_disjoint)
qed

lemma tally_insert: "w \<le> v \<Longrightarrow> tally smp {w + 1..v + 1} day c
    = tally smp {w + 1..v} day c + (if ShanghaiDay (m_SampledAt (smp (v + 1))) = day then m_get c (smp (v + 1)) else 0)"
proof -
  assume "w \<le> v"
  then have "{w + 1..v + 1} = insert (v + 1) {w + 1..v}" by auto
  then show ?thesis unfolding tally_def by (simp add: add.commute)
qed

lemma tally_empty [simp]: "tally smp {} day c = 0"
  by (simp add: tally_def)

lemma durable_cong: "db_traffic s = db_traffic s' \<Longrightarrow> durable s = durable s'"
  by (intro ext) (simp add: durable_def traffic_of_def)

lemma acct_inv_start:
  assumes "db_faults st = []" "wf_gomap (commit_marks st)" "map_of (commit_marks st) n = Some w" "0 \<le> w"
    "\<And>day c. durable st n day c = tally smp {1..w} day c"
  shows "acct_inv n smp (panel_start name url st)"
  using assms panel_start_ok[OF assms(1,2), of name url]
  by (auto simp: acct_inv_def new_nodeState_def NewSeqTracker_def seq_Last_def buffered_def mget_def)

lemma acct_inv_frame: "acct_inv n smp a \<Longrightarrow> frame a a' \<Longrightarrow> acct_inv n smp a'"
  unfolding acct_inv_def frame_def wf_pipe_def by (metis durable_cong)

lemma acct_inv_Account:
  assumes "acct_inv n smp a"
    and "i = n \<Longrightarrow> 1 \<le> m_Seq m \<and> m_Seq m \<le> CommitSeq n a + 1 \<and> same_traffic m (smp (m_Seq m))"
  shows "acct_inv n smp (snd (Account nowMs i m a))"
proof -
  let ?a = "snd (Account nowMs i m a)"
  obtain w s where s: "map_of (commit_marks (app_store a)) n = Some w" "map_of (app_pipe a) n = Some s" "ns_lastPersistedSeq s = w"
      "0 \<le> w" "w \<le> seq_Last (ns_seq s)" "\<And>day c. durable (app_store a) n day c = tally smp {1..w} day c"
      "\<And>day c. buffered s day c = tally smp {w + 1..seq_Last (ns_seq s)} day c"
    and inv: "db_faults (app_store a) = []" "wf_pipe a" "wf_gomap (commit_marks (app_store a))"
    using assms(1) unfolding acct_inv_def by blast
  obtain s' where s': "\<And>j. node_of j ?a = (if j = i then s' else node_of j a)"
    "\<And>j. j \<in> dom (map_of (app_pipe ?a)) \<longleftrightarrow> j = i \<or> j \<in> dom (map_of (app_pipe a))"
    "seq_Last (ns_seq s') = max (CommitSeq i a) (m_Seq m)" "ns_lastPersistedSeq s' = ns_lastPersistedSeq (node_of i a)"
    "\<And>day c. buffered s' day c = pending a i day c
       + (if CommitSeq i a < m_Seq m \<and> day = ShanghaiDay (sample_time nowMs m) then m_get c m else 0)"
    by (rule Account_node_of[where nowMs = nowMs and i = i and m = m and a = a]) blast
  have nn: "node_of n a = s" using s(2) by (simp add: node_of_def)
  have pipe_n: "map_of (app_pipe ?a) n = Some (if n = i then s' else s)"
    using s'(1,2)[of n] s(2) by (auto simp: node_of_def split: option.splits if_splits)
  have mark: "CommitSeq n a = seq_Last (ns_seq s)" by (simp add: CommitSeq_node_of nn)
  have wf: "wf_pipe ?a" using inv(2) by (rule wf_pipe_Account)
  have tr: "buffered s' day c = tally smp {w + 1..seq_Last (ns_seq s')} day c" if "i = n" for day c
  proof -
    have hyp: "m_Seq m \<le> seq_Last (ns_seq s) + 1" "same_traffic m (smp (m_Seq m))" using assms(2) that mark by auto
    have p: "pending a n day c = buffered s day c" by (simp add: pending_node_of nn)
    show ?thesis
    proof (cases "CommitSeq n a < m_Seq m")
      case True
      then have "m_Seq m = seq_Last (ns_seq s) + 1" using hyp(1) mark by simp
      then show ?thesis using s'(3,5) that True hyp(2) p s(5,7) mark tally_insert[of w "seq_Last (ns_seq s)" smp day c]
        by (auto simp: same_traffic_def sample_time_def)
    next
      case False
      then show ?thesis using s'(3,5) that p s(7) mark by (simp add: max_def)
    qed
  qed
  show ?thesis
    unfolding acct_inv_def
    using Account_store[where nowMs = nowMs and i = i and m = m and a = a] inv wf s(1,3,4,5,6,7) pipe_n s'(3,4) mark nn tr
      durable_cong[OF Account_store(1)[of nowMs i m a]]
    by (cases "i = n") auto
qed

lemma acct_inv_InitNode:
  assumes "acct_inv n smp a" "v \<le> CommitSeq n a"
  shows "acct_inv n smp (InitNode n v a)"
proof -
  obtain s where s: "map_of (app_pipe a) n = Some s" using assms(1) by (auto simp: acct_inv_def)
  then have "InitNode n v a = a" using assms(2) by (simp add: InitNode_def CommitSeq_def)
  then show ?thesis using assms(1) by simp
qed

lemma wf_pipe_persist_marks:
  assumes "wf_pipe a" "db_faults (app_store a) = []"
  shows "wf_pipe (persist_marks ms failed a)"
  unfolding persist_marks_def using assms
proof (induction ms arbitrary: a)
  case (Cons e ms)
  have "wf_pipe (persist_one failed e a)"
  proof -
    obtain i v where e: "e = (i, v)" by (cases e)
    have "map_of (app_pipe a) i = Some s \<Longrightarrow> wf_gomap (ns_traf s)" for s
      using Cons.prems(1) by (auto simp: wf_pipe_def dest: map_of_SomeD)
    moreover have "wf_pipe (a\<lparr>app_store := st\<rparr>)" for st using Cons.prems(1) by (simp add: wf_pipe_def)
    ultimately show ?thesis
      using Cons.prems by (auto simp: e persist_one_ok split: option.split intro!: wf_pipe_put)
  qed
  moreover have "db_faults (app_store (persist_one failed e a)) = []" using persist_one_rest[OF Cons.prems(2)] by blast
  ultimately show ?case using Cons.IH by simp
qed simp

lemma wf_pipe_drain: "wf_pipe a \<Longrightarrow> wf_pipe (drain a)"
  by (auto simp: wf_pipe_def drain_def drain_state_def o_def split_beta)

lemma wf_commit_marks_persist:
  assumes "db_faults (app_store a) = []"
  shows "map fst (commit_marks (app_store (persist_marks ms failed a))) = map fst (commit_marks (app_store a))"
  unfolding persist_marks_def using assms
proof (induction ms arbitrary: a)
  case (Cons e ms)
  have "map fst (commit_marks (app_store (persist_one failed e a))) = map fst (commit_marks (app_store a))"
    using Cons.prems by (cases e) (auto simp: persist_one_ok commit_marks_set o_def split_beta split: option.split)
  moreover have "db_faults (app_store (persist_one failed e a)) = []" using persist_one_rest[OF Cons.prems] by blast
  ultimately show ?case using Cons.IH by simp
qed simp

lemma acct_inv_flush:
  assumes "acct_inv n smp a" "DBUp a" "app_droppedBatches (flush a) = app_droppedBatches a"
  shows "acct_inv n smp (flush a)"
proof -
  obtain w s where s: "map_of (commit_marks (app_store a)) n = Some w" "map_of (app_pipe a) n = Some s" "ns_lastPersistedSeq s = w"
      "0 \<le> w" "w \<le> seq_Last (ns_seq s)" "\<And>day c. durable (app_store a) n day c = tally smp {1..w} day c"
      "\<And>day c. buffered s day c = tally smp {w + 1..seq_Last (ns_seq s)} day c"
    and inv: "db_faults (app_store a) = []" "wf_pipe a" "wf_gomap (commit_marks (app_store a))"
    using assms(1) unfolding acct_inv_def by blast
  let ?v = "seq_Last (ns_seq s)" and ?s = "drain_state s"
  obtain failed a1 where F: "flush a = persist_marks (seq_marks a) failed a1" "app_pipe a1 = app_pipe (drain a)"
    "db_faults (app_store a1) = []" "commit_marks (app_store a1) = commit_marks (app_store a)" "DBUp a1"
    "app_droppedBatches a \<le> app_droppedBatches a1"
    "app_droppedBatches a1 = app_droppedBatches a \<Longrightarrow> failed = [] \<and>
       (\<forall>i day c. durable (app_store a1) i day c = durable (app_store a) i day c + pending a i day c)"
    using flush_up[OF inv(2) assms(2) inv(1)] by blast
  note R = persist_marks_rest[OF F(3), of "seq_marks a" failed n]
  have "app_droppedBatches a1 = app_droppedBatches a" using R assms(3) F(1) by simp
  then have ok: "failed = []" "\<And>day c. durable (app_store a1) n day c = tally smp {1..?v} day c"
    using F(7) s(2,4,5,6,7) by (auto simp: pending_def tally_split)
  have "map_of (seq_marks a) n = Some ?v" using s(2) by (simp add: map_of_seq_marks)
  then have mem: "(n, ?v) \<in> set (seq_marks a)" by (rule map_of_SomeD)
  have wfm: "wf_gomap (seq_marks a)" using inv(2) by (simp add: wf_pipe_def)
  have p: "map_of (app_pipe a1) n = Some ?s" "ns_lastPersistedSeq ?s = w" "map_of (commit_marks (app_store a1)) n = Some w"
    using F(2,4) s by (simp_all add: drain_state_def)
  note M = persist_marks_node[OF F(3) wfm mem _ p(1,3,2), of failed]
  have wf: "wf_pipe (flush a)" unfolding F(1) by (rule wf_pipe_persist_marks) (use F(2,3) wf_pipe_drain[OF inv(2)] in \<open>auto simp: wf_pipe_def\<close>)
  have "durable (app_store (flush a)) n day c = tally smp {1..?v} day c" for day c
    using R ok(2) F(1) by (simp add: durable_def traffic_of_def)
  then show ?thesis
    unfolding acct_inv_def using R wf inv(3) M ok(1) s(4,5) F(1,4) wf_commit_marks_persist[OF F(3), of "seq_marks a" failed]
    by (auto simp: max_absorb2 drain_state_def buffered_def mget_def)
qed

lemma acct_reach_inv: "acct_reach n smp a \<Longrightarrow> acct_inv n smp a"
proof (induction rule: acct_reach.induct)
  case (acct_start st name url)
  then show ?case by (intro acct_inv_start[where w = 0]) (auto simp: fresh_node_def durable_def)
next
  case (acct_next a a')
  from acct_next(2) show ?case
  proof cases
    case step_restart
    obtain w where "map_of (commit_marks (app_store a)) n = Some w" "0 \<le> w"
      "\<And>day c. durable (app_store a) n day c = tally smp {1..w} day c"
      "db_faults (app_store a) = []" "wf_gomap (commit_marks (app_store a))"
      using acct_next.IH unfolding acct_inv_def by blast
    then show ?thesis unfolding step_restart by (intro acct_inv_start) auto
  qed (use acct_next.IH acct_inv_Account acct_inv_InitNode acct_inv_flush acct_inv_frame in blast)+
qed

section \<open>A dropped batch\<close>

lemma flush_empty:
  assumes "DBUp a" "\<forall>(i, s)\<in>set (app_pipe a). ns_agg s = zero_agg \<and> ns_traf s = []"
  shows "flush a = persist_marks (seq_marks a) [] (drain a)"
proof -
  have "flush_rows a = []" "flush_traffic a = []"
    using assms(2) by (auto simp: flush_rows_def flush_traffic_def minute_row_def zero_agg_def)
  then show ?thesis using assms(1) by (simp add: flush_def Let_def)
qed

lemma drained: "\<forall>(i, s)\<in>set (app_pipe (drain a)). ns_agg s = zero_agg \<and> ns_traf s = []"
  by (auto simp: drain_def drain_state_def)

lemma drain_drain [simp]: "drain (drain a) = drain a"
  by (simp add: drain_def drain_state_def o_def split_beta)

lemma seq_marks_drain [simp]: "seq_marks (drain a) = seq_marks a"
  by (simp add: seq_marks_def drain_def drain_state_def o_def split_beta)

lemma flush_down: "\<not> DBUp a \<Longrightarrow> app_pipe (flush a) = app_pipe (drain a) \<and> app_store (flush a) = app_store a \<and> \<not> DBUp (flush a)"
  by (simp add: flush_def Let_def drop_batch_def)

lemma flush_after_drop:
  assumes "wf_pipe a" "\<not> DBUp a" "db_faults (app_store a) = []" "map_of (app_pipe a) n = Some s"
    "map_of (commit_marks (app_store a)) n = Some (ns_lastPersistedSeq s)"
    "a2 = flush (setDBHealth t True (flush a))"
  shows "map_of (commit_marks (app_store a2)) n = Some (max (ns_lastPersistedSeq s) (CommitSeq n a))"
    "durable (app_store a2) n day c = durable (app_store a) n day c"
    "db_faults (app_store a2) = []" "map fst (commit_marks (app_store a2)) = map fst (commit_marks (app_store a))"
proof -
  define a0 where "a0 = (flush a)\<lparr>app_dbHealthy := True\<rparr>"
  define a1 where "a1 = setDBHealth t True (flush a)"
  note D = flush_down[OF assms(2)]
  have "a1 = app_AddLog t ''panel_op'' ''system'' None ''mysql_recovered'' a0"
    using D by (simp add: a1_def a0_def setDBHealth_def Let_def)
  then have fr: "frame a0 a1" using frame_app_AddLog by metis
  have a1: "app_pipe a1 = app_pipe (drain a)" "DBUp a1" "db_faults (app_store a1) = []"
    "commit_marks (app_store a1) = commit_marks (app_store a)" "db_traffic (app_store a1) = db_traffic (app_store a)"
    using fr D assms(3) by (auto simp: frame_def a0_def)
  have a2: "a2 = persist_marks (seq_marks a1) [] (drain a1)"
    unfolding assms(6) a1_def[symmetric] using a1(2) drained[of a] a1(1) by (intro flush_empty) auto
  have sm: "seq_marks a1 = seq_marks a" using a1(1) seq_marks_drain[of a] by (simp add: seq_marks_def)
  have p: "map_of (app_pipe (drain a1)) n = Some (drain_state (drain_state s))" using assms(4) a1(1) by simp
  have mem: "(n, CommitSeq n a) \<in> set (seq_marks a1)"
    using assms(4) sm map_of_SomeD[of "seq_marks a" n] by (simp add: map_of_seq_marks CommitSeq_def)
  have wfm: "wf_gomap (seq_marks a1)" using assms(1) sm by (simp add: wf_pipe_def)
  have f: "db_faults (app_store (drain a1)) = []" using a1(3) by simp
  show "map_of (commit_marks (app_store a2)) n = Some (max (ns_lastPersistedSeq s) (CommitSeq n a))"
    unfolding a2 using persist_marks_node(2)[OF f wfm mem _ p, of "[]"] assms(5) a1(4) by (simp add: drain_state_def)
  show "durable (app_store a2) n day c = durable (app_store a) n day c" "db_faults (app_store a2) = []"
    unfolding a2 using persist_marks_rest[OF f, of "seq_marks a1" "[]" n] a1(5) by (auto simp: durable_def traffic_of_def)
  show "map fst (commit_marks (app_store a2)) = map fst (commit_marks (app_store a))"
    unfolding a2 using wf_commit_marks_persist[OF f, of "seq_marks a1" "[]"] a1(4) by simp
qed

lemma Account_pending:
  "pending (snd (Account nowMs i m a)) i day c = pending a i day c
     + (if CommitSeq i a < m_Seq m \<and> day = ShanghaiDay (sample_time nowMs m) then m_get c m else 0)"
  by (rule Account_node_of[where nowMs = nowMs and i = i and m = m and a = a]) (simp add: pending_node_of)

section \<open>Properties\<close>


definition ex_node :: Node where
  "ex_node = \<lparr>nd_ID = 0, nd_Name = ''a'', nd_IP = ''10.0.0.1'', nd_AgentPort = 8443, nd_AgentToken = ''t'', nd_Fingerprint = [],
     nd_FrpsToken = [], nd_FrpsPort = 7000, nd_Region = ''x'', nd_Status = [], nd_AgentVersion = [], nd_FrpsVersion = [],
     nd_LastCommitSeq = 0, nd_LastSeen = None, nd_CreatedAt = 0, nd_UpdatedAt = 0\<rparr>"

definition ex_store :: Store where
  "ex_store = snd (CreateOrUpdateNode 0 ex_node empty_store)"

definition ex_sample :: "int \<Rightarrow> Metrics" where
  "ex_sample k = \<lparr>m_Seq = k, m_CPU = 0, m_Mem = 0, m_MemTotal = 0, m_NetRxBps = 0, m_NetTxBps = 0, m_NetRxDelta = 100,
     m_NetTxDelta = 7, m_FrpsUp = False, m_Proxies = [], m_SampledAt = 5000, m_Backfill = False\<rparr>"

lemma ex_store_fresh: "fresh_node 1 ex_store"
  by (simp add: fresh_node_def ex_store_def CreateOrUpdateNode_def empty_store_def stmt_def commit_marks_def traffic_of_def)

lemma ex_start: "acct_reach 1 ex_sample (panel_start [] [] ex_store)" "CommitSeq 1 (panel_start [] [] ex_store) = 0"
proof -
  show "acct_reach 1 ex_sample (panel_start [] [] ex_store)" by (rule acct_start[OF ex_store_fresh])
  have "map_of (app_pipe (panel_start [] [] ex_store)) 1 = Some (new_nodeState 0 0)"
    using ex_store_fresh panel_start_ok(1)[of ex_store "[]" "[]" 1] by (simp add: fresh_node_def)
  then show "CommitSeq 1 (panel_start [] [] ex_store) = 0"
    by (simp add: CommitSeq_def new_nodeState_def NewSeqTracker_def seq_Last_def)
qed

lemma CommitSeq_Account: "CommitSeq i (snd (Account nowMs i m a)) = max (CommitSeq i a) (m_Seq m)"
  by (rule Account_node_of[where nowMs = nowMs and i = i and m = m and a = a]) (simp add: CommitSeq_node_of)


text \<open>
  C31: a batch dropped while the database is down is lost. After a flush in degraded mode the next
  flush persists the watermark past the samples of the dropped batch although their traffic never
  reached the database; a panel started from that database refuses every sample up to it.
\<close>
theorem dropped_batch_lost:
  assumes "wf_pipe a" "\<not> DBUp a" "db_faults (app_store a) = []" "map_of (app_pipe a) n = Some s"
    "map_of (commit_marks (app_store a)) n = Some (ns_lastPersistedSeq s)" "wf_gomap (commit_marks (app_store a))"
    "m_Seq m \<le> CommitSeq n a"
  shows "let st = app_store (flush (setDBHealth t True (flush a)))
    in durable st n day c = durable (app_store a) n day c \<and>
       counted (snd (Account nowMs n m (panel_start name url st))) n day c = durable (app_store a) n day c"
proof -
  define st where "st = app_store (flush (setDBHealth t True (flush a)))"
  note F = flush_after_drop[OF assms(1-5) refl, of t, folded st_def]
  have keys: "wf_gomap (commit_marks st)" using F(4) assms(6) by simp
  let ?p = "panel_start name url st"
  note S = panel_start_ok[OF F(3) keys, of name url]
  have "map_of (app_pipe ?p) n = Some (new_nodeState (max (ns_lastPersistedSeq s) (CommitSeq n a)) (max (ns_lastPersistedSeq s) (CommitSeq n a)))"
    using S(1)[of n] F(1) by simp
  then have p: "CommitSeq n ?p = max (ns_lastPersistedSeq s) (CommitSeq n a)" "pending ?p n day c = 0"
    by (simp_all add: CommitSeq_def pending_def new_nodeState_def NewSeqTracker_def seq_Last_def buffered_def mget_def)
  have "durable (app_store (snd (Account nowMs n m ?p))) n day c = durable st n day c"
    using durable_cong[OF Account_store(1)[of nowMs n m ?p]] S(2) by simp
  then show ?thesis
    using F(2) p assms(7) by (simp add: st_def[symmetric] Let_def counted_def Account_pending)
qed

definition ex_degraded :: App where
  "ex_degraded = (snd (Account 6000 1 (ex_sample 1) (panel_start [] [] ex_store)))\<lparr>app_dbHealthy := False\<rparr>"

lemma ex_degraded_facts:
  "wf_pipe ex_degraded" "\<not> DBUp ex_degraded" "db_faults (app_store ex_degraded) = []" "wf_gomap (commit_marks (app_store ex_degraded))"
  "map_of (commit_marks (app_store ex_degraded)) 1 = Some 0" "CommitSeq 1 ex_degraded = 1"
  "durable (app_store ex_degraded) 1 day c = 0"
  "\<exists>s. map_of (app_pipe ex_degraded) 1 = Some s \<and> ns_lastPersistedSeq s = 0"
proof -
  let ?p = "panel_start [] [] ex_store" and ?m = "ex_sample 1"
  have f: "db_faults ex_store = []" "wf_gomap (commit_marks ex_store)" "map_of (commit_marks ex_store) 1 = Some 0" "\<And>day. traffic_of ex_store 1 day = None"
    using ex_store_fresh by (auto simp: fresh_node_def)
  note S = panel_start_ok[OF f(1,2), of "[]" "[]"]
  have st: "db_traffic (app_store ex_degraded) = db_traffic ex_store" "commit_marks (app_store ex_degraded) = commit_marks ex_store"
    and ft: "db_faults (app_store ex_degraded) = []"
    using Account_store[where nowMs = 6000 and i = 1 and m = ?m and a = ?p] S(2) f(1) by (simp_all add: ex_degraded_def)
  show "db_faults (app_store ex_degraded) = []" "wf_gomap (commit_marks (app_store ex_degraded))"
    "map_of (commit_marks (app_store ex_degraded)) 1 = Some 0"
    using ft f st by simp_all
  show "wf_pipe ex_degraded" using wf_pipe_Account[OF S(3)] by (simp add: ex_degraded_def wf_pipe_def)
  show "\<not> DBUp ex_degraded" by (simp add: ex_degraded_def)
  show "CommitSeq 1 ex_degraded = 1"
    using CommitSeq_Account[of 1 6000 ?m ?p] ex_start(2) by (simp add: ex_degraded_def CommitSeq_def ex_sample_def)
  show "durable (app_store ex_degraded) 1 day c = 0"
    using f(4) st(1) by (simp add: durable_def traffic_of_def)
  have n: "node_of 1 ?p = new_nodeState 0 0" using S(1)[of 1] f(3) by (simp add: node_of_def)
  obtain s' where "\<And>j. node_of j (snd (Account 6000 1 ?m ?p)) = (if j = 1 then s' else node_of j ?p)"
    "\<And>j. j \<in> dom (map_of (app_pipe (snd (Account 6000 1 ?m ?p)))) \<longleftrightarrow> j = 1 \<or> j \<in> dom (map_of (app_pipe ?p))"
    "ns_lastPersistedSeq s' = ns_lastPersistedSeq (node_of 1 ?p)"
    by (rule Account_node_of[where nowMs = 6000 and i = 1 and m = ?m and a = ?p]) blast
  from this(1,2)[of 1] this(3) show "\<exists>s. map_of (app_pipe ex_degraded) 1 = Some s \<and> ns_lastPersistedSeq s = 0"
    by (auto simp: ex_degraded_def node_of_def n[unfolded node_of_def] new_nodeState_def split: option.splits)
qed

theorem dropped_batch_lost_witness:
  "let st = app_store (flush (setDBHealth 7 True (flush ex_degraded)))
   in durable st 1 (ShanghaiDay 5000) NodeRx = 0 \<and>
      counted (snd (Account 8000 1 (ex_sample 1) (panel_start [] [] st))) 1 (ShanghaiDay 5000) NodeRx = 0"
proof -
  obtain s where s: "map_of (app_pipe ex_degraded) 1 = Some s" "ns_lastPersistedSeq s = 0" using ex_degraded_facts(8) by blast
  have "m_Seq (ex_sample 1) \<le> CommitSeq 1 ex_degraded" by (simp add: ex_degraded_facts(6) ex_sample_def)
  from dropped_batch_lost[OF ex_degraded_facts(1,2,3) s(1) _ ex_degraded_facts(4) this, of 7 "ShanghaiDay 5000" NodeRx 8000 "[]" "[]"]
  show ?thesis using ex_degraded_facts(5) s(2) by (simp add: Let_def ex_degraded_facts(7))
qed

end
