(* ===== verification/Json.thy ===== *)
theory Json
  imports Prelude
begin

text \<open>
  What the program uses of \<^verbatim>\<open>encoding/json\<close>: the compact text that \<^verbatim>\<open>json.Marshal\<close> writes and a reader
  of JSON values, from which \<^verbatim>\<open>json.Unmarshal\<close> fills a struct. A number is kept as its literal. Bytes
  from 128 on are copied in both directions, as Go does for valid UTF-8 (the strings the program
  stores are ASCII). The reader is fuelled; \<open>parse_fuel\<close> shows that the fuel \<open>Unmarshal\<close> passes is
  enough, and \<open>parse_print\<close> that reading what was written gives the value back.
\<close>

datatype json =
    JNull
  | JBool bool
  | JNum string
  | JStr string
  | JArr "json list"
  | JObj "(string \<times> json) list"

section \<open>Writing\<close>

definition hex_char :: "nat \<Rightarrow> char" where
  "hex_char d = (if d < 10 then char_of (48 + d) else char_of (87 + d))"

definition u00 :: "char \<Rightarrow> string" where
  "u00 c = (let n = of_char c in CHR 0x5C # ''u00'' @ [hex_char (n div 16), hex_char (n mod 16)])"

text \<open>The byte after a backslash and the byte it stands for.\<close>

definition short_escapes :: "(char \<times> char) list" where
  "short_escapes = [(CHR 0x22, CHR 0x22), (CHR 0x5C, CHR 0x5C), (CHR ''b'', CHR 0x08), (CHR ''f'', CHR 0x0C),
     (CHR ''n'', CHR 0x0A), (CHR ''r'', CHR 0x0D), (CHR ''t'', CHR 0x09)]"

definition esc_char :: "char \<Rightarrow> string" where
  "esc_char c =
     (case map_of (map prod.swap short_escapes) c of
        Some e \<Rightarrow> [CHR 0x5C, e]
      | None \<Rightarrow> if of_char c < (32::nat) \<or> c \<in> {CHR ''<'', CHR ''>'', CHR ''&''} then u00 c else [c])"

definition quote_json :: "string \<Rightarrow> string" where
  "quote_json s = CHR 0x22 # concat (map esc_char s) @ [CHR 0x22]"

fun commas :: "string list \<Rightarrow> string" where
  "commas [] = []"
| "commas [x] = x"
| "commas (x # y # ys) = x @ CHR '','' # commas (y # ys)"

fun print_json :: "json \<Rightarrow> string" where
  "print_json JNull = ''null''"
| "print_json (JBool b) = (if b then ''true'' else ''false'')"
| "print_json (JNum n) = n"
| "print_json (JStr s) = quote_json s"
| "print_json (JArr vs) = CHR ''['' # commas (map print_json vs) @ '']''"
| "print_json (JObj kvs) = CHR ''{'' # commas (map (\<lambda>(k, v). quote_json k @ CHR '':'' # print_json v) kvs) @ ''}''"

section \<open>Reading\<close>

definition json_ws :: "char \<Rightarrow> bool" where
  "json_ws c \<longleftrightarrow> c \<in> {CHR '' '', CHR 0x09, CHR 0x0A, CHR 0x0D}"

definition skip_ws :: "string \<Rightarrow> string" where
  "skip_ws = dropWhile json_ws"

text \<open>
  A string is read byte by byte into bytes and hexadecimal (\<open>u\<close>) escapes; \<open>units_bytes\<close> turns the units into
  UTF-8, joining surrogate pairs and replacing lone surrogates by U+FFFD.
\<close>

datatype str_unit = ByteU char | CodeU nat

datatype str_state = SPlain | SEsc | SHex nat nat

fun parse_str :: "str_state \<Rightarrow> string \<Rightarrow> (str_unit list \<times> string) option" where
  "parse_str st [] = None"
| "parse_str SPlain (c # s) =
     (if c = CHR 0x22 then Some ([], s)
      else if c = CHR 0x5C then parse_str SEsc s
      else if of_char c < (32::nat) then None
      else map_option (apfst ((#) (ByteU c))) (parse_str SPlain s))"
| "parse_str SEsc (c # s) =
     (if c = CHR ''u'' then parse_str (SHex 3 0) s
      else if c = CHR ''/'' then map_option (apfst ((#) (ByteU c))) (parse_str SPlain s)
      else case map_of short_escapes c of
             None \<Rightarrow> None
           | Some d \<Rightarrow> map_option (apfst ((#) (ByteU d))) (parse_str SPlain s))"
| "parse_str (SHex k acc) (c # s) =
     (case digit_val c of
        None \<Rightarrow> None
      | Some d \<Rightarrow>
          if 16 \<le> d then None
          else if k = 0 then map_option (apfst ((#) (CodeU (acc * 16 + d)))) (parse_str SPlain s)
          else parse_str (SHex (k - 1) (acc * 16 + d)) s)"

definition utf8 :: "nat \<Rightarrow> string" where
  "utf8 n =
     (if n < 128 then [char_of n]
      else if n < 2048 then [char_of (192 + n div 64), char_of (128 + n mod 64)]
      else if n < 65536 then [char_of (224 + n div 4096), char_of (128 + n div 64 mod 64), char_of (128 + n mod 64)]
      else [char_of (240 + n div 262144), char_of (128 + n div 4096 mod 64), char_of (128 + n div 64 mod 64), char_of (128 + n mod 64)])"

definition surrogate :: "nat \<Rightarrow> bool" where
  "surrogate n \<longleftrightarrow> 55296 \<le> n \<and> n < 57344"

fun units_bytes :: "str_unit list \<Rightarrow> string" where
  "units_bytes [] = []"
| "units_bytes (ByteU c # us) = c # units_bytes us"
| "units_bytes (CodeU n # CodeU m # us) =
     (if surrogate n \<and> n < 56320 \<and> surrogate m \<and> 56320 \<le> m
      then utf8 (65536 + (n - 55296) * 1024 + (m - 56320)) @ units_bytes us
      else utf8 (if surrogate n then 65533 else n) @ units_bytes (CodeU m # us))"
| "units_bytes (CodeU n # us) = utf8 (if surrogate n then 65533 else n) @ units_bytes us"

definition is_digit :: "char \<Rightarrow> bool" where
  "is_digit c \<longleftrightarrow> (case digit_val c of None \<Rightarrow> False | Some d \<Rightarrow> d < 10)"

definition num_char :: "char \<Rightarrow> bool" where
  "num_char c \<longleftrightarrow> is_digit c \<or> c \<in> {CHR ''-'', CHR ''+'', CHR ''.'', CHR ''e'', CHR ''E''}"

definition after_digits :: "string \<Rightarrow> string option" where
  "after_digits s = (if s \<noteq> [] \<and> is_digit (hd s) then Some (dropWhile is_digit s) else None)"

text \<open>\<^verbatim>\<open>isValidNumber\<close>: sign, integer part without leading zeros, fraction, exponent.\<close>

definition valid_exponent :: "string \<Rightarrow> bool" where
  "valid_exponent s \<longleftrightarrow>
     (case s of
        [] \<Rightarrow> True
      | c # t \<Rightarrow> c \<in> {CHR ''e'', CHR ''E''} \<and>
          after_digits (if t \<noteq> [] \<and> hd t \<in> {CHR ''+'', CHR ''-''} then tl t else t) = Some [])"

definition valid_fraction :: "string \<Rightarrow> bool" where
  "valid_fraction s \<longleftrightarrow>
     (case s of
        [] \<Rightarrow> True
      | c # t \<Rightarrow> if c = CHR ''.'' then (case after_digits t of None \<Rightarrow> False | Some r \<Rightarrow> valid_exponent r) else valid_exponent s)"

definition valid_number :: "string \<Rightarrow> bool" where
  "valid_number s \<longleftrightarrow>
     (let t = (if s \<noteq> [] \<and> hd s = CHR ''-'' then tl s else s)
      in if t \<noteq> [] \<and> hd t = CHR ''0'' then valid_fraction (tl t)
         else case after_digits t of None \<Rightarrow> False | Some r \<Rightarrow> valid_fraction r)"

definition parse_lit :: "string \<Rightarrow> (json \<times> string) option" where
  "parse_lit s =
     (if HasPrefix s ''null'' then Some (JNull, drop 4 s)
      else if HasPrefix s ''true'' then Some (JBool True, drop 4 s)
      else if HasPrefix s ''false'' then Some (JBool False, drop 5 s)
      else let n = takeWhile num_char s in if valid_number n then Some (JNum n, dropWhile num_char s) else None)"

definition parse_key :: "string \<Rightarrow> (string \<times> string) option" where
  "parse_key s =
     (case skip_ws s of
        [] \<Rightarrow> None
      | c # t \<Rightarrow>
          if c \<noteq> CHR 0x22 then None
          else case parse_str SPlain t of
                 None \<Rightarrow> None
               | Some (us, r) \<Rightarrow>
                   (case skip_ws r of [] \<Rightarrow> None | d # r' \<Rightarrow> if d = CHR '':'' then Some (units_bytes us, r') else None))"

text \<open>After an element or a member: a comma and more, or the closing bracket.\<close>

definition parse_sep :: "char \<Rightarrow> string \<Rightarrow> (bool \<times> string) option" where
  "parse_sep close s =
     (case skip_ws s of
        [] \<Rightarrow> None
      | c # t \<Rightarrow> if c = CHR '','' then Some (True, t) else if c = close then Some (False, t) else None)"

definition starts :: "char \<Rightarrow> string \<Rightarrow> bool" where
  "starts c s \<longleftrightarrow> skip_ws s \<noteq> [] \<and> hd (skip_ws s) = c"

fun parse_value :: "nat \<Rightarrow> string \<Rightarrow> (json \<times> string) option"
  and parse_elems :: "nat \<Rightarrow> string \<Rightarrow> (json list \<times> string) option"
  and parse_members :: "nat \<Rightarrow> string \<Rightarrow> ((string \<times> json) list \<times> string) option" where
  "parse_value 0 s = None"
| "parse_value (Suc n) s =
     (case skip_ws s of
        [] \<Rightarrow> None
      | c # t \<Rightarrow>
          if c = CHR 0x22 then map_option (apfst (JStr \<circ> units_bytes)) (parse_str SPlain t)
          else if c = CHR ''['' then
            (if starts CHR '']'' t then Some (JArr [], tl (skip_ws t)) else map_option (apfst JArr) (parse_elems n t))
          else if c = CHR ''{'' then
            (if starts CHR ''}'' t then Some (JObj [], tl (skip_ws t)) else map_option (apfst JObj) (parse_members n t))
          else parse_lit (c # t))"
| "parse_elems 0 s = None"
| "parse_elems (Suc n) s =
     (case parse_value n s of
        None \<Rightarrow> None
      | Some (v, r) \<Rightarrow>
          (case parse_sep CHR '']'' r of
             None \<Rightarrow> None
           | Some (more, r') \<Rightarrow> if more then map_option (apfst ((#) v)) (parse_elems n r') else Some ([v], r')))"
| "parse_members 0 s = None"
| "parse_members (Suc n) s =
     (case parse_key s of
        None \<Rightarrow> None
      | Some (k, t) \<Rightarrow>
          (case parse_value n t of
             None \<Rightarrow> None
           | Some (v, r) \<Rightarrow>
               (case parse_sep CHR ''}'' r of
                  None \<Rightarrow> None
                | Some (more, r') \<Rightarrow> if more then map_option (apfst ((#) (k, v))) (parse_members n r') else Some ([(k, v)], r'))))"

definition parse_json :: "string \<Rightarrow> json option" where
  "parse_json s =
     (case parse_value (2 * length s + 2) s of
        None \<Rightarrow> None
      | Some (v, r) \<Rightarrow> if skip_ws r = [] then Some v else None)"

section \<open>Filling a struct\<close>

text \<open>
  \<^verbatim>\<open>Unmarshal\<close> assigns the members in order to the fields whose name matches up to case, skips unknown
  names, leaves a field alone for \<^verbatim>\<open>null\<close>, and reports an error when a value has the wrong type.
\<close>

definition dec_int :: "json \<Rightarrow> int \<Rightarrow> int option" where
  "dec_int v old =
     (case v of JNull \<Rightarrow> Some old | JNum n \<Rightarrow> (let (i, ok) = ParseInt n 10 64 in if ok then Some i else None) | _ \<Rightarrow> None)"

definition dec_word :: "json \<Rightarrow> int64 \<Rightarrow> int64 option" where
  "dec_word v old = map_option word_of_int (dec_int v (sint old))"

definition dec_string :: "json \<Rightarrow> string \<Rightarrow> string option" where
  "dec_string v old = (case v of JNull \<Rightarrow> Some old | JStr s \<Rightarrow> Some s | _ \<Rightarrow> None)"

definition dec_bool :: "json \<Rightarrow> bool \<Rightarrow> bool option" where
  "dec_bool v old = (case v of JNull \<Rightarrow> Some old | JBool b \<Rightarrow> Some b | _ \<Rightarrow> None)"

fun dec_fields :: "(string \<Rightarrow> json \<Rightarrow> 'r \<Rightarrow> 'r option) \<Rightarrow> (string \<times> json) list \<Rightarrow> 'r \<Rightarrow> 'r option" where
  "dec_fields f [] r = Some r"
| "dec_fields f ((k, v) # kvs) r = (case f (ToLower k) v r of None \<Rightarrow> None | Some r' \<Rightarrow> dec_fields f kvs r')"

definition dec_struct :: "(string \<Rightarrow> json \<Rightarrow> 'r \<Rightarrow> 'r option) \<Rightarrow> json \<Rightarrow> 'r \<Rightarrow> 'r option" where
  "dec_struct f v r = (case v of JNull \<Rightarrow> Some r | JObj kvs \<Rightarrow> dec_fields f kvs r | _ \<Rightarrow> None)"

fun dec_list :: "(json \<Rightarrow> 'r option) \<Rightarrow> json list \<Rightarrow> 'r list option" where
  "dec_list f [] = Some []"
| "dec_list f (v # vs) = (case f v of None \<Rightarrow> None | Some r \<Rightarrow> map_option ((#) r) (dec_list f vs))"

definition Unmarshal :: "(json \<Rightarrow> 'r option) \<Rightarrow> string \<Rightarrow> 'r option" where
  "Unmarshal dec s = (case parse_json s of None \<Rightarrow> None | Some v \<Rightarrow> dec v)"

section \<open>Reading back a string\<close>

lemma map_of_short_escapes:
  "map_of (map prod.swap short_escapes) c = Some e \<Longrightarrow> map_of short_escapes e = Some c \<and> e \<noteq> CHR ''u'' \<and> e \<noteq> CHR ''/''"
  by (auto simp: short_escapes_def split: if_splits)

lemma digit_val_hex_char: "d < 16 \<Longrightarrow> digit_val (hex_char d) = Some d"
  by (auto simp: hex_char_def digit_val_def Let_def)

definition esc_unit :: "char \<Rightarrow> str_unit" where
  "esc_unit c = (if esc_char c = u00 c then CodeU (of_char c) else ByteU c)"

lemma parse_str_u00: "parse_str SPlain (u00 c @ s) = map_option (apfst ((#) (CodeU (of_char c)))) (parse_str SPlain s)"
proof -
  obtain a b :: nat where ab: "of_char c div 16 = a" "of_char c mod 16 = b" by blast
  have n: "of_char c = a * 16 + b" by (simp flip: ab)
  have "(of_char c :: nat) < 256" by (rule nat_of_char_less_256)
  then have "a < 16" "b < 16" using ab by linarith+
  then show ?thesis
    by (simp add: u00_def Let_def ab n digit_val_hex_char digit_val_def[of "CHR ''0''"])
qed

lemma esc_char_cases:
  obtains e where "esc_char c = [CHR 0x5C, e]" "map_of short_escapes e = Some c" "e \<noteq> CHR ''u''" "e \<noteq> CHR ''/''"
    | "esc_char c = u00 c" "of_char c < (128::nat)"
    | "esc_char c = [c]" "\<not> of_char c < (32::nat)" "c \<noteq> CHR 0x22" "c \<noteq> CHR 0x5C"
proof (cases "map_of (map prod.swap short_escapes) c")
  case (Some e)
  with map_of_short_escapes[OF Some] show ?thesis by (auto simp: esc_char_def intro: that(1))
next
  case None
  then have "c \<noteq> CHR 0x22" "c \<noteq> CHR 0x5C" by (auto simp: short_escapes_def split: if_splits)
  with None that(2,3) show ?thesis by (cases "of_char c < (32::nat) \<or> c \<in> {CHR ''<'', CHR ''>'', CHR ''&''}") (auto simp: esc_char_def)
qed

lemma parse_str_esc: "parse_str SPlain (esc_char c @ s) = map_option (apfst ((#) (esc_unit c))) (parse_str SPlain s)"
proof (rule esc_char_cases[of c])
  fix e
  assume "esc_char c = [CHR 0x5C, e]" "map_of short_escapes e = Some c" "e \<noteq> CHR ''u''" "e \<noteq> CHR ''/''"
  then show ?thesis by (simp add: esc_unit_def u00_def Let_def)
next
  assume "esc_char c = u00 c"
  then show ?thesis by (simp add: esc_unit_def parse_str_u00)
next
  assume "esc_char c = [c]" "\<not> of_char c < (32::nat)" "c \<noteq> CHR 0x22" "c \<noteq> CHR 0x5C"
  then show ?thesis by (simp add: esc_unit_def u00_def Let_def)
qed

lemma parse_str_quote:
  "parse_str SPlain (concat (map esc_char s) @ CHR 0x22 # r) = Some (map esc_unit s, r)"
  by (induction s) (simp_all add: parse_str_esc)

lemma esc_unit_bytes: "esc_unit c = ByteU c \<or> esc_unit c = CodeU (of_char c) \<and> of_char c < (128::nat)"
  by (rule esc_char_cases[of c]) (auto simp: esc_unit_def u00_def Let_def)

lemma units_bytes_code: "n < 128 \<Longrightarrow> units_bytes (CodeU n # us) = char_of n # units_bytes us"
  by (cases us rule: units_bytes.cases) (auto simp: surrogate_def utf8_def)

lemma units_bytes_esc [simp]: "units_bytes (map esc_unit s) = s"
proof (induction s)
  case (Cons c s)
  with esc_unit_bytes[of c] show ?case by (auto simp: units_bytes_code)
qed simp

section \<open>Reading back a value\<close>

fun wf_json :: "json \<Rightarrow> bool" where
  "wf_json (JNum n) \<longleftrightarrow> valid_number n \<and> (\<forall>c\<in>set n. num_char c)"
| "wf_json (JArr vs) \<longleftrightarrow> (\<forall>v\<in>set vs. wf_json v)"
| "wf_json (JObj kvs) \<longleftrightarrow> (\<forall>(k, v)\<in>set kvs. wf_json v)"
| "wf_json _ \<longleftrightarrow> True"

fun jfuel :: "json \<Rightarrow> nat" where
  "jfuel (JArr vs) = Suc (sum_list (map (\<lambda>v. Suc (jfuel v)) vs))"
| "jfuel (JObj kvs) = Suc (sum_list (map (\<lambda>(k, v). Suc (jfuel v)) kvs))"
| "jfuel _ = 1"

text \<open>A number ends where its bytes end: the text after a value must not continue it.\<close>

definition num_end :: "string \<Rightarrow> bool" where
  "num_end r \<longleftrightarrow> r = [] \<or> \<not> num_char (hd r)"

lemma num_end_punct [simp]: "num_end (CHR '','' # r)" "num_end (CHR '']'' # r)" "num_end (CHR ''}'' # r)" "num_end []"
  by (simp_all add: num_end_def num_char_def is_digit_def digit_val_def)

lemma parse_sep_simps [simp]:
  "parse_sep d (CHR '','' # r) = Some (True, r)"
  "parse_sep CHR '']'' (CHR '']'' # r) = Some (False, r)" "parse_sep CHR ''}'' (CHR ''}'' # r) = Some (False, r)"
  by (simp_all add: parse_sep_def skip_ws_def json_ws_def)

lemma parse_key_quote [simp]: "parse_key (quote_json k @ CHR '':'' # r) = Some (k, r)"
  by (simp add: parse_key_def skip_ws_def json_ws_def quote_json_def parse_str_quote)

lemma num_char_head: "num_char c \<Longrightarrow> \<not> json_ws c \<and> c \<noteq> CHR 0x22 \<and> c \<noteq> CHR ''['' \<and> c \<noteq> CHR ''{'' \<and> c \<notin> {CHR ''n'', CHR ''t'', CHR ''f''}"
  by (auto simp: num_char_def json_ws_def is_digit_def digit_val_def split: if_splits)

lemma valid_number_nonempty: "valid_number n \<Longrightarrow> n \<noteq> []"
  by (auto simp: valid_number_def after_digits_def)

lemma parse_number:
  assumes "valid_number n" "\<forall>c\<in>set n. num_char c" "num_end r"
  shows "parse_value (Suc k) (n @ r) = Some (JNum n, r)"
proof -
  obtain c t where n: "n = c # t" using valid_number_nonempty[OF assms(1)] by (cases n) auto
  note h = num_char_head[of c]
  have "takeWhile num_char (n @ r) = n" "dropWhile num_char (n @ r) = r"
    using assms(2,3) by (cases r; auto simp: num_end_def)+
  then have "parse_lit (n @ r) = Some (JNum n, r)"
    using h assms(1,2) by (auto simp: parse_lit_def HasPrefix_def n)
  moreover have "skip_ws (n @ r) = n @ r" using h assms(2) by (simp add: n skip_ws_def)
  ultimately show ?thesis using h assms(2) by (simp add: n)
qed

lemma print_head:
  assumes "wf_json v" shows "\<exists>c t. print_json v = c # t \<and> \<not> json_ws c \<and> c \<noteq> CHR '']'' \<and> c \<noteq> CHR ''}''"
proof (cases v)
  case (JNum n)
  with assms valid_number_nonempty obtain c t where "n = c # t" "num_char c" by (cases n) auto
  moreover have "\<not> num_char CHR '']''" "\<not> num_char CHR ''}''" by (simp_all add: num_char_def is_digit_def digit_val_def)
  ultimately show ?thesis using JNum num_char_head by auto
qed (simp_all add: json_ws_def quote_json_def)

lemma not_starts_print: "wf_json v \<Longrightarrow> c = CHR '']'' \<or> c = CHR ''}'' \<Longrightarrow> \<not> starts c (print_json v @ r)"
  using print_head[of v] by (auto simp: starts_def skip_ws_def)

lemma parse_elems_print:
  assumes "\<And>v m r. v \<in> set vs \<Longrightarrow> jfuel v \<le> m \<Longrightarrow> num_end r \<Longrightarrow> parse_value m (print_json v @ r) = Some (v, r)"
    and "vs \<noteq> []" "sum_list (map (\<lambda>v. Suc (jfuel v)) vs) \<le> m"
  shows "parse_elems m (commas (map print_json vs) @ CHR '']'' # r) = Some (vs, r)"
  using assms
proof (induction vs arbitrary: m)
  case (Cons v vs)
  obtain n where m: "m = Suc n" using Cons.prems(3) by (cases m) auto
  have v: "num_end r' \<Longrightarrow> parse_value n (print_json v @ r') = Some (v, r')" for r'
    using Cons.prems by (simp add: m)
  show ?case
  proof (cases vs)
    case Nil
    then show ?thesis by (simp add: m v)
  next
    case (Cons w ws)
    then have "parse_elems n (commas (map print_json vs) @ CHR '']'' # r) = Some (vs, r)"
      using Cons.prems m by (intro Cons.IH) auto
    with \<open>vs = w # ws\<close> show ?thesis by (simp add: m v)
  qed
qed simp

abbreviation print_member :: "string \<times> json \<Rightarrow> string" where
  "print_member \<equiv> \<lambda>(k, v). quote_json k @ CHR '':'' # print_json v"

lemma parse_members_print:
  assumes "\<And>k v m r. (k, v) \<in> set kvs \<Longrightarrow> jfuel v \<le> m \<Longrightarrow> num_end r \<Longrightarrow> parse_value m (print_json v @ r) = Some (v, r)"
    and "kvs \<noteq> []" "sum_list (map (\<lambda>(k, v). Suc (jfuel v)) kvs) \<le> m"
  shows "parse_members m (commas (map print_member kvs) @ CHR ''}'' # r) = Some (kvs, r)"
  using assms
proof (induction kvs arbitrary: m)
  case (Cons kv kvs)
  obtain k v where kv: "kv = (k, v)" by (cases kv)
  obtain n where m: "m = Suc n" using Cons.prems(3) by (cases m) (auto simp: kv)
  have v: "num_end r' \<Longrightarrow> parse_value n (print_json v @ r') = Some (v, r')" for r'
    using Cons.prems(1)[of k v n r'] Cons.prems(3) by (simp add: m kv)
  show ?case
  proof (cases kvs)
    case Nil
    then show ?thesis by (simp add: m v kv)
  next
    case (Cons w ws)
    then have "parse_members n (commas (map print_member kvs) @ CHR ''}'' # r) = Some (kvs, r)"
      using Cons.prems m by (intro Cons.IH) (auto simp: kv)
    with \<open>kvs = w # ws\<close> show ?thesis by (simp add: m v kv)
  qed
qed simp

lemma commas_head: "xs \<noteq> [] \<Longrightarrow> \<exists>t. commas (xs :: string list) = hd xs @ t"
  by (induction xs rule: commas.induct) auto

lemma not_starts_commas:
  assumes "vs \<noteq> []" "\<forall>v\<in>set vs. wf_json v" shows "\<not> starts CHR '']'' (commas (map print_json vs) @ r)"
  using commas_head[of "map print_json vs"] not_starts_print[of "hd vs" "CHR '']''"] assms by (cases vs) auto

lemma not_starts_members:
  assumes "kvs \<noteq> []" shows "\<not> starts CHR ''}'' (commas (map print_member kvs) @ r)"
  using commas_head[of "map print_member kvs"] assms
  by (cases kvs) (auto simp: quote_json_def starts_def skip_ws_def json_ws_def)

text \<open>Reading what was written: enough fuel, and any text behind that does not continue a number.\<close>

lemma parse_print_value:
  "wf_json v \<Longrightarrow> jfuel v \<le> m \<Longrightarrow> num_end r \<Longrightarrow> parse_value m (print_json v @ r) = Some (v, r)"
proof (induction v arbitrary: m r)
  case (JNum n)
  then show ?case by (cases m) (simp_all add: parse_number del: parse_value.simps(2))
next
  case (JArr vs)
  then obtain n where m: "m = Suc n" by (cases m) auto
  have s: "skip_ws (CHR ''['' # t) = CHR ''['' # t" "starts CHR '']'' (CHR '']'' # t)" "skip_ws (CHR '']'' # t) = CHR '']'' # t" for t
    by (simp_all add: skip_ws_def json_ws_def starts_def)
  show ?case
  proof (cases "vs = []")
    case False
    have "parse_elems n (commas (map print_json vs) @ CHR '']'' # r) = Some (vs, r)"
      using JArr False m by (intro parse_elems_print) auto
    then show ?thesis using not_starts_commas[of vs] JArr.prems(1) False by (simp add: m s)
  qed (simp add: m s)
next
  case (JObj kvs)
  then obtain n where m: "m = Suc n" by (cases m) auto
  have s: "skip_ws (CHR ''{'' # t) = CHR ''{'' # t" "starts CHR ''}'' (CHR ''}'' # t)" "skip_ws (CHR ''}'' # t) = CHR ''}'' # t" for t
    by (simp_all add: skip_ws_def json_ws_def starts_def)
  show ?case
  proof (cases "kvs = []")
    case False
    have "parse_members n (commas (map print_member kvs) @ CHR ''}'' # r) = Some (kvs, r)"
      using JObj False m by (intro parse_members_print) fastforce+
    then show ?thesis using not_starts_members[of kvs] False by (simp add: m s)
  qed (simp add: m s)
next
  case (JStr s)
  then show ?case by (cases m) (auto simp: quote_json_def skip_ws_def json_ws_def parse_str_quote)
qed (case_tac m; auto simp: skip_ws_def json_ws_def parse_lit_def HasPrefix_def)+

lemma length_commas: "xs \<noteq> [] \<Longrightarrow> length (commas xs) + 1 = sum_list (map length xs) + length xs"
  by (induction xs rule: commas.induct) auto

lemma jfuel_length: "wf_json v \<Longrightarrow> jfuel v \<le> 2 * length (print_json v)"
proof (induction v)
  case (JNum n)
  then show ?case using valid_number_nonempty by (cases n) auto
next
  case (JArr vs)
  then have "sum_list (map (\<lambda>v. Suc (jfuel v)) vs) \<le> sum_list (map (\<lambda>v. Suc (2 * length (print_json v))) vs)"
    by (intro sum_list_mono) auto
  also have "\<dots> = length vs + 2 * sum_list (map length (map print_json vs))" by (induction vs) auto
  finally show ?case using length_commas[of "map print_json vs"] by (cases "vs = []") auto
next
  case (JObj kvs)
  then have "sum_list (map (\<lambda>(k, v). Suc (jfuel v)) kvs) \<le> sum_list (map (\<lambda>kv. 2 * length (print_member kv)) kvs)"
    by (intro sum_list_mono) fastforce
  also have "\<dots> = 2 * sum_list (map length (map print_member kvs))" by (induction kvs) auto
  finally show ?case using length_commas[of "map print_member kvs"] by (cases "kvs = []") auto
qed (auto simp: quote_json_def)

lemma parse_print [golib_simps]: "wf_json v \<Longrightarrow> parse_json (print_json v) = Some v"
  using parse_print_value[of v "2 * length (print_json v) + 2" "[]"] jfuel_length[of v]
  by (simp add: parse_json_def skip_ws_def)

section \<open>The fuel is enough\<close>

lemma length_parse_str: "parse_str st s = Some (us, r) \<Longrightarrow> length r < length s"
  by (induction st s arbitrary: us rule: parse_str.induct) (fastforce split: if_splits option.splits)+

lemma length_skip_ws: "length (skip_ws s) \<le> length s"
  by (simp add: skip_ws_def length_dropWhile_le)

lemma length_skip_ws_Cons: "skip_ws s = c # t \<Longrightarrow> length t < length s"
  using length_skip_ws[of s] by simp

lemma length_parse_sep: "parse_sep d s = Some (b, r) \<Longrightarrow> length r < length s"
  using length_skip_ws[of s] by (auto simp: parse_sep_def split: list.splits if_splits)

lemma length_parse_key: "parse_key s = Some (k, r) \<Longrightarrow> length r < length s"
proof -
  assume "parse_key s = Some (k, r)"
  then obtain t us t' d where "skip_ws s = CHR 0x22 # t" "parse_str SPlain t = Some (us, t')" "skip_ws t' = d # r"
    by (auto simp: parse_key_def split: list.splits option.splits if_splits)
  then show ?thesis
    using length_skip_ws_Cons length_parse_str by (meson less_trans)
qed

lemma length_parse_lit: "parse_lit s = Some (v, r) \<Longrightarrow> length r < length s"
proof -
  assume a: "parse_lit s = Some (v, r)"
  have "valid_number (takeWhile num_char s) \<Longrightarrow> length (dropWhile num_char s) < length s"
    using valid_number_nonempty[of "takeWhile num_char s"] takeWhile_dropWhile_id[of num_char s]
    by (metis length_append length_greater_0_conv less_add_same_cancel2)
  moreover have "HasPrefix s (c # p) \<Longrightarrow> s \<noteq> []" for c p by (auto simp: HasPrefix_def)
  ultimately show ?thesis using a by (auto simp: parse_lit_def Let_def split: if_splits)
qed

text \<open>
  A successful parse consumes text, and succeeds with the same result for any fuel above twice the
  length: the fuel \<open>parse_json\<close> passes only cuts off texts that no fuel parses.
\<close>

lemma ge_Suc_iff: "(\<forall>n\<ge>Suc k. P n) \<longleftrightarrow> (\<forall>n\<ge>k. P (Suc n))"
  by (metis Suc_le_D Suc_le_mono)

lemma parse_fuel_all:
  "parse_value n s = Some (v, r) \<Longrightarrow> length r < length s \<and> (\<forall>n'\<ge>2 * length s + 2. parse_value n' s = Some (v, r))"
  "parse_elems n s = Some (vs, r) \<Longrightarrow> length r < length s \<and> (\<forall>n'\<ge>2 * length s + 3. parse_elems n' s = Some (vs, r))"
  "parse_members n s = Some (kvs, r) \<Longrightarrow> length r < length s \<and> (\<forall>n'\<ge>2 * length s + 3. parse_members n' s = Some (kvs, r))"
proof (induction n s and n s and n s arbitrary: v r and vs r and kvs r rule: parse_value_parse_elems_parse_members.induct)
  case (2 n s)
  from "2.prems" obtain c t where s: "skip_ws s = c # t" by (auto split: list.splits)
  note l = length_skip_ws_Cons[OF s]
  have b: "starts d t \<Longrightarrow> length (tl (skip_ws t)) < length s" for d using length_skip_ws[of t] l by simp
  have lit: "parse_lit (c # t) = Some (v, r) \<Longrightarrow> length r < length s"
    using length_parse_lit[of "c # t"] length_skip_ws[of s] s by fastforce
  consider "c = CHR 0x22" | "c = CHR ''[''" "starts CHR '']'' t" | "c = CHR ''[''" "\<not> starts CHR '']'' t"
    | "c = CHR ''{''" "starts CHR ''}'' t" | "c = CHR ''{''" "\<not> starts CHR ''}'' t"
    | "c \<notin> {CHR 0x22, CHR ''['', CHR ''{''}" by auto
  then have "length r < length s \<and> (\<forall>n'\<ge>2 * length s + 1. parse_value (Suc n') s = Some (v, r))"
  proof cases
    case 3
    then obtain vs where vs: "parse_elems n t = Some (vs, r)" "v = JArr vs" using "2.prems" s by auto
    have "length r < length t" "\<forall>n'\<ge>2 * length t + 3. parse_elems n' t = Some (vs, r)"
      using "2.IH"(1)[OF s _ 3 vs(1)] 3(1) by auto
    then show ?thesis using s 3 l vs(2) by simp
  next
    case 5
    then obtain kvs where kvs: "parse_members n t = Some (kvs, r)" "v = JObj kvs" using "2.prems" s by auto
    have "length r < length t" "\<forall>n'\<ge>2 * length t + 3. parse_members n' t = Some (kvs, r)"
      using "2.IH"(2)[OF s _ _ 5 kvs(1)] 5(1) by auto
    then show ?thesis using s 5 l kvs(2) by simp
  next
    case 1
    then obtain us where "parse_str SPlain t = Some (us, r)" using "2.prems" s by auto
    then show ?thesis using "2.prems" s 1 l length_parse_str[of SPlain t us r] by simp
  qed (use "2.prems" s b[of "CHR '']''"] b[of "CHR ''}''"] lit in \<open>simp_all split: if_splits\<close>)
  then show ?case by (simp add: numeral_2_eq_2 ge_Suc_iff)
next
  case (4 n s)
  from "4.prems" obtain v r' more t where v: "parse_value n s = Some (v, r')" and m: "parse_sep CHR '']'' r' = Some (more, t)"
    and e: "(if more then map_option (apfst ((#) v)) (parse_elems n t) else Some ([v], t)) = Some (vs, r)"
    by (auto split: option.splits prod.splits)
  have l: "length r' < length s" "\<forall>n'\<ge>2 * length s + 2. parse_value n' s = Some (v, r')" using "4.IH"(1)[OF v] by auto
  have t: "length t < length r'" using length_parse_sep[OF m] .
  have "length r < length s \<and> (\<forall>n'\<ge>2 * length s + 2. parse_elems (Suc n') s = Some (vs, r))"
  proof (cases more)
    case True
    then obtain ws where ws: "parse_elems n t = Some (ws, r)" "vs = v # ws" using e by auto
    with "4.IH"(2)[OF v refl m refl True] have "length r < length t" "\<forall>n'\<ge>2 * length t + 3. parse_elems n' t = Some (ws, r)" by auto
    then show ?thesis using l t m True ws(2) by simp
  next
    case False
    then show ?thesis using l t m e by simp
  qed
  then show ?case by (simp add: numeral_3_eq_3 numeral_2_eq_2 ge_Suc_iff)
next
  case (6 n s)
  from "6.prems" obtain k s' v r' more t where k: "parse_key s = Some (k, s')" and v: "parse_value n s' = Some (v, r')"
    and m: "parse_sep CHR ''}'' r' = Some (more, t)"
    and e: "(if more then map_option (apfst ((#) (k, v))) (parse_members n t) else Some ([(k, v)], t)) = Some (kvs, r)"
    by (auto split: option.splits prod.splits)
  have l: "length r' < length s'" "\<forall>n'\<ge>2 * length s' + 2. parse_value n' s' = Some (v, r')" using "6.IH"(1)[OF k refl v] by auto
  note t = length_parse_sep[OF m] length_parse_key[OF k]
  have "length r < length s \<and> (\<forall>n'\<ge>2 * length s + 2. parse_members (Suc n') s = Some (kvs, r))"
  proof (cases more)
    case True
    then obtain ws where ws: "parse_members n t = Some (ws, r)" "kvs = (k, v) # ws" using e by auto
    with "6.IH"(2)[OF k refl v refl m refl True] have "length r < length t" "\<forall>n'\<ge>2 * length t + 3. parse_members n' t = Some (ws, r)" by auto
    then show ?thesis using l t m k True ws(2) by simp
  next
    case False
    then show ?thesis using l t m k e by simp
  qed
  then show ?case by (simp add: numeral_3_eq_3 numeral_2_eq_2 ge_Suc_iff)
qed simp_all

lemma parse_fuel: "(\<exists>n. parse_value n s = Some (v, r)) \<longleftrightarrow> parse_value (2 * length s + 2) s = Some (v, r)"
  using parse_fuel_all(1) by blast

section \<open>Integers as numbers\<close>

lemma digit_char_0: "digit_char 0 = CHR ''0''"
  by (simp add: digit_char_def char_of_def bit_simps)

lemma is_digit_digit_char: "d < 10 \<Longrightarrow> is_digit (digit_char d)"
  by (simp add: is_digit_def)

lemma nat_dec_digits: "\<forall>c\<in>set (nat_dec n). is_digit c"
  using set_nat_dec is_digit_digit_char by blast

lemma hd_nat_dec_zero: "0 < n \<Longrightarrow> hd (nat_dec n) \<noteq> CHR ''0''"
proof (induction n rule: nat_dec.induct)
  case (1 n)
  show ?case
  proof (cases "n < 10")
    case True
    have "digit_char n \<noteq> digit_char 0" using True 1(2) by (metis digit_val_digit_char less_nat_zero_code not_gr_zero option.inject zero_less_numeral)
    then show ?thesis using True by (simp add: nat_dec.simps[of n] digit_char_0)
  next
    case False
    then show ?thesis using 1 by (simp add: nat_dec.simps[of n])
  qed
qed

lemma valid_nat_dec: "valid_number (nat_dec n)"
proof (cases "n = 0")
  case True
  then show ?thesis by (simp add: nat_dec.simps digit_char_0 valid_number_def valid_fraction_def)
next
  case False
  have "after_digits (nat_dec n) = Some []"
    using nat_dec_digits[of n] hd_in_set[OF nat_dec_nonempty, of n] by (auto simp: after_digits_def)
  then show ?thesis
    using False hd_nat_dec[of n] hd_nat_dec_zero[of n] by (simp add: valid_number_def valid_fraction_def)
qed

lemma valid_number_Itoa: "valid_number (Itoa i) \<and> (\<forall>c\<in>set (Itoa i). num_char c)"
proof -
  have "valid_number (CHR ''-'' # nat_dec n)" for n
    using valid_nat_dec[of n] hd_nat_dec[of n] by (simp add: valid_number_def)
  then show ?thesis using valid_nat_dec nat_dec_digits by (auto simp: Itoa_def num_char_def)
qed

lemma wf_json_Itoa [simp]: "wf_json (JNum (Itoa i))"
  by (simp add: valid_number_Itoa)

lemma dec_int_Itoa: "- (2 ^ 63) \<le> i \<Longrightarrow> i < 2 ^ 63 \<Longrightarrow> dec_int (JNum (Itoa i)) old = Some i"
  by (simp add: dec_int_def ParseInt_Itoa)

lemma dec_word_Itoa [simp]: "dec_word (JNum (Itoa (sint w))) old = Some w"
  using sint_greater_eq[of w] sint_less[of w] by (simp add: dec_word_def dec_int_Itoa)

lemma dec_string_JStr [simp]: "dec_string (JStr s) old = Some s"
  by (simp add: dec_string_def)

lemma dec_list_map: "(\<And>x. x \<in> set xs \<Longrightarrow> dec (enc x) = Some x) \<Longrightarrow> dec_list dec (map enc xs) = Some xs"
  by (induction xs) auto

text \<open>Written text has no control bytes, in particular no line breaks.\<close>

definition printable :: "char \<Rightarrow> bool" where
  "printable c \<longleftrightarrow> \<not> of_char c < (32::nat)"

lemma printable_u00: "x \<in> set (u00 c) \<Longrightarrow> printable x"
proof -
  have h: "printable (hex_char d)" if "d < 16" for d using that by (auto simp: hex_char_def printable_def)
  have "(of_char c :: nat) < 256" by (rule nat_of_char_less_256)
  then have "(of_char c :: nat) div 16 < 16" "(of_char c :: nat) mod 16 < 16" by linarith+
  then show "x \<in> set (u00 c) \<Longrightarrow> printable x" using h by (auto simp: u00_def Let_def) (simp_all add: printable_def)
qed

lemma printable_esc: "x \<in> set (esc_char c) \<Longrightarrow> printable x"
proof (rule esc_char_cases[of c])
  fix e assume "x \<in> set (esc_char c)" "esc_char c = [CHR 0x5C, e]" "map_of short_escapes e = Some c"
  then show ?thesis by (auto simp: short_escapes_def printable_def split: if_splits)
qed (auto dest: printable_u00 simp: printable_def[of c])

lemma printable_quote: "x \<in> set (quote_json s) \<Longrightarrow> printable x"
  using printable_esc by (auto simp: quote_json_def) (simp add: printable_def)+

lemma set_commas: "set (commas xs) \<subseteq> insert CHR '','' (\<Union> (set ` set xs))"
  by (induction xs rule: commas.induct) auto

lemma printable_num: "num_char x \<Longrightarrow> printable x"
  by (auto simp: num_char_def printable_def is_digit_def digit_val_def Let_def split: if_splits option.splits)

lemma printable_punct [simp]:
  "printable CHR ''['' " "printable CHR '']''" "printable CHR ''{''" "printable CHR ''}''" "printable CHR '',''" "printable CHR '':''"
  by (simp_all add: printable_def)

lemma printable_print: "wf_json v \<Longrightarrow> x \<in> set (print_json v) \<Longrightarrow> printable x"
proof (induction v)
  case (JArr vs)
  then have "\<forall>v\<in>set vs. x \<in> set (print_json v) \<longrightarrow> printable x" by simp
  moreover have "x \<in> {CHR ''['', CHR '']'', CHR '',''} \<or> (\<exists>v\<in>set vs. x \<in> set (print_json v))"
    using JArr.prems(2) set_commas[of "map print_json vs"] by auto
  ultimately show ?case by auto
next
  case (JObj kvs)
  have "printable x" if "kv \<in> set kvs" "x \<in> set (print_member kv)" for kv
  proof -
    obtain k v where kv: "kv = (k, v)" by (cases kv)
    have "x \<in> set (quote_json k) \<or> x = CHR '':'' \<or> x \<in> set (print_json v)" using that(2) by (auto simp: kv)
    moreover have "wf_json v" using that(1) JObj.prems(1) by (auto simp: kv)
    ultimately show ?thesis using JObj.IH[of "(k, v)" v] that(1) printable_quote by (auto simp: kv)
  qed
  moreover have "x \<in> {CHR ''{'', CHR ''}'', CHR '',''} \<or> (\<exists>kv\<in>set kvs. x \<in> set (print_member kv))"
    using JObj.prems(2) set_commas[of "map print_member kvs"] by auto
  ultimately show ?case by auto
next
  case (JNum n)
  then show ?case using printable_num by auto
next
  case (JStr s)
  then show ?case using printable_quote by auto
qed (auto simp: printable_def split: if_splits)

end
