(* ===== verification/Wal.thy ===== *)
theory Wal
  imports Json
begin

text \<open>
  \<^verbatim>\<open>internal/agent/wal.go\<close>: the traffic log of the agent, one JSON line per sample. The log file is its
  bytes (\<open>None\<close> when it does not exist), so that a write cut short by a crash or a full disk is
  representable. Outcomes of system calls are arguments: how many bytes a write stored, which step of
  a rotation failed. The interface \<open>line_codec\<close> says what a record format must promise for a file of
  lines to be read back; it is interpreted on the JSON encoding of \<^verbatim>\<open>TrafficRec\<close>. The step relation
  \<open>wal_run\<close> runs the log through samples, rotations and restarts.
\<close>

section \<open>Records\<close>

record ProxyDelta =
  pd_RemotePort :: int
  pd_Proto :: string
  pd_In :: int64
  pd_Out :: int64
  pd_Status :: string

record TrafficRec =
  rec_Seq :: int
  rec_AtMs :: int
  rec_NodeRxDelta :: int64
  rec_NodeTxDelta :: int64
  rec_Proxies :: "ProxyDelta list"

definition delta_json :: "ProxyDelta \<Rightarrow> json" where
  "delta_json d = JObj [(''rp'', JNum (Itoa (pd_RemotePort d))), (''p'', JStr (pd_Proto d)), (''in'', JNum (Itoa (sint (pd_In d)))),
     (''out'', JNum (Itoa (sint (pd_Out d)))), (''st'', JStr (pd_Status d))]"

definition rec_json :: "TrafficRec \<Rightarrow> json" where
  "rec_json r = JObj ([(''seq'', JNum (Itoa (rec_Seq r))), (''at_ms'', JNum (Itoa (rec_AtMs r))),
     (''nrx'', JNum (Itoa (sint (rec_NodeRxDelta r)))), (''ntx'', JNum (Itoa (sint (rec_NodeTxDelta r))))] @
     (if rec_Proxies r = [] then [] else [(''px'', JArr (map delta_json (rec_Proxies r)))]))"

definition marshal_rec :: "TrafficRec \<Rightarrow> string" where
  "marshal_rec r = print_json (rec_json r)"

definition zero_delta :: ProxyDelta where
  "zero_delta = \<lparr>pd_RemotePort = 0, pd_Proto = [], pd_In = 0, pd_Out = 0, pd_Status = []\<rparr>"

definition zero_rec :: TrafficRec where
  "zero_rec = \<lparr>rec_Seq = 0, rec_AtMs = 0, rec_NodeRxDelta = 0, rec_NodeTxDelta = 0, rec_Proxies = []\<rparr>"

definition set_delta :: "string \<Rightarrow> json \<Rightarrow> ProxyDelta \<Rightarrow> ProxyDelta option" where
  "set_delta k v d =
     (if k = ''rp'' then map_option (\<lambda>x. d\<lparr>pd_RemotePort := x\<rparr>) (dec_int v (pd_RemotePort d))
      else if k = ''p'' then map_option (\<lambda>x. d\<lparr>pd_Proto := x\<rparr>) (dec_string v (pd_Proto d))
      else if k = ''in'' then map_option (\<lambda>x. d\<lparr>pd_In := x\<rparr>) (dec_word v (pd_In d))
      else if k = ''out'' then map_option (\<lambda>x. d\<lparr>pd_Out := x\<rparr>) (dec_word v (pd_Out d))
      else if k = ''st'' then map_option (\<lambda>x. d\<lparr>pd_Status := x\<rparr>) (dec_string v (pd_Status d))
      else Some d)"

definition dec_deltas :: "json \<Rightarrow> ProxyDelta list option" where
  "dec_deltas v = (case v of JNull \<Rightarrow> Some [] | JArr vs \<Rightarrow> dec_list (\<lambda>v. dec_struct set_delta v zero_delta) vs | _ \<Rightarrow> None)"

definition set_rec :: "string \<Rightarrow> json \<Rightarrow> TrafficRec \<Rightarrow> TrafficRec option" where
  "set_rec k v r =
     (if k = ''seq'' then map_option (\<lambda>x. r\<lparr>rec_Seq := x\<rparr>) (dec_int v (rec_Seq r))
      else if k = ''at_ms'' then map_option (\<lambda>x. r\<lparr>rec_AtMs := x\<rparr>) (dec_int v (rec_AtMs r))
      else if k = ''nrx'' then map_option (\<lambda>x. r\<lparr>rec_NodeRxDelta := x\<rparr>) (dec_word v (rec_NodeRxDelta r))
      else if k = ''ntx'' then map_option (\<lambda>x. r\<lparr>rec_NodeTxDelta := x\<rparr>) (dec_word v (rec_NodeTxDelta r))
      else if k = ''px'' then map_option (\<lambda>x. r\<lparr>rec_Proxies := x\<rparr>) (dec_deltas v)
      else Some r)"

definition unmarshal_rec :: "string \<Rightarrow> TrafficRec option" where
  "unmarshal_rec = Unmarshal (\<lambda>v. dec_struct set_rec v zero_rec)"

section \<open>The log\<close>

definition newline :: char where "newline = CHR 0x0A"

definition maxLine :: nat where "maxLine = 4194304"

text \<open>The loop over the lines of the file that \<^verbatim>\<open>Stream\<close> and \<^verbatim>\<open>readAll\<close> share: empty and unreadable lines are skipped.\<close>

definition line_rec :: "string \<Rightarrow> TrafficRec option" where
  "line_rec l = (if l = [] then None else unmarshal_rec l)"

definition readAll :: "string option \<Rightarrow> TrafficRec list \<times> bool" where
  "readAll file =
     (case file of
        None \<Rightarrow> ([], False)
      | Some s \<Rightarrow> let (ls, err) = scan_lines maxLine s in (List.map_filter line_rec ls, err))"

record WAL =
  w_file :: "string option"
  w_open :: bool
  w_seq :: int

definition max_seq :: "TrafficRec list \<Rightarrow> int" where
  "max_seq recs = fold (\<lambda>r m. if m < rec_Seq r then rec_Seq r else m) recs 0"

text \<open>Opening with \<^verbatim>\<open>O_CREATE\<close>; a log that cannot be read to the end leaves the counter at zero.\<close>

definition OpenWAL :: "string option \<Rightarrow> WAL" where
  "OpenWAL file =
     \<lparr>w_file = Some (case file of None \<Rightarrow> [] | Some s \<Rightarrow> s), w_open = True,
      w_seq = (let (recs, err) = readAll file in if err then 0 else max_seq recs)\<rparr>"

definition NextSeq :: "WAL \<Rightarrow> int \<times> WAL" where
  "NextSeq w = (w_seq w + 1, w\<lparr>w_seq := w_seq w + 1\<rparr>)"

text \<open>
  One \<^verbatim>\<open>write\<close> of the line. \<open>stored\<close> is \<open>None\<close> when it succeeds and otherwise the number of bytes
  that reached the file before the error. The result says whether \<^verbatim>\<open>Append\<close> returned nil.
\<close>

definition Append :: "nat option \<Rightarrow> TrafficRec \<Rightarrow> WAL \<Rightarrow> bool \<times> WAL" where
  "Append stored r w =
     (let b = marshal_rec r @ [newline];
          put = (\<lambda>k. w\<lparr>w_file := Some ((case w_file w of None \<Rightarrow> [] | Some s \<Rightarrow> s) @ take k b)\<rparr>)
      in if \<not> w_open w then (False, w)
         else case stored of None \<Rightarrow> (True, put (length b)) | Some k \<Rightarrow> (False, put k))"

text \<open>\<^verbatim>\<open>Stream\<close> with a callback on a state; it returns whether the callback stopped the scan.\<close>

fun stream_recs :: "(TrafficRec \<Rightarrow> 's \<Rightarrow> bool \<times> 's) \<Rightarrow> int \<Rightarrow> string list \<Rightarrow> 's \<Rightarrow> bool \<times> 's" where
  "stream_recs fn after [] s = (False, s)"
| "stream_recs fn after (l # ls) s =
     (case line_rec l of
        None \<Rightarrow> stream_recs fn after ls s
      | Some r \<Rightarrow>
          if rec_Seq r \<le> after then stream_recs fn after ls s
          else let (go, s') = fn r s in if go then stream_recs fn after ls s' else (True, s'))"

definition Stream :: "(TrafficRec \<Rightarrow> 's \<Rightarrow> bool \<times> 's) \<Rightarrow> int \<Rightarrow> WAL \<Rightarrow> 's \<Rightarrow> bool \<times> 's" where
  "Stream fn after w s =
     (case w_file w of
        None \<Rightarrow> (False, s)
      | Some txt \<Rightarrow>
          (let (ls, err) = scan_lines maxLine txt; (stopped, s') = stream_recs fn after ls s
           in (if stopped then False else err, s')))"

text \<open>
  Which step of \<^verbatim>\<open>Rotate\<close> fails. An error of the final \<^verbatim>\<open>Flush\<close> is not looked at by the code: only the
  given number of bytes is in the temporary file when it replaces the log.
\<close>

datatype rotate_io = RotateOk | OpenErr | TmpErr | EncodeErr | FlushErr nat | RenameErr | ReopenErr

definition wal_text :: "TrafficRec list \<Rightarrow> string" where
  "wal_text rs = concat (map (\<lambda>r. marshal_rec r @ [newline]) rs)"

definition Rotate :: "rotate_io \<Rightarrow> int \<Rightarrow> WAL \<Rightarrow> bool \<times> WAL" where
  "Rotate io cutoff w =
     (let (recs, err) = readAll (w_file w); kept = filter (\<lambda>r. cutoff \<le> rec_AtMs r) recs
      in if err \<or> io = OpenErr then (False, w)
         else if length kept = length recs then (True, w)
         else if io = TmpErr \<or> io = EncodeErr then (False, w)
         else let txt = (case io of FlushErr k \<Rightarrow> take k (wal_text kept) | _ \<Rightarrow> wal_text kept)
              in if io = RenameErr then (False, w\<lparr>w_open := False\<rparr>)
                 else (io \<noteq> ReopenErr, w\<lparr>w_file := Some txt, w_open := (io \<noteq> ReopenErr)\<rparr>))"

definition Close :: "WAL \<Rightarrow> WAL" where
  "Close w = w\<lparr>w_open := False\<rparr>"

section \<open>Files of lines\<close>

text \<open>What a record format promises: a record is one line that is read back as itself.\<close>

locale line_codec =
  fixes enc :: "'r \<Rightarrow> string" and dec :: "string \<Rightarrow> 'r option" and ok :: "'r \<Rightarrow> bool" and mx :: nat
  assumes dec_enc: "ok r \<Longrightarrow> dec (enc r) = Some r"
    and enc_line: "ok r \<Longrightarrow> newline \<notin> set (enc r) \<and> CHR 0x0D \<notin> set (enc r)"
    and enc_fits: "ok r \<Longrightarrow> length (enc r) < mx"
begin

abbreviation lines_text :: "'r list \<Rightarrow> string" where
  "lines_text rs \<equiv> concat (map (\<lambda>r. enc r @ [newline]) rs)"

lemma raw_lines_text: "\<forall>r\<in>set rs. ok r \<Longrightarrow> raw_lines (lines_text rs @ t) = map enc rs @ raw_lines t"
proof (induction rs)
  case (Cons r rs)
  then show ?case using raw_lines_line[of "enc r" "lines_text rs @ t"] enc_line[of r] by (simp add: newline_def)
qed simp

lemma drop_cr_enc: "ok r \<Longrightarrow> drop_cr (enc r) = enc r"
  using enc_line[of r] last_in_set[of "enc r"] by (metis drop_cr_def)

lemma scan_lines_text: "\<forall>r\<in>set rs. ok r \<Longrightarrow> scan_lines mx (lines_text rs) = (map enc rs, False)"
proof -
  assume ok: "\<forall>r\<in>set rs. ok r"
  have "map drop_cr (map enc rs) = map enc rs" using ok drop_cr_enc by simp
  moreover have "takeWhile (\<lambda>l. length l < mx) (map enc rs) = map enc rs"
    using ok enc_fits by simp
  ultimately show ?thesis using raw_lines_text[OF ok, of "[]"]
    by (simp add: scan_lines_def Let_def del: takeWhile_eq_all_conv)
qed

lemma read_back: "\<forall>r\<in>set rs. ok r \<Longrightarrow> List.map_filter dec (fst (scan_lines mx (lines_text rs))) = rs"
  unfolding scan_lines_text
proof (simp, induction rs)
  case (Cons r rs)
  then show ?case by (simp add: dec_enc List.map_filter_simps)
qed (simp add: List.map_filter_simps)

end

definition fits64 :: "int \<Rightarrow> bool" where
  "fits64 i \<longleftrightarrow> - (2 ^ 63) \<le> i \<and> i < 2 ^ 63"

definition wf_rec :: "TrafficRec \<Rightarrow> bool" where
  "wf_rec r \<longleftrightarrow> fits64 (rec_Seq r) \<and> fits64 (rec_AtMs r) \<and> (\<forall>d\<in>set (rec_Proxies r). fits64 (pd_RemotePort d)) \<and>
     length (marshal_rec r) < maxLine"

lemma ToLower_keys [simp]:
  "ToLower ''rp'' = ''rp''" "ToLower ''p'' = ''p''" "ToLower ''in'' = ''in''" "ToLower ''out'' = ''out''" "ToLower ''st'' = ''st''"
  "ToLower ''seq'' = ''seq''" "ToLower ''at_ms'' = ''at_ms''" "ToLower ''nrx'' = ''nrx''" "ToLower ''ntx'' = ''ntx''" "ToLower ''px'' = ''px''"
  by (simp_all add: ToLower_def lower_char_def)

lemma wf_delta_json: "wf_json (delta_json d)"
  by (simp add: delta_json_def valid_number_Itoa)

lemma wf_rec_json: "wf_json (rec_json r)"
  by (simp add: rec_json_def valid_number_Itoa wf_delta_json)

lemma dec_delta_json: "fits64 (pd_RemotePort d) \<Longrightarrow> dec_struct set_delta (delta_json d) zero_delta = Some d"
  by (simp add: dec_struct_def delta_json_def set_delta_def dec_int_Itoa fits64_def zero_delta_def)

lemma dec_deltas_json:
  assumes "wf_rec r" shows "dec_deltas (JArr (map delta_json (rec_Proxies r))) = Some (rec_Proxies r)"
  unfolding dec_deltas_def json.case
  using assms by (intro dec_list_map dec_delta_json) (simp add: wf_rec_def)

lemma dec_rec_json: "wf_rec r \<Longrightarrow> dec_struct set_rec (rec_json r) zero_rec = Some r"
  using dec_deltas_json[of r]
  by (auto simp: dec_struct_def rec_json_def set_rec_def dec_int_Itoa fits64_def[of "rec_Seq r"] fits64_def[of "rec_AtMs r"]
      zero_rec_def wf_rec_def)

lemma unmarshal_marshal: "wf_rec r \<Longrightarrow> unmarshal_rec (marshal_rec r) = Some r"
  by (simp add: unmarshal_rec_def marshal_rec_def Unmarshal_def parse_print wf_rec_json dec_rec_json)

lemma marshal_rec_nonempty [simp]: "marshal_rec r \<noteq> []"
  by (simp add: marshal_rec_def rec_json_def)

lemma marshal_rec_line: "newline \<notin> set (marshal_rec r) \<and> CHR 0x0D \<notin> set (marshal_rec r)"
  using printable_print[OF wf_rec_json[of r], of newline] printable_print[OF wf_rec_json[of r], of "CHR 0x0D"]
  by (auto simp: marshal_rec_def newline_def printable_def)

interpretation wal: line_codec marshal_rec line_rec wf_rec maxLine
proof
  fix r
  assume "wf_rec r"
  then show "line_rec (marshal_rec r) = Some r" "length (marshal_rec r) < maxLine"
    by (simp_all add: line_rec_def unmarshal_marshal) (simp add: wf_rec_def)
qed (rule marshal_rec_line)

lemma scan_wal_text: "\<forall>r\<in>set rs. wf_rec r \<Longrightarrow> scan_lines maxLine (wal_text rs) = (map marshal_rec rs, False)"
  unfolding wal_text_def by (rule wal.scan_lines_text)

lemma readAll_text: "\<forall>r\<in>set rs. wf_rec r \<Longrightarrow> readAll (Some (wal_text rs)) = (rs, False)"
  using wal.read_back[of rs] scan_wal_text[of rs] by (simp add: readAll_def wal_text_def)

lemma wal_text_append: "wal_text (rs @ [r]) = wal_text rs @ marshal_rec r @ [newline]"
  by (simp add: wal_text_def)

text \<open>The callback sees the records above the cursor, in file order, until it stops.\<close>

fun feed :: "(TrafficRec \<Rightarrow> 's \<Rightarrow> bool \<times> 's) \<Rightarrow> TrafficRec list \<Rightarrow> 's \<Rightarrow> bool \<times> 's" where
  "feed fn [] s = (False, s)"
| "feed fn (r # rs) s = (let (go, s') = fn r s in if go then feed fn rs s' else (True, s'))"

lemma stream_recs_text:
  "\<forall>r\<in>set rs. wf_rec r \<Longrightarrow> stream_recs fn after (map marshal_rec rs) s = feed fn (filter (\<lambda>r. after < rec_Seq r) rs) s"
  by (induction rs arbitrary: s) (auto simp: wal.dec_enc Let_def not_less split: prod.splits)

lemma Stream_text:
  "w_file w = Some (wal_text rs) \<Longrightarrow> \<forall>r\<in>set rs. wf_rec r \<Longrightarrow>
   Stream fn after w s = (False, snd (feed fn (filter (\<lambda>r. after < rec_Seq r) rs) s))"
  by (auto simp: Stream_def scan_wal_text stream_recs_text split: prod.splits)

definition collect :: "TrafficRec \<Rightarrow> TrafficRec list \<Rightarrow> bool \<times> TrafficRec list" where
  "collect r acc = (True, acc @ [r])"

lemma feed_collect: "feed collect rs acc = (False, acc @ rs)"
  by (induction rs arbitrary: acc) (simp_all add: collect_def)

lemma max_seq_bound:
  "\<forall>r\<in>set rs. rec_Seq r \<le> fold (\<lambda>r m. if m < rec_Seq r then rec_Seq r else m) rs m" "m \<le> fold (\<lambda>r m. if m < rec_Seq r then rec_Seq r else m) rs m"
proof (induction rs arbitrary: m)
  case (Cons r rs)
  case 1 show ?case using Cons(1)[of "max m (rec_Seq r)"] Cons(2)[of "max m (rec_Seq r)"] by (auto simp: max_def split: if_splits)
  case 2 show ?case using Cons(2)[of "max m (rec_Seq r)"] by (auto simp: max_def split: if_splits)
qed simp_all

section \<open>Runs of the log\<close>

text \<open>
  The log under samples (\<^verbatim>\<open>NextSeq\<close>, then \<^verbatim>\<open>Append\<close>), rotations and restarts of the agent, when the
  system calls succeed; the second argument is the list of records that were appended and not
  rotated out.
\<close>

inductive wal_run :: "WAL \<Rightarrow> TrafficRec list \<Rightarrow> bool" where
  start: "wal_run (OpenWAL None) []"
| sample: "wal_run w rs \<Longrightarrow> NextSeq w = (rec_Seq r, w') \<Longrightarrow> wf_rec r \<Longrightarrow> wal_run (snd (Append None r w')) (rs @ [r])"
| rotate: "wal_run w rs \<Longrightarrow> wal_run (snd (Rotate RotateOk cutoff w)) (filter (\<lambda>r. cutoff \<le> rec_AtMs r) rs)"
| restart: "wal_run w rs \<Longrightarrow> wal_run (OpenWAL (w_file w)) rs"

definition wal_inv :: "WAL \<Rightarrow> TrafficRec list \<Rightarrow> bool" where
  "wal_inv w rs \<longleftrightarrow> w_file w = Some (wal_text rs) \<and> w_open w \<and> (\<forall>r\<in>set rs. wf_rec r \<and> rec_Seq r \<le> w_seq w) \<and>
     sorted_wrt (\<lambda>r r'. rec_Seq r < rec_Seq r') rs"

lemma wal_inv_open: "(\<forall>r\<in>set rs. wf_rec r) \<Longrightarrow> sorted_wrt (\<lambda>r r'. rec_Seq r < rec_Seq r') rs \<Longrightarrow> wal_inv (OpenWAL (Some (wal_text rs))) rs"
  using max_seq_bound(1)[of rs 0] by (simp add: wal_inv_def OpenWAL_def readAll_text max_seq_def)

lemma wal_inv_sample:
  "wal_inv w rs \<Longrightarrow> NextSeq w = (rec_Seq r, w') \<Longrightarrow> wf_rec r \<Longrightarrow> wal_inv (snd (Append None r w')) (rs @ [r])"
  by (fastforce simp: wal_inv_def NextSeq_def Append_def Let_def wal_text_append sorted_wrt_append)

lemma length_filter_all: "length (filter P xs) = length xs \<longleftrightarrow> filter P xs = xs"
  by (metis filter_True length_filter_less less_irrefl)

lemma wal_inv_rotate:
  assumes "wal_inv w rs"
  shows "wal_inv (snd (Rotate RotateOk cutoff w)) (filter (\<lambda>r. cutoff \<le> rec_AtMs r) rs)"
proof -
  have "readAll (w_file w) = (rs, False)" using assms by (simp add: wal_inv_def readAll_text)
  with assms show ?thesis
    by (auto simp: Rotate_def wal_inv_def length_filter_all sorted_wrt_filter Let_def)
qed

lemma wal_run_inv: "wal_run w rs \<Longrightarrow> wal_inv w rs"
proof (induction rule: wal_run.induct)
  case start
  show ?case using wal_inv_open[of "[]"] by (simp add: OpenWAL_def wal_text_def readAll_def wal_inv_def)
next
  case (restart w rs)
  then show ?case using wal_inv_open[of rs] by (auto simp: wal_inv_def)
qed (auto intro: wal_inv_sample wal_inv_rotate)

text \<open>A file that ends in text without a newline: that text is one more line.\<close>

lemma readAll_tail:
  assumes "\<forall>r\<in>set rs. wf_rec r" "newline \<notin> set t" "CHR 0x0D \<notin> set t" "t \<noteq> []" "length t < maxLine" "line_rec t = None"
  shows "readAll (Some (wal_text rs @ t)) = (rs, False)" "readAll (Some (wal_text rs @ t @ [newline])) = (rs, False)"
proof -
  have "raw_lines (wal_text rs @ t) = map marshal_rec rs @ [t]" "raw_lines (wal_text rs @ t @ [newline]) = map marshal_rec rs @ [t]"
    using wal.raw_lines_text[OF assms(1)] raw_lines_last[of t] raw_lines_line[of t "[]"] assms(2,4)
    by (simp_all add: wal_text_def newline_def)
  moreover have "drop_cr t = t" using assms(3) last_in_set[of t] by (metis drop_cr_def)
  moreover have "map drop_cr (map marshal_rec rs) = map marshal_rec rs"
    using assms(1) wal.drop_cr_enc by simp
  moreover have "takeWhile (\<lambda>l. length l < maxLine) (map marshal_rec rs @ [t]) = map marshal_rec rs @ [t]"
    using assms(1,5) wal.enc_fits by (subst takeWhile_append2) auto
  ultimately have *: "scan_lines maxLine (wal_text rs @ t) = (map marshal_rec rs @ [t], False)"
    "scan_lines maxLine (wal_text rs @ t @ [newline]) = (map marshal_rec rs @ [t], False)"
    by (simp_all add: scan_lines_def Let_def del: takeWhile_eq_all_conv)
  have "List.map_filter line_rec (map marshal_rec rs @ [t]) = rs"
    using wal.read_back[OF assms(1)] wal.scan_lines_text[OF assms(1)] assms(6)
    by (simp add: List.map_filter_def)
  then show "readAll (Some (wal_text rs @ t)) = (rs, False)" "readAll (Some (wal_text rs @ t @ [newline])) = (rs, False)"
    by (simp_all add: readAll_def *)
qed

text \<open>A line cut off behind its sequence number, with the next line appended to it.\<close>

definition torn :: "TrafficRec \<Rightarrow> string" where
  "torn r = CHR ''{'' # quote_json ''seq'' @ CHR '':'' # Itoa (rec_Seq r)"

lemma torn_prefix: "strict_prefix (torn r) (marshal_rec r)"
  by (auto simp: torn_def marshal_rec_def rec_json_def strict_prefix_def)

lemma marshal_rec_head: "\<exists>s. marshal_rec r = CHR ''{'' # s"
  by (simp add: marshal_rec_def rec_json_def)

lemma torn_unreadable: "line_rec (torn r @ marshal_rec r') = None" "line_rec (torn r) = None"
proof -
  have key: "skip_ws (quote_json s @ t) = quote_json s @ t" for s t by (simp add: quote_json_def skip_ws_def json_ws_def)
  have *: "parse_value k (torn r @ t) = None" if t: "num_end t" "parse_sep CHR ''}'' t = None" for k t
  proof (cases k)
    case (Suc n)
    have "parse_members n (quote_json ''seq'' @ CHR '':'' # Itoa (rec_Seq r) @ t) = None"
    proof (cases n)
      case (Suc m)
      have "parse_value m (Itoa (rec_Seq r) @ t) = (if m = 0 then None else Some (JNum (Itoa (rec_Seq r)), t))"
        using t(1) valid_number_Itoa[of "rec_Seq r"] by (cases m) (simp_all add: parse_number del: parse_value.simps(2))
      then show ?thesis using t(2) Suc by simp
    qed simp
    moreover have "\<not> starts CHR ''}'' (quote_json ''seq'' @ t')" for t' by (simp add: starts_def key) (simp add: quote_json_def)
    moreover have "skip_ws (CHR ''{'' # t') = CHR ''{'' # t'" for t' by (simp add: skip_ws_def json_ws_def)
    ultimately show ?thesis by (simp add: Suc torn_def)
  qed simp
  have "num_end (marshal_rec r')" "parse_sep CHR ''}'' (marshal_rec r') = None"
    using marshal_rec_head[of r'] by (auto simp: num_end_def num_char_def is_digit_def digit_val_def parse_sep_def skip_ws_def json_ws_def)
  then have a: "parse_value k (torn r @ marshal_rec r') = None" for k by (rule *)
  have "parse_sep CHR ''}'' [] = None" by (simp add: parse_sep_def skip_ws_def)
  then have b: "parse_value k (torn r) = None" for k using *[of "[]"] by simp
  show "line_rec (torn r @ marshal_rec r') = None" "line_rec (torn r) = None"
    by (simp_all only: line_rec_def unmarshal_rec_def Unmarshal_def parse_json_def a b option.case if_cancel)
qed

lemma torn_line: "newline \<notin> set (torn r)" "CHR 0x0D \<notin> set (torn r)" "torn r \<noteq> []" "length (torn r) \<le> length (marshal_rec r)"
  using marshal_rec_line[of r] torn_prefix[of r] by (auto simp: strict_prefix_def dest: set_mono_prefix prefix_length_le) (simp add: torn_def)

lemma Rotate_flush_error:
  assumes "wal_inv w rs" "\<exists>r\<in>set rs. rec_AtMs r < cutoff"
  shows "Rotate (FlushErr 0) cutoff w = (True, w\<lparr>w_file := Some [], w_open := True\<rparr>)"
proof -
  have "readAll (w_file w) = (rs, False)" using assms(1) by (simp add: wal_inv_def readAll_text)
  moreover have "length (filter (\<lambda>r. cutoff \<le> rec_AtMs r) rs) \<noteq> length rs"
    using assms(2) by (force simp: length_filter_all filter_id_conv)
  ultimately show ?thesis by (simp add: Rotate_def Let_def)
qed

section \<open>Properties\<close>

definition ex_rec :: "int \<Rightarrow> TrafficRec" where
  "ex_rec s = \<lparr>rec_Seq = s, rec_AtMs = 1000 * s, rec_NodeRxDelta = 7, rec_NodeTxDelta = - 1, rec_Proxies = []\<rparr>"

text \<open>
  C18: the log replays what was sampled. In every run of samples, rotations and restarts, streaming
  from a watermark gives exactly the records above it that were appended and not rotated out, in
  strictly ascending order and without a read error, and the next sequence number is above all of
  them, also after a restart.
\<close>
theorem wal_replay:
  assumes "wal_run w rs"
  shows "Stream collect after w [] = (False, filter (\<lambda>r. after < rec_Seq r) rs) \<and>
    sorted_wrt (\<lambda>r r'. rec_Seq r < rec_Seq r') rs \<and>
    (\<forall>r\<in>set rs. rec_Seq r < fst (NextSeq w) \<and> rec_Seq r < fst (NextSeq (OpenWAL (w_file w))))"
proof -
  have "wal_inv w rs" "wal_inv (OpenWAL (w_file w)) rs" using assms by (auto intro: wal_run_inv wal_run.restart)
  then show ?thesis by (simp add: wal_inv_def Stream_text[of w rs] feed_collect NextSeq_def)
qed



lemma ex_rec_wf: "wf_rec (ex_rec 1)" "length (marshal_rec (ex_rec 2)) < 100"
proof -
  have "length (marshal_rec (ex_rec 1)) < 100" by code_simp
  then show "wf_rec (ex_rec 1)" by (simp add: wf_rec_def maxLine_def) (simp add: ex_rec_def fits64_def)
  show "length (marshal_rec (ex_rec 2)) < 100" by code_simp
qed

definition ex_wal1 :: WAL where
  "ex_wal1 = snd (Append None (ex_rec 1) (snd (NextSeq (OpenWAL None))))"

lemma ex_wal1_run: "wal_run ex_wal1 [ex_rec 1]"
  using wal_run.sample[OF wal_run.start, of "ex_rec 1" "snd (NextSeq (OpenWAL None))"] ex_rec_wf(1)
  by (simp add: ex_wal1_def NextSeq_def OpenWAL_def readAll_def max_seq_def) (simp add: ex_rec_def)

theorem wal_replay_witness:
  "Stream collect 0 ex_wal1 [] = (False, [ex_rec 1]) \<and> Stream collect 1 ex_wal1 [] = (False, [])"
  using wal_replay[OF ex_wal1_run, of 0] wal_replay[OF ex_wal1_run, of 1] by (simp add: ex_rec_def)

text \<open>
  A torn line takes the next record with it. The reader skips a line cut short by a crash; but the
  agent that restarts appends behind the cut, on the same line, so the first record of the new run is
  unreadable as well, although its \<^verbatim>\<open>Append\<close> succeeded.
\<close>
theorem torn_tail_swallows:
  assumes "\<forall>r\<in>set rs. wf_rec r" "length (marshal_rec r) + length (marshal_rec r') < maxLine"
  shows "readAll (Some (wal_text rs @ torn r)) = (rs, False) \<and>
    (\<exists>w. Append None r' (OpenWAL (Some (wal_text rs @ torn r))) = (True, w) \<and> readAll (w_file w) = (rs, False))"
proof -
  note t = torn_line[of r] torn_unreadable[of r]
  have "readAll (Some (wal_text rs @ torn r)) = (rs, False)"
    using t assms by (intro readAll_tail) auto
  moreover have "readAll (Some (wal_text rs @ (torn r @ marshal_rec r') @ [newline])) = (rs, False)"
    using t assms marshal_rec_line[of r'] by (intro readAll_tail) auto
  ultimately show ?thesis by (simp add: Append_def OpenWAL_def Let_def)
qed

theorem torn_tail_swallows_witness:
  "\<exists>w. Append None (ex_rec 2) (OpenWAL (Some (wal_text [ex_rec 1] @ torn (ex_rec 2)))) = (True, w) \<and> readAll (w_file w) = ([ex_rec 1], False)"
  using torn_tail_swallows[of "[ex_rec 1]" "ex_rec 2" "ex_rec 2"] ex_rec_wf by (simp add: maxLine_def)

text \<open>
  A failed flush of a rotation loses the log. \<^verbatim>\<open>Rotate\<close> ignores the result of \<^verbatim>\<open>Flush\<close>: on a full
  disk the empty temporary file replaces the log, the call reports success, and nothing is left to
  replay, records within the retention time included.
\<close>
theorem rotate_flush_loses:
  assumes "wal_run w rs" "\<exists>r\<in>set rs. rec_AtMs r < cutoff"
  shows "fst (Rotate (FlushErr 0) cutoff w) \<and> Stream collect after (snd (Rotate (FlushErr 0) cutoff w)) [] = (False, [])"
proof -
  have "w_file (snd (Rotate (FlushErr 0) cutoff w)) = Some (wal_text [])"
    using Rotate_flush_error[OF wal_run_inv[OF assms(1)] assms(2)] by (simp add: wal_text_def)
  then show ?thesis
    using Rotate_flush_error[OF wal_run_inv[OF assms(1)] assms(2)] Stream_text[of "snd (Rotate (FlushErr 0) cutoff w)" "[]"]
    by simp
qed

theorem rotate_flush_loses_witness: "Stream collect 0 (snd (Rotate (FlushErr 0) 2000 ex_wal1)) [] = (False, [])"
  using rotate_flush_loses[OF ex_wal1_run, of 2000 0] by (simp add: ex_rec_def)

end
