(* ===== verification/Receipt.thy ===== *)
theory Receipt
  imports Json
begin

text \<open>
  \<^verbatim>\<open>internal/receipt/receipt.go\<close>: the registration receipt an agent prints and the panel parses, with
  the four variants of base64 that \<^verbatim>\<open>Decode\<close> tries, and \<^verbatim>\<open>EqualFingerprint\<close> of
  \<^verbatim>\<open>internal/certutil\<close>, which decides whether a node presents the pinned certificate.
\<close>

section \<open>Base64\<close>

definition std_alphabet :: string where
  "std_alphabet = ''ABCDEFGHIJKLMNOPQRSTUVWXYZabcdefghijklmnopqrstuvwxyz0123456789+/''"

definition url_alphabet :: string where
  "url_alphabet = ''ABCDEFGHIJKLMNOPQRSTUVWXYZabcdefghijklmnopqrstuvwxyz0123456789-_''"

abbreviation val :: "char \<Rightarrow> nat" where "val c \<equiv> of_char c"

fun sextets :: "string \<Rightarrow> nat list" where
  "sextets [] = []"
| "sextets [a] = [val a div 4, val a mod 4 * 16]"
| "sextets [a, b] = [val a div 4, val a mod 4 * 16 + val b div 16, val b mod 16 * 4]"
| "sextets (a # b # c # s) =
     val a div 4 # (val a mod 4 * 16 + val b div 16) # (val b mod 16 * 4 + val c div 64) # (val c mod 64) # sextets s"

definition padding :: "string \<Rightarrow> string" where
  "padding s = (if length s mod 3 = 1 then ''=='' else if length s mod 3 = 2 then ''='' else [])"

text \<open>\<^verbatim>\<open>StdEncoding.EncodeToString\<close>.\<close>

definition encode64 :: "string \<Rightarrow> string" where
  "encode64 s = map ((!) std_alphabet) (sextets s) @ padding s"

fun bytes3 :: "nat \<Rightarrow> nat \<Rightarrow> nat \<Rightarrow> nat \<Rightarrow> string" where
  "bytes3 x y z w = [char_of (x * 4 + y div 16), char_of (y mod 16 * 16 + z div 4), char_of (z mod 4 * 64 + w)]"

text \<open>\<^verbatim>\<open>DecodeString\<close>: groups of four, the last one padded or cut short depending on the encoding.\<close>

fun decode64 :: "string \<Rightarrow> bool \<Rightarrow> string \<Rightarrow> string option" where
  "decode64 al padded [] = Some []"
| "decode64 al padded [a] = None"
| "decode64 al padded [a, b] =
     (case (IndexByte al a, IndexByte al b) of
        (Some x, Some y) \<Rightarrow> if padded then None else Some (take 1 (bytes3 x y 0 0))
      | _ \<Rightarrow> None)"
| "decode64 al padded [a, b, c] =
     (case (IndexByte al a, IndexByte al b, IndexByte al c) of
        (Some x, Some y, Some z) \<Rightarrow> if padded then None else Some (take 2 (bytes3 x y z 0))
      | _ \<Rightarrow> None)"
| "decode64 al padded (a # b # c # d # s) =
     (case (IndexByte al a, IndexByte al b) of
        (Some x, Some y) \<Rightarrow>
          (case (IndexByte al c, IndexByte al d) of
             (Some z, Some w) \<Rightarrow> map_option ((@) (bytes3 x y z w)) (decode64 al padded s)
           | (Some z, None) \<Rightarrow> if padded \<and> d = CHR ''='' \<and> s = [] then Some (take 2 (bytes3 x y z 0)) else None
           | (None, _) \<Rightarrow> if padded \<and> c = CHR ''='' \<and> d = CHR ''='' \<and> s = [] then Some (take 1 (bytes3 x y 0 0)) else None)
      | _ \<Rightarrow> None)"

section \<open>The receipt\<close>

record Receipt =
  rc_IP :: string
  rc_Port :: int
  rc_Token :: string
  rc_FP :: string
  rc_Ver :: string
  rc_FrpsPort :: int

definition receipt_json :: "Receipt \<Rightarrow> json" where
  "receipt_json r = JObj [(''ip'', JStr (rc_IP r)), (''port'', JNum (Itoa (rc_Port r))), (''token'', JStr (rc_Token r)),
     (''fp'', JStr (rc_FP r)), (''ver'', JStr (rc_Ver r)), (''frps_port'', JNum (Itoa (rc_FrpsPort r)))]"

definition Encode :: "Receipt \<Rightarrow> string" where
  "Encode r = encode64 (print_json (receipt_json r))"

definition zero_receipt :: Receipt where
  "zero_receipt = \<lparr>rc_IP = [], rc_Port = 0, rc_Token = [], rc_FP = [], rc_Ver = [], rc_FrpsPort = 0\<rparr>"

definition set_receipt :: "string \<Rightarrow> json \<Rightarrow> Receipt \<Rightarrow> Receipt option" where
  "set_receipt k v r =
     (if k = ''ip'' then map_option (\<lambda>x. r\<lparr>rc_IP := x\<rparr>) (dec_string v (rc_IP r))
      else if k = ''port'' then map_option (\<lambda>x. r\<lparr>rc_Port := x\<rparr>) (dec_int v (rc_Port r))
      else if k = ''token'' then map_option (\<lambda>x. r\<lparr>rc_Token := x\<rparr>) (dec_string v (rc_Token r))
      else if k = ''fp'' then map_option (\<lambda>x. r\<lparr>rc_FP := x\<rparr>) (dec_string v (rc_FP r))
      else if k = ''ver'' then map_option (\<lambda>x. r\<lparr>rc_Ver := x\<rparr>) (dec_string v (rc_Ver r))
      else if k = ''frps_port'' then map_option (\<lambda>x. r\<lparr>rc_FrpsPort := x\<rparr>) (dec_int v (rc_FrpsPort r))
      else Some r)"

datatype receipt_error = ReceiptEmpty | ReceiptBase64 | ReceiptJson | ReceiptFields

definition blank :: "char \<Rightarrow> bool" where
  "blank c \<longleftrightarrow> c \<in> {CHR '' '', CHR 0x09, CHR 0x0D, CHR 0x0A}"

text \<open>The loop over the encodings stops at the first that decodes.\<close>

fun try_encodings :: "(string \<times> bool) list \<Rightarrow> string \<Rightarrow> string option" where
  "try_encodings [] s = None"
| "try_encodings ((al, padded) # es) s = (case decode64 al padded s of Some raw \<Rightarrow> Some raw | None \<Rightarrow> try_encodings es s)"

definition Decode :: "string \<Rightarrow> receipt_error + Receipt" where
  "Decode s =
     (let cleaned = filter (\<lambda>c. \<not> blank c) (TrimSpace s)
      in if cleaned = [] then Inl ReceiptEmpty
         else case try_encodings [(std_alphabet, True), (std_alphabet, False), (url_alphabet, True), (url_alphabet, False)] cleaned of
                None \<Rightarrow> Inl ReceiptBase64
              | Some raw \<Rightarrow>
                  (case Unmarshal (\<lambda>v. dec_struct set_receipt v zero_receipt) raw of
                     None \<Rightarrow> Inl ReceiptJson
                   | Some r \<Rightarrow>
                       if rc_IP r = [] \<or> rc_Port r = 0 \<or> rc_Token r = [] \<or> rc_FP r = [] then Inl ReceiptFields else Inr r))"

section \<open>Fingerprints\<close>

definition norm_fp :: "string \<Rightarrow> string" where
  "norm_fp s = filter (\<lambda>c. c \<noteq> CHR '':'') (TrimPrefix (ToLower (TrimSpace s)) ''sha256:'')"

definition EqualFingerprint :: "string \<Rightarrow> string \<Rightarrow> bool" where
  "EqualFingerprint a b \<longleftrightarrow> norm_fp a \<noteq> [] \<and> norm_fp a = norm_fp b"

definition Fingerprint :: "(string \<Rightarrow> string) \<Rightarrow> string \<Rightarrow> string" where
  "Fingerprint sha256hex der = ''sha256:'' @ sha256hex der"

section \<open>Decoding what was encoded\<close>

lemma IndexByte_nth: "distinct al \<Longrightarrow> x < length al \<Longrightarrow> IndexByte al (al ! x) = Some x"
proof (induction al arbitrary: x)
  case (Cons a al)
  then show ?case by (cases x) (auto simp: in_set_conv_nth)
qed simp

lemma std_alphabet_props: "distinct std_alphabet" "length std_alphabet = 64" "CHR ''='' \<notin> set std_alphabet"
  by (simp_all add: std_alphabet_def)

lemma std_val: "x < 64 \<Longrightarrow> IndexByte std_alphabet (std_alphabet ! x) = Some x"
  by (rule IndexByte_nth) (simp_all add: std_alphabet_props)

lemma std_val_pad: "IndexByte std_alphabet CHR ''='' = None"
  using std_alphabet_props(3) by (simp add: IndexByte_None)

lemma byte_high:
  "val b div 16 div 16 = 0" "val b div 16 mod 16 = val b div 16" "val b div 64 div 4 = 0" "val b div 64 mod 4 = val b div 64"
  using nat_of_char_less_256[of b] by (simp_all add: div_mult2_eq [symmetric] less_mult_imp_div_less)

lemma sextet_bounds:
  "val a div 4 < 64" "val a mod 4 * 16 < 64" "val a mod 4 * 16 + val b div 16 < 64" "val b mod 16 * 4 < 64"
  "val b mod 16 * 4 + val c div 64 < 64" "val c mod 64 < 64"
  using nat_of_char_less_256[of a] nat_of_char_less_256[of b] nat_of_char_less_256[of c] by linarith+

lemma decode64_encode64: "decode64 std_alphabet True (encode64 s) = Some s"
  unfolding encode64_def
proof (induction s rule: sextets.induct)
  case (2 a)
  show ?case by (simp add: padding_def std_val std_val_pad sextet_bounds byte_high)
next
  case (3 a b)
  show ?case by (simp add: padding_def std_val std_val_pad sextet_bounds byte_high)
next
  case (4 a b c s)
  moreover have "padding (a # b # c # s) = padding s" by (simp add: padding_def)
  ultimately show ?case by (simp add: std_val sextet_bounds byte_high)
qed (simp add: padding_def)

definition wf_receipt :: "Receipt \<Rightarrow> bool" where
  "wf_receipt r \<longleftrightarrow> rc_IP r \<noteq> [] \<and> rc_Port r \<noteq> 0 \<and> rc_Token r \<noteq> [] \<and> rc_FP r \<noteq> [] \<and>
     - (2 ^ 63) \<le> rc_Port r \<and> rc_Port r < 2 ^ 63 \<and> - (2 ^ 63) \<le> rc_FrpsPort r \<and> rc_FrpsPort r < 2 ^ 63"

lemma ToLower_receipt_keys [simp]:
  "ToLower ''ip'' = ''ip''" "ToLower ''port'' = ''port''" "ToLower ''token'' = ''token''" "ToLower ''fp'' = ''fp''"
  "ToLower ''ver'' = ''ver''" "ToLower ''frps_port'' = ''frps_port''"
  by (simp_all add: ToLower_def lower_char_def)

lemma wf_receipt_json: "wf_json (receipt_json r)"
  by (simp add: receipt_json_def valid_number_Itoa)

lemma unmarshal_receipt:
  "wf_receipt r \<Longrightarrow> Unmarshal (\<lambda>v. dec_struct set_receipt v zero_receipt) (print_json (receipt_json r)) = Some r"
  by (simp add: Unmarshal_def parse_print wf_receipt_json)
    (simp add: receipt_json_def dec_struct_def set_receipt_def dec_int_Itoa wf_receipt_def zero_receipt_def)

lemma set_sextets: "x \<in> set (sextets s) \<Longrightarrow> x < 64"
  by (induction s rule: sextets.induct) (auto simp: sextet_bounds)

lemma set_encode64: "c \<in> set (encode64 s) \<Longrightarrow> c \<in> set std_alphabet \<or> c = CHR ''=''"
  using set_sextets[of _ s] std_alphabet_props(2) by (auto simp: encode64_def padding_def split: if_splits)

lemma alphabet_no_space: "c \<in> set std_alphabet \<or> c = CHR ''='' \<Longrightarrow> \<not> go_space c \<and> \<not> blank c"
  by (auto simp: std_alphabet_def go_space_def blank_def)

lemma filter_dropWhile: "(\<And>c. c \<in> set s \<Longrightarrow> P c \<Longrightarrow> \<not> Q c) \<Longrightarrow> filter Q (dropWhile P s) = filter Q s"
  by (induction s) auto

lemma filter_TrimSpace:
  assumes "\<And>c. c \<in> set s \<Longrightarrow> go_space c \<Longrightarrow> \<not> Q c"
  shows "filter Q (TrimSpace s) = filter Q s"
proof -
  have "filter Q (rev (dropWhile go_space t)) = filter Q (rev t)" if "set t \<subseteq> set s" for t
    using filter_dropWhile[of t go_space Q] assms that by (simp add: subset_iff flip: rev_filter)
  from this[of "rev (dropWhile go_space s)"] show ?thesis
    using filter_dropWhile[of s go_space Q] assms set_dropWhileD[of _ go_space s] by (auto simp: TrimSpace_def)
qed

lemma encode64_nonempty: "s \<noteq> [] \<Longrightarrow> encode64 s \<noteq> []"
  by (cases s rule: sextets.cases) (auto simp: encode64_def)

lemma Decode_blanks:
  assumes "wf_receipt r" "filter (\<lambda>c. \<not> blank c) s = Encode r"
  shows "Decode s = Inr r"
proof -
  have "\<not> go_space c" if "c \<in> set s" "\<not> blank c" for c
  proof -
    have "c \<in> set (Encode r)" using that by (simp flip: assms(2))
    then show ?thesis using set_encode64 alphabet_no_space by (simp add: Encode_def)
  qed
  then have "filter (\<lambda>c. \<not> blank c) (TrimSpace s) = Encode r" using filter_TrimSpace[of s "\<lambda>c. \<not> blank c"] assms(2) by auto
  moreover have "Encode r \<noteq> []" by (simp add: Encode_def encode64_nonempty receipt_json_def)
  ultimately show ?thesis
    using assms(1) by (simp add: Decode_def Encode_def decode64_encode64 unmarshal_receipt) (simp add: wf_receipt_def)
qed

section \<open>Properties\<close>

text \<open>
  Receipts survive copying. For every receipt with its required fields, the panel reads from the
  printed text, with blanks and line breaks inserted anywhere, exactly the receipt the agent encoded.
\<close>
theorem receipt_roundtrip:
  assumes "wf_receipt r" "filter (\<lambda>c. \<not> blank c) s = Encode r"
  shows "Decode s = Inr r"
  using assms by (rule Decode_blanks)

definition ex_receipt :: Receipt where
  "ex_receipt = \<lparr>rc_IP = ''1.2.3.4'', rc_Port = 8443, rc_Token = ''t'', rc_FP = ''aa'', rc_Ver = [], rc_FrpsPort = 7000\<rparr>"

theorem receipt_roundtrip_witness: "Decode ('' '' @ Encode ex_receipt @ [CHR 0x0A]) = Inr ex_receipt"
proof (rule receipt_roundtrip)
  show "wf_receipt ex_receipt" by (simp add: wf_receipt_def ex_receipt_def)
  have "\<not> blank c" if "c \<in> set (Encode ex_receipt)" for c
    using that set_encode64 alphabet_no_space by (auto simp: Encode_def)
  then show "filter (\<lambda>c. \<not> blank c) ('' '' @ Encode ex_receipt @ [CHR 0x0A]) = Encode ex_receipt"
    by (simp add: blank_def[of "CHR '' ''"] blank_def[of "CHR 0x0A"])
qed

end
