(* ===== verification/Agentcfg.thy ===== *)
theory Agentcfg
  imports Frpcfg Portutil Protocol Receipt
begin

text \<open>
  The agent's configuration and its control of frps: \<^verbatim>\<open>internal/agent/config.go\<close>, \<^verbatim>\<open>geninit.go\<close>
  (creation and upgrade of the configuration, the frps configuration file, the receipt), \<^verbatim>\<open>frps.go\<close>
  and \<^verbatim>\<open>frpsapi.go\<close>. The agent's directory is a record of its files; \<^verbatim>\<open>config.json\<close> is kept as the
  value it encodes. Random bytes, the probed address, certificate generation, fingerprints and the
  outcomes of system calls are arguments.
\<close>

section \<open>Configuration\<close>

record Config =
  cf_Version :: string
  cf_BindAddr :: string
  cf_AgentToken :: string
  cf_FrpsToken :: string
  cf_FrpsBindPort :: int
  cf_FrpsAdminAddr :: string
  cf_FrpsAdminPort :: int
  cf_FrpsAdminUser :: string
  cf_FrpsAdminPass :: string
  cf_CertFile :: string
  cf_KeyFile :: string
  cf_Fingerprint :: string
  cf_PublicIP :: string
  cf_DataDir :: string

definition DefaultDataDir :: string where "DefaultDataDir = ''/opt/frp-agent''"

text \<open>\<^verbatim>\<open>filepath.Join\<close> of a clean directory and a name.\<close>

definition Join :: "string \<Rightarrow> string \<Rightarrow> string" where
  "Join dir name = (if dir = [] then name else dir @ CHR ''/'' # name)"

definition LogsDir :: "Config \<Rightarrow> string" where "LogsDir c = Join (cf_DataDir c) ''logs''"
definition TLSDir :: "Config \<Rightarrow> string" where "TLSDir c = Join (cf_DataDir c) ''tls''"
definition FrpsBin :: "Config \<Rightarrow> string" where "FrpsBin c = Join (cf_DataDir c) ''frps''"

record agent_disk =
  dk_config :: "Config option"
  dk_frps_toml :: "string option"
  dk_cert :: "string option"
  dk_key :: "string option"

datatype agent_error = ConfigMissing | MkdirErr | CertGenErr | CertWriteErr | KeyWriteErr | FingerprintErr | TomlWriteErr | SaveErr | SystemctlErr

definition Load :: "string \<Rightarrow> agent_disk \<Rightarrow> agent_error + Config" where
  "Load dataDir d =
     (case dk_config d of
        None \<Rightarrow> Inl ConfigMissing
      | Some c \<Rightarrow> Inr (if cf_DataDir c = [] then c\<lparr>cf_DataDir := dataDir\<rparr> else c))"

text \<open>Written to a temporary file and renamed: on failure the old file stays.\<close>

definition Save :: "bool \<Rightarrow> Config \<Rightarrow> agent_disk \<Rightarrow> agent_error option \<times> agent_disk" where
  "Save ok c d = (if ok then (None, d\<lparr>dk_config := Some c\<rparr>) else (Some SaveErr, d))"

section \<open>The frps configuration file\<close>

definition frps_reserved :: "Config \<Rightarrow> port_range list" where
  "frps_reserved c = [(7000, 7000), (8443, 8443), (7400, 7500), (cf_FrpsAdminPort c, cf_FrpsAdminPort c)]"

definition frps_params :: "Config \<Rightarrow> FrpsParams" where
  "frps_params c = \<lparr>fs_BindPort = cf_FrpsBindPort c, fs_Token = cf_FrpsToken c, fs_TLSForce = True, fs_AdminAddr = cf_FrpsAdminAddr c,
     fs_AdminPort = cf_FrpsAdminPort c, fs_AdminUser = cf_FrpsAdminUser c, fs_AdminPassword = cf_FrpsAdminPass c,
     fs_LogFile = Join (LogsDir c) ''frps.log'', fs_LogLevel = [], fs_AllowLo = 1024, fs_AllowHi = 65535, fs_Reserved = frps_reserved c\<rparr>"

definition WriteFrpsTOML :: "bool \<Rightarrow> Config \<Rightarrow> agent_disk \<Rightarrow> agent_error option \<times> agent_disk" where
  "WriteFrpsTOML ok c d = (if ok then (None, d\<lparr>dk_frps_toml := Some (RenderFrps (frps_params c))\<rparr>) else (Some TomlWriteErr, d))"

section \<open>Creation and upgrade\<close>

text \<open>The loop of \<^verbatim>\<open>pickAdminPort\<close> returns in its first round, whatever the two random bytes are.\<close>

definition pickAdminPort :: "nat \<Rightarrow> nat \<Rightarrow> int" where
  "pickAdminPort b0 b1 = 20000 + int ((b0 * 256 + b1) mod 9000)"

record init_env =
  ie_agentToken :: string
  ie_frpsToken :: string
  ie_adminPass :: string
  ie_portBytes :: "nat \<times> nat"
  ie_probeIP :: string
  ie_hostname :: string
  ie_mkdir :: bool
  ie_generate :: "string list \<Rightarrow> (string \<times> string) option"
  ie_writeCert :: bool
  ie_writeKey :: bool
  ie_fingerprint :: "string \<Rightarrow> string option"
  ie_writeToml :: bool
  ie_save :: bool

record InitOptions =
  io_DataDir :: string
  io_BindAddr :: string
  io_ManualIP :: string

definition fresh_config :: "string \<Rightarrow> init_env \<Rightarrow> InitOptions \<Rightarrow> Config" where
  "fresh_config ver e opt = \<lparr>cf_Version = ver, cf_BindAddr = io_BindAddr opt, cf_AgentToken = ie_agentToken e, cf_FrpsToken = ie_frpsToken e,
     cf_FrpsBindPort = 7000, cf_FrpsAdminAddr = ''127.0.0.1'', cf_FrpsAdminPort = pickAdminPort (fst (ie_portBytes e)) (snd (ie_portBytes e)),
     cf_FrpsAdminUser = ''admin'', cf_FrpsAdminPass = ie_adminPass e, cf_CertFile = [], cf_KeyFile = [], cf_Fingerprint = [],
     cf_PublicIP = (if io_ManualIP opt = [] then ie_probeIP e else io_ManualIP opt), cf_DataDir = io_DataDir opt\<rparr>"

definition init_defaults :: "InitOptions \<Rightarrow> InitOptions" where
  "init_defaults opt =
     (let opt = (if io_DataDir opt = [] then opt\<lparr>io_DataDir := DefaultDataDir\<rparr> else opt)
      in if io_BindAddr opt = [] then opt\<lparr>io_BindAddr := '':8443''\<rparr> else opt)"

definition base_config :: "string \<Rightarrow> init_env \<Rightarrow> InitOptions \<Rightarrow> agent_disk \<Rightarrow> Config" where
  "base_config ver e opt d =
     (case Load (io_DataDir opt) d of
        Inr c \<Rightarrow> (let c = c\<lparr>cf_Version := ver\<rparr> in if io_ManualIP opt \<noteq> [] then c\<lparr>cf_PublicIP := io_ManualIP opt\<rparr> else c)
      | Inl _ \<Rightarrow> fresh_config ver e opt)"

text \<open>The certificate is generated once; a missing file of the pair replaces both.\<close>

definition ensure_cert :: "init_env \<Rightarrow> Config \<Rightarrow> agent_disk \<Rightarrow> agent_error option \<times> agent_disk" where
  "ensure_cert e c d =
     (if dk_cert d \<noteq> None \<and> dk_key d \<noteq> None then (None, d)
      else case ie_generate e ([''127.0.0.1''] @ (if cf_PublicIP c \<noteq> [] then [cf_PublicIP c] else []) @
             (if ie_hostname e \<noteq> [] then [ie_hostname e] else [])) of
             None \<Rightarrow> (Some CertGenErr, d)
           | Some (cert, key) \<Rightarrow>
               if \<not> ie_writeCert e then (Some CertWriteErr, d)
               else let d = d\<lparr>dk_cert := Some cert\<rparr>
                    in if \<not> ie_writeKey e then (Some KeyWriteErr, d) else (None, d\<lparr>dk_key := Some key\<rparr>))"

definition fingerprintOfFile :: "init_env \<Rightarrow> agent_disk \<Rightarrow> string option" where
  "fingerprintOfFile e d = (case dk_cert d of None \<Rightarrow> None | Some cert \<Rightarrow> ie_fingerprint e cert)"

definition Init :: "string \<Rightarrow> init_env \<Rightarrow> InitOptions \<Rightarrow> agent_disk \<Rightarrow> (agent_error + Config) \<times> agent_disk" where
  "Init ver e opt0 d =
     (let opt = init_defaults opt0; c = base_config ver e opt d
      in if \<not> ie_mkdir e then (Inl MkdirErr, d)
         else
           (let c = c\<lparr>cf_CertFile := Join (TLSDir c) ''agent.crt'', cf_KeyFile := Join (TLSDir c) ''agent.key''\<rparr>
            in case ensure_cert e c d of
                 (Some err, d) \<Rightarrow> (Inl err, d)
               | (None, d) \<Rightarrow>
                   (case fingerprintOfFile e d of
                      None \<Rightarrow> (Inl FingerprintErr, d)
                    | Some fp \<Rightarrow>
                        (let c = c\<lparr>cf_Fingerprint := fp\<rparr>
                         in case WriteFrpsTOML (ie_writeToml e) c d of
                              (Some err, d) \<Rightarrow> (Inl err, d)
                            | (None, d) \<Rightarrow> (case Save (ie_save e) c d of (Some err, d) \<Rightarrow> (Inl err, d) | (None, d) \<Rightarrow> (Inr c, d))))))"

text \<open>\<^verbatim>\<open>fmt.Sscanf(s, ":%d", &port)\<close>; the port keeps its value when nothing can be read.\<close>

definition scan_colon_port :: "string \<Rightarrow> int \<Rightarrow> int" where
  "scan_colon_port s old =
     (case s of
        [] \<Rightarrow> old
      | c # t \<Rightarrow>
          if c \<noteq> CHR '':'' then old
          else let t = dropWhile (\<lambda>c. c = CHR '' '' \<or> c = CHR 0x09) t;
                   sgn = (if t \<noteq> [] \<and> hd t \<in> {CHR ''+'', CHR ''-''} then [hd t] else []);
                   ds = takeWhile (\<lambda>c. case digit_val c of None \<Rightarrow> False | Some d \<Rightarrow> d < 10) (drop (length sgn) t);
                   (n, ok) = ParseInt (sgn @ ds) 10 64
               in if ok then n else old)"

definition receipt_port :: "string \<Rightarrow> int" where
  "receipt_port bind =
     (if HasPrefix bind '':'' then scan_colon_port bind 8443
      else case LastIndexByte bind CHR '':'' of None \<Rightarrow> 8443 | Some i \<Rightarrow> scan_colon_port (drop i bind) 8443)"

definition agent_receipt :: "string \<Rightarrow> Config \<Rightarrow> Receipt" where
  "agent_receipt ver c = \<lparr>rc_IP = cf_PublicIP c, rc_Port = receipt_port (cf_BindAddr c), rc_Token = cf_AgentToken c, rc_FP = cf_Fingerprint c,
     rc_Ver = ver, rc_FrpsPort = cf_FrpsBindPort c\<rparr>"

definition BuildReceipt :: "string \<Rightarrow> Config \<Rightarrow> string" where
  "BuildReceipt ver c = Encode (agent_receipt ver c)"

section \<open>Control of frps\<close>

record frps_io =
  fi_save :: bool
  fi_toml :: bool
  fi_restart :: bool

definition frps_Restart :: "frps_io \<Rightarrow> Config \<Rightarrow> agent_disk \<Rightarrow> agent_error option \<times> agent_disk" where
  "frps_Restart io c d =
     (case WriteFrpsTOML (fi_toml io) c d of
        (Some err, d) \<Rightarrow> (Some err, d)
      | (None, d) \<Rightarrow> (if fi_restart io then None else Some SystemctlErr, d))"

definition RotateToken :: "frps_io \<Rightarrow> string \<Rightarrow> Config \<Rightarrow> agent_disk \<Rightarrow> agent_error option \<times> Config \<times> agent_disk" where
  "RotateToken io newToken c d =
     (if newToken \<noteq> []
      then let c = c\<lparr>cf_FrpsToken := newToken\<rparr>
           in case Save (fi_save io) c d of
                (Some err, d) \<Rightarrow> (Some err, c, d)
              | (None, d) \<Rightarrow> (case frps_Restart io c d of (err, d) \<Rightarrow> (err, c, d))
      else (case frps_Restart io c d of (err, d) \<Rightarrow> (err, c, d)))"

text \<open>\<^verbatim>\<open>EnsureUp\<close>: whether \<^verbatim>\<open>systemctl start\<close> is issued.\<close>

definition EnsureUp :: "string \<Rightarrow> bool" where
  "EnsureUp is_active_out \<longleftrightarrow> TrimSpace is_active_out \<noteq> ''active''"

record proxy_entry =
  pe_Name :: string
  pe_Conf :: "int option"
  pe_TodayTrafficIn :: int64
  pe_TodayTrafficOut :: int64
  pe_Status :: string

definition proxy_info :: "string \<Rightarrow> proxy_entry \<Rightarrow> ProxyInfo" where
  "proxy_info proto p = \<lparr>pi_Name = pe_Name p, pi_Proto = proto, pi_RemotePort = (case pe_Conf p of None \<Rightarrow> 0 | Some rp \<Rightarrow> rp),
     pi_Status = pe_Status p, pi_TodayIn = pe_TodayTrafficIn p, pi_TodayOut = pe_TodayTrafficOut p\<rparr>"

text \<open>The admin API as a function of the protocol; the list so far is returned with an error.\<close>

definition Proxies :: "(string \<Rightarrow> proxy_entry list option) \<Rightarrow> ProxyInfo list \<times> bool" where
  "Proxies api =
     (case api ''tcp'' of
        None \<Rightarrow> ([], False)
      | Some ts \<Rightarrow>
          (case api ''udp'' of
             None \<Rightarrow> (map (proxy_info ''tcp'') ts, False)
           | Some us \<Rightarrow> (map (proxy_info ''tcp'') ts @ map (proxy_info ''udp'') us, True)))"

section \<open>Lemmas\<close>

lemma pickAdminPort_range: "20000 \<le> pickAdminPort b0 b1 \<and> pickAdminPort b0 b1 \<le> 28999"
proof -
  have "(b0 * 256 + b1) mod 9000 < 9000" by simp
  then show ?thesis unfolding pickAdminPort_def by linarith
qed

lemma frps_ports:
  "in_ranges p (AllowedRanges 1024 65535 (frps_reserved c)) \<longleftrightarrow> ValidateRemotePort p = None \<and> p \<noteq> cf_FrpsAdminPort c"
  by (auto simp: AllowedRanges_exact ValidateRemotePort_ok_iff frps_reserved_def excluded_def)

definition keeps_identity :: "Config \<Rightarrow> Config \<Rightarrow> bool" where
  "keeps_identity c c' \<longleftrightarrow> cf_AgentToken c' = cf_AgentToken c \<and> cf_FrpsToken c' = cf_FrpsToken c \<and> cf_FrpsBindPort c' = cf_FrpsBindPort c \<and>
     cf_FrpsAdminPort c' = cf_FrpsAdminPort c \<and> cf_FrpsAdminPass c' = cf_FrpsAdminPass c \<and> cf_BindAddr c' = cf_BindAddr c \<and> cf_DataDir c' = cf_DataDir c"

lemma Init_disk:
  assumes "Init ver e opt d = (Inr c, d')"
  shows "dk_config d' = Some c \<and> dk_frps_toml d' = Some (RenderFrps (frps_params c)) \<and> dk_cert d' \<noteq> None \<and> dk_key d' \<noteq> None \<and>
    (dk_cert d \<noteq> None \<and> dk_key d \<noteq> None \<longrightarrow> dk_cert d' = dk_cert d \<and> dk_key d' = dk_key d) \<and>
    (case dk_cert d' of None \<Rightarrow> False | Some cert \<Rightarrow> ie_fingerprint e cert = Some (cf_Fingerprint c))"
  using assms
  by (auto simp: Init_def Let_def Save_def WriteFrpsTOML_def ensure_cert_def fingerprintOfFile_def
      split: if_splits option.splits prod.splits)

lemma Init_config:
  assumes "Init ver e opt d = (Inr c, d')" "dk_config d = Some c0"
  shows "keeps_identity (if cf_DataDir c0 = [] then c0\<lparr>cf_DataDir := io_DataDir (init_defaults opt)\<rparr> else c0) c \<and>
    cf_PublicIP c = (if io_ManualIP opt \<noteq> [] then io_ManualIP opt else cf_PublicIP c0)"
proof -
  have "io_ManualIP (init_defaults opt) = io_ManualIP opt" by (simp add: init_defaults_def Let_def)
  then show ?thesis using assms
    by (auto simp: Init_def Let_def Save_def WriteFrpsTOML_def base_config_def Load_def keeps_identity_def
        split: if_splits option.splits prod.splits)
qed

section \<open>Properties\<close>

text \<open>
  C33: the ports the panel accepts are the ports the node's frps opens. For every configuration of an
  agent, the port ranges it writes into the frps configuration contain a port if and only if the
  panel's policy accepts it, with the frps admin port of the node as the only exception.
\<close>
theorem policy_matches_frps:
  "in_ranges p (AllowedRanges (fs_AllowLo (frps_params c)) (fs_AllowHi (frps_params c)) (fs_Reserved (frps_params c))) \<longleftrightarrow>
   ValidateRemotePort p = None \<and> p \<noteq> cf_FrpsAdminPort c"
  by (simp add: frps_params_def frps_ports)

text \<open>
  C34: an upgrade keeps the node's identity. Running the initialisation again over an installed agent,
  with whatever random bytes, keeps both tokens, the ports, the certificate pair and its fingerprint,
  and the address unless a new one is given, so the panel's registration stays valid.
\<close>
theorem upgrade_keeps_identity:
  assumes "Init ver e opt d = (Inr c, d')" "Init ver' e' opt' d' = (Inr c', d'')"
    and "ie_fingerprint e' = ie_fingerprint e" "io_ManualIP opt' = []" "cf_DataDir c \<noteq> []"
  shows "keeps_identity c c' \<and> cf_PublicIP c' = cf_PublicIP c \<and> cf_Fingerprint c' = cf_Fingerprint c \<and>
    dk_cert d'' = dk_cert d' \<and> dk_key d'' = dk_key d'"
proof -
  note a = Init_disk[OF assms(1)] and b = Init_disk[OF assms(2)]
  have "cf_Fingerprint c' = cf_Fingerprint c" using a b assms(3) by (auto split: option.splits)
  moreover have "keeps_identity c c' \<and> cf_PublicIP c' = cf_PublicIP c"
    using Init_config[OF assms(2), of c] a assms(4,5) by auto
  ultimately show ?thesis using a b by auto
qed

definition ex_env :: "string \<Rightarrow> init_env" where
  "ex_env s = \<lparr>ie_agentToken = s, ie_frpsToken = s, ie_adminPass = s, ie_portBytes = (1, 2), ie_probeIP = ''1.2.3.4'', ie_hostname = [], ie_mkdir = True,
     ie_generate = (\<lambda>hosts. Some (s, s)), ie_writeCert = True, ie_writeKey = True, ie_fingerprint = (\<lambda>cert. Some cert), ie_writeToml = True, ie_save = True\<rparr>"

definition ex_opt :: InitOptions where "ex_opt = \<lparr>io_DataDir = [], io_BindAddr = [], io_ManualIP = []\<rparr>"

definition ex_disk :: agent_disk where "ex_disk = \<lparr>dk_config = None, dk_frps_toml = None, dk_cert = None, dk_key = None\<rparr>"

text \<open>An installation whose steps succeed returns a configuration.\<close>

lemma Init_total:
  "\<exists>c d'. Init ver (ex_env s) ex_opt d = (Inr c, d') \<and> (dk_config d = None \<longrightarrow> cf_DataDir c = DefaultDataDir \<and> cf_AgentToken c = s)"
  by (auto simp: Init_def Let_def Save_def WriteFrpsTOML_def ensure_cert_def fingerprintOfFile_def base_config_def Load_def ex_env_def
      ex_opt_def init_defaults_def fresh_config_def split: option.splits)

theorem upgrade_keeps_identity_witness:
  "\<exists>c d' c' d''. Init ''1'' (ex_env ''a'') ex_opt ex_disk = (Inr c, d') \<and> Init ''2'' (ex_env ''b'') ex_opt d' = (Inr c', d'') \<and> cf_AgentToken c' = ''a''"
proof -
  obtain c d' where i: "Init ''1'' (ex_env ''a'') ex_opt ex_disk = (Inr c, d')" "cf_DataDir c = DefaultDataDir" "cf_AgentToken c = ''a''"
    using Init_total[of "''1''" "''a''" ex_disk] by (auto simp: ex_disk_def)
  obtain c' d'' where j: "Init ''2'' (ex_env ''b'') ex_opt d' = (Inr c', d'')" using Init_total[of "''2''" "''b''" d'] by auto
  have "keeps_identity c c'" using upgrade_keeps_identity[OF i(1) j] i(2) by (simp add: ex_env_def ex_opt_def DefaultDataDir_def)
  with i j show ?thesis by (auto simp: keeps_identity_def)
qed

end
