(* ===== verification/Firewall.thy ===== *)
theory Firewall
  imports Protocol
begin

text \<open>
  \<^verbatim>\<open>internal/agent/firewall.go\<close> and \<^verbatim>\<open>nftlimit.go\<close>: the ufw rules and the nftables script the agent
  computes. The commands \<^verbatim>\<open>ufw\<close> and \<^verbatim>\<open>nft\<close> are outside the program; their output and which of them
  succeed are arguments (\<open>host_fw\<close>), and the commands issued are part of the result.
\<close>

section \<open>Rules in the output of ufw\<close>

definition ufwComment :: string where "ufwComment = ''frpanel-agent''"

definition ufwAvailable :: "string \<times> bool \<Rightarrow> bool" where
  "ufwAvailable status = (case status of (out, ok) \<Rightarrow> ok \<and> Contains (TrimSpace out) ''Status: active'')"

definition ufwRuleSpec :: "int \<Rightarrow> string \<Rightarrow> string" where
  "ufwRuleSpec port proto = Itoa port @ CHR ''/'' # (if HasPrefix (ToLower proto) ''udp'' then ''udp'' else ''tcp'')"

definition re_space :: "char \<Rightarrow> bool" where
  "re_space c \<longleftrightarrow> c \<in> {CHR '' '', CHR 0x09, CHR 0x0A, CHR 0x0C, CHR 0x0D}"

definition re_digit :: "char \<Rightarrow> bool" where
  "re_digit c \<longleftrightarrow> (case digit_val c of None \<Rightarrow> False | Some d \<Rightarrow> d < 10)"

text \<open>The rule column of a line: bracket, blanks, digits, bracket, blanks, then the captured word.\<close>

definition ufwRuleLine :: "string \<Rightarrow> string option" where
  "ufwRuleLine l =
     (case l of
        [] \<Rightarrow> None
      | c # t \<Rightarrow>
          if c \<noteq> CHR ''['' then None
          else let t = dropWhile re_space t; ds = takeWhile re_digit t; r = dropWhile re_digit t
               in if ds = [] \<or> r = [] \<or> hd r \<noteq> CHR '']'' then None
                  else let w = tl r; v = dropWhile re_space w; m = takeWhile (\<lambda>c. \<not> re_space c) v
                       in if w = v \<or> m = [] then None else Some m)"

definition managed_line :: "string \<Rightarrow> (string, bool) gomap \<Rightarrow> (string, bool) gomap" where
  "managed_line l specs =
     (if \<not> Contains l ufwComment then specs
      else case ufwRuleLine l of None \<Rightarrow> specs | Some m \<Rightarrow> AList.update m True specs)"

definition parseManagedSpecs :: "string \<Rightarrow> (string, bool) gomap" where
  "parseManagedSpecs out = fold managed_line (Split CHR 0x0A out) []"

definition sortedKeys :: "(string, bool) gomap \<Rightarrow> string list" where
  "sortedKeys m = sort_Strings (map fst m)"

section \<open>Reconciliation\<close>

datatype ufw_cmd = UfwAllow string | UfwDelete string

datatype fw_error = UfwStatusErr | UfwCmdErr ufw_cmd

datatype rl_error = RlUfw fw_error | RlNft | RlBoth fw_error

datatype fw_cmd = NftDeleteTable | Ufw ufw_cmd | NftLoad string

record host_fw =
  fw_status :: "string \<times> bool"
  fw_numbered :: "string \<times> bool"
  fw_ok :: "ufw_cmd \<Rightarrow> bool"
  fw_nft :: "string \<Rightarrow> bool"

definition ufwManagedSpecs :: "host_fw \<Rightarrow> fw_error + (string, bool) gomap" where
  "ufwManagedSpecs h = (case fw_numbered h of (out, ok) \<Rightarrow> if ok then Inr (parseManagedSpecs (TrimSpace out)) else Inl UfwStatusErr)"

text \<open>One command; the loops go on after a failure and keep the first error.\<close>

definition ufw_run :: "host_fw \<Rightarrow> ufw_cmd \<Rightarrow> ufw_cmd list \<times> fw_error option \<Rightarrow> ufw_cmd list \<times> fw_error option" where
  "ufw_run h c acc =
     (case acc of (cmds, first) \<Rightarrow> (cmds @ [c], if fw_ok h c \<or> first \<noteq> None then first else Some (UfwCmdErr c)))"

definition ufwRemoveManagedRules :: "host_fw \<Rightarrow> ufw_cmd list \<times> fw_error option" where
  "ufwRemoveManagedRules h =
     (case ufwManagedSpecs h of
        Inl e \<Rightarrow> ([], Some e)
      | Inr specs \<Rightarrow> fold (\<lambda>spec. ufw_run h (UfwDelete spec)) (sortedKeys specs) ([], None))"

definition want_specs :: "PortSpec list \<Rightarrow> (string, bool) gomap" where
  "want_specs ports = fold (\<lambda>p. AList.update (ufwRuleSpec (ps_Port p) (ps_Proto p)) True) ports []"

definition ufwSync :: "host_fw \<Rightarrow> PortSpec list \<Rightarrow> ufw_cmd list \<times> fw_error option" where
  "ufwSync h ports =
     (if \<not> ufwAvailable (fw_status h) then ([], None)
      else case ufwManagedSpecs h of
             Inl e \<Rightarrow> ([], Some e)
           | Inr present \<Rightarrow>
               (let want = want_specs ports;
                    acc = fold (\<lambda>spec acc. if mget False present spec then acc else ufw_run h (UfwAllow spec) acc) (sortedKeys want) ([], None)
                in fold (\<lambda>spec acc. if mget False want spec then acc else ufw_run h (UfwDelete spec) acc) (sortedKeys present) acc))"

section \<open>The nftables script\<close>

definition nftTable :: string where "nftTable = ''frpanel''"

definition newl :: string where "newl = [CHR 0x0A]"

definition nft_rule :: "int \<Rightarrow> PortSpec \<Rightarrow> string" where
  "nft_rule rate p =
     (if HasPrefix (ToLower (ps_Proto p)) ''udp''
      then ''    udp dport '' @ Itoa (ps_Port p) @ '' limit rate over '' @ Itoa rate @ ''/second burst '' @ Itoa rate @ '' packets counter drop'' @ newl
      else ''    tcp dport '' @ Itoa (ps_Port p) @ '' ct state new limit rate over '' @ Itoa rate @ ''/second burst '' @ Itoa rate @
             '' packets counter drop'' @ newl)"

definition nft_script :: "SetRateLimit \<Rightarrow> string" where
  "nft_script rl = ''table inet '' @ nftTable @ '' {'' @ newl @ ''  chain input {'' @ newl @
     ''    type filter hook input priority -10; policy accept;'' @ newl @
     concat (map (nft_rule (rl_Rate rl)) (rl_Ports rl)) @ ''  }'' @ newl @ ''}'' @ newl"

definition ApplyRateLimit :: "host_fw \<Rightarrow> SetRateLimit \<Rightarrow> fw_cmd list \<times> int \<times> rl_error option" where
  "ApplyRateLimit h rl =
     (let (cmds, ufwErr) = ufwSync h (rl_Ports rl); issued = NftDeleteTable # map Ufw cmds
      in if rl_Rate rl \<le> 0 \<or> rl_Ports rl = [] then (issued, 0, map_option RlUfw ufwErr)
         else if \<not> fw_nft h (nft_script rl)
         then (issued @ [NftLoad (nft_script rl)], 0, Some (case ufwErr of None \<Rightarrow> RlNft | Some e \<Rightarrow> RlBoth e))
         else (issued @ [NftLoad (nft_script rl)], int (length (rl_Ports rl)), map_option RlUfw ufwErr))"

definition RemoveRateLimit :: "host_fw \<Rightarrow> fw_cmd list" where
  "RemoveRateLimit h = NftDeleteTable # map Ufw (fst (ufwRemoveManagedRules h))"

section \<open>Lemmas\<close>

text \<open>What ufw documents of the two commands: the set of rules they leave.\<close>

fun ufw_effect :: "ufw_cmd \<Rightarrow> string set \<Rightarrow> string set" where
  "ufw_effect (UfwAllow s) R = insert s R"
| "ufw_effect (UfwDelete s) R = R - {s}"

definition managed :: "host_fw \<Rightarrow> string set" where
  "managed h = set (map fst (parseManagedSpecs (TrimSpace (fst (fw_numbered h)))))"

definition wanted :: "PortSpec list \<Rightarrow> string set" where
  "wanted ports = (\<lambda>p. ufwRuleSpec (ps_Port p) (ps_Proto p)) ` set ports"

definition all_true :: "(string, bool) gomap \<Rightarrow> bool" where
  "all_true m \<longleftrightarrow> (\<forall>(k, v)\<in>set m. v) \<and> wf_gomap m"

lemma all_true_update: "all_true m \<Longrightarrow> all_true (AList.update k True m)"
  using set_update_subset[of k True m] by (auto simp: all_true_def distinct_update)

lemma mget_all_true: "all_true m \<Longrightarrow> mget False m k \<longleftrightarrow> k \<in> set (map fst m)"
proof (cases "map_of m k")
  case None
  moreover from None have "k \<notin> set (map fst m)" by (simp add: map_of_eq_None_iff)
  ultimately show ?thesis by (simp add: mget_def)
next
  case (Some v)
  moreover assume "all_true m"
  ultimately have "v" "k \<in> fst ` set m" using map_of_SomeD[OF Some] by (auto simp: all_true_def image_iff intro: bexI[of _ "(k, v)"])
  with Some show ?thesis by (simp add: mget_def)
qed

lemma all_true_parse: "all_true (parseManagedSpecs out)"
proof -
  have "all_true m \<Longrightarrow> all_true (fold managed_line ls m)" for ls m
    by (induction ls arbitrary: m) (auto simp: managed_line_def all_true_update split: option.splits)
  from this[of "[]"] show ?thesis by (simp add: parseManagedSpecs_def all_true_def)
qed

lemma want_specs_ok: "all_true (want_specs ports)" "set (map fst (want_specs ports)) = wanted ports"
proof -
  have "all_true m \<Longrightarrow> all_true (fold (\<lambda>p. AList.update (ufwRuleSpec (ps_Port p) (ps_Proto p)) True) ports m)" for m
    by (induction ports arbitrary: m) (auto simp: all_true_update)
  from this[of "[]"] show "all_true (want_specs ports)" by (simp add: want_specs_def all_true_def)
  have "set (map fst (fold (\<lambda>p. AList.update (ufwRuleSpec (ps_Port p) (ps_Proto p)) True) ports m)) =
      set (map fst m) \<union> wanted ports" for m :: "(string, bool) gomap"
    by (induction ports arbitrary: m) (auto simp: wanted_def dom_update)
  from this[of "[]"] show "set (map fst (want_specs ports)) = wanted ports" by (simp add: want_specs_def)
qed

lemma set_sortedKeys [simp]: "set (sortedKeys m) = set (map fst m)"
  by (simp add: sortedKeys_def sort_Strings_def)

lemma fold_ufw_run:
  "fold (\<lambda>spec acc. if P spec then acc else ufw_run h (f spec) acc) specs (cmds, e) =
     (cmds @ map f (filter (\<lambda>s. \<not> P s) specs),
      if e = None then map_option UfwCmdErr (find (\<lambda>c. \<not> fw_ok h c) (map f (filter (\<lambda>s. \<not> P s) specs))) else e)"
  by (induction specs arbitrary: cmds e) (auto simp: ufw_run_def split: option.splits)

definition sync_cmds :: "host_fw \<Rightarrow> PortSpec list \<Rightarrow> ufw_cmd list" where
  "sync_cmds h ports =
     map UfwAllow (filter (\<lambda>s. s \<notin> managed h) (sortedKeys (want_specs ports))) @
     map UfwDelete (filter (\<lambda>s. s \<notin> wanted ports) (sortedKeys (parseManagedSpecs (TrimSpace (fst (fw_numbered h))))))"

lemma ufwSync_eq:
  assumes "ufwAvailable (fw_status h)" "snd (fw_numbered h)"
  shows "ufwSync h ports = (sync_cmds h ports, map_option UfwCmdErr (find (\<lambda>c. \<not> fw_ok h c) (sync_cmds h ports)))"
proof -
  obtain out where o: "fw_numbered h = (out, True)" using assms(2) by (cases "fw_numbered h") auto
  have m: "mget False (parseManagedSpecs (TrimSpace out)) s \<longleftrightarrow> s \<in> managed h" "mget False (want_specs ports) s \<longleftrightarrow> s \<in> wanted ports" for s
    using mget_all_true[OF all_true_parse] mget_all_true[OF want_specs_ok(1)] want_specs_ok(2)[of ports] by (simp_all add: managed_def o)
  have fa: "find P (xs @ ys) = (case find P xs of None \<Rightarrow> find P ys | Some x \<Rightarrow> Some x)" for P and xs ys :: "ufw_cmd list"
    by (induction xs) auto
  show ?thesis using assms
    by (simp add: ufwSync_def ufwManagedSpecs_def Let_def fold_ufw_run m sync_cmds_def fa o split: option.split)
qed

lemma effect_allows: "fold ufw_effect (map UfwAllow ss) R = R \<union> set ss"
  by (induction ss arbitrary: R) auto

lemma effect_deletes: "fold ufw_effect (map UfwDelete ss) R = R - set ss"
  by (induction ss arbitrary: R) auto

lemma effect_sync: "fold ufw_effect (sync_cmds h ports) (managed h) = wanted ports"
  using want_specs_ok(2)[of ports] by (auto simp: sync_cmds_def effect_allows effect_deletes managed_def)

lemma effect_keeps: "\<forall>c\<in>set cs. c \<noteq> UfwDelete s \<Longrightarrow> s \<in> R \<Longrightarrow> s \<in> fold ufw_effect cs R"
proof (induction cs arbitrary: R)
  case (Cons c cs)
  then show ?case by (cases c) auto
qed simp

lemma never_closed:
  assumes "s \<in> managed h" "s \<in> wanted ports" "prefix cs (sync_cmds h ports)"
  shows "s \<in> fold ufw_effect cs (managed h)"
  using assms set_mono_prefix[OF assms(3)] by (intro effect_keeps) (auto simp: sync_cmds_def)

section \<open>Properties\<close>

text \<open>
  C30: the firewall reconciliation of an agent. On a host with an active ufw the commands issued turn
  the rules managed so far into exactly the rules of the mapped ports, touch no rule that is neither
  managed nor wanted, are none at all when nothing changed, and after any prefix of them every mapped
  port that was open still is.
\<close>
theorem ufw_sync_exact:
  assumes "ufwAvailable (fw_status h)" "snd (fw_numbered h)" "fst (ufwSync h ports) = cmds"
  shows "fold ufw_effect cmds (managed h) = wanted ports \<and>
    (UfwAllow s \<in> set cmds \<longleftrightarrow> s \<in> wanted ports - managed h) \<and> (UfwDelete s \<in> set cmds \<longleftrightarrow> s \<in> managed h - wanted ports) \<and>
    (prefix cs cmds \<and> s \<in> managed h \<inter> wanted ports \<longrightarrow> s \<in> fold ufw_effect cs (managed h))"
proof -
  have c: "cmds = sync_cmds h ports" using ufwSync_eq[OF assms(1,2), of ports] assms(3) by simp
  have "(UfwAllow s \<in> set cmds \<longleftrightarrow> s \<in> wanted ports - managed h) \<and> (UfwDelete s \<in> set cmds \<longleftrightarrow> s \<in> managed h - wanted ports)"
    using want_specs_ok(2)[of ports] by (auto simp: c sync_cmds_def managed_def)
  then show ?thesis using never_closed by (auto simp: c effect_sync)
qed

definition ex_fw :: host_fw where
  "ex_fw = \<lparr>fw_status = (''Status: active'', True), fw_numbered = (''[ 1] 6000/tcp  ALLOW IN  Anywhere  # frpanel-agent'', True),
     fw_ok = (\<lambda>c. True), fw_nft = (\<lambda>t. True)\<rparr>"

theorem ufw_sync_exact_witness:
  "fold ufw_effect (fst (ufwSync ex_fw [\<lparr>ps_Port = 6001, ps_Proto = ''udp''\<rparr>])) (managed ex_fw) = {''6001/udp''}"
proof -
  have "ufwAvailable (fw_status ex_fw)" "snd (fw_numbered ex_fw)"
    by (simp_all add: ex_fw_def ufwAvailable_def TrimSpace_def go_space_def Contains_def)
  moreover have "wanted [\<lparr>ps_Port = 6001, ps_Proto = ''udp''\<rparr>] = {''6001/udp''}"
    by (simp add: wanted_def ufwRuleSpec_def Itoa_def nat_dec.simps digit_char_def char_of_def bit_simps ToLower_def lower_char_def HasPrefix_def)
  ultimately show ?thesis
    using ufw_sync_exact[of ex_fw "[\<lparr>ps_Port = 6001, ps_Proto = ''udp''\<rparr>]"] by simp
qed

end
