(* ===== verification/Procmetrics.thy ===== *)
theory Procmetrics
  imports Prelude
begin

text \<open>
  \<^verbatim>\<open>internal/procmetrics\<close>: parsing of \<^verbatim>\<open>/proc/stat\<close>, \<^verbatim>\<open>/proc/meminfo\<close> and \<^verbatim>\<open>/proc/net/dev\<close>
  (\<^verbatim>\<open>procmetrics.go\<close>) and the collector that turns counters into rates and increments
  (\<^verbatim>\<open>collector.go\<close>). A file is its text, \<open>None\<close> when it cannot be opened. Counters are 64-bit words,
  \<^verbatim>\<open>float64\<close> values reals, and the clock is in nanoseconds.
\<close>

section \<open>Parsers\<close>

definition scanMax :: nat where "scanMax = 65536"

record CPUTimes =
  ct_Idle :: int64
  ct_Total :: int64

text \<open>The loop over the columns of the \<^verbatim>\<open>cpu\<close> line; columns 3 and 4 are idle and iowait.\<close>

fun sum_jiffies :: "nat \<Rightarrow> string list \<Rightarrow> CPUTimes \<Rightarrow> CPUTimes" where
  "sum_jiffies i [] c = c"
| "sum_jiffies i (v # vs) c =
     (let (n, ok) = ParseUint v 10 64
      in sum_jiffies (Suc i) vs
           (if ok
            then c\<lparr>ct_Total := ct_Total c + of_nat n, ct_Idle := (if i = 3 \<or> i = 4 then ct_Idle c + of_nat n else ct_Idle c)\<rparr>
            else c))"

definition zero_cpu :: CPUTimes where "zero_cpu = \<lparr>ct_Idle = 0, ct_Total = 0\<rparr>"

fun stat_lines :: "string list \<Rightarrow> CPUTimes \<times> bool" where
  "stat_lines [] = (zero_cpu, False)"
| "stat_lines (l # ls) = (if \<not> HasPrefix l ''cpu '' then stat_lines ls else (sum_jiffies 0 (tl (Fields l)) zero_cpu, True))"

definition ParseStat :: "string \<Rightarrow> CPUTimes \<times> bool" where
  "ParseStat s = stat_lines (fst (scan_lines scanMax s))"

definition CPUPercent :: "CPUTimes \<Rightarrow> CPUTimes \<Rightarrow> real" where
  "CPUPercent prev cur =
     (let dt = real (unat (ct_Total cur)) - real (unat (ct_Total prev));
          di = real (unat (ct_Idle cur)) - real (unat (ct_Idle prev));
          pct = (dt - di) / dt * 100
      in if dt \<le> 0 then 0 else if pct < 0 then 0 else if 100 < pct then 100 else pct)"

definition mem_line :: "string \<Rightarrow> int64 \<times> int64 \<Rightarrow> int64 \<times> int64" where
  "mem_line l acc =
     (case acc of (totalKB, availKB) \<Rightarrow>
       let f = Fields l
       in if length f < 2 then acc
          else if f ! 0 = ''MemTotal:'' then (word_of_int (fst (ParseInt (f ! 1) 10 64)), availKB)
          else if f ! 0 = ''MemAvailable:'' then (totalKB, word_of_int (fst (ParseInt (f ! 1) 10 64)))
          else acc)"

definition ParseMeminfo :: "string \<Rightarrow> real \<times> int64" where
  "ParseMeminfo s =
     (let (totalKB, availKB) = fold mem_line (fst (scan_lines scanMax s)) (0, 0)
      in if totalKB \<le>s 0 then (0, 0)
         else let used = totalKB - availKB; used = (if used <s 0 then 0 else used)
              in (of_int (sint used) / of_int (sint totalKB) * 100, totalKB * 1024))"

record NetCounters =
  nc_RxBytes :: int64
  nc_TxBytes :: int64

definition skipIface :: "string \<Rightarrow> bool" where
  "skipIface name =
     (let n = TrimSpace name
      in n = ''lo'' \<or> list_ex (HasPrefix n) [''veth'', ''docker'', ''br-'', ''virbr'', ''tun'', ''tap'', ''kube''])"

definition net_line :: "string \<Rightarrow> NetCounters \<Rightarrow> NetCounters" where
  "net_line l nc =
     (case IndexByte l CHR '':'' of
        None \<Rightarrow> nc
      | Some colon \<Rightarrow>
          if skipIface (take colon l) then nc
          else let f = Fields (drop (colon + 1) l)
               in if length f < 9 then nc
                  else nc\<lparr>nc_RxBytes := nc_RxBytes nc + word_of_int (fst (ParseInt (f ! 0) 10 64)),
                          nc_TxBytes := nc_TxBytes nc + word_of_int (fst (ParseInt (f ! 8) 10 64))\<rparr>)"

definition zero_net :: NetCounters where "zero_net = \<lparr>nc_RxBytes = 0, nc_TxBytes = 0\<rparr>"

definition ParseNetDev :: "string \<Rightarrow> NetCounters" where
  "ParseNetDev s = fold net_line (fst (scan_lines scanMax s)) zero_net"

section \<open>The files\<close>

record proc_fs =
  fs_stat :: "string option"
  fs_meminfo :: "string option"
  fs_netdev :: "string option"

definition readCPU :: "proc_fs \<Rightarrow> CPUTimes \<times> bool" where
  "readCPU fs = (case fs_stat fs of None \<Rightarrow> (zero_cpu, False) | Some s \<Rightarrow> ParseStat s)"

definition readMem :: "proc_fs \<Rightarrow> real \<times> int64" where
  "readMem fs = (case fs_meminfo fs of None \<Rightarrow> (0, 0) | Some s \<Rightarrow> ParseMeminfo s)"

definition readNet :: "proc_fs \<Rightarrow> NetCounters" where
  "readNet fs = (case fs_netdev fs of None \<Rightarrow> zero_net | Some s \<Rightarrow> ParseNetDev s)"

section \<open>The collector\<close>

record Reading =
  rd_CPUPercent :: real
  rd_MemPercent :: real
  rd_MemTotal :: int64
  rd_NetRxBps :: int64
  rd_NetTxBps :: int64
  rd_NetRxDelta :: int64
  rd_NetTxDelta :: int64
  rd_Primed :: bool

record Collector =
  co_haveCPU :: bool
  co_prevCPU :: CPUTimes
  co_haveNet :: bool
  co_prevNet :: NetCounters
  co_prevTime :: int

definition NewCollector :: Collector where
  "NewCollector = \<lparr>co_haveCPU = False, co_prevCPU = zero_cpu, co_haveNet = False, co_prevNet = zero_net, co_prevTime = 0\<rparr>"

text \<open>A counter that went backwards (reboot, interface flap) counts as no traffic.\<close>

definition net_delta :: "int64 \<Rightarrow> int64 \<Rightarrow> int64" where
  "net_delta cur prev = (let d = cur - prev in if d <s 0 then 0 else d)"

text \<open>\<^verbatim>\<open>int64(float64(d) / secs)\<close>, with \<open>ns\<close> the elapsed nanoseconds.\<close>

definition net_bps :: "int64 \<Rightarrow> int \<Rightarrow> int64" where
  "net_bps d ns = (if 0 < ns then word_of_int \<lfloor>of_int (sint d) / (of_int ns / 10 ^ 9 :: real)\<rfloor> else 0)"

definition collector_Sample :: "proc_fs \<Rightarrow> int \<Rightarrow> Collector \<Rightarrow> Reading \<times> Collector" where
  "collector_Sample fs now c =
     (let (cpu, okc) = readCPU fs; (mem, total) = readMem fs; net = readNet fs;
          dr = (if co_haveNet c then net_delta (nc_RxBytes net) (nc_RxBytes (co_prevNet c)) else 0);
          dt = (if co_haveNet c then net_delta (nc_TxBytes net) (nc_TxBytes (co_prevNet c)) else 0);
          ns = now - co_prevTime c
      in (\<lparr>rd_CPUPercent = (if okc \<and> co_haveCPU c then CPUPercent (co_prevCPU c) cpu else 0),
           rd_MemPercent = mem, rd_MemTotal = total,
           rd_NetRxBps = (if co_haveNet c then net_bps dr ns else 0), rd_NetTxBps = (if co_haveNet c then net_bps dt ns else 0),
           rd_NetRxDelta = dr, rd_NetTxDelta = dt, rd_Primed = ((okc \<longrightarrow> co_haveCPU c) \<and> co_haveNet c)\<rparr>,
          \<lparr>co_haveCPU = (co_haveCPU c \<or> okc), co_prevCPU = (if okc then cpu else co_prevCPU c), co_haveNet = True,
           co_prevNet = net, co_prevTime = now\<rparr>))"

fun samples :: "(proc_fs \<times> int) list \<Rightarrow> Collector \<Rightarrow> Reading list" where
  "samples [] c = []"
| "samples ((fs, now) # xs) c = (let (r, c') = collector_Sample fs now c in r # samples xs c')"

section \<open>Lemmas\<close>

lemma CPUPercent_bounds: "0 \<le> CPUPercent p c \<and> CPUPercent p c \<le> 100"
  by (simp add: CPUPercent_def Let_def)

text \<open>Counters read from the files are sums; as long as they do not decrease, the increments add up.\<close>

lemma collector_Sample_net:
  "snd (collector_Sample fs now c) = c' \<Longrightarrow> co_haveNet c' \<and> co_prevNet c' = readNet fs"
  by (auto simp: collector_Sample_def Let_def split: prod.splits)

lemma collector_Sample_delta:
  "rd_NetRxDelta (fst (collector_Sample fs now c)) =
     (if co_haveNet c then net_delta (nc_RxBytes (readNet fs)) (nc_RxBytes (co_prevNet c)) else 0)"
  "rd_NetTxDelta (fst (collector_Sample fs now c)) =
     (if co_haveNet c then net_delta (nc_TxBytes (readNet fs)) (nc_TxBytes (co_prevNet c)) else 0)"
  by (auto simp: collector_Sample_def Let_def split: prod.splits)

definition no_reset :: "int64 \<Rightarrow> int64 \<Rightarrow> bool" where
  "no_reset cur prev \<longleftrightarrow> 0 \<le>s cur - prev"

lemma net_delta_no_reset: "no_reset cur prev \<Longrightarrow> net_delta cur prev = cur - prev"
  by (simp add: no_reset_def net_delta_def Let_def word_sless_alt word_sle_eq)

fun climbing :: "int64 \<Rightarrow> int64 list \<Rightarrow> bool" where
  "climbing p [] \<longleftrightarrow> True"
| "climbing p (x # xs) \<longleftrightarrow> no_reset x p \<and> climbing x xs"

definition rx_counter :: "proc_fs \<times> int \<Rightarrow> int64" where
  "rx_counter x = nc_RxBytes (readNet (fst x))"

lemma rx_counter_pair: "rx_counter (fs, t) = nc_RxBytes (readNet fs)"
  by (simp add: rx_counter_def)

lemma deltas_telescope:
  assumes "co_haveNet c" "climbing (nc_RxBytes (co_prevNet c)) (map (rx_counter) xs)"
  shows "sum_list (map rd_NetRxDelta (samples xs c)) =
    last (nc_RxBytes (co_prevNet c) # map (rx_counter) xs) - nc_RxBytes (co_prevNet c)"
  using assms
proof (induction xs arbitrary: c)
  case (Cons x xs)
  obtain fs now where x: "x = (fs, now)" by (cases x)
  obtain r c' where s: "collector_Sample fs now c = (r, c')" by fastforce
  have c': "co_haveNet c'" "co_prevNet c' = readNet fs" using collector_Sample_net[of fs now c] by (auto simp: s)
  have "rd_NetRxDelta r = nc_RxBytes (readNet fs) - nc_RxBytes (co_prevNet c)"
    using collector_Sample_delta(1)[of fs now c] Cons.prems by (simp add: s x rx_counter_pair net_delta_no_reset)
  moreover have "climbing (nc_RxBytes (co_prevNet c')) (map (rx_counter) xs)"
    using Cons.prems by (simp add: c' x rx_counter_pair)
  ultimately show ?case using Cons.IH[of c'] c' by (simp add: x s rx_counter_pair)
qed simp

lemma net_delta_nonneg: "0 \<le>s net_delta cur prev"
  by (simp add: net_delta_def Let_def word_sless_alt word_sle_eq)

section \<open>Properties\<close>

text \<open>
  Bandwidth increments of an agent add up. The first sample only primes the collector and reports
  none; from then on, over any samples between which the byte counter does not go back, the reported
  increments sum to the distance between the last and the first counter: no byte is counted twice or
  left out.
\<close>
theorem net_increments_add_up:
  assumes "climbing (nc_RxBytes (readNet fs)) (map (rx_counter) xs)"
  shows "sum_list (map rd_NetRxDelta (samples ((fs, t) # xs) NewCollector)) =
    last (map (rx_counter) ((fs, t) # xs)) - nc_RxBytes (readNet fs)"
proof -
  obtain r c where s: "collector_Sample fs t NewCollector = (r, c)" by fastforce
  have "co_haveNet c" "co_prevNet c = readNet fs" using collector_Sample_net[of fs t NewCollector] by (auto simp: s)
  moreover have "rd_NetRxDelta r = 0" using collector_Sample_delta(1)[of fs t NewCollector] by (simp add: s) (simp add: NewCollector_def)
  ultimately show ?thesis using deltas_telescope[of c xs] assms by (simp add: s rx_counter_pair)
qed

definition ex_net :: "string \<Rightarrow> proc_fs" where
  "ex_net rx = \<lparr>fs_stat = None, fs_meminfo = None, fs_netdev = Some (''eth0: '' @ rx @ '' 0 0 0 0 0 0 0 7 0'')\<rparr>"

lemma ex_net_rx: "rx_counter (ex_net ''100'', t) = 100" "rx_counter (ex_net ''250'', t) = 250"
  by (simp_all add: rx_counter_def ex_net_def readNet_def ParseNetDev_def scan_lines_def raw_lines_def drop_cr_def scanMax_def
      net_line_def skipIface_def TrimSpace_def go_space_def HasPrefix_def Fields_def ParseInt_def digit_val_def zero_net_def)

theorem net_increments_add_up_witness:
  "sum_list (map rd_NetRxDelta (samples [(ex_net ''100'', 0), (ex_net ''250'', 5)] NewCollector)) = 150"
  using net_increments_add_up[of "ex_net ''100''" "[(ex_net ''250'', 5)]" 0] ex_net_rx
  by (simp add: no_reset_def word_sle_eq rx_counter_pair)

end
