(* ===== verification/Selfupdate.thy ===== *)
theory Selfupdate
  imports Prelude
begin

text \<open>
  \<^verbatim>\<open>internal/selfupdate/selfupdate.go\<close>: download, verification and installation of a release binary.
  The network is a function \<open>get\<close> from URLs to bodies (\<open>None\<close>: any failure, including a status other
  than 200); SHA-256 in hex is a function \<open>sha\<close>. The directory of the executable is a map from
  paths to contents, and which file operations fail is an argument.
\<close>

section \<open>Download\<close>

definition maxAssetSize :: nat where "maxAssetSize = 268435456"

type_synonym net = "string \<Rightarrow> string option"

definition fetchOne :: "net \<Rightarrow> string \<Rightarrow> string option" where
  "fetchOne get url = map_option (take maxAssetSize) (get url)"

definition Fetch :: "net \<Rightarrow> string \<Rightarrow> string \<Rightarrow> string \<Rightarrow> string option" where
  "Fetch get base mirror name =
     (let url = TrimRight CHR ''/'' base @ CHR ''/'' # name
      in case fetchOne get url of
           Some b \<Rightarrow> Some b
         | None \<Rightarrow>
             (let m = TrimSpace mirror
              in if m \<noteq> [] then fetchOne get (TrimRight CHR ''/'' m @ CHR ''/'' # url) else None))"

fun sum_line :: "string list \<Rightarrow> string \<Rightarrow> string option" where
  "sum_line [] name = None"
| "sum_line (l # ls) name =
     (let f = Fields l
      in if 2 \<le> length f \<and> TrimPrefix (f ! 1) ''*'' = name then Some (ToLower (f ! 0)) else sum_line ls name)"

definition SumFor :: "string \<Rightarrow> string \<Rightarrow> string option" where
  "SumFor listed name = sum_line (Split CHR 0x0A listed) name"

section \<open>Installation\<close>

type_synonym dir = "(string, string) gomap"

text \<open>\<open>WriteErr k\<close>: the staged file was cut after \<open>k\<close> bytes.\<close>

datatype apply_io = ApplyOk | WriteErr nat | RenameFails

definition Apply :: "apply_io \<Rightarrow> string \<Rightarrow> string \<Rightarrow> dir \<Rightarrow> bool \<times> dir" where
  "Apply io bin target d =
     (let tmp = target @ ''.new''
      in case io of
           WriteErr k \<Rightarrow> (False, AList.update tmp (take k bin) d)
         | RenameFails \<Rightarrow> (False, AList.delete tmp (AList.update tmp bin d))
         | ApplyOk \<Rightarrow> (True, AList.update target bin (AList.delete tmp (AList.update tmp bin d))))"

datatype update_error = SumsDownload | SumsNoEntry | AssetDownload | AssetTooSmall | ShaMismatch | ApplyFailed

definition minAsset :: nat where "minAsset = 1048576"

definition update_Run :: "net \<Rightarrow> (string \<Rightarrow> string) \<Rightarrow> apply_io \<Rightarrow> string \<Rightarrow> string \<Rightarrow> string \<Rightarrow> string \<Rightarrow> dir \<Rightarrow> update_error option \<times> dir" where
  "update_Run get sha io base mirror asset target d =
     (case Fetch get base mirror ''sha256sums.txt'' of
        None \<Rightarrow> (Some SumsDownload, d)
      | Some listed \<Rightarrow>
          (case SumFor listed asset of
             None \<Rightarrow> (Some SumsNoEntry, d)
           | Some want \<Rightarrow>
               (case Fetch get base mirror asset of
                  None \<Rightarrow> (Some AssetDownload, d)
                | Some bin \<Rightarrow>
                    if length bin < minAsset then (Some AssetTooSmall, d)
                    else if sha bin \<noteq> want then (Some ShaMismatch, d)
                    else case Apply io bin target d of
                           (True, d') \<Rightarrow> (None, d')
                         | (False, d') \<Rightarrow> (Some ApplyFailed, d'))))"

section \<open>Lemmas\<close>

lemma Apply_target:
  "map_of (snd (Apply io bin target d)) target = (if io = ApplyOk then Some bin else map_of d target)" "fst (Apply io bin target d) \<longleftrightarrow> io = ApplyOk"
  by (auto simp: Apply_def Let_def gomap_simps split: apply_io.split)

section \<open>Properties\<close>

text \<open>
  C29: a self update never installs unverified bytes. Whatever the servers answer, after the update the
  executable is either unchanged, with an error reported, or it is the complete downloaded asset, of
  at least 1 MiB, whose SHA-256 is the sum listed for it in the release's checksum file; a file half
  written never takes its place.
\<close>
theorem update_verified:
  "update_Run get sha io base mirror asset target d = (e, d') \<Longrightarrow>
   (e \<noteq> None \<longrightarrow> map_of d' target = map_of d target) \<and>
   (e = None \<longrightarrow> (\<exists>listed bin. Fetch get base mirror ''sha256sums.txt'' = Some listed \<and> Fetch get base mirror asset = Some bin \<and>
      map_of d' target = Some bin \<and> SumFor listed asset = Some (sha bin) \<and> minAsset \<le> length bin))"
  using Apply_target[of io _ target d]
  by (auto simp: update_Run_def not_less split: option.splits if_splits prod.splits bool.splits) (metis fst_conv snd_conv)+

definition ex_get :: net where
  "ex_get u = (if u = ''b/sha256sums.txt'' then Some ''00  a'' else Some (replicate minAsset CHR ''x''))"

lemma ex_fetch: "Fetch ex_get ''b/'' [] ''sha256sums.txt'' = Some ''00  a''" "Fetch ex_get ''b/'' [] ''a'' = Some (replicate minAsset CHR ''x'')"
  by (simp_all add: Fetch_def fetchOne_def ex_get_def TrimRight_def maxAssetSize_def minAsset_def)

lemma ex_sum: "SumFor ''00  a'' ''a'' = Some ''00''"
  by (simp add: SumFor_def Fields_def go_space_def TrimPrefix_def HasPrefix_def ToLower_def lower_char_def)

theorem update_verified_witness:
  "map_of (snd (update_Run ex_get (\<lambda>b. ''00'') ApplyOk ''b/'' [] ''a'' ''t'' [])) ''t'' = Some (replicate minAsset CHR ''x'')"
proof -
  obtain e d where r: "update_Run ex_get (\<lambda>b. ''00'') ApplyOk ''b/'' [] ''a'' ''t'' [] = (e, d)" by fastforce
  then have "e = None" using Apply_target(2)[of ApplyOk "replicate minAsset CHR ''x''" "''t''" "[]"]
    by (auto simp: update_Run_def ex_fetch ex_sum split: prod.splits bool.splits)
  with update_verified[OF r] show ?thesis by (auto simp: r ex_fetch)
qed

end
