(* ===== verification/Agent.thy ===== *)
theory Agent
  imports Wal Agentcfg Firewall Procmetrics Limiter Selfupdate
begin

text \<open>
  \<^verbatim>\<open>internal/agent/server.go\<close>: the control-plane server of a node. The state is the \<^verbatim>\<open>Server\<close> struct; a
  session's queue holds the messages before they are signed and written, and \<open>wire\<close> is the signed
  envelope of such a message. Requests arrive as decoded envelopes (\<open>None\<close>: not JSON). What the
  outside contributes to a handler (clock, socket tables, the frps API, outcomes of system calls,
  decoded payloads) is in the records \<open>dispatch_env\<close> and \<open>sample_env\<close>. Chinese texts are ASCII keys.
\<close>

section \<open>State\<close>

definition sendBuffer :: nat where "sendBuffer = 128"
definition maxBackfillRounds :: nat where "maxBackfillRounds = 24"

datatype agent_payload =
    PNone
  | PHelloAck HelloAck
  | PPortCheckRes PortCheckRes
  | PProxyList "ProxyInfo list"
  | PRestartRes RestartRes
  | PRateLimitRes RateLimitRes
  | PUpdateRes UpdateRes
  | PMetrics Metrics
  | PEvent Event

record out_msg =
  om_Type :: string
  om_ID :: string
  om_TS :: int64
  om_Payload :: agent_payload

record session =
  ss_send :: "out_msg list"
  ss_ip :: string
  ss_ready :: bool
  ss_done :: bool

record tunPrev =
  tp_in :: int64
  tp_out :: int64

record Server =
  sv_cfg :: Config
  sv_disk :: agent_disk
  sv_wal :: WAL
  sv_col :: Collector
  sv_limiter :: authLimiter
  sv_sessions :: "(int, session) gomap"
  sv_lastTun :: "(string, tunPrev) gomap"
  sv_updating :: bool
  sv_frpsUpPrev :: bool

definition NewServer :: "Config \<Rightarrow> agent_disk \<Rightarrow> string option \<Rightarrow> Server" where
  "NewServer cfg disk walfile = \<lparr>sv_cfg = cfg, sv_disk = disk, sv_wal = OpenWAL walfile, sv_col = NewCollector, sv_limiter = newAuthLimiter,
     sv_sessions = [], sv_lastTun = [], sv_updating = False, sv_frpsUpPrev = False\<rparr>"

section \<open>Sending\<close>

text \<open>\<^verbatim>\<open>sign\<close> builds the message; its envelope on the wire is computed by \<open>wire\<close>.\<close>

definition sign :: "int64 \<Rightarrow> string \<Rightarrow> string \<Rightarrow> agent_payload \<Rightarrow> out_msg" where
  "sign now typ i p = \<lparr>om_Type = typ, om_ID = i, om_TS = now, om_Payload = p\<rparr>"

definition wire :: "mac \<Rightarrow> (agent_payload \<Rightarrow> string) \<Rightarrow> string \<Rightarrow> out_msg \<Rightarrow> Envelope" where
  "wire hmac enc token m = Sign hmac (Marshal (om_TS m) ProtocolVersion (om_Type m) (om_ID m) (enc (om_Payload m))) token"

definition send_or_drop :: "out_msg \<Rightarrow> session \<Rightarrow> session" where
  "send_or_drop m ss = (if length (ss_send ss) < sendBuffer then ss\<lparr>ss_send := ss_send ss @ [m]\<rparr> else ss)"

definition enqueue :: "int64 \<Rightarrow> string \<Rightarrow> string \<Rightarrow> agent_payload \<Rightarrow> session \<Rightarrow> session" where
  "enqueue now typ i p ss = send_or_drop (sign now typ i p) ss"

definition upd_session :: "int \<Rightarrow> (session \<Rightarrow> session) \<Rightarrow> Server \<Rightarrow> Server" where
  "upd_session sid f s =
     (case map_of (sv_sessions s) sid of None \<Rightarrow> s | Some ss \<Rightarrow> s\<lparr>sv_sessions := AList.update sid (f ss) (sv_sessions s)\<rparr>)"

definition enqueueReply :: "int64 \<Rightarrow> int \<Rightarrow> string \<Rightarrow> string \<Rightarrow> agent_payload \<Rightarrow> Server \<Rightarrow> Server" where
  "enqueueReply now sid typ i p s = upd_session sid (enqueue now typ i p) s"

text \<open>\<^verbatim>\<open>sendWait\<close>: \<open>room\<close> says whether the queue got room before the session ended or the timer fired.\<close>

definition sendWait :: "bool \<Rightarrow> int64 \<Rightarrow> string \<Rightarrow> agent_payload \<Rightarrow> session \<Rightarrow> bool \<times> session" where
  "sendWait room now typ p ss =
     (if ss_done ss then (False, ss)
      else if room then (True, ss\<lparr>ss_send := ss_send ss @ [sign now typ [] p]\<rparr>) else (False, ss))"

definition fanout :: "int64 \<Rightarrow> string \<Rightarrow> agent_payload \<Rightarrow> bool \<Rightarrow> Server \<Rightarrow> Server" where
  "fanout now typ p seqOrdered s =
     s\<lparr>sv_sessions := map (\<lambda>(k, ss). (k, if seqOrdered \<and> \<not> ss_ready ss then ss else send_or_drop (sign now typ [] p) ss)) (sv_sessions s)\<rparr>"

definition agent_broadcast :: "int64 \<Rightarrow> string \<Rightarrow> agent_payload \<Rightarrow> Server \<Rightarrow> Server" where
  "agent_broadcast now typ p = fanout now typ p False"

definition broadcastSample :: "int64 \<Rightarrow> Metrics \<Rightarrow> Server \<Rightarrow> Server" where
  "broadcastSample now m = fanout now TypeMetrics (PMetrics m) True"

text \<open>One round of \<^verbatim>\<open>writer\<close>: the next message leaves the queue.\<close>

definition writer_step :: "session \<Rightarrow> (out_msg \<times> session) option" where
  "writer_step ss = (if ss_done ss then None else case ss_send ss of [] \<Rightarrow> None | m # ms \<Rightarrow> Some (m, ss\<lparr>ss_send := ms\<rparr>))"

section \<open>Handshake\<close>

datatype first_read = ReadFailed | FirstFrame "Envelope option"

datatype ws_result = TooManyFailures | UpgradeFailed | Closed | Connected

record ws_env =
  we_ip :: string
  we_now :: int
  we_unix :: int64
  we_upgrade :: bool
  we_read :: first_read
  we_hello :: "string \<Rightarrow> Hello"
  we_binver :: string
  we_version :: string

definition hello_ack :: "ws_env \<Rightarrow> Hello \<Rightarrow> Config \<Rightarrow> HelloAck" where
  "hello_ack e h c =
     (let compatible = (h_MinAgentProto h \<le> ProtocolVersion)
      in \<lparr>ha_AgentVersion = we_version e, ha_FrpsVersion = we_binver e, ha_Proto = ProtocolVersion, ha_FrpsPort = cf_FrpsBindPort c,
          ha_FrpsToken = cf_FrpsToken c, ha_Compatible = compatible,
          ha_Message = (if compatible then [] else ''panel requires a newer agent protocol'')\<rparr>)"

definition handleWS :: "mac \<Rightarrow> ws_env \<Rightarrow> int \<Rightarrow> Server \<Rightarrow> ws_result \<times> Server" where
  "handleWS hmac e sid s =
     (let (blocked, l) = auth_Blocked (we_ip e) (we_now e) (sv_limiter s); s = s\<lparr>sv_limiter := l\<rparr>
      in if blocked then (TooManyFailures, s)
         else if \<not> we_upgrade e then (UpgradeFailed, s)
         else case we_read e of
                ReadFailed \<Rightarrow> (Closed, s)
              | FirstFrame None \<Rightarrow> (Closed, s\<lparr>sv_limiter := auth_Fail (we_ip e) (we_now e) l\<rparr>)
              | FirstFrame (Some env) \<Rightarrow>
                  if e_Type env \<noteq> TypeHello then (Closed, s\<lparr>sv_limiter := auth_Fail (we_ip e) (we_now e) l\<rparr>)
                  else if Verify hmac env (cf_AgentToken (sv_cfg s)) (we_unix e) \<noteq> None
                  then (Closed, s\<lparr>sv_limiter := auth_Fail (we_ip e) (we_now e) l\<rparr>)
                  else
                    (let s = s\<lparr>sv_limiter := auth_Success (we_ip e) l\<rparr>;
                         ss = \<lparr>ss_send = [], ss_ip = we_ip e, ss_ready = False, ss_done = False\<rparr>;
                         ss = enqueue (we_unix e) TypeHelloAck (e_ID env) (PHelloAck (hello_ack e (we_hello e (e_Payload env)) (sv_cfg s))) ss
                     in (Connected, s\<lparr>sv_sessions := AList.update sid ss (sv_sessions s)\<rparr>)))"

definition endSession :: "int \<Rightarrow> Server \<Rightarrow> Server" where
  "endSession sid s = s\<lparr>sv_sessions := AList.delete sid (sv_sessions s)\<rparr>"

section \<open>Requests of the panel\<close>

record dispatch_env =
  de_unix :: int64
  de_portCheck :: "string \<Rightarrow> PortCheck"
  de_restart :: "string \<Rightarrow> RestartFrps"
  de_rate :: "string \<Rightarrow> SetRateLimit"
  de_update :: "string \<Rightarrow> UpdateAgent"
  de_host :: host
  de_api :: "string \<Rightarrow> proxy_entry list option"
  de_frps_io :: frps_io
  de_binver :: string
  de_fw :: host_fw
  de_errtext :: "agent_error \<Rightarrow> string"
  de_rltext :: "rl_error \<Rightarrow> string"

definition reason_text :: "reserved_reason \<Rightarrow> string" where
  "reason_text r = (case r of ReservedSSH \<Rightarrow> ''ssh'' | ReservedFrpsBind \<Rightarrow> ''frps_bind'' | ReservedAgentMgmt \<Rightarrow> ''agent_mgmt''
     | ReservedAdminRange \<Rightarrow> ''admin_range'' | ReservedLowPort \<Rightarrow> ''low_port'')"

definition checkPort :: "dispatch_env \<Rightarrow> PortCheck \<Rightarrow> PortCheckRes" where
  "checkPort e pc =
     (let res = \<lparr>pr_Port = pc_Port pc, pr_Proto = pc_Proto pc, pr_Available = True, pr_Reason = [], pr_Process = []\<rparr>
      in case ReservedReason (pc_Port pc) of
           Some r \<Rightarrow> res\<lparr>pr_Available := False, pr_Reason := ''reserved'', pr_Process := reason_text r\<rparr>
         | None \<Rightarrow>
             (case LocalListen (de_host e) (pc_Port pc) (pc_Proto pc) of
                (True, proc) \<Rightarrow> res\<lparr>pr_Available := False, pr_Reason := ''listen'', pr_Process := (if proc = [] then ''unknown_process'' else proc)\<rparr>
              | (False, _) \<Rightarrow>
                  (case Proxies (de_api e) of
                     (_, False) \<Rightarrow> res
                   | (ps, True) \<Rightarrow>
                       (case find (\<lambda>p. pi_RemotePort p = pc_Port pc) ps of
                          None \<Rightarrow> res
                        | Some p \<Rightarrow> res\<lparr>pr_Available := False, pr_Reason := ''frps_registered'', pr_Process := ''frps('' @ pi_Name p @ '')''\<rparr>))))"

definition update_reply :: "UpdateAgent \<Rightarrow> bool \<Rightarrow> UpdateRes \<times> bool" where
  "update_reply up updating =
     (if \<not> HasPrefix (ua_BaseURL up) ''https://'' \<and> \<not> HasPrefix (ua_BaseURL up) ''http://''
      then (\<lparr>ur_OK = False, ur_Started = False, ur_Message = ''bad_update_source''\<rparr>, updating)
      else if updating then (\<lparr>ur_OK = False, ur_Started = False, ur_Message = ''update_in_progress''\<rparr>, updating)
      else (\<lparr>ur_OK = True, ur_Started = True, ur_Message = []\<rparr>, True))"

text \<open>The handler of a verified request; an accepted update is returned, to be run on its own.\<close>

definition dispatch :: "dispatch_env \<Rightarrow> int \<Rightarrow> Envelope \<Rightarrow> Server \<Rightarrow> Server \<times> UpdateAgent option" where
  "dispatch e sid env s =
     (let reply = (\<lambda>typ p s. enqueueReply (de_unix e) sid typ (e_ID env) p s)
      in if e_Type env = TypePing then (reply TypePong PNone s, None)
         else if e_Type env = TypePortCheck then (reply TypePortCheckRes (PPortCheckRes (checkPort e (de_portCheck e (e_Payload env)))) s, None)
         else if e_Type env = TypeListProxies then (reply TypeProxyList (PProxyList (fst (Proxies (de_api e)))) s, None)
         else if e_Type env = TypeRestartFrps
         then (let (err, c, d) = RotateToken (de_frps_io e) (rf_NewFrpsToken (de_restart e (e_Payload env))) (sv_cfg s) (sv_disk s)
               in (reply TypeRestartRes (PRestartRes \<lparr>rr_OK = (err = None), rr_FrpsVersion = de_binver e,
                     rr_Message = (case err of None \<Rightarrow> [] | Some x \<Rightarrow> de_errtext e x)\<rparr>) (s\<lparr>sv_cfg := c, sv_disk := d\<rparr>), None))
         else if e_Type env = TypeSetRateLimit
         then (let (_, applied, err) = ApplyRateLimit (de_fw e) (de_rate e (e_Payload env))
               in (reply TypeRateLimitRes (PRateLimitRes \<lparr>lr_OK = (err = None), lr_Applied = applied,
                     lr_Message = (case err of None \<Rightarrow> [] | Some x \<Rightarrow> de_rltext e x)\<rparr>) s, None))
         else if e_Type env = TypeUpdateAgent
         then (let up = de_update e (e_Payload env); (res, updating) = update_reply up (sv_updating s)
               in (reply TypeUpdateRes (PUpdateRes res) (s\<lparr>sv_updating := updating\<rparr>), if ur_OK res then Some up else None))
         else (s, None))"

text \<open>One round of \<^verbatim>\<open>reader\<close>: whether the session goes on, and an update to run.\<close>

definition reader_step :: "mac \<Rightarrow> dispatch_env \<Rightarrow> int \<Rightarrow> Envelope option \<Rightarrow> Server \<Rightarrow> bool \<times> Server \<times> UpdateAgent option" where
  "reader_step hmac e sid frame s =
     (case frame of
        None \<Rightarrow> (True, s, None)
      | Some env \<Rightarrow>
          (case Verify hmac env (cf_AgentToken (sv_cfg s)) (de_unix e) of
             Some ErrBadSig \<Rightarrow> (False, s, None)
           | Some ErrReplay \<Rightarrow> (True, s, None)
           | None \<Rightarrow> (let (s', up) = dispatch e sid env s in (True, s', up))))"

definition updateFailed :: "int64 \<Rightarrow> int \<Rightarrow> string \<Rightarrow> Server \<Rightarrow> Server" where
  "updateFailed now nowMs msg = agent_broadcast now TypeEvent (PEvent \<lparr>ev_Kind = ''agent_update_failed'', ev_Detail = ''update_failed: '' @ msg, ev_AtMs = nowMs\<rparr>)"

text \<open>\<^verbatim>\<open>runSelfUpdate\<close>: \<open>exe\<close> is the path of the executable; the last component says that a restart is triggered.\<close>

definition runSelfUpdate :: "net \<Rightarrow> (string \<Rightarrow> string) \<Rightarrow> apply_io \<Rightarrow> (update_error \<Rightarrow> string) \<Rightarrow> string \<Rightarrow> string option \<Rightarrow> int64 \<Rightarrow> int \<Rightarrow>
    UpdateAgent \<Rightarrow> Server \<times> dir \<Rightarrow> (Server \<times> dir) \<times> bool" where
  "runSelfUpdate get sha io errtext arch exe now nowMs up sd =
     (case sd of (s, d) \<Rightarrow>
       let stop = (\<lambda>s. s\<lparr>sv_updating := False\<rparr>)
       in case exe of
            None \<Rightarrow> ((stop (updateFailed now nowMs ''no_executable'' s), d), False)
          | Some target \<Rightarrow>
              (case update_Run get sha io (ua_BaseURL up) (ua_Mirror up) (''frpanel-agent-'' @ arch) target d of
                 (Some err, d') \<Rightarrow> ((stop (updateFailed now nowMs (errtext err) s), d'), False)
               | (None, d') \<Rightarrow>
                   ((stop (agent_broadcast now TypeEvent (PEvent \<lparr>ev_Kind = ''agent_update'', ev_Detail = ''update_installed'', ev_AtMs = nowMs\<rparr>) s), d'), True)))"

section \<open>Sampling\<close>

record sample_env =
  se_fs :: proc_fs
  se_now :: int
  se_up :: bool
  se_api :: "string \<Rightarrow> proxy_entry list option"
  se_stored :: "nat option"

definition tun_key :: "ProxyInfo \<Rightarrow> string" where
  "tun_key p = pi_Proto p @ CHR '':'' # Itoa (pi_RemotePort p)"

definition zero_tun :: tunPrev where "zero_tun = \<lparr>tp_in = 0, tp_out = 0\<rparr>"

text \<open>A counter below its last value was reset: all of it is new.\<close>

definition tun_delta :: "int64 \<Rightarrow> int64 \<Rightarrow> int64" where
  "tun_delta today prev = (let d = today - prev in if d <s 0 then today else d)"

definition tun_step :: "ProxyInfo \<Rightarrow> (string, tunPrev) gomap \<times> ProxyTraffic list \<times> ProxyDelta list
    \<Rightarrow> (string, tunPrev) gomap \<times> ProxyTraffic list \<times> ProxyDelta list" where
  "tun_step p acc =
     (case acc of (last_tun, proxies, walProxies) \<Rightarrow>
       let prev = mget zero_tun last_tun (tun_key p);
           din = tun_delta (pi_TodayIn p) (tp_in prev); dout = tun_delta (pi_TodayOut p) (tp_out prev)
       in (AList.update (tun_key p) \<lparr>tp_in = pi_TodayIn p, tp_out = pi_TodayOut p\<rparr> last_tun,
           proxies @ [\<lparr>tr_RemotePort = pi_RemotePort p, tr_Proto = pi_Proto p, tr_Status = pi_Status p, tr_DeltaIn = din, tr_DeltaOut = dout\<rparr>],
           walProxies @ [\<lparr>pd_RemotePort = pi_RemotePort p, pd_Proto = pi_Proto p, pd_In = din, pd_Out = dout, pd_Status = pi_Status p\<rparr>]))"

definition tun_deltas :: "ProxyInfo list \<Rightarrow> (string, tunPrev) gomap \<Rightarrow> (string, tunPrev) gomap \<times> ProxyTraffic list \<times> ProxyDelta list" where
  "tun_deltas ps last_tun =
     (let (lt, proxies, walProxies) = fold tun_step ps (last_tun, [], [])
      in (filter (\<lambda>(k, v). k \<in> tun_key ` set ps) lt, proxies, walProxies))"

definition sampled_proxies :: "sample_env \<Rightarrow> (string, tunPrev) gomap \<Rightarrow> (string, tunPrev) gomap \<times> ProxyTraffic list \<times> ProxyDelta list" where
  "sampled_proxies e last_tun =
     (if se_up e then (case Proxies (se_api e) of (ps, True) \<Rightarrow> tun_deltas ps last_tun | (_, False) \<Rightarrow> (last_tun, [], []))
      else (last_tun, [], []))"

definition frps_event :: "bool \<Rightarrow> int \<Rightarrow> Event" where
  "frps_event up atMs = (if up then \<lparr>ev_Kind = ''frps_up'', ev_Detail = ''frps_ready'', ev_AtMs = atMs\<rparr>
     else \<lparr>ev_Kind = ''frps_down'', ev_Detail = ''frps_unreachable'', ev_AtMs = atMs\<rparr>)"

definition sampleAndBroadcast :: "sample_env \<Rightarrow> Server \<Rightarrow> Server" where
  "sampleAndBroadcast e s =
     (let (r, col) = collector_Sample (se_fs e) (se_now e) (sv_col s);
          (lt, proxies, walProxies) = sampled_proxies e (sv_lastTun s);
          (n, w) = NextSeq (sv_wal s);
          atMs = se_now e div 1000000; unix = word_of_int (se_now e div 1000000000);
          (_, w) = Append (se_stored e) \<lparr>rec_Seq = n, rec_AtMs = atMs, rec_NodeRxDelta = rd_NetRxDelta r, rec_NodeTxDelta = rd_NetTxDelta r,
             rec_Proxies = walProxies\<rparr> w;
          m = \<lparr>m_Seq = n, m_CPU = rd_CPUPercent r, m_Mem = rd_MemPercent r, m_MemTotal = rd_MemTotal r, m_NetRxBps = rd_NetRxBps r,
               m_NetTxBps = rd_NetTxBps r, m_NetRxDelta = rd_NetRxDelta r, m_NetTxDelta = rd_NetTxDelta r, m_FrpsUp = se_up e,
               m_Proxies = proxies, m_SampledAt = atMs, m_Backfill = False\<rparr>;
          s = broadcastSample unix m (s\<lparr>sv_col := col, sv_lastTun := lt, sv_wal := w\<rparr>)
      in if se_up e \<noteq> sv_frpsUpPrev s
         then (agent_broadcast unix TypeEvent (PEvent (frps_event (se_up e) atMs)) s)\<lparr>sv_frpsUpPrev := se_up e\<rparr>
         else s)"

text \<open>The rotation tick of \<^verbatim>\<open>maintenanceLoop\<close>: records older than seven days.\<close>

definition rotate_tick :: "rotate_io \<Rightarrow> int \<Rightarrow> Server \<Rightarrow> Server" where
  "rotate_tick io nowMs s = s\<lparr>sv_wal := snd (Rotate io (nowMs - 7 * 24 * 3600 * 1000) (sv_wal s))\<rparr>"

section \<open>Replay\<close>

definition replay_metrics :: "TrafficRec \<Rightarrow> Metrics" where
  "replay_metrics r = \<lparr>m_Seq = rec_Seq r, m_CPU = 0, m_Mem = 0, m_MemTotal = 0, m_NetRxBps = 0, m_NetTxBps = 0,
     m_NetRxDelta = rec_NodeRxDelta r, m_NetTxDelta = rec_NodeTxDelta r, m_FrpsUp = False,
     m_Proxies = map (\<lambda>p. \<lparr>tr_RemotePort = pd_RemotePort p, tr_Proto = pd_Proto p, tr_Status = pd_Status p, tr_DeltaIn = pd_In p, tr_DeltaOut = pd_Out p\<rparr>) (rec_Proxies r),
     m_SampledAt = rec_AtMs r, m_Backfill = True\<rparr>"

record replay_state =
  rp_sess :: session
  rp_cursor :: int
  rp_sent :: nat
  rp_ended :: bool

text \<open>The callback of \<^verbatim>\<open>Stream\<close>; \<open>room\<close> decides for each record whether it got into the queue in time.\<close>

definition replay_fn :: "(TrafficRec \<Rightarrow> bool) \<Rightarrow> int64 \<Rightarrow> TrafficRec \<Rightarrow> replay_state \<Rightarrow> bool \<times> replay_state" where
  "replay_fn room now r st =
     (case sendWait (room r) now TypeMetrics (PMetrics (replay_metrics r)) (rp_sess st) of
        (False, ss) \<Rightarrow> (False, st\<lparr>rp_sess := ss, rp_ended := True\<rparr>)
      | (True, ss) \<Rightarrow> (True, st\<lparr>rp_sess := ss, rp_cursor := rec_Seq r, rp_sent := rp_sent st + 1\<rparr>))"

text \<open>The rounds of \<^verbatim>\<open>backfill\<close>; \<open>wals i\<close> is the log as round \<open>i\<close> reads it, since sampling goes on.\<close>

fun backfill_rounds :: "nat \<Rightarrow> nat \<Rightarrow> (nat \<Rightarrow> WAL) \<Rightarrow> (TrafficRec \<Rightarrow> bool) \<Rightarrow> int64 \<Rightarrow> replay_state \<Rightarrow> replay_state" where
  "backfill_rounds 0 i wals room now st = st"
| "backfill_rounds (Suc k) i wals room now st =
     (let (err, st') = Stream (replay_fn room now) (rp_cursor st) (wals i) (st\<lparr>rp_sent := 0, rp_ended := False\<rparr>)
      in if err \<or> rp_ended st' \<or> rp_sent st' = 0 then st' else backfill_rounds k (Suc i) wals room now st')"

definition backfill :: "(nat \<Rightarrow> WAL) \<Rightarrow> (TrafficRec \<Rightarrow> bool) \<Rightarrow> int64 \<Rightarrow> int \<Rightarrow> session \<Rightarrow> session" where
  "backfill wals room now after ss =
     (let st = backfill_rounds maxBackfillRounds 0 wals room now \<lparr>rp_sess = ss, rp_cursor = after, rp_sent = 0, rp_ended = False\<rparr>
      in (rp_sess st)\<lparr>ss_ready := True\<rparr>)"

section \<open>Tunnel counters\<close>

definition traffic_of_proxy :: "(string, tunPrev) gomap \<Rightarrow> ProxyInfo \<Rightarrow> ProxyTraffic" where
  "traffic_of_proxy lt p =
     (let prev = mget zero_tun lt (tun_key p)
      in \<lparr>tr_RemotePort = pi_RemotePort p, tr_Proto = pi_Proto p, tr_Status = pi_Status p,
          tr_DeltaIn = tun_delta (pi_TodayIn p) (tp_in prev), tr_DeltaOut = tun_delta (pi_TodayOut p) (tp_out prev)\<rparr>)"

lemma fold_tun_step:
  "distinct (map tun_key ps) \<Longrightarrow>
   fst (snd (fold tun_step ps (lt, A, B))) = A @ map (traffic_of_proxy lt) ps \<and>
   map_of (fst (fold tun_step ps (lt, A, B))) k =
     (case map_of (map (\<lambda>p. (tun_key p, p)) ps) k of None \<Rightarrow> map_of lt k | Some p \<Rightarrow> Some \<lparr>tp_in = pi_TodayIn p, tp_out = pi_TodayOut p\<rparr>)"
proof (induction ps arbitrary: lt A B)
  case (Cons p ps)
  let ?lt = "AList.update (tun_key p) \<lparr>tp_in = pi_TodayIn p, tp_out = pi_TodayOut p\<rparr> lt"
  have "tun_key p' \<noteq> tun_key p" if "p' \<in> set ps" for p' using that Cons.prems by (metis distinct.simps(2) image_eqI list.simps(9) set_map)
  then have "traffic_of_proxy ?lt p' = traffic_of_proxy lt p'" if "p' \<in> set ps" for p'
    using that by (simp add: traffic_of_proxy_def mget_def gomap_simps)
  moreover have "map_of (map (\<lambda>p. (tun_key p, p)) ps) (tun_key p) = None" using Cons.prems by (auto simp: map_of_eq_None_iff)
  ultimately show ?case using Cons.IH[of ?lt] Cons.prems
    by (auto simp: tun_step_def Let_def traffic_of_proxy_def gomap_simps split: option.split)
qed simp

lemma tun_deltas_traffic:
  assumes "distinct (map tun_key ps)" shows "fst (snd (tun_deltas ps lt)) = map (traffic_of_proxy lt) ps"
  using fold_tun_step[OF assms, of lt "[]" "[]"] by (auto simp: tun_deltas_def split: prod.splits)

lemma tun_deltas_last:
  assumes "distinct (map tun_key ps)" "p \<in> set ps"
  shows "map_of (fst (tun_deltas ps lt)) (tun_key p) = Some \<lparr>tp_in = pi_TodayIn p, tp_out = pi_TodayOut p\<rparr>"
proof -
  have "map_of (map (\<lambda>p. (tun_key p, p)) ps) (tun_key p) = Some p"
    using assms by (intro map_of_is_SomeI) (auto simp: comp_def)
  then have "map_of (fst (fold tun_step ps (lt, [], []))) (tun_key p) = Some \<lparr>tp_in = pi_TodayIn p, tp_out = pi_TodayOut p\<rparr>"
    using fold_tun_step[OF assms(1), of lt "[]" "[]" "tun_key p"] by simp
  then show ?thesis using assms(2) by (auto simp: tun_deltas_def map_of_filter_key split: prod.splits)
qed

lemma tun_delta_same: "tun_delta x x = 0" "tun_delta x 0 = x"
  by (simp_all add: tun_delta_def)

section \<open>Authentication\<close>

lemma handleWS_Connected:
  "fst (handleWS hmac e sid s) = Connected \<longleftrightarrow>
     \<not> fst (auth_Blocked (we_ip e) (we_now e) (sv_limiter s)) \<and> we_upgrade e \<and>
     (\<exists>env. we_read e = FirstFrame (Some env) \<and> e_Type env = TypeHello \<and> Verify hmac env (cf_AgentToken (sv_cfg s)) (we_unix e) = None)"
  by (auto simp: handleWS_def Let_def split: prod.splits first_read.splits option.splits)

lemma handleWS_refused:
  "fst (handleWS hmac e sid s) \<noteq> Connected \<Longrightarrow> (snd (handleWS hmac e sid s))\<lparr>sv_limiter := l\<rparr> = s\<lparr>sv_limiter := l\<rparr>"
  by (auto simp: handleWS_def Let_def split: prod.splits first_read.splits option.splits)

section \<open>Properties\<close>

text \<open>
  C28: only the holder of the agent token drives an agent. A connection becomes a session if and only
  if its address is not banned and its first message is a hello that verifies under the token; any
  other connection leaves everything but the limiter as it was, and on a session a message that does
  not verify changes nothing.
\<close>
theorem agent_auth:
  "(fst (handleWS hmac e sid s) = Connected \<longleftrightarrow>
     \<not> fst (auth_Blocked (we_ip e) (we_now e) (sv_limiter s)) \<and> we_upgrade e \<and>
     (\<exists>env. we_read e = FirstFrame (Some env) \<and> e_Type env = TypeHello \<and> Verify hmac env (cf_AgentToken (sv_cfg s)) (we_unix e) = None)) \<and>
   (fst (handleWS hmac e sid s) \<noteq> Connected \<longrightarrow> (snd (handleWS hmac e sid s))\<lparr>sv_limiter := l\<rparr> = s\<lparr>sv_limiter := l\<rparr>) \<and>
   (Verify hmac env (cf_AgentToken (sv_cfg s)) (de_unix de) \<noteq> None \<longrightarrow> snd (reader_step hmac de sid (Some env) s) = (s, None))"
  using handleWS_Connected handleWS_refused
  by (auto simp: reader_step_def split: option.splits verify_error.splits)

definition ex_server :: Server where
  "ex_server = NewServer (fresh_config [] (ex_env ''k'') ex_opt) ex_disk None"

theorem agent_auth_witness:
  "fst (handleWS (\<lambda>t m. t @ m) \<lparr>we_ip = [], we_now = 0, we_unix = 0, we_upgrade = True, we_read = FirstFrame None, we_hello = undefined,
     we_binver = [], we_version = []\<rparr> 1 ex_server) \<noteq> Connected"
  using agent_auth[of "\<lambda>t m. t @ m" "\<lparr>we_ip = [], we_now = 0, we_unix = 0, we_upgrade = True, we_read = FirstFrame None, we_hello = undefined,
     we_binver = [], we_version = []\<rparr>" 1 ex_server] by auto

text \<open>
  A restart of the agent counts the tunnel traffic of the day again. While the agent runs, a
  sample with unchanged frps counters adds nothing; but the last counters are only in memory, so the
  first sample of the restarted agent reports the whole counter of the day as new traffic, although
  the agent before had reported it already.
\<close>
theorem restart_recounts_tunnels:
  assumes "distinct (map tun_key ps)"
  shows "map tr_DeltaIn (fst (snd (tun_deltas ps (fst (tun_deltas ps lt))))) = replicate (length ps) 0 \<and>
    map tr_DeltaIn (fst (snd (tun_deltas ps (sv_lastTun (NewServer cfg disk file))))) = map pi_TodayIn ps"
proof -
  have "tr_DeltaIn (traffic_of_proxy (fst (tun_deltas ps lt)) p) = 0" if "p \<in> set ps" for p
    using tun_deltas_last[OF assms that, of lt] by (simp add: traffic_of_proxy_def mget_def tun_delta_same Let_def)
  then show ?thesis
    by (auto simp: tun_deltas_traffic[OF assms] NewServer_def traffic_of_proxy_def[of "[]"] mget_def zero_tun_def tun_delta_same
        intro!: replicate_eqI)
qed

theorem restart_recounts_tunnels_witness:
  "map tr_DeltaIn (fst (snd (tun_deltas [\<lparr>pi_Name = ''m1_n1'', pi_Proto = ''tcp'', pi_RemotePort = 6000, pi_Status = ''online'', pi_TodayIn = 900, pi_TodayOut = 5\<rparr>]
     (sv_lastTun ex_server)))) = [900]"
  using restart_recounts_tunnels[of "[\<lparr>pi_Name = ''m1_n1'', pi_Proto = ''tcp'', pi_RemotePort = 6000, pi_Status = ''online'', pi_TodayIn = 900, pi_TodayOut = 5\<rparr>]"]
  by (simp add: ex_server_def)

end
