(* ===== verification/Replay.thy ===== *)
theory Replay
  imports Agent Metrics
begin

text \<open>
  The replay of the traffic log to a reconnecting panel (\<^verbatim>\<open>backfill\<close> and \<^verbatim>\<open>fanout\<close> of
  \<^verbatim>\<open>internal/agent/server.go\<close>). First the sequential behaviour of \<^verbatim>\<open>backfill\<close>: it sends the records
  above the watermark without a gap, whatever happens to the session. Then the interleaving of the
  replay with sampling and the writer as a step relation (\<open>link_step\<close>): messages of a session are in
  ascending order in every reachable state, and the states in which a sample is lost.
\<close>

section \<open>The sequential replay\<close>

abbreviation above :: "int \<Rightarrow> TrafficRec list \<Rightarrow> TrafficRec list" where
  "above k rs \<equiv> filter (\<lambda>r. k < rec_Seq r) rs"

abbreviation ascending :: "TrafficRec list \<Rightarrow> bool" where
  "ascending rs \<equiv> sorted_wrt (\<lambda>r r'. rec_Seq r < rec_Seq r') rs"

definition replay_msg :: "int64 \<Rightarrow> TrafficRec \<Rightarrow> out_msg" where
  "replay_msg now r = sign now TypeMetrics [] (PMetrics (replay_metrics r))"

definition cursor_of :: "int \<Rightarrow> TrafficRec list \<Rightarrow> int" where
  "cursor_of k rs = (if rs = [] then k else rec_Seq (last rs))"

definition accepts :: "(TrafficRec \<Rightarrow> bool) \<Rightarrow> session \<Rightarrow> TrafficRec \<Rightarrow> bool" where
  "accepts room ss r \<longleftrightarrow> \<not> ss_done ss \<and> room r"

lemma accepts_send [simp]: "accepts room (ss\<lparr>ss_send := x\<rparr>) = accepts room ss"
  by (simp add: accepts_def fun_eq_iff)

lemma feed_replay:
  "feed (replay_fn room now) rs st =
     (let S = takeWhile (accepts room (rp_sess st)) rs
      in (S \<noteq> rs, st\<lparr>rp_sess := (rp_sess st)\<lparr>ss_send := ss_send (rp_sess st) @ map (replay_msg now) S\<rparr>,
           rp_cursor := cursor_of (rp_cursor st) S, rp_sent := rp_sent st + length S, rp_ended := (rp_ended st \<or> S \<noteq> rs)\<rparr>))"
proof (induction rs arbitrary: st)
  case (Cons r rs)
  let ?st = "st\<lparr>rp_sess := (rp_sess st)\<lparr>ss_send := ss_send (rp_sess st) @ [replay_msg now r]\<rparr>, rp_cursor := rec_Seq r, rp_sent := rp_sent st + 1\<rparr>"
  show ?case
  proof (cases "accepts room (rp_sess st) r")
    case True
    then have "replay_fn room now r st = (True, ?st)" by (simp add: replay_fn_def sendWait_def accepts_def replay_msg_def)
    then show ?thesis using Cons.IH[of ?st] True by (simp add: Let_def cursor_of_def)
  next
    case False
    then have "replay_fn room now r st = (False, st\<lparr>rp_ended := True\<rparr>)" by (auto simp: replay_fn_def sendWait_def accepts_def)
    then show ?thesis using False by (simp add: cursor_of_def)
  qed
qed (simp add: cursor_of_def)

text \<open>What is above the cursor after sending an initial part of the records above the watermark.\<close>

lemma above_cursor:
  assumes "ascending rs" "above k rs = S @ T"
  shows "above (cursor_of k S) rs = T"
proof (cases "S = []")
  case False
  have asc: "ascending (S @ T)" using assms sorted_wrt_filter by metis
  have "last S \<in> set (above k rs)" using False by (simp add: assms(2))
  then have "k < rec_Seq (last S)" by simp
  then have "above (cursor_of k S) rs = above (cursor_of k S) (above k rs)" using False by (auto simp: cursor_of_def intro: filter_cong)
  also have "\<dots> = above (rec_Seq (last S)) S @ above (rec_Seq (last S)) T" using False by (simp add: assms(2) cursor_of_def)
  also have "above (rec_Seq (last S)) T = T" using asc False last_in_set[of S] by (auto simp: sorted_wrt_append intro!: filter_True)
  also have "above (rec_Seq (last S)) S = []"
  proof -
    have "rec_Seq r \<le> rec_Seq (last S)" if "r \<in> set S" for r
    proof -
      have "sorted_wrt (\<lambda>r r'. rec_Seq r < rec_Seq r') (butlast S @ [last S])" using asc False by (simp add: sorted_wrt_append)
      moreover have "r \<in> set (butlast S) \<or> r = last S" using that False by (metis append_butlast_last_id insert_iff list.set(2) rotate1.simps(2) set_rotate1)
      ultimately show ?thesis by (auto simp: sorted_wrt_append)
    qed
    then show ?thesis by (auto simp: filter_empty_conv not_less)
  qed
  finally show ?thesis by simp
qed (use assms in \<open>simp add: cursor_of_def\<close>)

text \<open>The logs the rounds read: sampling only appends.\<close>

definition growing :: "(nat \<Rightarrow> WAL) \<Rightarrow> (nat \<Rightarrow> TrafficRec list) \<Rightarrow> bool" where
  "growing wals rss \<longleftrightarrow> (\<forall>i. wal_inv (wals i) (rss i) \<and> prefix (rss i) (rss (Suc i)))"

definition after_replay :: "session \<Rightarrow> int64 \<Rightarrow> TrafficRec list \<Rightarrow> session" where
  "after_replay ss now S = ss\<lparr>ss_send := ss_send ss @ map (replay_msg now) S\<rparr>"

lemma backfill_round:
  assumes "wal_inv w rs" "above k rs = S @ T" "rp_sess st = after_replay ss now S" "rp_cursor st = cursor_of k S"
    and "U = takeWhile (accepts room ss) T"
  shows "Stream (replay_fn room now) (rp_cursor st) w (st\<lparr>rp_sent := 0, rp_ended := False\<rparr>) =
    (False, st\<lparr>rp_sess := after_replay ss now (S @ U), rp_cursor := cursor_of k (S @ U), rp_sent := length U, rp_ended := (U \<noteq> T)\<rparr>)"
proof -
  have "above (rp_cursor st) rs = T" using above_cursor[of rs k S T] assms by (simp add: wal_inv_def)
  moreover have "accepts room (rp_sess st) = accepts room ss" by (simp add: assms(3) accepts_def after_replay_def fun_eq_iff)
  moreover have "cursor_of (cursor_of k S) U = cursor_of k (S @ U)" by (simp add: cursor_of_def)
  ultimately show ?thesis
    using Stream_text[of w rs "replay_fn room now" "rp_cursor st" "st\<lparr>rp_sent := 0, rp_ended := False\<rparr>"] assms(1)
    by (simp add: wal_inv_def feed_replay Let_def assms(3-5) after_replay_def)
qed

lemma backfill_rounds_sends:
  assumes "growing wals rss" "prefix S (above k (rss i))" "rp_sess st = after_replay ss now S" "rp_cursor st = cursor_of k S" "0 < n"
  shows "\<exists>j U. j < i + n \<and> prefix U (above k (rss j)) \<and> rp_sess (backfill_rounds n i wals room now st) = after_replay ss now U \<and>
    ((\<forall>r. accepts room ss r) \<longrightarrow> U = above k (rss j))"
  using assms(2-)
proof (induction n arbitrary: i S st)
  case (Suc n)
  obtain T where T: "above k (rss i) = S @ T" using Suc.prems(1) by (auto simp: prefix_def)
  define U where "U = takeWhile (accepts room ss) T"
  define st' where "st' = st\<lparr>rp_sess := after_replay ss now (S @ U), rp_cursor := cursor_of k (S @ U), rp_sent := length U, rp_ended := (U \<noteq> T)\<rparr>"
  have wi: "wal_inv (wals i) (rss i)" "prefix (rss i) (rss (Suc i))" using assms(1) by (auto simp: growing_def)
  have st: "Stream (replay_fn room now) (rp_cursor st) (wals i) (st\<lparr>rp_sent := 0, rp_ended := False\<rparr>) = (False, st')"
    unfolding st'_def U_def by (rule backfill_round[OF wi(1) T Suc.prems(2,3) refl])
  have U: "prefix (S @ U) (above k (rss i))" unfolding T U_def by (simp add: takeWhile_is_prefix)
  have all: "(\<forall>r. accepts room ss r) \<longrightarrow> S @ U = above k (rss i)" by (auto simp: T U_def takeWhile_eq_all_conv)
  show ?case
  proof (cases "rp_ended st' \<or> rp_sent st' = 0 \<or> n = 0")
    case True
    then have "backfill_rounds (Suc n) i wals room now st = st'" by (auto simp: st)
    then show ?thesis using U all by (intro exI[of _ i] exI[of _ "S @ U"]) (simp add: st'_def)
  next
    case False
    then have b: "backfill_rounds (Suc n) i wals room now st = backfill_rounds n (Suc i) wals room now st'" by (simp add: st)
    have "prefix (above k (rss i)) (above k (rss (Suc i)))" using wi(2) by (auto simp: prefix_def)
    then have "prefix (S @ U) (above k (rss (Suc i)))" using U prefix_order.trans by blast
    from Suc.IH[OF this, of st'] False show ?thesis unfolding b by (simp add: st'_def)
  qed
qed simp

section \<open>Interleaving\<close>

text \<open>
  A session while the agent goes on sampling. \<open>lk_log\<close> are the records of the log, \<open>lk_fan\<close> a sample
  that is in the log and not yet offered to the sessions (the two statements of
  \<^verbatim>\<open>sampleAndBroadcast\<close> are not atomic), \<open>lk_queue\<close> and \<open>lk_sent\<close> the sequence numbers queued and
  written, and \<open>lk_phase\<close> where the replay goroutine is: in a round (the log is read from
  position \<open>pos\<close> on, \<open>base\<close> is the cursor at the start of the round), after its last round but before
  the deferred \<^verbatim>\<open>ready.Store(true)\<close>, or finished.
\<close>

datatype phase = Round nat int nat nat | Leaving | Finished

record link =
  lk_log :: "int list"
  lk_fan :: "int option"
  lk_queue :: "int list"
  lk_sent :: "int list"
  lk_cursor :: int
  lk_phase :: phase

text \<open>The positional arguments of \<open>Round\<close>: round number, \<open>base\<close>, \<open>pos\<close>, records sent in the round.\<close>

inductive link_step :: "link \<Rightarrow> link \<Rightarrow> bool" where
  append: "lk_fan s = None \<Longrightarrow> n = (if lk_log s = [] then 1 else last (lk_log s) + 1) \<Longrightarrow>
     link_step s (s\<lparr>lk_log := lk_log s @ [n], lk_fan := Some n\<rparr>)"
| fan_live: "lk_fan s = Some n \<Longrightarrow> lk_phase s = Finished \<Longrightarrow> length (lk_queue s) < sendBuffer \<Longrightarrow>
     link_step s (s\<lparr>lk_fan := None, lk_queue := lk_queue s @ [n]\<rparr>)"
| fan_full: "lk_fan s = Some n \<Longrightarrow> lk_phase s = Finished \<Longrightarrow> sendBuffer \<le> length (lk_queue s) \<Longrightarrow>
     link_step s (s\<lparr>lk_fan := None\<rparr>)"
| fan_gated: "lk_fan s = Some n \<Longrightarrow> lk_phase s \<noteq> Finished \<Longrightarrow> link_step s (s\<lparr>lk_fan := None\<rparr>)"
| written: "lk_queue s = n # ns \<Longrightarrow> link_step s (s\<lparr>lk_queue := ns, lk_sent := lk_sent s @ [n]\<rparr>)"
| skip: "lk_phase s = Round rd base pos k \<Longrightarrow> pos < length (lk_log s) \<Longrightarrow> lk_log s ! pos \<le> base \<Longrightarrow>
     link_step s (s\<lparr>lk_phase := Round rd base (Suc pos) k\<rparr>)"
| replay: "lk_phase s = Round rd base pos k \<Longrightarrow> pos < length (lk_log s) \<Longrightarrow> base < lk_log s ! pos \<Longrightarrow> length (lk_queue s) < sendBuffer \<Longrightarrow>
     link_step s (s\<lparr>lk_queue := lk_queue s @ [lk_log s ! pos], lk_cursor := lk_log s ! pos, lk_phase := Round rd base (Suc pos) (Suc k)\<rparr>)"
| again: "lk_phase s = Round rd base pos k \<Longrightarrow> pos = length (lk_log s) \<Longrightarrow> 0 < k \<Longrightarrow> Suc rd < maxBackfillRounds \<Longrightarrow>
     link_step s (s\<lparr>lk_phase := Round (Suc rd) (lk_cursor s) 0 0\<rparr>)"
| leave: "lk_phase s = Round rd base pos k \<Longrightarrow> pos = length (lk_log s) \<Longrightarrow> k = 0 \<or> Suc rd = maxBackfillRounds \<Longrightarrow>
     link_step s (s\<lparr>lk_phase := Leaving\<rparr>)"
| interrupt: "lk_phase s = Round rd base pos k \<Longrightarrow> link_step s (s\<lparr>lk_phase := Leaving\<rparr>)"
| ready: "lk_phase s = Leaving \<Longrightarrow> link_step s (s\<lparr>lk_phase := Finished\<rparr>)"

text \<open>
  The steps are those of the server's session: offering a sample (\<open>fanout\<close>) and queueing a replayed
  record (\<open>sendWait\<close>) are steps of the link whose queue holds the sequence numbers of the messages.
\<close>

definition msg_seq :: "out_msg \<Rightarrow> int" where
  "msg_seq m = (case om_Payload m of PMetrics x \<Rightarrow> m_Seq x | _ \<Rightarrow> 0)"

definition represents :: "link \<Rightarrow> session \<Rightarrow> bool" where
  "represents l ss \<longleftrightarrow> lk_queue l = map msg_seq (ss_send ss) \<and> (ss_ready ss \<longleftrightarrow> lk_phase l = Finished)"

lemma msg_seq_sign [simp]: "msg_seq (sign now typ i (PMetrics m)) = m_Seq m"
  by (simp add: msg_seq_def sign_def)

lemma fanout_simulates:
  assumes "represents l ss" "lk_fan l = Some (m_Seq m)" "(sid, ss) \<in> set (sv_sessions s)"
  shows "\<exists>l' ss'. (sid, ss') \<in> set (sv_sessions (fanout now TypeMetrics (PMetrics m) True s)) \<and> link_step l l' \<and> represents l' ss'"
proof -
  define ss' where "ss' = (if \<not> ss_ready ss then ss else send_or_drop (sign now TypeMetrics [] (PMetrics m)) ss)"
  have "(sid, ss') \<in> set (sv_sessions (fanout now TypeMetrics (PMetrics m) True s))"
    using assms(3) by (force simp: fanout_def ss'_def)
  moreover have "\<exists>l'. link_step l l' \<and> represents l' ss'"
  proof (cases "ss_ready ss")
    case True
    then have fin: "lk_phase l = Finished" using assms(1) by (simp add: represents_def)
    have len: "length (lk_queue l) = length (ss_send ss)" using assms(1) by (simp add: represents_def)
    show ?thesis
    proof (cases "length (ss_send ss) < sendBuffer")
      case room: True
      have "link_step l (l\<lparr>lk_fan := None, lk_queue := lk_queue l @ [m_Seq m]\<rparr>)" using fan_live[OF assms(2) fin] room len by simp
      moreover have "represents (l\<lparr>lk_fan := None, lk_queue := lk_queue l @ [m_Seq m]\<rparr>) ss'"
        using assms(1) True room by (simp add: represents_def ss'_def send_or_drop_def)
      ultimately show ?thesis by blast
    next
      case False
      have "link_step l (l\<lparr>lk_fan := None\<rparr>)" using fan_full[OF assms(2) fin] False len by simp
      moreover have "represents (l\<lparr>lk_fan := None\<rparr>) ss'" using assms(1) True False by (simp add: represents_def ss'_def send_or_drop_def)
      ultimately show ?thesis by blast
    qed
  next
    case False
    then have "link_step l (l\<lparr>lk_fan := None\<rparr>)" using fan_gated[OF assms(2)] assms(1) by (simp add: represents_def)
    moreover have "represents (l\<lparr>lk_fan := None\<rparr>) ss'" using assms(1) False by (simp add: represents_def ss'_def)
    ultimately show ?thesis by blast
  qed
  ultimately show ?thesis by blast
qed

lemma sendWait_simulates:
  assumes "represents l ss" "lk_phase l = Round rd base pos k" "pos < length (lk_log l)" "lk_log l ! pos = rec_Seq r" "base < rec_Seq r"
    "room \<Longrightarrow> length (ss_send ss) < sendBuffer" "sendWait room now TypeMetrics (PMetrics (replay_metrics r)) ss = (True, ss')"
  shows "\<exists>l'. link_step l l' \<and> represents l' ss' \<and> lk_cursor l' = rec_Seq r"
proof -
  have ss': "room" "ss' = ss\<lparr>ss_send := ss_send ss @ [sign now TypeMetrics [] (PMetrics (replay_metrics r))]\<rparr>"
    using assms(7) by (auto simp: sendWait_def split: if_splits)
  have "length (lk_queue l) < sendBuffer" using assms(1,6) ss'(1) by (simp add: represents_def)
  from replay[OF assms(2,3) _ this] assms(4,5)
  have "link_step l (l\<lparr>lk_queue := lk_queue l @ [rec_Seq r], lk_cursor := rec_Seq r, lk_phase := Round rd base (Suc pos) (Suc k)\<rparr>)" by simp
  moreover have "represents (l\<lparr>lk_queue := lk_queue l @ [rec_Seq r], lk_cursor := rec_Seq r, lk_phase := Round rd base (Suc pos) (Suc k)\<rparr>) ss'"
    using assms(1,2) ss'(2) by (simp add: represents_def replay_metrics_def)
  ultimately show ?thesis by (intro exI conjI) auto
qed

text \<open>A session starts with the log of the moment and the watermark of the panel.\<close>

definition link_start :: "int \<Rightarrow> int list \<Rightarrow> link" where
  "link_start after xs = \<lparr>lk_log = xs, lk_fan = None, lk_queue = [], lk_sent = [], lk_cursor = after, lk_phase = Round 0 after 0 0\<rparr>"

inductive link_reach :: "int \<Rightarrow> link \<Rightarrow> bool" for after where
  start: "sorted_wrt (<) xs \<Longrightarrow> link_reach after (link_start after xs)"
| step: "link_reach after s \<Longrightarrow> link_step s s' \<Longrightarrow> link_reach after s'"

abbreviation delivered :: "link \<Rightarrow> int list" where
  "delivered s \<equiv> lk_sent s @ lk_queue s"

text \<open>
  The invariant. During the rounds the delivered numbers are exactly the logged ones between the
  watermark and the cursor; the part of the log a round has passed is at most the cursor, and what is
  ahead and above the base is above the cursor.
\<close>

definition round_inv :: "int \<Rightarrow> link \<Rightarrow> int \<Rightarrow> nat \<Rightarrow> bool" where
  "round_inv after s base pos \<longleftrightarrow> pos \<le> length (lk_log s) \<and> after \<le> base \<and> base \<le> lk_cursor s \<and>
     (lk_cursor s = after \<or> lk_cursor s \<in> set (lk_log s)) \<and>
     (\<forall>x\<in>set (take pos (lk_log s)). x \<le> lk_cursor s) \<and> (\<forall>x\<in>set (drop pos (lk_log s)). base < x \<longrightarrow> lk_cursor s < x) \<and>
     set (delivered s) = {x \<in> set (lk_log s). after < x \<and> x \<le> lk_cursor s} \<and> distinct (delivered s)"

definition link_inv :: "int \<Rightarrow> link \<Rightarrow> bool" where
  "link_inv after s \<longleftrightarrow> sorted_wrt (<) (lk_log s) \<and> (\<forall>n. lk_fan s = Some n \<longrightarrow> lk_log s \<noteq> [] \<and> n = last (lk_log s)) \<and>
     sorted (delivered s) \<and> set (delivered s) \<subseteq> set (lk_log s) \<and>
     (\<forall>rd base pos k. lk_phase s = Round rd base pos k \<longrightarrow> round_inv after s base pos)"

lemma sorted_last: "sorted_wrt (<) (xs :: int list) \<Longrightarrow> x \<in> set xs \<Longrightarrow> x \<le> last xs"
  by (induction xs) (auto simp: less_imp_le)

lemma sorted_snoc: "sorted (xs @ [x :: int]) \<longleftrightarrow> sorted xs \<and> (\<forall>y\<in>set xs. y \<le> x)"
  by (auto simp: sorted_wrt_append)

lemma link_inv_append:
  assumes "link_inv after s" "n = (if lk_log s = [] then 1 else last (lk_log s) + 1)"
  shows "link_inv after (s\<lparr>lk_log := lk_log s @ [n], lk_fan := Some n\<rparr>)"
proof -
  have n: "\<forall>x\<in>set (lk_log s). x < n" using assms sorted_last[of "lk_log s"] by (auto simp: link_inv_def)
  have "round_inv after (s\<lparr>lk_log := lk_log s @ [n], lk_fan := Some n\<rparr>) base pos" if "round_inv after s base pos" for base pos
    using that n by (auto simp: round_inv_def)
  then show ?thesis using assms n by (auto simp: link_inv_def sorted_wrt_append)
qed

lemma link_inv_replay:
  assumes "link_inv after s" "lk_phase s = Round rd base pos k" "pos < length (lk_log s)" "base < lk_log s ! pos"
  shows "link_inv after (s\<lparr>lk_queue := lk_queue s @ [lk_log s ! pos], lk_cursor := lk_log s ! pos, lk_phase := Round rd base (Suc pos) (Suc k)\<rparr>)"
proof -
  let ?x = "lk_log s ! pos"
  have ri: "round_inv after s base pos" and asc: "sorted_wrt (<) (lk_log s)" using assms by (auto simp: link_inv_def)
  have d: "drop pos (lk_log s) = ?x # drop (Suc pos) (lk_log s)" using assms(3) by (simp add: Cons_nth_drop_Suc)
  have c: "lk_cursor s < ?x" using ri assms(4) d by (auto simp: round_inv_def)
  have split: "lk_log s = take pos (lk_log s) @ ?x # drop (Suc pos) (lk_log s)" using assms(3) by (simp add: id_take_nth_drop)
  then have up: "\<forall>y\<in>set (take pos (lk_log s)). y < ?x" "\<forall>y\<in>set (drop (Suc pos) (lk_log s)). ?x < y"
    using asc by (metis sorted_wrt_append list.set_intros(1), metis sorted_wrt_append sorted_wrt.simps(2))
  have "y \<in> set (lk_log s) \<Longrightarrow> y \<le> ?x \<longleftrightarrow> y \<le> lk_cursor s \<or> y = ?x" for y
    using up c ri split by (metis (no_types, lifting) Un_iff insert_iff leD less_imp_le list.set(2) not_less order.trans round_inv_def set_append)
  moreover have "set (delivered s) = {x \<in> set (lk_log s). after < x \<and> x \<le> lk_cursor s}" "after \<le> lk_cursor s" using ri by (auto simp: round_inv_def)
  moreover have "?x \<in> set (lk_log s)" using assms(3) by simp
  ultimately have "set (delivered s @ [?x]) = {x \<in> set (lk_log s). after < x \<and> x \<le> ?x}" "?x \<notin> set (delivered s)" "\<forall>y\<in>set (delivered s). y \<le> ?x"
    using c by auto
  moreover have "\<forall>x\<in>set (take (Suc pos) (lk_log s)). x \<le> ?x" using up assms(3) by (auto simp: take_Suc_conv_app_nth less_imp_le)
  moreover have "\<forall>x\<in>set (delivered s). x \<le> ?x \<Longrightarrow> sorted (delivered s @ [?x])" using assms(1) by (simp add: link_inv_def sorted_wrt_append)
  ultimately show ?thesis
    using assms(1,3) ri up(2) c by (auto simp: link_inv_def round_inv_def)
qed

lemma link_inv_fan: "link_inv after s \<Longrightarrow> link_inv after (s\<lparr>lk_fan := None\<rparr>)"
  by (auto simp: link_inv_def round_inv_def)

lemma link_inv_written:
  assumes "link_inv after s" "lk_queue s = n # ns" shows "link_inv after (s\<lparr>lk_queue := ns, lk_sent := lk_sent s @ [n]\<rparr>)"
proof -
  have "delivered (s\<lparr>lk_queue := ns, lk_sent := lk_sent s @ [n]\<rparr>) = delivered s" using assms(2) by simp
  then show ?thesis using assms(1) unfolding link_inv_def round_inv_def by simp
qed

lemma link_inv_fan_live:
  assumes "link_inv after s" "lk_fan s = Some n" "lk_phase s = Finished"
  shows "link_inv after (s\<lparr>lk_fan := None, lk_queue := lk_queue s @ [n]\<rparr>)"
proof -
  have n: "lk_log s \<noteq> []" "n = last (lk_log s)" using assms(1,2) by (auto simp: link_inv_def)
  moreover have "sorted (delivered s @ [n])"
    unfolding sorted_snoc using assms(1) n(2) sorted_last[of "lk_log s"] by (auto simp: link_inv_def)
  ultimately show ?thesis using assms(1,3) by (auto simp: link_inv_def)
qed

lemma link_inv_skip:
  assumes "link_inv after s" "lk_phase s = Round rd base pos k" "pos < length (lk_log s)" "lk_log s ! pos \<le> base"
  shows "link_inv after (s\<lparr>lk_phase := Round rd base (Suc pos) k\<rparr>)"
proof -
  have ri: "round_inv after s base pos" using assms(1,2) by (simp add: link_inv_def)
  have "\<forall>x\<in>set (take (Suc pos) (lk_log s)). x \<le> lk_cursor s"
    using ri assms(3,4) by (auto simp: round_inv_def take_Suc_conv_app_nth)
  moreover have "set (drop (Suc pos) (lk_log s)) \<subseteq> set (drop pos (lk_log s))" by (simp add: set_drop_subset_set_drop)
  ultimately have "round_inv after (s\<lparr>lk_phase := Round rd base (Suc pos) k\<rparr>) base (Suc pos)"
    using ri assms(3) by (auto simp: round_inv_def)
  then show ?thesis using assms(1) by (simp add: link_inv_def)
qed

lemma link_inv_again:
  assumes "link_inv after s" "lk_phase s = Round rd base pos k"
  shows "link_inv after (s\<lparr>lk_phase := Round (Suc rd) (lk_cursor s) 0 0\<rparr>)"
proof -
  have "round_inv after s base pos" using assms by (simp add: link_inv_def)
  then have "round_inv after (s\<lparr>lk_phase := Round (Suc rd) (lk_cursor s) 0 0\<rparr>) (lk_cursor s) 0" by (auto simp: round_inv_def)
  then show ?thesis using assms(1) by (simp add: link_inv_def)
qed

lemma link_inv_phase: "link_inv after s \<Longrightarrow> p = Leaving \<or> p = Finished \<Longrightarrow> link_inv after (s\<lparr>lk_phase := p\<rparr>)"
  by (auto simp: link_inv_def)

lemmas link_inv_intros = link_inv_append link_inv_replay link_inv_fan link_inv_written link_inv_fan_live link_inv_skip link_inv_again link_inv_phase

lemma link_inv_step: "link_step s s' \<Longrightarrow> link_inv after s \<Longrightarrow> link_inv after s'"
proof (induction rule: link_step.induct)
  case (append s n)
  then show ?case using link_inv_append by blast
qed (auto intro: link_inv_intros)

lemma link_reach_inv: "link_reach after s \<Longrightarrow> link_inv after s"
proof (induction rule: link_reach.induct)
  case (start xs)
  then show ?case by (auto simp: link_inv_def round_inv_def link_start_def)
qed (rule link_inv_step)


section \<open>When nothing is lost\<close>

text \<open>
  A step is calm unless it is one of three: a sample appended between the end of the last round and
  the opening of the gate, a replay that ends inside a round, a live sample dropped on a full queue.
\<close>

definition calm :: "link \<Rightarrow> link \<Rightarrow> bool" where
  "calm s s' \<longleftrightarrow> (lk_phase s = Leaving \<longrightarrow> lk_log s' = lk_log s) \<and>
     (lk_phase s' = Leaving \<and> lk_phase s \<noteq> Leaving \<longrightarrow> (\<exists>rd base k. lk_phase s = Round rd base (length (lk_log s)) k)) \<and>
     (lk_phase s = Finished \<and> lk_fan s \<noteq> None \<and> lk_fan s' = None \<longrightarrow> length (lk_queue s) < sendBuffer)"

inductive link_calm :: "int \<Rightarrow> link \<Rightarrow> bool" for after where
  calm_start: "sorted_wrt (<) xs \<Longrightarrow> link_calm after (link_start after xs)"
| calm_step: "link_calm after s \<Longrightarrow> link_step s s' \<Longrightarrow> calm s s' \<Longrightarrow> link_calm after s'"

lemma link_calm_reach: "link_calm after s \<Longrightarrow> link_reach after s"
  by (induction rule: link_calm.induct) (auto intro: link_reach.intros)

definition complete :: "int \<Rightarrow> link \<Rightarrow> bool" where
  "complete after s \<longleftrightarrow>
     (lk_phase s = Leaving \<longrightarrow> (\<forall>x\<in>set (lk_log s). after < x \<longrightarrow> x \<in> set (delivered s))) \<and>
     (lk_phase s = Finished \<longrightarrow> (\<forall>x\<in>set (lk_log s). after < x \<longrightarrow> x \<in> set (delivered s) \<or> lk_fan s = Some x))"

lemma round_complete:
  "link_inv after s \<Longrightarrow> lk_phase s = Round rd base (length (lk_log s)) k \<Longrightarrow> x \<in> set (lk_log s) \<Longrightarrow> after < x \<Longrightarrow> x \<in> set (delivered s)"
  by (auto simp: link_inv_def round_inv_def)

lemma complete_step:
  "link_step s s' \<Longrightarrow> calm s s' \<Longrightarrow> link_inv after s \<Longrightarrow> complete after s \<Longrightarrow> complete after s'"
proof (induction rule: link_step.induct)
  case (leave s rd base pos k)
  then show ?case using round_complete[of after s rd base k] by (auto simp: complete_def)
next
  case (interrupt s rd base pos k)
  then show ?case using round_complete[of after s rd base k] by (auto simp: complete_def calm_def)
qed (auto simp: complete_def calm_def link_inv_def)

lemma link_calm_complete: "link_calm after s \<Longrightarrow> complete after s"
proof (induction rule: link_calm.induct)
  case (calm_step s s')
  then show ?case using complete_step link_reach_inv link_calm_reach by blast
qed (simp add: complete_def link_start_def)

section \<open>Properties\<close>

text \<open>
  C10: a replay has no gap. Over logs that only grow while the rounds read them, \<^verbatim>\<open>backfill\<close> queues an
  initial part of the records above the panel's watermark, in order and each once, whatever ends it;
  it queues all of them when the session stays up and the queue gets room; it runs at most 24 rounds
  and always leaves the session open for live samples.
\<close>
theorem backfill_delivers:
  assumes "growing wals rss"
  shows "\<exists>j<maxBackfillRounds. \<exists>U. prefix U (filter (\<lambda>r. after < rec_Seq r) (rss j)) \<and>
    backfill wals room now after ss = ss\<lparr>ss_send := ss_send ss @ map (\<lambda>r. sign now TypeMetrics [] (PMetrics (replay_metrics r))) U, ss_ready := True\<rparr> \<and>
    (\<not> ss_done ss \<and> (\<forall>r. room r) \<longrightarrow> U = filter (\<lambda>r. after < rec_Seq r) (rss j))"
proof -
  let ?st = "\<lparr>rp_sess = ss, rp_cursor = after, rp_sent = 0, rp_ended = False\<rparr>"
  have m: "replay_msg now = (\<lambda>r. sign now TypeMetrics [] (PMetrics (replay_metrics r)))" by (simp add: replay_msg_def fun_eq_iff)
  have "rp_sess ?st = after_replay ss now []" "rp_cursor ?st = cursor_of after []" "0 < maxBackfillRounds"
    by (simp_all add: after_replay_def cursor_of_def maxBackfillRounds_def)
  from backfill_rounds_sends[OF assms Nil_prefix[of "above after (rss 0)"] this, of room] obtain j U
    where "j < maxBackfillRounds" "prefix U (above after (rss j))" "rp_sess (backfill_rounds maxBackfillRounds 0 wals room now ?st) = after_replay ss now U"
      "(\<forall>r. accepts room ss r) \<longrightarrow> U = above after (rss j)" by auto
  then show ?thesis
    by (intro exI[of _ j] conjI exI[of _ U]) (auto simp: backfill_def after_replay_def m accepts_def)
qed


text \<open>
  Nothing is lost on a calm session. If no sample falls between the last round and the opening of
  the gate, the replay is not cut off and no live sample meets a full queue, then on a live session
  every logged sample above the panel's watermark has been sent or queued, or is about to be.
\<close>
theorem session_complete:
  assumes "link_calm after s" "lk_phase s = Finished" "x \<in> set (lk_log s)" "after < x"
  shows "x \<in> set (lk_sent s @ lk_queue s) \<or> lk_fan s = Some x"
  using link_calm_complete[OF assms(1)] assms(2-4) by (simp add: complete_def)

definition ex_link :: "int list \<Rightarrow> int option \<Rightarrow> int list \<Rightarrow> int list \<Rightarrow> phase \<Rightarrow> link" where
  "ex_link l f qu w p = \<lparr>lk_log = l, lk_fan = f, lk_queue = qu, lk_sent = w, lk_cursor = 0, lk_phase = p\<rparr>"

lemma ex_link_simps:
  "lk_log (ex_link l f qu w p) = l" "lk_fan (ex_link l f qu w p) = f" "lk_queue (ex_link l f qu w p) = qu" "lk_sent (ex_link l f qu w p) = w"
  "lk_phase (ex_link l f qu w p) = p" "(ex_link l f qu w p)\<lparr>lk_log := l'\<rparr> = ex_link l' f qu w p" "(ex_link l f qu w p)\<lparr>lk_fan := f'\<rparr> = ex_link l f' qu w p"
  "(ex_link l f qu w p)\<lparr>lk_queue := qu'\<rparr> = ex_link l f qu' w p" "(ex_link l f qu w p)\<lparr>lk_sent := w'\<rparr> = ex_link l f qu w' p"
  "(ex_link l f qu w p)\<lparr>lk_phase := p'\<rparr> = ex_link l f qu w p'"
  by (simp_all add: ex_link_def)

lemma ex_calm_live: "link_calm 0 (ex_link [] None [] [] Finished)"
proof -
  have "link_calm 0 (ex_link [] None [] [] (Round 0 0 0 0))" using link_calm.calm_start[of "[]" 0] by (simp add: link_start_def ex_link_def)
  moreover have "link_step (ex_link [] None [] [] (Round 0 0 0 0)) (ex_link [] None [] [] Leaving)"
    using link_step.leave[of "ex_link [] None [] [] (Round 0 0 0 0)" 0 0 0 0] by (simp add: ex_link_simps)
  ultimately have "link_calm 0 (ex_link [] None [] [] Leaving)" by (rule link_calm.calm_step) (simp add: calm_def ex_link_simps)
  moreover have "link_step (ex_link [] None [] [] Leaving) (ex_link [] None [] [] Finished)"
    using link_step.ready[of "ex_link [] None [] [] Leaving"] by (simp add: ex_link_simps)
  ultimately show ?thesis by (rule link_calm.calm_step) (simp add: calm_def ex_link_simps)
qed

lemma ex_append:
  "link_step (ex_link l None qu w p) (ex_link (l @ [if l = [] then 1 else last l + 1]) (Some (if l = [] then 1 else last l + 1)) qu w p)"
  using link_step.append[of "ex_link l None qu w p", OF _ refl] by (cases "l = []") (simp_all add: ex_link_simps)

text \<open>The state after a live sample: it is in the log, and about to be offered.\<close>

lemma ex_calm_sample: "link_calm 0 (ex_link [1] (Some 1) [] [] Finished)"
  using link_calm.calm_step[OF ex_calm_live ex_append] by (simp add: calm_def ex_link_simps)

theorem backfill_delivers_witness:
  "\<exists>U. backfill (\<lambda>i. ex_wal1) (\<lambda>r. True) 0 0 \<lparr>ss_send = [], ss_ip = [], ss_ready = False, ss_done = False\<rparr> =
     \<lparr>ss_send = map (\<lambda>r. sign 0 TypeMetrics [] (PMetrics (replay_metrics r))) U, ss_ip = [], ss_ready = True, ss_done = False\<rparr> \<and> U = [ex_rec 1]"
proof -
  have "growing (\<lambda>i. ex_wal1) (\<lambda>i. [ex_rec 1])" using wal_run_inv[OF ex_wal1_run] by (simp add: growing_def)
  from backfill_delivers[OF this, of 0 "\<lambda>r. True" 0 "\<lparr>ss_send = [], ss_ip = [], ss_ready = False, ss_done = False\<rparr>"] show ?thesis
    by (auto simp: ex_rec_def)
qed


theorem session_complete_witness: "lk_fan (ex_link [1] (Some 1) [] [] Finished) = Some 1"
  using session_complete[OF ex_calm_sample, of 1] by (simp add: ex_link_simps)

lemma ex_gap_reach: "link_reach 0 (ex_link [1, 2] None [] [2] Finished)"
proof -
  have "link_reach 0 (ex_link [] None [] [] (Round 0 0 0 0))" using link_reach.start[of "[]" 0] by (simp add: link_start_def ex_link_def)
  moreover have "link_step (ex_link [] None [] [] (Round 0 0 0 0)) (ex_link [] None [] [] Leaving)"
    using link_step.leave[of "ex_link [] None [] [] (Round 0 0 0 0)" 0 0 0 0] by (simp add: ex_link_simps)
  ultimately have "link_reach 0 (ex_link [] None [] [] Leaving)" by (rule link_reach.step)
  then have "link_reach 0 (ex_link [1] (Some 1) [] [] Leaving)" using link_reach.step[OF _ ex_append] by fastforce
  moreover have "link_step (ex_link [1] (Some 1) [] [] Leaving) (ex_link [1] None [] [] Leaving)"
    using link_step.fan_gated[of "ex_link [1] (Some 1) [] [] Leaving" 1] by (simp add: ex_link_simps)
  ultimately have "link_reach 0 (ex_link [1] None [] [] Leaving)" by (rule link_reach.step)
  moreover have "link_step (ex_link [1] None [] [] Leaving) (ex_link [1] None [] [] Finished)"
    using link_step.ready[of "ex_link [1] None [] [] Leaving"] by (simp add: ex_link_simps)
  ultimately have "link_reach 0 (ex_link [1] None [] [] Finished)" by (rule link_reach.step)
  then have "link_reach 0 (ex_link [1, 2] (Some 2) [] [] Finished)" using link_reach.step[OF _ ex_append] by fastforce
  moreover have "link_step (ex_link [1, 2] (Some 2) [] [] Finished) (ex_link [1, 2] None [2] [] Finished)"
    using link_step.fan_live[of "ex_link [1, 2] (Some 2) [] [] Finished" 2] by (simp add: ex_link_simps sendBuffer_def)
  ultimately have "link_reach 0 (ex_link [1, 2] None [2] [] Finished)" by (rule link_reach.step)
  moreover have "link_step (ex_link [1, 2] None [2] [] Finished) (ex_link [1, 2] None [] [2] Finished)"
    using link_step.written[of "ex_link [1, 2] None [2] [] Finished" 2 "[]"] by (simp add: ex_link_simps)
  ultimately show ?thesis by (rule link_reach.step)
qed

text \<open>
  C32: the gate can swallow a sample. A sample taken after the last, empty round has read the log but
  before the gate opens is neither replayed nor sent live; the next live sample moves the panel's
  tracker past it, so it is refused from then on. The comment of \<^verbatim>\<open>backfill\<close> says nothing is lost
  by withholding samples.
\<close>
theorem replay_gap:
  "\<exists>s. link_reach 0 s \<and> lk_phase s = Finished \<and> lk_fan s = None \<and> 1 \<in> set (lk_log s) \<and> 1 \<notin> set (lk_sent s @ lk_queue s) \<and>
     2 \<in> set (lk_sent s) \<and> \<not> fst (Accept 1 (snd (Accept 2 (NewSeqTracker 0))))"
  using ex_gap_reach by (intro exI[of _ "ex_link [1, 2] None [] [2] Finished"]) (simp add: ex_link_simps Accept_def NewSeqTracker_def)

end
