(* ===== verification/Frpcmgr.thy ===== *)
theory Frpcmgr
  imports App Portutil
begin

text \<open>
  \<^verbatim>\<open>internal/panel/frpcmgr.go\<close>: the manager of the frpc processes, one for each node. Its state is the
  process table, the loopback admin ports and the configuration files; \<open>fm_trace\<close> lists what it asked
  of the outside (process starts and stops, reload requests). The restart backoff of the supervisor
  and that of a node connection are the same loop with another threshold, so its bounds are proved
  once, in the locale \<open>backoff_loop\<close>.
\<close>

section \<open>State\<close>

record frpcProc =
  fp_adminPort :: int
  fp_cfgPath :: string
  fp_lastKey :: string
  fp_lastEmit :: int
  fp_suppressed :: nat

datatype frpc_cmd = StartProc int | StopProc int | Reload int int

record FrpcManager =
  fm_dir :: string
  fm_secret :: string
  fm_procs :: "(int, frpcProc) gomap"
  fm_adminPorts :: "(int, int) gomap"
  fm_files :: "(string, string) gomap"
  fm_trace :: "frpc_cmd list"

definition NewFrpcManager :: "string \<Rightarrow> string \<Rightarrow> FrpcManager" where
  "NewFrpcManager dir secret = \<lparr>fm_dir = dir, fm_secret = secret, fm_procs = [], fm_adminPorts = [], fm_files = [], fm_trace = []\<rparr>"

text \<open>\<open>hmac\<close> is HMAC-SHA256 in hexadecimal.\<close>

definition adminPass :: "mac \<Rightarrow> int \<Rightarrow> FrpcManager \<Rightarrow> string" where
  "adminPass hmac nodeID m = take 24 (hmac (fm_secret m) (''frpc-admin:'' @ Itoa nodeID))"

definition cfgPath :: "int \<Rightarrow> FrpcManager \<Rightarrow> string" where
  "cfgPath nodeID m = fm_dir m @ ''/node-'' @ Itoa nodeID @ ''.toml''"

section \<open>Admin ports\<close>

definition probe_base :: "int \<Rightarrow> int" where
  "probe_base nodeID = (let base = AdminLow + nodeID in if AdminHigh < base then AdminLow else base)"

definition probe_port :: "int \<Rightarrow> int \<Rightarrow> int" where
  "probe_port base i = AdminLow + (base - AdminLow + i) smod (AdminHigh - AdminLow + 1)"

definition AdminPort :: "host \<Rightarrow> int \<Rightarrow> FrpcManager \<Rightarrow> int \<times> FrpcManager" where
  "AdminPort h nodeID m =
     (case map_of (fm_adminPorts m) nodeID of
        Some p \<Rightarrow> (p, m)
      | None \<Rightarrow>
          (let used = map snd (fm_adminPorts m); base = probe_base nodeID;
               free = find (\<lambda>p. p \<notin> set used \<and> \<not> fst (LocalListen h p ''tcp'')) (map (probe_port base) [0..AdminHigh - AdminLow]);
               p = (case free of None \<Rightarrow> base | Some p \<Rightarrow> p)
           in (p, m\<lparr>fm_adminPorts := AList.update nodeID p (fm_adminPorts m)\<rparr>)))"

section \<open>Processes\<close>

definition startProc :: "int \<Rightarrow> int \<Rightarrow> string \<Rightarrow> FrpcManager \<Rightarrow> FrpcManager" where
  "startProc nodeID adminPort path m =
     m\<lparr>fm_procs := AList.update nodeID \<lparr>fp_adminPort = adminPort, fp_cfgPath = path, fp_lastKey = [], fp_lastEmit = 0, fp_suppressed = 0\<rparr> (fm_procs m),
       fm_trace := fm_trace m @ [StartProc nodeID]\<rparr>"

definition Running :: "int \<Rightarrow> FrpcManager \<Rightarrow> bool" where
  "Running nodeID m \<longleftrightarrow> map_of (fm_procs m) nodeID \<noteq> None"

definition frpc_params :: "mac \<Rightarrow> Node \<Rightarrow> frpc_proxy list \<Rightarrow> int \<Rightarrow> FrpcManager \<Rightarrow> FrpcParams" where
  "frpc_params hmac node proxies adminPort m =
     \<lparr>fc_ServerAddr = nd_IP node, fc_ServerPort = nd_FrpsPort node, fc_Token = nd_FrpsToken node, fc_TLSEnable = True,
      fc_AdminAddr = ''127.0.0.1'', fc_AdminPort = adminPort, fc_AdminUser = ''admin'', fc_AdminPassword = adminPass hmac (nd_ID node) m,
      fc_LogFile = fm_dir m @ ''/logs/frpc-'' @ Itoa (nd_ID node) @ ''.log'', fc_LogLevel = [], fc_Proxies = proxies\<rparr>"

text \<open>The outcome of \<^verbatim>\<open>os.WriteFile\<close>: done, not opened, or failed after some bytes.\<close>

datatype write_io = Written | NotOpened | ShortWrite nat

definition WriteFile :: "write_io \<Rightarrow> string \<Rightarrow> string \<Rightarrow> (string, string) gomap \<Rightarrow> bool \<times> (string, string) gomap" where
  "WriteFile io path content fs =
     (case io of Written \<Rightarrow> (True, AList.update path content fs)
      | NotOpened \<Rightarrow> (False, fs)
      | ShortWrite n \<Rightarrow> (False, AList.update path (take n content) fs))"

definition EnsureNode :: "mac \<Rightarrow> host \<Rightarrow> write_io \<Rightarrow> Node \<Rightarrow> frpc_proxy list \<Rightarrow> FrpcManager \<Rightarrow> bool \<times> FrpcManager" where
  "EnsureNode hmac h io node proxies m =
     (let (adminPort, m) = AdminPort h (nd_ID node) m;
          cfg = RenderFrpc (frpc_params hmac node proxies adminPort m);
          path = cfgPath (nd_ID node) m;
          (written, fs) = WriteFile io path cfg (fm_files m); m = m\<lparr>fm_files := fs\<rparr>
      in if \<not> written then (False, m)
         else if Running (nd_ID node) m then (True, m\<lparr>fm_trace := fm_trace m @ [Reload (nd_ID node) adminPort]\<rparr>)
         else (True, startProc (nd_ID node) adminPort path m))"

definition StopNode :: "int \<Rightarrow> FrpcManager \<Rightarrow> FrpcManager" where
  "StopNode nodeID m =
     (let m = (case map_of (fm_procs m) nodeID of
                 None \<Rightarrow> m
               | Some _ \<Rightarrow> m\<lparr>fm_procs := AList.delete nodeID (fm_procs m), fm_trace := fm_trace m @ [StopProc nodeID]\<rparr>)
      in m\<lparr>fm_files := AList.delete (cfgPath nodeID m) (fm_files m)\<rparr>)"

definition RestartNode :: "mac \<Rightarrow> host \<Rightarrow> write_io \<Rightarrow> Node \<Rightarrow> frpc_proxy list \<Rightarrow> FrpcManager \<Rightarrow> bool \<times> FrpcManager" where
  "RestartNode hmac h io node proxies m = EnsureNode hmac h io node proxies (StopNode (nd_ID node) m)"

definition frpc_StopAll :: "FrpcManager \<Rightarrow> FrpcManager" where
  "frpc_StopAll m = fold StopNode (map fst (fm_procs m)) m"

text \<open>
  \<^verbatim>\<open>Status\<close>: the proxy statuses of a node's frpc, from the decoded answer of its admin API (\<open>None\<close>: no
  answer or not JSON), one list for each proxy type; a later entry of a name replaces an earlier one.
\<close>

record ProxyStatus =
  xs_Name :: string
  xs_Status :: string
  xs_Err :: string
  xs_RemoteAddr :: string

definition parseFrpcStatus :: "(string, ProxyStatus list) gomap \<Rightarrow> (string, ProxyStatus) gomap" where
  "parseFrpcStatus raw = fold (\<lambda>(_, ps). fold (\<lambda>p m. AList.update (xs_Name p) p m) ps) raw []"

definition frpc_Status :: "(int \<Rightarrow> (string, ProxyStatus list) gomap option) \<Rightarrow> int \<Rightarrow> FrpcManager \<Rightarrow> (string, ProxyStatus) gomap option" where
  "frpc_Status api nodeID m = (let adminPort = mget 0 (fm_adminPorts m) nodeID in if adminPort = 0 then None else map_option parseFrpcStatus (api adminPort))"

section \<open>The supervisor\<close>

text \<open>Times and durations are nanoseconds.\<close>

definition second :: int where "second = 1000000000"

definition throttled :: "int \<Rightarrow> string \<Rightarrow> string \<Rightarrow> frpcProc \<Rightarrow> string option \<times> frpcProc" where
  "throttled now key msg p =
     (if key = fp_lastKey p \<and> now - fp_lastEmit p < 5 * 60 * second then (None, p\<lparr>fp_suppressed := fp_suppressed p + 1\<rparr>)
      else let sup = fp_suppressed p; p = p\<lparr>fp_suppressed := 0, fp_lastKey := key, fp_lastEmit := now\<rparr>
           in (Some (if 0 < sup then msg @ ''(suppressed '' @ nat_dec sup @ '')'' else msg), p))"

text \<open>One round of \<^verbatim>\<open>supervise\<close>: the process did not start, or it ran for some time.\<close>

datatype proc_outcome = StartFailed string | Exited string int

definition ran_healthily :: "proc_outcome \<Rightarrow> bool" where
  "ran_healthily out = (case out of StartFailed _ \<Rightarrow> False | Exited _ d \<Rightarrow> 30 * second < d)"

text \<open>The delay before the next start, and the backoff after it.\<close>

definition supervise_wait :: "proc_outcome \<Rightarrow> int \<Rightarrow> int" where
  "supervise_wait out b = (if ran_healthily out then second else b)"

definition double_backoff :: "int \<Rightarrow> int" where
  "double_backoff b = (let b = b * 2 in if 60 * second < b then 60 * second else b)"

definition supervise_round :: "int \<Rightarrow> proc_outcome \<Rightarrow> frpcProc \<times> int \<Rightarrow> string option \<times> int \<times> frpcProc \<times> int" where
  "supervise_round now out st =
     (case st of (p, b) \<Rightarrow>
       let b = supervise_wait out b;
           (key, msg) = (case out of
              StartFailed e \<Rightarrow> (''start:'' @ e, ''frpc_start_failed: '' @ e)
            | Exited e _ \<Rightarrow> (''exit'', ''frpc_exited('' @ e @ ''), restart in '' @ Itoa (b div second) @ ''s''));
           (line, p) = throttled now key msg p
       in (line, b, p, double_backoff b))"

section \<open>Backoff loops\<close>

text \<open>
  A loop that waits after each attempt: from a backoff and the outcome of an attempt it computes the
  delay and the next backoff. A healthy attempt resets the delay to one second.
\<close>

locale backoff_loop =
  fixes wait :: "'o \<Rightarrow> int \<Rightarrow> int" and healthy :: "'o \<Rightarrow> bool"
  assumes wait_reset: "healthy out \<Longrightarrow> wait out b = second"
    and wait_keep: "\<not> healthy out \<Longrightarrow> wait out b = b"
begin

fun delays :: "'o list \<Rightarrow> int \<Rightarrow> int list" where
  "delays [] b = []"
| "delays (out # outs) b = wait out b # delays outs (double_backoff (wait out b))"

lemma length_delays: "length (delays outs b) = length outs"
  by (induction outs arbitrary: b) simp_all

lemma double_bounds: "second \<le> b \<Longrightarrow> second \<le> double_backoff b \<and> double_backoff b \<le> 60 * second"
  by (auto simp: double_backoff_def second_def Let_def)

lemma delays_bounds:
  "second \<le> b \<Longrightarrow> b \<le> 60 * second \<Longrightarrow> d \<in> set (delays outs b) \<Longrightarrow> second \<le> d \<and> d \<le> 60 * second"
proof (induction outs arbitrary: b)
  case (Cons out outs)
  have "second \<le> wait out b \<and> wait out b \<le> 60 * second"
    using Cons.prems wait_reset[of out b] wait_keep[of out b] by (cases "healthy out") (auto simp: second_def)
  then show ?case using Cons double_bounds[of "wait out b"] by auto
qed simp

text \<open>After a healthy attempt, \<open>k\<close> failing ones bring the delay to \<open>2 ^ k\<close> seconds, at most a minute.\<close>

lemma delays_failing:
  assumes "\<forall>out\<in>set outs. \<not> healthy out" "second \<le> b" "i < length outs"
  shows "delays outs b ! i = (if i = 0 then b else min (60 * second) (2 ^ i * b))"
  using assms
proof (induction outs arbitrary: b i)
  case (Cons out outs)
  show ?case
  proof (cases i)
    case 0
    then show ?thesis using Cons.prems by (simp add: wait_keep)
  next
    case (Suc j)
    have "second \<le> double_backoff b" using double_bounds Cons.prems(2) by blast
    then have "delays outs (double_backoff b) ! j = (if j = 0 then double_backoff b else min (60 * second) (2 ^ j * double_backoff b))"
      using Cons Suc by simp
    moreover have "min (60 * second) (2 ^ j * double_backoff b) = min (60 * second) (2 ^ Suc j * b)"
    proof (cases "60 * second < b * 2")
      case True
      have "60 * second \<le> 2 ^ j * (60 * second)" "2 ^ j * (60 * second) \<le> 2 ^ j * (b * 2)"
        using True one_le_power[of "2::int" j] by (simp_all add: second_def)
      moreover have "2 ^ j * (b * 2) = 2 ^ Suc j * b" by simp
      ultimately show ?thesis using True by (simp only: double_backoff_def Let_def if_True min_absorb1 order.trans)
    qed (simp add: double_backoff_def Let_def mult.commute)
    moreover have "double_backoff b = min (60 * second) (2 * b)" by (auto simp: double_backoff_def Let_def)
    ultimately show ?thesis using Cons.prems Suc by (auto simp: wait_keep)
  qed
qed simp

end

interpretation sup: backoff_loop supervise_wait ran_healthily
  by unfold_locales (simp_all add: supervise_wait_def)

text \<open>The loop of \<^verbatim>\<open>supervise\<close>: times and outcomes of the starts, and the delays it takes.\<close>

fun supervise :: "(int \<times> proc_outcome) list \<Rightarrow> frpcProc \<times> int \<Rightarrow> int list" where
  "supervise [] st = []"
| "supervise ((now, out) # outs) st = (case supervise_round now out st of (_, d, st') \<Rightarrow> d # supervise outs st')"

lemma supervise_delays: "supervise outs (p, b) = sup.delays (map snd outs) b"
proof (induction outs arbitrary: p b)
  case (Cons e outs)
  then show ?case by (cases e) (auto simp: supervise_round_def Let_def split: prod.split proc_outcome.split)
qed simp

section \<open>Admin ports\<close>

definition ports_ok :: "(int, int) gomap \<Rightarrow> bool" where
  "ports_ok m \<longleftrightarrow> (\<forall>i p. map_of m i = Some p \<longrightarrow> AdminLow \<le> p \<and> p \<le> AdminHigh) \<and>
     (\<forall>i j p. map_of m i = Some p \<and> map_of m j = Some p \<longrightarrow> i = j)"

lemma smod_nonneg: "0 \<le> (x::int) \<Longrightarrow> x smod 101 = x mod 101"
  by (cases "x = 0") (simp_all add: signed_modulo_int_def)

lemma probe_port_range: "AdminLow \<le> b \<Longrightarrow> 0 \<le> i \<Longrightarrow> AdminLow \<le> probe_port b i \<and> probe_port b i \<le> AdminHigh"
proof -
  assume "AdminLow \<le> b" "0 \<le> i"
  then have "(b - AdminLow + i) smod (AdminHigh - AdminLow + 1) = (b - AdminLow + i) mod (AdminHigh - AdminLow + 1)"
    by (simp add: smod_nonneg AdminLow_def AdminHigh_def)
  moreover have "0 \<le> (b - AdminLow + i) mod (AdminHigh - AdminLow + 1) \<and> (b - AdminLow + i) mod (AdminHigh - AdminLow + 1) < AdminHigh - AdminLow + 1"
    by (simp add: AdminLow_def AdminHigh_def)
  ultimately show ?thesis by (simp add: probe_port_def)
qed

text \<open>The probes visit the whole segment.\<close>

lemma probe_port_onto:
  assumes "AdminLow \<le> b" "AdminLow \<le> p" "p \<le> AdminHigh"
  shows "\<exists>i\<in>set [0..AdminHigh - AdminLow]. probe_port b i = p"
proof
  let ?n = "AdminHigh - AdminLow + 1" and ?i = "(p - b) mod (AdminHigh - AdminLow + 1)"
  have n: "?n = 101" by (simp add: AdminLow_def AdminHigh_def)
  have i: "0 \<le> ?i" "?i < ?n" by (simp_all add: n)
  then have "(b - AdminLow + ?i) smod ?n = (b - AdminLow + ?i) mod ?n"
    using assms(1) by (simp add: smod_nonneg n)
  also have "\<dots> = (b - AdminLow + (p - b)) mod ?n" by (rule mod_add_right_eq)
  also have "\<dots> = p - AdminLow" using assms(2,3) by (simp add: n AdminLow_def AdminHigh_def)
  finally show "probe_port b ?i = p" by (simp add: probe_port_def)
  show "?i \<in> set [0..AdminHigh - AdminLow]" using i by simp
qed

lemma probe_base_range: "0 \<le> i \<Longrightarrow> AdminLow \<le> probe_base i \<and> probe_base i \<le> AdminHigh"
  by (auto simp: probe_base_def Let_def AdminLow_def AdminHigh_def)

abbreviation free_port :: "host \<Rightarrow> FrpcManager \<Rightarrow> int \<Rightarrow> bool" where
  "free_port h m f \<equiv> AdminLow \<le> f \<and> f \<le> AdminHigh \<and> f \<notin> snd ` set (fm_adminPorts m) \<and> \<not> fst (LocalListen h f ''tcp'')"

lemma AdminPort_new:
  assumes "map_of (fm_adminPorts m) i = None" "0 \<le> i"
  shows "\<exists>p. AdminPort h i m = (p, m\<lparr>fm_adminPorts := AList.update i p (fm_adminPorts m)\<rparr>) \<and> AdminLow \<le> p \<and> p \<le> AdminHigh \<and>
    ((\<exists>f. free_port h m f) \<longrightarrow> free_port h m p)"
proof -
  let ?P = "\<lambda>p. p \<notin> set (map snd (fm_adminPorts m)) \<and> \<not> fst (LocalListen h p ''tcp'')"
  let ?ps = "map (probe_port (probe_base i)) [0..AdminHigh - AdminLow]"
  have b: "AdminLow \<le> probe_base i" using probe_base_range[OF assms(2)] by simp
  show ?thesis
  proof (cases "find ?P ?ps")
    case None
    have "\<not> free_port h m f" for f
    proof
      assume f: "free_port h m f"
      then obtain j where "j \<in> set [0..AdminHigh - AdminLow]" "probe_port (probe_base i) j = f" using probe_port_onto[OF b] by blast
      then have "f \<in> set ?ps" by auto
      then show False using f None by (auto simp: find_None_iff)
    qed
    then show ?thesis using None assms(1) probe_base_range[OF assms(2)] by (auto simp: AdminPort_def Let_def)
  next
    case (Some p)
    then have "?P p" "p \<in> set ?ps" by (auto simp: find_Some_iff in_set_conv_nth)
    then show ?thesis using Some assms(1) probe_port_range[OF b] by (auto simp: AdminPort_def Let_def)
  qed
qed

lemma ports_ok_update:
  assumes "ports_ok m" "AdminLow \<le> p" "p \<le> AdminHigh" "p \<notin> snd ` set m"
  shows "ports_ok (AList.update i p m)"
proof -
  have "map_of m j \<noteq> Some p" for j using assms(4) by (metis image_eqI map_of_SomeD snd_conv)
  then show ?thesis using assms(1-3) unfolding ports_ok_def map_of_update fun_upd_apply by (metis option.inject)
qed

lemma AdminPort_again: "AdminPort h i m = (p, m') \<Longrightarrow> AdminPort h' i m' = (p, m')"
  by (auto simp: AdminPort_def Let_def gomap_simps split: option.splits)

lemma StopNode_ports [simp]: "fm_adminPorts (StopNode i m) = fm_adminPorts m"
  by (simp add: StopNode_def Let_def split: option.split)

section \<open>Properties\<close>

text \<open>
  C38: the admin ports of the frpc processes. A node's port is in the reserved segment and stays the
  same; as long as a port of the segment is unassigned and not listening, a new node gets such a port,
  so no two nodes share one; once all are assigned a node gets one that is. Stopping a node does not
  give its port back.
\<close>
theorem admin_ports:
  assumes "ports_ok (fm_adminPorts m)" "0 \<le> i" "AdminPort h i m = (p, m')"
  shows "AdminLow \<le> p \<and> p \<le> AdminHigh \<and> AdminPort h' i m' = (p, m') \<and>
    ((\<exists>f. free_port h m f) \<longrightarrow> ports_ok (fm_adminPorts m')) \<and>
    (map_of (fm_adminPorts m) i = None \<and> {AdminLow..AdminHigh} \<subseteq> snd ` set (fm_adminPorts m) \<longrightarrow> p \<in> snd ` set (fm_adminPorts m)) \<and>
    fm_adminPorts (StopNode i m') = fm_adminPorts m'"
proof (cases "map_of (fm_adminPorts m) i")
  case None
  from AdminPort_new[OF this assms(2), of h] show ?thesis
    using assms(1,3) AdminPort_again[OF assms(3), of h'] ports_ok_update[of "fm_adminPorts m" p i] by auto
next
  case (Some q')
  then have "p = q'" "m' = m" using assms(3) by (auto simp: AdminPort_def)
  then show ?thesis using Some assms(1) AdminPort_again[OF assms(3), of h'] by (auto simp: ports_ok_def)
qed

definition ex_host :: host where "ex_host = \<lparr>h_files = [], h_pids = []\<rparr>"

theorem admin_ports_witness: "AdminLow \<le> fst (AdminPort ex_host 3 (NewFrpcManager ''/d'' ''k'')) \<and>
    ports_ok (fm_adminPorts (snd (AdminPort ex_host 3 (NewFrpcManager ''/d'' ''k''))))"
proof -
  let ?m = "NewFrpcManager ''/d'' ''k''"
  have "free_port ex_host ?m 7400"
    by (simp add: NewFrpcManager_def AdminLow_def AdminHigh_def LocalListen_def ex_host_def procFiles_def)
  moreover have "ports_ok (fm_adminPorts ?m)" by (simp add: ports_ok_def NewFrpcManager_def)
  moreover obtain p m' where "AdminPort ex_host 3 ?m = (p, m')" by (cases "AdminPort ex_host 3 ?m")
  ultimately show ?thesis using admin_ports[of ?m 3 ex_host p m'] by auto
qed

text \<open>The events \<^verbatim>\<open>throttled\<close> sees (time, key, message) and the times at which it emits a line.\<close>

fun throttle_run :: "(int \<times> string \<times> string) list \<Rightarrow> frpcProc \<Rightarrow> int list" where
  "throttle_run [] p = []"
| "throttle_run ((now, key, msg) # es) p =
     (case throttled now key msg p of (None, p') \<Rightarrow> throttle_run es p' | (Some _, p') \<Rightarrow> now # throttle_run es p')"

lemma throttle_run_times: "set (throttle_run es p) \<subseteq> fst ` set es"
proof (induction es arbitrary: p)
  case (Cons e es)
  obtain now key msg where e: "e = (now, key, msg)" by (cases e)
  obtain l p' where "throttled now key msg p = (l, p')" by (cases "throttled now key msg p")
  then show ?case using Cons[of p'] by (cases l) (auto simp: e)
qed simp

lemma throttle_run_gap:
  assumes "\<forall>e\<in>set es. fst (snd e) = key" "sorted (map fst es)" "fp_lastKey p = key"
  shows "sorted_wrt (\<lambda>a b. 5 * 60 * second \<le> b - a) (throttle_run es p) \<and> (\<forall>b\<in>set (throttle_run es p). 5 * 60 * second \<le> b - fp_lastEmit p)"
  using assms
proof (induction es arbitrary: p)
  case (Cons e es)
  obtain now msg where e: "e = (now, key, msg)" using Cons.prems(1) by (cases e) auto
  show ?case
  proof (cases "now - fp_lastEmit p < 5 * 60 * second")
    case True
    then have "throttle_run (e # es) p = throttle_run es (p\<lparr>fp_suppressed := fp_suppressed p + 1\<rparr>)" using Cons.prems by (simp add: e throttled_def)
    then show ?thesis using Cons.IH[of "p\<lparr>fp_suppressed := fp_suppressed p + 1\<rparr>"] Cons.prems by simp
  next
    case False
    let ?p = "p\<lparr>fp_suppressed := 0, fp_lastKey := key, fp_lastEmit := now\<rparr>"
    have eq: "throttle_run (e # es) p = now # throttle_run es ?p" using False by (simp add: e throttled_def Let_def)
    have later: "\<forall>b\<in>set (throttle_run es ?p). now \<le> b" using throttle_run_times[of es ?p] Cons.prems(2) by (auto simp: e)
    show ?thesis unfolding eq using Cons.IH[of ?p] Cons.prems False later by fastforce
  qed
qed simp

text \<open>
  The supervisor's log throttle. Events of one key are logged at most once in five minutes; but
  only the last key is remembered, so a process that alternates between two kinds of failure gets a
  line for each of them. The comment promises one line for each key.
\<close>
theorem frpc_log_throttle:
  "((\<forall>e\<in>set es. fst (snd e) = key) \<and> sorted (map fst es) \<and> fp_lastKey p = key \<longrightarrow>
      sorted_wrt (\<lambda>a b. 5 * 60 * second \<le> b - a) (throttle_run es p)) \<and>
   (key \<noteq> key' \<and> fp_lastKey p \<noteq> key \<longrightarrow>
      throttle_run [(t, key, m1), (t + 1, key', m2), (t + 2, key, m3), (t + 3, key', m4)] p = [t, t + 1, t + 2, t + 3])"
  using throttle_run_gap[of es key p] by (auto simp: throttled_def Let_def)

theorem frpc_log_throttle_witness:
  "throttle_run [(0, ''exit'', []), (0 + 1, ''start:x'', []), (0 + 2, ''exit'', []), (0 + 3, ''start:x'', [])]
     \<lparr>fp_adminPort = 7401, fp_cfgPath = [], fp_lastKey = [], fp_lastEmit = 0, fp_suppressed = 0\<rparr> = [0, 0 + 1, 0 + 2, 0 + 3]"
  using frpc_log_throttle[of "[]" "''exit''" "\<lparr>fp_adminPort = 7401, fp_cfgPath = [], fp_lastKey = [], fp_lastEmit = 0, fp_suppressed = 0\<rparr>" "''start:x''" 0 "[]" "[]" "[]" "[]"]
  by simp

section \<open>Files\<close>

text \<open>The directory of configuration files: each node has its own, and an operation touches one.\<close>

lemma cfgPath_simps [simp]: "cfgPath i (m\<lparr>fm_adminPorts := x\<rparr>) = cfgPath i m" "cfgPath i (m\<lparr>fm_files := y\<rparr>) = cfgPath i m"
  "cfgPath i (m\<lparr>fm_procs := z\<rparr>) = cfgPath i m" "cfgPath i (m\<lparr>fm_trace := tr\<rparr>) = cfgPath i m"
  by (simp_all add: cfgPath_def)

lemma cfgPath_inj [simp]: "cfgPath i m = cfgPath j m \<longleftrightarrow> i = j"
  using Itoa_inj by (auto simp: cfgPath_def)

abbreviation cfg_file :: "int \<Rightarrow> FrpcManager \<Rightarrow> string option" where
  "cfg_file i m \<equiv> map_of (fm_files m) (cfgPath i m)"

lemma StopNode_dir [simp]: "fm_dir (StopNode i m) = fm_dir m" "fm_secret (StopNode i m) = fm_secret m"
  by (simp_all add: StopNode_def Let_def split: option.split)

lemma StopNode_file: "cfg_file j (StopNode i m) = (if i = j then None else cfg_file j m)"
  by (auto simp: StopNode_def Let_def gomap_simps split: option.split)

lemma StopNode_running: "Running j (StopNode i m) \<longleftrightarrow> i \<noteq> j \<and> Running j m"
  by (auto simp: StopNode_def Running_def Let_def gomap_simps split: option.split)

lemma AdminPort_keeps: "AdminPort h i m = (p, m') \<Longrightarrow> fm_dir m' = fm_dir m \<and> fm_secret m' = fm_secret m \<and> fm_procs m' = fm_procs m \<and> fm_files m' = fm_files m"
  by (auto simp: AdminPort_def Let_def split: option.splits)

text \<open>The configuration a node is to run with, given its admin port.\<close>

definition wanted_cfg :: "mac \<Rightarrow> Node \<Rightarrow> frpc_proxy list \<Rightarrow> FrpcManager \<Rightarrow> string option" where
  "wanted_cfg hmac node proxies m = map_option (\<lambda>p. RenderFrpc (frpc_params hmac node proxies p m)) (map_of (fm_adminPorts m) (nd_ID node))"

lemma frpc_params_cong: "fm_dir m' = fm_dir m \<Longrightarrow> fm_secret m' = fm_secret m \<Longrightarrow> frpc_params hmac node ps p m' = frpc_params hmac node ps p m"
  by (simp add: frpc_params_def adminPass_def)

lemma AdminPort_entry: "AdminPort h i m = (p, m') \<Longrightarrow> map_of (fm_adminPorts m') i = Some p"
  by (auto simp: AdminPort_def Let_def gomap_simps split: option.splits)

lemma AdminPort_other: "AdminPort h i m = (p, m') \<Longrightarrow> j \<noteq> i \<Longrightarrow> map_of (fm_adminPorts m') j = map_of (fm_adminPorts m) j"
  by (auto simp: AdminPort_def Let_def gomap_simps split: option.splits)

text \<open>What \<^verbatim>\<open>EnsureNode\<close> does: on success the node's file is the wanted one and its process runs.\<close>

lemma EnsureNode_ok:
  assumes "EnsureNode hmac h Written node ps m = (r, m')"
  shows "r \<and> cfg_file (nd_ID node) m' = wanted_cfg hmac node ps m' \<and> wanted_cfg hmac node ps m' \<noteq> None \<and> Running (nd_ID node) m'"
proof -
  obtain p m1 where a: "AdminPort h (nd_ID node) m = (p, m1)" by (cases "AdminPort h (nd_ID node) m")
  note k = AdminPort_keeps[OF a] AdminPort_entry[OF a]
  show ?thesis using assms k
    by (auto simp: EnsureNode_def Let_def a WriteFile_def startProc_def wanted_cfg_def Running_def gomap_simps cfgPath_def
        intro!: arg_cong[where f = RenderFrpc] frpc_params_cong[symmetric] split: if_splits)
qed

lemma EnsureNode_keeps:
  assumes "EnsureNode hmac h io node ps m = (r, m')"
  shows "fm_dir m' = fm_dir m \<and> fm_secret m' = fm_secret m \<and>
    (j \<noteq> nd_ID node \<longrightarrow> cfg_file j m' = cfg_file j m \<and> map_of (fm_adminPorts m') j = map_of (fm_adminPorts m) j \<and> Running j m' = Running j m) \<and>
    (Running (nd_ID node) m \<longrightarrow> Running (nd_ID node) m')"
proof -
  obtain p m1 where a: "AdminPort h (nd_ID node) m = (p, m1)" by (cases "AdminPort h (nd_ID node) m")
  note k = AdminPort_keeps[OF a] AdminPort_other[OF a, of j]
  have inj: "j \<noteq> nd_ID node \<Longrightarrow> cfgPath j m \<noteq> cfgPath (nd_ID node) m" by simp
  show ?thesis using assms k inj
    by (auto simp: EnsureNode_def Let_def a WriteFile_def startProc_def Running_def gomap_simps cfgPath_def split: if_splits write_io.splits)
qed

end
