(* ===== verification/Resp.thy ===== *)
theory Resp
  imports Prelude
begin

text \<open>
  \<^verbatim>\<open>internal/panel/errs.go\<close>, \<^verbatim>\<open>resp.go\<close> and \<^verbatim>\<open>handlers_common.go\<close>: business errors, the response
  envelope of the API and the helpers the handlers share. The data of a response is a type
  parameter; messages, Chinese in the source, are ASCII keys.
\<close>

section \<open>Errors\<close>

definition CodeOK :: int where "CodeOK = 0"
definition CodeBadRequest :: int where "CodeBadRequest = 40000"
definition CodeValidation :: int where "CodeValidation = 40001"
definition CodeUnauthorized :: int where "CodeUnauthorized = 40101"
definition CodeSessionStale :: int where "CodeSessionStale = 40102"
definition CodeForbidden :: int where "CodeForbidden = 40301"
definition CodeNotFound :: int where "CodeNotFound = 40401"
definition CodePortBusy :: int where "CodePortBusy = 40901"
definition CodeConflict :: int where "CodeConflict = 40902"
definition CodeReservedPort :: int where "CodeReservedPort = 40903"
definition CodeLoginLocked :: int where "CodeLoginLocked = 42901"
definition CodeNodeOffline :: int where "CodeNodeOffline = 50301"
definition CodeLocalNoListen :: int where "CodeLocalNoListen = 50302"
definition CodeDBDown :: int where "CodeDBDown = 50303"
definition CodeInternal :: int where "CodeInternal = 50000"

lemmas code_defs = CodeOK_def CodeBadRequest_def CodeValidation_def CodeUnauthorized_def CodeSessionStale_def CodeForbidden_def
  CodeNotFound_def CodePortBusy_def CodeConflict_def CodeReservedPort_def CodeLoginLocked_def CodeNodeOffline_def
  CodeLocalNoListen_def CodeDBDown_def CodeInternal_def

record AppError =
  ae_Code :: int
  ae_Msg :: string

definition Err :: "int \<Rightarrow> string \<Rightarrow> AppError" where
  "Err code msg = \<lparr>ae_Code = code, ae_Msg = msg\<rparr>"

definition ErrUnauthorized :: AppError where "ErrUnauthorized = Err CodeUnauthorized ''not_logged_in''"
definition ErrSessionStale :: AppError where "ErrSessionStale = Err CodeSessionStale ''session_stale''"
definition ErrNotFound :: AppError where "ErrNotFound = Err CodeNotFound ''not_found''"
definition ErrDBDown :: AppError where "ErrDBDown = Err CodeDBDown ''db_down''"
definition ErrCSRF :: AppError where "ErrCSRF = Err CodeForbidden ''csrf_failed''"

lemmas err_defs = Err_def ErrUnauthorized_def ErrSessionStale_def ErrNotFound_def ErrDBDown_def ErrCSRF_def

text \<open>A Go \<^verbatim>\<open>error\<close> as the handlers see it: a business error or anything else.\<close>

datatype go_error = Business AppError | OtherError

section \<open>Responses\<close>

record 'd reply =
  rs_Status :: int
  rs_Code :: int
  rs_Message :: string
  rs_Data :: "'d option"

definition ok :: "'d \<Rightarrow> 'd reply" where
  "ok d = \<lparr>rs_Status = 200, rs_Code = CodeOK, rs_Message = ''ok'', rs_Data = Some d\<rparr>"

definition ok_nil :: "'d reply" where
  "ok_nil = \<lparr>rs_Status = 200, rs_Code = CodeOK, rs_Message = ''ok'', rs_Data = None\<rparr>"

definition fail :: "go_error \<Rightarrow> 'd reply" where
  "fail err =
     (let ae = (case err of Business ae \<Rightarrow> ae | OtherError \<Rightarrow> Err CodeInternal ''internal_error'');
          status = (if ae_Code ae = CodeUnauthorized \<or> ae_Code ae = CodeSessionStale then 401
                    else if ae_Code ae = CodeDBDown then 503 else 200)
      in \<lparr>rs_Status = status, rs_Code = ae_Code ae, rs_Message = ae_Msg ae, rs_Data = None\<rparr>)"

definition failCode :: "int \<Rightarrow> string \<Rightarrow> 'd reply" where
  "failCode code msg = fail (Business (Err code msg))"

lemma fail_code [simp]: "rs_Code (fail (Business e)) = ae_Code e" "rs_Code (failCode c msg) = c"
  by (simp_all add: fail_def failCode_def Err_def Let_def)

lemma ok_code [simp]: "rs_Code (ok d) = CodeOK" "rs_Code ok_nil = CodeOK"
  by (simp_all add: ok_def ok_nil_def)

section \<open>Requests\<close>

text \<open>\<^verbatim>\<open>unknownField\<close>: the field name in the message of \<^verbatim>\<open>encoding/json\<close>, after the first occurrence of the prefix.\<close>

definition unknown_prefix :: string where "unknown_prefix = ''json: unknown field '' @ [CHR 0x22]"

fun Index :: "string \<Rightarrow> string \<Rightarrow> nat option" where
  "Index [] p = (if p = [] then Some 0 else None)"
| "Index (c # cs) p = (if prefix p (c # cs) then Some 0 else map_option Suc (Index cs p))"

definition unknownField :: "string \<Rightarrow> string option" where
  "unknownField msg =
     (case Index msg unknown_prefix of
        None \<Rightarrow> None
      | Some i \<Rightarrow> (let rest = drop (i + length unknown_prefix) msg
                   in case IndexByte rest (CHR 0x22) of None \<Rightarrow> None | Some j \<Rightarrow> Some (take j rest)))"

text \<open>\<^verbatim>\<open>decodeJSON\<close> over the outcome of the decoder: its error message or the value.\<close>

definition decodeJSON :: "string + 'r \<Rightarrow> go_error + 'r" where
  "decodeJSON body =
     (case body of
        Inr v \<Rightarrow> Inr v
      | Inl msg \<Rightarrow>
          (case unknownField msg of
             Some f \<Rightarrow> Inl (Business (Err CodeBadRequest (''unknown_field '' @ f)))
           | None \<Rightarrow> Inl (Business (Err CodeBadRequest ''bad_body''))))"

definition pathID :: "string \<Rightarrow> go_error + int" where
  "pathID s = (let (i, parsed) = ParseInt s 10 64 in if \<not> parsed \<or> i \<le> 0 then Inl (Business (Err CodeBadRequest ''bad_id'')) else Inr i)"

definition requireDB :: "bool \<Rightarrow> 'd reply option" where
  "requireDB up = (if up then None else Some (fail (Business ErrDBDown)))"

text \<open>A path parameter is accepted exactly when it is a positive 64-bit number.\<close>

lemma pathID_Itoa: "0 < i \<Longrightarrow> i < 2 ^ 63 \<Longrightarrow> pathID (Itoa i) = Inr i"
  by (simp add: pathID_def golib_simps)

lemma pathID_positive: "pathID s = Inr i \<Longrightarrow> 0 < i \<and> i < 2 ^ 63"
  by (auto simp: pathID_def ParseInt_def Let_def nat_less_iff split: if_splits option.splits prod.splits)

lemma decodeJSON_Inl: "decodeJSON body = Inl e \<Longrightarrow> \<exists>msg. e = Business (Err CodeBadRequest msg)"
  by (auto simp: decodeJSON_def split: sum.splits option.splits)

end
