(* ===== verification/Nodeconn.thy ===== *)
theory Nodeconn
  imports Frpcmgr Pipeline Receipt Resp
begin

text \<open>
  \<^verbatim>\<open>internal/panel/nodeconn.go\<close>, the driver of one agent connection: its fields, request ids and the
  correlation of replies, certificate pinning, the verification of a new node and the reconnect
  backoff. The operations that touch the rest of the panel are in \<open>Nodemgr\<close>. A pending channel has
  room for one reply: it is \<open>None\<close> while empty. Request numbers are unbounded (the counter has 64 bits).
\<close>

section \<open>Driver\<close>

record NodeConn =
  nc_nodeID :: int
  nc_node :: Node
  nc_up :: bool
  nc_conn :: bool
  nc_pending :: "(string, Envelope option) gomap"
  nc_reqSeq :: nat
  nc_agentProto :: int
  nc_cancelled :: bool

definition newNodeConn :: "Node \<Rightarrow> NodeConn" where
  "newNodeConn node = \<lparr>nc_nodeID = nd_ID node, nc_node = node, nc_up = False, nc_conn = False, nc_pending = [], nc_reqSeq = 0,
     nc_agentProto = 0, nc_cancelled = False\<rparr>"

section \<open>Request ids\<close>

definition digit36 :: "nat \<Rightarrow> char" where
  "digit36 d = (if d < 10 then char_of (48 + d) else char_of (97 + (d - 10)))"

fun nat_b36 :: "nat \<Rightarrow> string" where
  "nat_b36 n = (if n < 36 then [digit36 n] else nat_b36 (n div 36) @ [digit36 (n mod 36)])"

declare nat_b36.simps [simp del]

definition FormatInt36 :: "int \<Rightarrow> string" where
  "FormatInt36 i = (if i < 0 then CHR ''-'' # nat_b36 (nat (- i)) else nat_b36 (nat i))"

definition newID :: "int \<Rightarrow> NodeConn \<Rightarrow> string \<times> NodeConn" where
  "newID nowNano c = (nat_dec (nc_reqSeq c + 1) @ CHR ''-'' # FormatInt36 nowNano, c\<lparr>nc_reqSeq := nc_reqSeq c + 1\<rparr>)"

lemma nat_dec_inj: "nat_dec m = nat_dec n \<Longrightarrow> m = n"
  using read_digits_nat_dec by (metis option.inject)

lemma newID_inj: "nat_dec m @ CHR ''-'' # FormatInt36 t = nat_dec n @ CHR ''-'' # FormatInt36 t' \<Longrightarrow> m = n"
  using split_at_sep[of "CHR ''-''" "nat_dec m" "nat_dec n"] nat_dec_inj nat_dec_no_char[of "CHR ''-''"] by auto

section \<open>Requests\<close>

text \<open>
  \<^verbatim>\<open>request\<close> in its two halves: registering and sending, and picking up the reply or giving up. The
  replies are delivered by \<^verbatim>\<open>handle\<close> in between.
\<close>

definition request_begin :: "int \<Rightarrow> bool \<Rightarrow> NodeConn \<Rightarrow> (AppError + string) \<times> NodeConn" where
  "request_begin nowNano sent c =
     (if \<not> nc_up c \<or> \<not> nc_conn c then (Inl (Err CodeNodeOffline ''node_offline''), c)
      else let (i, c) = newID nowNano c
           in if sent then (Inr i, c\<lparr>nc_pending := AList.update i None (nc_pending c)\<rparr>)
              else (Inl (Err CodeNodeOffline ''write_failed''), c\<lparr>nc_pending := AList.delete i (nc_pending c)\<rparr>))"

definition request_end :: "string \<Rightarrow> bool \<Rightarrow> NodeConn \<Rightarrow> (AppError + Envelope) \<times> NodeConn" where
  "request_end i timeout c =
     (let c' = c\<lparr>nc_pending := AList.delete i (nc_pending c)\<rparr>
      in if timeout then (Inl (Err CodeNodeOffline ''reply_timeout''), c')
         else case map_of (nc_pending c) i of
                Some (Some env) \<Rightarrow> (Inr env, c')
              | _ \<Rightarrow> (Inl (Err CodeNodeOffline ''reply_timeout''), c'))"

definition deliver :: "Envelope \<Rightarrow> NodeConn \<Rightarrow> NodeConn" where
  "deliver env c =
     (if e_ID env = [] then c
      else case map_of (nc_pending c) (e_ID env) of
             Some None \<Rightarrow> c\<lparr>nc_pending := AList.update (e_ID env) (Some env) (nc_pending c)\<rparr>
           | _ \<Rightarrow> c)"

section \<open>Pinning and the check of a new node\<close>

text \<open>\<^verbatim>\<open>pinnedTLSConfig\<close>: the peer's first certificate must have the pinned fingerprint.\<close>

definition pinned_ok :: "(string \<Rightarrow> string) \<Rightarrow> string \<Rightarrow> string list \<Rightarrow> bool" where
  "pinned_ok sha fp rawCerts =
     (case rawCerts of [] \<Rightarrow> False | der # _ \<Rightarrow> EqualFingerprint (''sha256:'' @ sha der) fp)"

text \<open>What the network gives \<^verbatim>\<open>verifyAgent\<close>: the certificates presented (\<open>None\<close>: no connection), whether the write succeeds, the reply.\<close>

record verify_env =
  ve_certs :: "string list option"
  ve_sent :: bool
  ve_ack :: "Envelope option"
  ve_unix :: int64

definition verifyAgent :: "mac \<Rightarrow> (string \<Rightarrow> string) \<Rightarrow> verify_env \<Rightarrow> string \<Rightarrow> string \<Rightarrow> AppError option" where
  "verifyAgent hmac sha e token fp =
     (case ve_certs e of
        None \<Rightarrow> Some (Err CodeNodeOffline ''connect_failed'')
      | Some certs \<Rightarrow>
          if \<not> pinned_ok sha fp certs
          then Some (if certs = [] then Err CodeNodeOffline ''connect_failed'' else Err CodeBadRequest ''fingerprint_mismatch'')
          else if \<not> ve_sent e then Some (Err CodeNodeOffline ''write_failed'')
          else case ve_ack e of
                 None \<Rightarrow> Some (Err CodeNodeOffline ''no_reply'')
               | Some ack \<Rightarrow>
                   (case Verify hmac ack token (ve_unix e) of
                      None \<Rightarrow> None
                    | Some ErrBadSig \<Rightarrow> Some (Err CodeBadRequest ''bad_token'')
                    | Some ErrReplay \<Rightarrow> Some (Err CodeBadRequest ''clock_skew'')))"

section \<open>Reconnecting\<close>

text \<open>The backoff of \<^verbatim>\<open>Run\<close>, over the duration of a session in nanoseconds.\<close>

definition session_healthy :: "int \<Rightarrow> bool" where
  "session_healthy d \<longleftrightarrow> 60 * second < d"

definition run_wait :: "int \<Rightarrow> int \<Rightarrow> int" where
  "run_wait d b = (if session_healthy d then second else b)"

fun run_delays :: "int list \<Rightarrow> int \<Rightarrow> int list" where
  "run_delays [] b = []"
| "run_delays (d # ds) b = (let b = run_wait d b in b # run_delays ds (double_backoff b))"

interpretation reconnect: backoff_loop run_wait session_healthy
  by unfold_locales (simp_all add: run_wait_def)

lemma run_delays_eq: "run_delays ds b = reconnect.delays ds b"
  by (induction ds arbitrary: b) (simp_all add: Let_def)

section \<open>Correlation\<close>

text \<open>
  The life of a driver's requests: requests start, replies arrive from the agent in any order, late,
  twice or unasked, and requests end with a reply or without. The second component lists the replies
  requests returned, with the id of the request.
\<close>

inductive corr_reach :: "NodeConn \<Rightarrow> (string \<times> Envelope) list \<Rightarrow> bool" where
  fresh: "corr_reach (newNodeConn node) []"
| state: "corr_reach c rs \<Longrightarrow> corr_reach (c\<lparr>nc_up := u, nc_conn := l, nc_node := node, nc_agentProto := pr\<rparr>) rs"
| ident: "corr_reach c rs \<Longrightarrow> corr_reach (snd (newID t c)) rs"
| begins: "corr_reach c rs \<Longrightarrow> corr_reach (snd (request_begin t sent c)) rs"
| arrives: "corr_reach c rs \<Longrightarrow> corr_reach (deliver env c) rs"
| ends: "corr_reach c rs \<Longrightarrow> request_end i timeout c = (r, c') \<Longrightarrow> i \<in> fst ` set (nc_pending c) \<Longrightarrow>
     corr_reach c' (case r of Inl _ \<Rightarrow> rs | Inr env \<Rightarrow> rs @ [(i, env)])"

definition issued :: "nat \<Rightarrow> string \<Rightarrow> bool" where
  "issued n i \<longleftrightarrow> (\<exists>k\<le>n. \<exists>t. i = nat_dec k @ CHR ''-'' # FormatInt36 t)"

definition corr_inv :: "NodeConn \<Rightarrow> (string \<times> Envelope) list \<Rightarrow> bool" where
  "corr_inv c rs \<longleftrightarrow> wf_gomap (nc_pending c) \<and> distinct (map fst rs) \<and>
     fst ` set rs \<inter> fst ` set (nc_pending c) = {} \<and> (\<forall>i\<in>fst ` set rs \<union> fst ` set (nc_pending c). issued (nc_reqSeq c) i) \<and>
     (\<forall>(i, env)\<in>set rs. e_ID env = i) \<and> (\<forall>i env. map_of (nc_pending c) i = Some (Some env) \<longrightarrow> e_ID env = i)"

lemma issued_mono: "issued m i \<Longrightarrow> m \<le> n \<Longrightarrow> issued n i"
  by (auto simp: issued_def intro: order.trans)

lemma issued_new: "issued n i \<Longrightarrow> i \<noteq> nat_dec (n + 1) @ CHR ''-'' # FormatInt36 t"
proof
  assume "issued n i" and i: "i = nat_dec (n + 1) @ CHR ''-'' # FormatInt36 t"
  then obtain k t' where k: "k \<le> n" "i = nat_dec k @ CHR ''-'' # FormatInt36 t'" by (auto simp: issued_def)
  then have "k = n + 1" using newID_inj[of k t' "n + 1" t] i by simp
  then show False using k(1) by simp
qed

lemma keys_update: "fst ` set (AList.update k v m) = insert k (fst ` set m)"
  by (simp add: dom_update)

lemma keys_delete: "fst ` set (AList.delete k m) = fst ` set m - {k}"
  by (induction m) auto

lemma corr_inv_seq: "corr_inv c rs \<Longrightarrow> nc_reqSeq c \<le> n \<Longrightarrow> corr_inv (c\<lparr>nc_reqSeq := n\<rparr>) rs"
  by (auto simp: corr_inv_def intro: issued_mono)

lemma corr_inv_begin:
  assumes "corr_inv c rs" shows "corr_inv (snd (request_begin t sent c)) rs"
proof -
  let ?i = "nat_dec (nc_reqSeq c + 1) @ CHR ''-'' # FormatInt36 t"
  have new: "?i \<notin> fst ` set rs \<union> fst ` set (nc_pending c)" using assms issued_new[of "nc_reqSeq c" ?i] unfolding corr_inv_def by blast
  have iss: "issued (nc_reqSeq c + 1) ?i" by (auto simp: issued_def)
  have "corr_inv (c\<lparr>nc_reqSeq := nc_reqSeq c + 1, nc_pending := AList.update ?i None (nc_pending c)\<rparr>) rs"
    using corr_inv_seq[OF assms, of "nc_reqSeq c + 1"] new iss
    by (auto simp: corr_inv_def keys_update gomap_simps wf_gomap_update)
  moreover have "AList.delete ?i (nc_pending c) = nc_pending c" using new by (intro delete_id) blast
  ultimately show ?thesis
    using assms corr_inv_seq[OF assms, of "nc_reqSeq c + 1"] by (auto simp: request_begin_def newID_def Let_def)
qed

lemma corr_inv_deliver: "corr_inv c rs \<Longrightarrow> corr_inv (deliver env c) rs"
proof (cases "e_ID env \<noteq> [] \<and> map_of (nc_pending c) (e_ID env) = Some None")
  case True
  assume inv: "corr_inv c rs"
  have "e_ID env \<in> fst ` set (nc_pending c)" using True by (metis image_eqI map_of_SomeD fst_conv)
  then have "fst ` set (AList.update (e_ID env) (Some env) (nc_pending c)) = fst ` set (nc_pending c)" by (simp add: keys_update insert_absorb)
  moreover have "deliver env c = c\<lparr>nc_pending := AList.update (e_ID env) (Some env) (nc_pending c)\<rparr>" using True by (simp only: deliver_def if_False option.case)
  ultimately show ?thesis using inv by (simp add: corr_inv_def gomap_simps wf_gomap_update)
next
  case False
  then have "deliver env c = c" by (auto simp: deliver_def split: option.split)
  then show "corr_inv c rs \<Longrightarrow> corr_inv (deliver env c) rs" by simp
qed

lemma corr_inv_end:
  assumes "corr_inv c rs" "request_end i timeout c = (r, c')" "i \<in> fst ` set (nc_pending c)"
  shows "corr_inv c' (case r of Inl _ \<Rightarrow> rs | Inr env \<Rightarrow> rs @ [(i, env)])"
proof -
  have d: "fst ` set (AList.delete i (nc_pending c)) = fst ` set (nc_pending c) - {i}" by (rule keys_delete)
  have "c' = c\<lparr>nc_pending := AList.delete i (nc_pending c)\<rparr>"
    using assms(2) by (auto simp: request_end_def Let_def split: if_splits option.splits)
  moreover have "r = Inr env \<Longrightarrow> map_of (nc_pending c) i = Some (Some env)" for env
    using assms(2) by (auto simp: request_end_def Let_def split: if_splits option.splits)
  ultimately show ?thesis using assms(1,3)
    by (auto simp: corr_inv_def d gomap_simps wf_gomap_delete split: sum.splits)
qed

lemma corr_reach_inv: "corr_reach c rs \<Longrightarrow> corr_inv c rs"
proof (induction rule: corr_reach.induct)
  case (fresh node)
  then show ?case by (simp add: corr_inv_def newNodeConn_def)
next
  case (state c rs u l node pr)
  then show ?case by (simp add: corr_inv_def)
next
  case (ident c rs t)
  then show ?case using corr_inv_seq[of c rs "nc_reqSeq c + 1"] by (simp add: newID_def)
qed (auto intro: corr_inv_begin corr_inv_deliver corr_inv_end)

section \<open>Properties\<close>




definition ex_row :: Node where
  "ex_row = \<lparr>nd_ID = 1, nd_Name = ''n'', nd_IP = ''203.0.113.9'', nd_AgentPort = 8443, nd_AgentToken = ''t'', nd_Fingerprint = ''f'', nd_FrpsToken = ''k'',
     nd_FrpsPort = 7000, nd_Region = [], nd_Status = ''offline'', nd_AgentVersion = [], nd_FrpsVersion = [], nd_LastCommitSeq = 0, nd_LastSeen = None,
     nd_CreatedAt = 0, nd_UpdatedAt = 0\<rparr>"

definition ex_reply :: Envelope where
  "ex_reply = \<lparr>e_Ver = 2, e_Type = ''proxy_list'', e_ID = ''1-0'', e_TS = 0, e_Nonce = [], e_Sig = [], e_Payload = []\<rparr>"

definition ex_conn :: NodeConn where
  "ex_conn = (newNodeConn ex_row)\<lparr>nc_up := True, nc_conn := True, nc_node := ex_row, nc_agentProto := 2\<rparr>"

definition ex_answered :: NodeConn where
  "ex_answered = deliver ex_reply (snd (request_begin 0 True ex_conn))"

lemma ex_answered_reach: "corr_reach ex_answered []"
  unfolding ex_answered_def ex_conn_def by (intro corr_reach.arrives corr_reach.begins corr_reach.state corr_reach.fresh)


end
