(* ===== verification/Nodemgr.thy ===== *)
theory Nodemgr
  imports Nodeconn
begin

text \<open>
  \<^verbatim>\<open>internal/panel/nodemgr.go\<close> and the part of \<^verbatim>\<open>nodeconn.go\<close> that acts on the panel: connection
  set-up, messages of an agent, reconciliation, and the manager's operations on all of them. The
  drivers live in a heap (\<open>pn_objs\<close>), because a stopped driver's goroutine goes on until its read
  returns; \<open>pn_conns\<close> is the manager's table of node ids. \<open>pn_sent\<close> lists the commands written to the
  agents. Every operation runs to its end; what the outside contributes is in \<open>panel_env\<close>: the clock,
  the sockets of the panel's host, outcomes of writes, and the payload an agent replies with to a
  command (\<open>None\<close>: the command was not written or timed out).
\<close>

section \<open>State\<close>

datatype panel_cmd =
    CHello Hello
  | CListProxies
  | CPortCheck PortCheck
  | CSetRateLimit SetRateLimit
  | CRestartFrps RestartFrps
  | CUpdateAgent UpdateAgent

record Panel =
  pn_app :: App
  pn_frpc :: FrpcManager
  pn_objs :: "(int, NodeConn) gomap"
  pn_conns :: "(int, int) gomap"
  pn_next :: int
  pn_sent :: "(int \<times> panel_cmd) list"

record panel_env =
  pe_unix :: int
  pe_nano :: int
  pe_hmac :: mac
  pe_host :: host
  pe_write :: "int \<Rightarrow> write_io"
  pe_reply :: "int \<Rightarrow> panel_cmd \<Rightarrow> string option"
  pe_proxyList :: "string \<Rightarrow> ProxyInfo list option"
  pe_portRes :: "string \<Rightarrow> PortCheckRes"
  pe_restartRes :: "string \<Rightarrow> RestartRes"
  pe_updateRes :: "string \<Rightarrow> UpdateRes"
  pe_newToken :: string
  pe_version :: string

definition NewNodeManager :: "App \<Rightarrow> FrpcManager \<Rightarrow> Panel" where
  "NewNodeManager a fm = \<lparr>pn_app = a, pn_frpc = fm, pn_objs = [], pn_conns = [], pn_next = 0, pn_sent = []\<rparr>"

definition on_app :: "(App \<Rightarrow> App) \<Rightarrow> Panel \<Rightarrow> Panel" where
  "on_app f P = P\<lparr>pn_app := f (pn_app P)\<rparr>"

definition on_frpc :: "(FrpcManager \<Rightarrow> FrpcManager) \<Rightarrow> Panel \<Rightarrow> Panel" where
  "on_frpc f P = P\<lparr>pn_frpc := f (pn_frpc P)\<rparr>"

definition on_obj :: "int \<Rightarrow> (NodeConn \<Rightarrow> NodeConn) \<Rightarrow> Panel \<Rightarrow> Panel" where
  "on_obj oid f P = (case map_of (pn_objs P) oid of None \<Rightarrow> P | Some c \<Rightarrow> P\<lparr>pn_objs := AList.update oid (f c) (pn_objs P)\<rparr>)"

definition run_app :: "(App \<Rightarrow> 'a \<times> App) \<Rightarrow> Panel \<Rightarrow> 'a \<times> Panel" where
  "run_app f P = (let (r, a) = f (pn_app P) in (r, P\<lparr>pn_app := a\<rparr>))"

text \<open>\<^verbatim>\<open>EnsureNode\<close> and \<^verbatim>\<open>RestartNode\<close> in the panel.\<close>

definition ensure :: "panel_env \<Rightarrow> Node \<Rightarrow> frpc_proxy list \<Rightarrow> Panel \<Rightarrow> bool \<times> Panel" where
  "ensure e node proxies P =
     (let (done, m) = EnsureNode (pe_hmac e) (pe_host e) (pe_write e (nd_ID node)) node proxies (pn_frpc P) in (done, P\<lparr>pn_frpc := m\<rparr>))"

section \<open>Requests\<close>

definition Conn :: "int \<Rightarrow> Panel \<Rightarrow> (int \<times> NodeConn) option" where
  "Conn nodeID P =
     (case map_of (pn_conns P) nodeID of
        None \<Rightarrow> None
      | Some oid \<Rightarrow> map_option (Pair oid) (map_of (pn_objs P) oid))"

abbreviation Connected :: "NodeConn \<Rightarrow> bool" where "Connected \<equiv> nc_up"

text \<open>\<^verbatim>\<open>request\<close> from its registration to its end, with the agent's reply in between.\<close>

definition request :: "panel_env \<Rightarrow> int \<Rightarrow> panel_cmd \<Rightarrow> Panel \<Rightarrow> (AppError + string) \<times> Panel" where
  "request e oid cmd P =
     (case map_of (pn_objs P) oid of
        None \<Rightarrow> (Inl (Err CodeNodeOffline ''node_offline''), P)
      | Some c \<Rightarrow>
          (case request_begin (pe_nano e) True c of
             (Inl err, c') \<Rightarrow> (Inl err, on_obj oid (\<lambda>_. c') P)
           | (Inr i, c') \<Rightarrow>
               (let c' = snd (request_end i True c'); P = on_obj oid (\<lambda>_. c') P; P = P\<lparr>pn_sent := pn_sent P @ [(nc_nodeID c, cmd)]\<rparr>
                in case pe_reply e (nc_nodeID c) cmd of
                     None \<Rightarrow> (Inl (Err CodeNodeOffline ''reply_timeout''), P)
                   | Some payload \<Rightarrow> (Inr payload, P))))"

definition pushRateLimit :: "panel_env \<Rightarrow> int \<Rightarrow> PortSpec list \<Rightarrow> Panel \<Rightarrow> Panel" where
  "pushRateLimit e oid ports P =
     (let (rate, P) = run_app connRateLimit P in snd (request e oid (CSetRateLimit \<lparr>rl_Rate = rate, rl_Ports = ports\<rparr>) P))"

section \<open>Reconciliation\<close>

definition registered_names :: "panel_env \<Rightarrow> AppError + string \<Rightarrow> string list" where
  "registered_names e r =
     (case r of
        Inl _ \<Rightarrow> []
      | Inr payload \<Rightarrow>
          (case pe_proxyList e payload of
             None \<Rightarrow> []
           | Some ps \<Rightarrow> remdups (map pi_Name (filter (\<lambda>p. ParseProxyName (pi_Name p) \<noteq> None) ps))))"

definition reconcile_logs :: "panel_env \<Rightarrow> Node \<Rightarrow> int \<Rightarrow> string list \<Rightarrow> string list \<Rightarrow> App \<Rightarrow> App" where
  "reconcile_logs e node i desired registered a =
     (let log_all = (\<lambda>key names a. fold (\<lambda>name. app_AddLog (pe_unix e) ''reconcile'' (nd_Name node) (Some i) (key @ name)) names a);
          a = log_all ''reconcile_add '' (filter (\<lambda>x. x \<notin> set registered) (remdups desired)) a
      in log_all ''reconcile_remove '' (filter (\<lambda>x. x \<notin> set desired) registered) a)"

definition reconcile :: "panel_env \<Rightarrow> int \<Rightarrow> Panel \<Rightarrow> Panel" where
  "reconcile e oid P =
     (case map_of (pn_objs P) oid of
        None \<Rightarrow> P
      | Some c \<Rightarrow>
          (let node = nc_node c
           in case run_app (desiredProxies (nc_nodeID c)) P of
                (Inl _, P) \<Rightarrow> P
              | (Inr (desired, ports), P) \<Rightarrow>
                  (let (r, P) = request e oid CListProxies P;
                       P = on_app (reconcile_logs e node (nc_nodeID c) (map px_Name desired) (registered_names e r)) P;
                       (_, P) = ensure e node desired P
                   in pushRateLimit e oid ports P)))"

section \<open>A session\<close>

text \<open>What the network gives a session's handshake: connection, write, the reply, its decoding.\<close>

record session_env =
  sn_dial :: bool
  sn_sent :: bool
  sn_ack :: "Envelope option"
  sn_unix :: int64
  sn_decode :: "string \<Rightarrow> HelloAck"

definition learn :: "HelloAck \<Rightarrow> Node \<Rightarrow> Node \<times> bool" where
  "learn ack node =
     (let newTok = (ha_FrpsToken ack \<noteq> [] \<and> ha_FrpsToken ack \<noteq> nd_FrpsToken node);
          node = (if newTok then node\<lparr>nd_FrpsToken := ha_FrpsToken ack\<rparr> else node);
          newPort = (ha_FrpsPort ack \<noteq> 0 \<and> ha_FrpsPort ack \<noteq> nd_FrpsPort node);
          node = (if newPort then node\<lparr>nd_FrpsPort := ha_FrpsPort ack\<rparr> else node)
      in (node, newTok \<or> newPort))"

text \<open>The state changes of \<^verbatim>\<open>session\<close> once the acknowledgement is verified.\<close>

definition session_up :: "panel_env \<Rightarrow> int \<Rightarrow> int \<Rightarrow> HelloAck \<Rightarrow> int \<Rightarrow> Node \<Rightarrow> Panel \<Rightarrow> Panel" where
  "session_up e oid i ack lastSeq node P =
     (let P = on_obj oid (\<lambda>c. c\<lparr>nc_agentProto := signed_take_bit 31 (ha_Proto ack)\<rparr>) P;
          (node, changed) = learn ack node;
          P = (if changed
               then (let P = (if DBUp (pn_app P) then snd (run_app (run_db (UpdateNodeFrps (pe_unix e) i (nd_FrpsToken node) (nd_FrpsPort node))) P) else P)
                     in on_frpc (StopNode i) P)
               else P);
          P = on_obj oid (\<lambda>c. c\<lparr>nc_node := node, nc_up := True\<rparr>) P;
          P = on_app (InitNode i lastSeq) P;
          P = on_app (markNodeOnline (pe_unix e) i (ha_AgentVersion ack) (ha_FrpsVersion ack)) P;
          P = (if ha_Compatible ack then P else on_app (app_AddLog (pe_unix e) ''frp_event'' (nd_Name node) (Some i) ''agent_too_old'') P);
          P = on_app (app_AddLog (pe_unix e) ''frp_event'' (nd_Name node) (Some i) ''node_online'') P
      in on_app (broadcastEvent ''node_online'' ''node_online'' (Some i) (pe_nano e div 1000000)) P)"

text \<open>
  \<^verbatim>\<open>session\<close> up to its reader loop, and whether the loop is entered. The heartbeat and \<open>reconcile\<close> run
  on their own afterwards.
\<close>

definition session_start :: "panel_env \<Rightarrow> session_env \<Rightarrow> int \<Rightarrow> Panel \<Rightarrow> bool \<times> Panel" where
  "session_start e s oid P =
     (case map_of (pn_objs P) oid of
        None \<Rightarrow> (False, P)
      | Some c \<Rightarrow>
          if \<not> sn_dial s then (False, P)
          else
            (let node = nc_node c; i = nc_nodeID c; close = on_obj oid (\<lambda>c. c\<lparr>nc_conn := False\<rparr>);
                 P = on_obj oid (\<lambda>c. snd (newID (pe_nano e) (c\<lparr>nc_conn := True\<rparr>))) P;
                 lastSeq = (let s = CommitSeq i (pn_app P) in if nd_LastCommitSeq node < s then s else nd_LastCommitSeq node);
                 hello = \<lparr>h_PanelVersion = pe_version e, h_MinAgentProto = MinAgentProtocol, h_LastCommitSeq = lastSeq\<rparr>
             in if \<not> sn_sent s then (False, close P)
                else
                  (let P = P\<lparr>pn_sent := pn_sent P @ [(i, CHello hello)]\<rparr>
                   in case sn_ack s of
                        None \<Rightarrow> (False, close P)
                      | Some env \<Rightarrow>
                          if Verify (pe_hmac e) env (nd_AgentToken node) (sn_unix s) \<noteq> None then (False, close P)
                          else (True, session_up e oid i (sn_decode s (e_Payload env)) lastSeq node P))))"

text \<open>The message of an agent, decoded (\<open>None\<close>: not decodable).\<close>

record handle_env =
  hd_metrics :: "string \<Rightarrow> Metrics option"
  hd_event :: "string \<Rightarrow> Event option"

definition metric_msg :: "int \<Rightarrow> Sample \<Rightarrow> ws_msg" where
  "metric_msg i s = wsMetric i (point_of s)"

definition handle_msg :: "panel_env \<Rightarrow> handle_env \<Rightarrow> int \<Rightarrow> Envelope \<Rightarrow> Panel \<Rightarrow> Panel" where
  "handle_msg e h oid env P =
     (case map_of (pn_objs P) oid of
        None \<Rightarrow> P
      | Some c \<Rightarrow>
          (let i = nc_nodeID c
           in if e_Type env = TypePong then P
              else if e_Type env = TypeMetrics
              then (case hd_metrics h (e_Payload env) of
                      None \<Rightarrow> P
                    | Some m \<Rightarrow>
                        (case run_app (Account (pe_nano e div 1000000) i m) P of
                           (None, P) \<Rightarrow> P
                         | (Some sample, P) \<Rightarrow> on_app (broadcast (metric_msg i sample)) P))
              else if e_Type env = TypeEvent
              then (case hd_event h (e_Payload env) of
                      None \<Rightarrow> P
                    | Some ev \<Rightarrow>
                        on_app (broadcastEvent (ev_Kind ev) (ev_Detail ev) (Some i) (ev_AtMs ev))
                          (on_app (app_AddLog (pe_unix e) ''frp_event'' (nd_Name (nc_node c)) (Some i) (ev_Detail ev)) P))
              else on_obj oid (deliver env) P))"

text \<open>One round of the reader loop: whether it goes on.\<close>

definition session_read :: "panel_env \<Rightarrow> handle_env \<Rightarrow> int64 \<Rightarrow> int \<Rightarrow> Envelope option \<Rightarrow> Panel \<Rightarrow> bool \<times> Panel" where
  "session_read e h now oid frame P =
     (case frame of
        None \<Rightarrow> (False, P)
      | Some env \<Rightarrow>
          (case map_of (pn_objs P) oid of
             None \<Rightarrow> (False, P)
           | Some c \<Rightarrow>
               (case Verify (pe_hmac e) env (nd_AgentToken (nc_node c)) now of
                  Some ErrBadSig \<Rightarrow> (False, P)
                | Some ErrReplay \<Rightarrow> (True, P)
                | None \<Rightarrow> (True, handle_msg e h oid env P))))"

text \<open>What \<^verbatim>\<open>Run\<close> does when \<^verbatim>\<open>session\<close> has returned.\<close>

definition session_end :: "panel_env \<Rightarrow> int \<Rightarrow> Panel \<Rightarrow> Panel" where
  "session_end e oid P =
     (case map_of (pn_objs P) oid of
        None \<Rightarrow> P
      | Some c \<Rightarrow>
          (let i = nc_nodeID c; P = on_obj oid (\<lambda>c. c\<lparr>nc_conn := False, nc_up := False\<rparr>) P
           in if nc_up c
              then on_app (broadcastEvent ''node_offline'' ''node_offline'' (Some i) (pe_nano e div 1000000))
                     (on_app (app_AddLog (pe_unix e) ''frp_event'' (nd_Name (nc_node c)) (Some i) ''node_offline'')
                       (on_app (markNodeOffline (pe_unix e) i) P))
              else P))"

section \<open>The manager\<close>

definition nm_start :: "panel_env \<Rightarrow> Node \<Rightarrow> Panel \<Rightarrow> Panel" where
  "nm_start e node P =
     (if map_of (pn_conns P) (nd_ID node) \<noteq> None then P
      else
        (let oid = pn_next P;
             P = P\<lparr>pn_objs := AList.update oid (newNodeConn node) (pn_objs P), pn_conns := AList.update (nd_ID node) oid (pn_conns P), pn_next := oid + 1\<rparr>;
             P = on_app (InitNode (nd_ID node) (nd_LastCommitSeq node)) P
         in if nd_FrpsToken node = [] then P
            else case run_app (desiredProxies (nd_ID node)) P of
                   (Inl _, P) \<Rightarrow> P
                 | (Inr (proxies, _), P) \<Rightarrow> snd (ensure e node proxies P)))"

definition nm_stop :: "int \<Rightarrow> Panel \<Rightarrow> Panel" where
  "nm_stop nodeID P =
     (let P' = P\<lparr>pn_conns := AList.delete nodeID (pn_conns P)\<rparr>
      in case map_of (pn_conns P) nodeID of None \<Rightarrow> P' | Some oid \<Rightarrow> on_obj oid (\<lambda>c. c\<lparr>nc_cancelled := True\<rparr>) P')"

definition tryStartAll :: "panel_env \<Rightarrow> Panel \<Rightarrow> bool \<times> Panel" where
  "tryStartAll e P =
     (case run_app (run_db ListNodes) P of
        (Inl _, P) \<Rightarrow> (False, P)
      | (Inr nodes, P) \<Rightarrow> (True, fold (nm_start e) nodes P))"

definition nm_Add :: "panel_env \<Rightarrow> Node \<Rightarrow> Panel \<Rightarrow> Panel" where
  "nm_Add e node P = nm_start e node (nm_stop (nd_ID node) P)"

definition nm_Restart :: "panel_env \<Rightarrow> int \<Rightarrow> Panel \<Rightarrow> Panel" where
  "nm_Restart e nodeID P =
     (case run_app (run_db (GetNode nodeID)) P of
        (Inr (Some node), P) \<Rightarrow> nm_start e node (nm_stop nodeID P)
      | (_, P) \<Rightarrow> P)"

definition nm_Remove :: "int \<Rightarrow> Panel \<Rightarrow> Panel" where
  "nm_Remove nodeID P =
     on_app (\<lambda>a. clearLatForNode nodeID (clearLiveForNode nodeID (RemoveNode nodeID a))) (on_frpc (StopNode nodeID) (nm_stop nodeID P))"

record NodeAddr =
  na_ID :: int
  na_IP :: string
  na_Port :: int

definition Snapshots :: "Panel \<Rightarrow> NodeAddr list" where
  "Snapshots P = concat (map (\<lambda>(i, oid). case map_of (pn_objs P) oid of None \<Rightarrow> []
     | Some c \<Rightarrow> [\<lparr>na_ID = i, na_IP = nd_IP (nc_node c), na_Port = nd_AgentPort (nc_node c)\<rparr>]) (pn_conns P))"

definition nm_PortCheck :: "panel_env \<Rightarrow> int \<Rightarrow> int \<Rightarrow> string \<Rightarrow> Panel \<Rightarrow> (AppError + PortCheckRes) \<times> Panel" where
  "nm_PortCheck e nodeID port proto P =
     (case Conn nodeID P of
        None \<Rightarrow> (Inl (Err CodeNodeOffline ''node_offline''), P)
      | Some (oid, c) \<Rightarrow>
          if \<not> Connected c then (Inl (Err CodeNodeOffline ''node_offline''), P)
          else case request e oid (CPortCheck \<lparr>pc_Port = port, pc_Proto = proto\<rparr>) P of
                 (Inl err, P) \<Rightarrow> (Inl err, P)
               | (Inr payload, P) \<Rightarrow> (Inr (pe_portRes e payload), P))"

definition SyncNode :: "panel_env \<Rightarrow> int \<Rightarrow> Panel \<Rightarrow> go_error option \<times> Panel" where
  "SyncNode e nodeID P =
     (case run_app (run_db (GetNode nodeID)) P of
        (Inl _, P) \<Rightarrow> (Some OtherError, P)
      | (Inr None, P) \<Rightarrow> (Some (Business (Err CodeNotFound ''node_not_found'')), P)
      | (Inr (Some node), P) \<Rightarrow>
          (case run_app (desiredProxies nodeID) P of
             (Inl _, P) \<Rightarrow> (Some OtherError, P)
           | (Inr (proxies, ports), P) \<Rightarrow>
               (case ensure e node proxies P of
                  (False, P) \<Rightarrow> (Some OtherError, P)
                | (True, P) \<Rightarrow>
                    (case Conn nodeID P of
                       None \<Rightarrow> (None, P)
                     | Some (oid, c) \<Rightarrow> (None, if Connected c then pushRateLimit e oid ports P else P)))))"

definition SyncAll :: "panel_env \<Rightarrow> Panel \<Rightarrow> Panel" where
  "SyncAll e P = fold (\<lambda>i P. snd (SyncNode e i P)) (map fst (pn_conns P)) P"

definition RotateFrpsToken :: "panel_env \<Rightarrow> int \<Rightarrow> Panel \<Rightarrow> go_error option \<times> Panel" where
  "RotateFrpsToken e nodeID P =
     (case Conn nodeID P of
        None \<Rightarrow> (Some (Business (Err CodeNodeOffline ''node_offline'')), P)
      | Some (oid, c) \<Rightarrow>
          if \<not> Connected c then (Some (Business (Err CodeNodeOffline ''node_offline'')), P)
          else
            (let node = nc_node c
             in case request e oid (CRestartFrps \<lparr>rf_NewFrpsToken = pe_newToken e, rf_Reason = ''token_rotation''\<rparr>) P of
                  (Inl err, P) \<Rightarrow> (Some (Business err), P)
                | (Inr payload, P) \<Rightarrow>
                    (let res = pe_restartRes e payload
                     in if \<not> rr_OK res then (Some (Business (Err CodeInternal (''frps_restart_failed: '' @ rr_Message res))), P)
                        else
                          (let node = node\<lparr>nd_FrpsToken := pe_newToken e\<rparr>
                           in case run_app (run_db (UpdateNodeFrps (pe_unix e) nodeID (pe_newToken e) (nd_FrpsPort node))) P of
                                (Inl _, P) \<Rightarrow> (Some OtherError, P)
                              | (Inr _, P) \<Rightarrow>
                                  (let P = on_obj oid (\<lambda>c. c\<lparr>nc_node := node\<rparr>) P
                                   in case run_app (desiredProxies nodeID) P of
                                        (Inl _, P) \<Rightarrow> (Some OtherError, P)
                                      | (Inr (proxies, ports), P) \<Rightarrow>
                                          (case ensure e node proxies (on_frpc (StopNode (nd_ID node)) P) of
                                             (False, P) \<Rightarrow> (Some OtherError, P)
                                           | (True, P) \<Rightarrow>
                                               (None, on_app (app_AddLog (pe_unix e) ''panel_op'' ''admin'' (Some nodeID) ''token_rotated'')
                                                  (pushRateLimit e oid ports P))))))))"

definition nm_UpdateAgent :: "panel_env \<Rightarrow> int \<Rightarrow> string \<Rightarrow> string \<Rightarrow> string \<Rightarrow> Panel \<Rightarrow> AppError option \<times> Panel" where
  "nm_UpdateAgent e nodeID ver base mirror P =
     (case Conn nodeID P of
        None \<Rightarrow> (Some (Err CodeNodeOffline ''node_offline''), P)
      | Some (oid, c) \<Rightarrow>
          if \<not> Connected c then (Some (Err CodeNodeOffline ''node_offline''), P)
          else if nc_agentProto c < 2 then (Some (Err CodeValidation ''agent_too_old''), P)
          else case request e oid (CUpdateAgent \<lparr>ua_Version = ver, ua_BaseURL = base, ua_Mirror = mirror\<rparr>) P of
                 (Inl err, P) \<Rightarrow> (Some err, P)
               | (Inr payload, P) \<Rightarrow>
                   (let res = pe_updateRes e payload
                    in (if ur_OK res then None else Some (Err CodeInternal (''update_refused: '' @ ur_Message res)), P)))"

definition push_one :: "panel_env \<Rightarrow> int \<Rightarrow> Panel \<Rightarrow> Panel" where
  "push_one e oid P =
     (case map_of (pn_objs P) oid of
        None \<Rightarrow> P
      | Some c \<Rightarrow>
          if \<not> Connected c then P
          else case run_app (desiredProxies (nc_nodeID c)) P of
                 (Inl _, P) \<Rightarrow> P
               | (Inr (_, ports), P) \<Rightarrow> pushRateLimit e oid ports P)"

definition PushRateLimitAll :: "panel_env \<Rightarrow> Panel \<Rightarrow> Panel" where
  "PushRateLimitAll e P = fold (push_one e) (map snd (pn_conns P)) P"

definition UpdateMeta :: "int \<Rightarrow> string \<Rightarrow> string \<Rightarrow> Panel \<Rightarrow> Panel" where
  "UpdateMeta nodeID name region P =
     (case Conn nodeID P of
        None \<Rightarrow> P
      | Some (oid, _) \<Rightarrow> on_obj oid (\<lambda>c. c\<lparr>nc_node := (nc_node c)\<lparr>nd_Name := name, nd_Region := region\<rparr>\<rparr>) P)"

definition nm_StopAll :: "Panel \<Rightarrow> Panel" where
  "nm_StopAll P = on_frpc frpc_StopAll (fold nm_stop (map fst (pn_conns P)) P)"

end
