(* ===== verification/Sync.thy ===== *)
theory Sync
  imports Nodemgr
begin

text \<open>
  Properties of the node manager. The manager's table and the heap of drivers agree in every state its
  operations reach (\<open>panel_wf\<close>); a synchronisation makes the frpc configuration of every managed node
  the one the database describes (a refinement of the abstract data plane, a function from nodes to
  configurations); and what a driver that was stopped still does to the panel.
\<close>

section \<open>Frames\<close>

lemma on_obj_frame [simp]: "pn_app (on_obj oid f P) = pn_app P" "pn_frpc (on_obj oid f P) = pn_frpc P" "pn_conns (on_obj oid f P) = pn_conns P"
  "pn_sent (on_obj oid f P) = pn_sent P" "pn_next (on_obj oid f P) = pn_next P"
  by (simp_all add: on_obj_def split: option.split)

lemma on_app_frame [simp]: "pn_frpc (on_app g P) = pn_frpc P" "pn_conns (on_app g P) = pn_conns P" "pn_objs (on_app g P) = pn_objs P"
  "pn_sent (on_app g P) = pn_sent P" "pn_next (on_app g P) = pn_next P" "pn_app (on_app g P) = g (pn_app P)"
  by (simp_all add: on_app_def)

lemma on_frpc_frame [simp]: "pn_app (on_frpc g P) = pn_app P" "pn_conns (on_frpc g P) = pn_conns P" "pn_objs (on_frpc g P) = pn_objs P"
  "pn_sent (on_frpc g P) = pn_sent P" "pn_next (on_frpc g P) = pn_next P" "pn_frpc (on_frpc g P) = g (pn_frpc P)"
  by (simp_all add: on_frpc_def)

lemma on_obj_objs: "map_of (pn_objs (on_obj oid f P)) j = (if j = oid then map_option f (map_of (pn_objs P) j) else map_of (pn_objs P) j)"
  by (auto simp: on_obj_def gomap_simps split: option.split)

text \<open>An operation on the panel's shared state leaves the connections alone.\<close>

lemma run_app_frame:
  "run_app f P = (r, P') \<Longrightarrow> pn_frpc P' = pn_frpc P \<and> pn_conns P' = pn_conns P \<and> pn_objs P' = pn_objs P \<and> pn_sent P' = pn_sent P \<and>
     pn_next P' = pn_next P \<and> f (pn_app P) = (r, pn_app P')"
  by (auto simp: run_app_def split: prod.splits)

lemma ensure_frame:
  "ensure e node ps P = (r, P') \<Longrightarrow> pn_app P' = pn_app P \<and> pn_conns P' = pn_conns P \<and> pn_objs P' = pn_objs P \<and> pn_sent P' = pn_sent P \<and> pn_next P' = pn_next P \<and>
     EnsureNode (pe_hmac e) (pe_host e) (pe_write e (nd_ID node)) node ps (pn_frpc P) = (r, pn_frpc P')"
  by (auto simp: ensure_def split: prod.splits)

text \<open>A request changes nothing of a driver but its counter and the table of pending requests.\<close>

definition core :: "NodeConn \<Rightarrow> NodeConn" where
  "core c = c\<lparr>nc_pending := [], nc_reqSeq := 0\<rparr>"

definition same_drivers :: "(int, NodeConn) gomap \<Rightarrow> (int, NodeConn) gomap \<Rightarrow> bool" where
  "same_drivers objs objs' \<longleftrightarrow> (\<forall>oid. map_option core (map_of objs' oid) = map_option core (map_of objs oid))"

lemma same_drivers_refl [simp]: "same_drivers objs objs"
  by (simp add: same_drivers_def)

lemma same_drivers_trans: "same_drivers x y \<Longrightarrow> same_drivers y z \<Longrightarrow> same_drivers x z"
  by (simp add: same_drivers_def)

lemma same_drivers_on_obj: "(\<And>c. map_of (pn_objs P) oid = Some c \<Longrightarrow> core (f c) = core c) \<Longrightarrow> same_drivers (pn_objs P) (pn_objs (on_obj oid f P))"
  by (auto simp: same_drivers_def on_obj_objs option.map_comp intro!: option.map_cong)

lemma request_frame:
  assumes "request e oid cmd P = (r, P')"
  shows "pn_app P' = pn_app P \<and> pn_frpc P' = pn_frpc P \<and> pn_conns P' = pn_conns P \<and> pn_next P' = pn_next P \<and> same_drivers (pn_objs P) (pn_objs P') \<and>
    pn_sent P' = pn_sent P @ (case map_of (pn_objs P) oid of None \<Rightarrow> [] | Some c \<Rightarrow> if nc_up c \<and> nc_conn c then [(nc_nodeID c, cmd)] else [])"
proof (cases "map_of (pn_objs P) oid")
  case None
  then show ?thesis using assms by (simp add: request_def)
next
  case (Some c)
  have "core (snd (request_begin (pe_nano e) True c)) = core c" "core (snd (request_end i True (snd (request_begin (pe_nano e) True c)))) = core c" for i
    by (auto simp: request_begin_def request_end_def newID_def core_def Let_def)
  then show ?thesis using assms Some
    by (auto simp: request_def Let_def request_begin_def[of _ _ c] newID_def split: if_splits option.splits intro!: same_drivers_on_obj)
qed

section \<open>Synchronising a node\<close>

text \<open>What the database wants a node to run: the proxies of its enabled targets.\<close>

definition enabled_rows :: "int \<Rightarrow> Store \<Rightarrow> NodeProxyRow list" where
  "enabled_rows i s =
     [\<lparr>np_MappingID = mp_ID m, np_NodeID = mt_NodeID t, np_LocalPort = mp_LocalPort m, np_Proto = mp_Proto m,
       np_RemotePort = mt_RemotePort t, np_Remark = mp_Remark m\<rparr>.
        m \<leftarrow> db_mappings s, mp_Enabled m, t \<leftarrow> db_targets s, mt_MappingID t = mp_ID m \<and> mt_NodeID t = i]"

definition node_ports :: "int \<Rightarrow> Store \<Rightarrow> PortSpec list" where
  "node_ports i s = map (\<lambda>r. \<lparr>ps_Port = np_RemotePort r, ps_Proto = np_Proto r\<rparr>) (enabled_rows i s)"

definition node_row :: "int \<Rightarrow> Store \<Rightarrow> Node option" where
  "node_row i s = find (\<lambda>n. nd_ID n = i) (db_nodes s)"

lemma node_row_id: "node_row i s = Some n \<Longrightarrow> nd_ID n = i"
  by (auto simp: node_row_def find_Some_iff)

abbreviation faultless_db :: "Panel \<Rightarrow> bool" where
  "faultless_db P \<equiv> db_faults (app_store (pn_app P)) = []"

lemma run_GetNode: "faultless_db P \<Longrightarrow> run_app (run_db (GetNode i)) P = (Inr (node_row i (app_store (pn_app P))), P)"
  by (simp add: run_app_def run_db_def GetNode_def db_read_def node_row_def)

lemma run_desired:
  "faultless_db P \<Longrightarrow> run_app (desiredProxies i) P =
     (Inr (map desired_proxy (enabled_rows i (app_store (pn_app P))), node_ports i (app_store (pn_app P))), P)"
  by (simp add: run_app_def desiredProxies_def run_db_def EnabledProxiesForNode_def db_read_def enabled_rows_def node_ports_def)

lemma run_connRateLimit: "faultless_db P \<Longrightarrow> snd (run_app connRateLimit P) = P"
  by (auto simp: run_app_def connRateLimit_def run_db_def GetSetting_def db_read_def)

text \<open>The rate limit pushed with the ports of a node.\<close>

definition rate_cmd :: "int \<Rightarrow> App \<Rightarrow> panel_cmd" where
  "rate_cmd i a = CSetRateLimit \<lparr>rl_Rate = fst (connRateLimit a), rl_Ports = node_ports i (app_store a)\<rparr>"

lemma pushRateLimit_frame:
  assumes "faultless_db P" "P' = pushRateLimit e oid (node_ports i (app_store (pn_app P))) P"
  shows "pn_app P' = pn_app P \<and> pn_frpc P' = pn_frpc P \<and> pn_conns P' = pn_conns P \<and> pn_next P' = pn_next P \<and> same_drivers (pn_objs P) (pn_objs P') \<and>
    pn_sent P' = pn_sent P @ (case map_of (pn_objs P) oid of None \<Rightarrow> []
      | Some c \<Rightarrow> if nc_up c \<and> nc_conn c then [(nc_nodeID c, rate_cmd i (pn_app P))] else [])"
proof -
  have "run_app connRateLimit P = (fst (connRateLimit (pn_app P)), P)"
    using run_connRateLimit[OF assms(1)] by (auto simp: run_app_def prod_eq_iff split: prod.splits)
  then have "P' = snd (request e oid (rate_cmd i (pn_app P)) P)" using assms(2) by (simp add: pushRateLimit_def rate_cmd_def)
  then obtain r where "request e oid (rate_cmd i (pn_app P)) P = (r, P')" by (metis surjective_pairing)
  from request_frame[OF this] show ?thesis .
qed

text \<open>
  One synchronisation over a working database and file system: the node's file is the wanted one and
  its process runs; nothing else changes but the counters of requests, and a connected agent is sent
  the rate limit of exactly the node's ports.
\<close>

definition synced :: "panel_env \<Rightarrow> int \<Rightarrow> Panel \<Rightarrow> bool" where
  "synced e i P \<longleftrightarrow> (\<forall>n. node_row i (app_store (pn_app P)) = Some n \<longrightarrow>
     Running i (pn_frpc P) \<and> cfg_file i (pn_frpc P) \<noteq> None \<and>
     cfg_file i (pn_frpc P) = wanted_cfg (pe_hmac e) n (map desired_proxy (enabled_rows i (app_store (pn_app P)))) (pn_frpc P))"

definition sync_frame :: "int \<Rightarrow> Panel \<Rightarrow> Panel \<Rightarrow> bool" where
  "sync_frame i P P' \<longleftrightarrow> pn_app P' = pn_app P \<and> pn_conns P' = pn_conns P \<and> pn_next P' = pn_next P \<and> same_drivers (pn_objs P) (pn_objs P') \<and>
     fm_dir (pn_frpc P') = fm_dir (pn_frpc P) \<and> fm_secret (pn_frpc P') = fm_secret (pn_frpc P) \<and>
     (\<forall>j. j \<noteq> i \<or> node_row i (app_store (pn_app P)) = None \<longrightarrow> cfg_file j (pn_frpc P') = cfg_file j (pn_frpc P) \<and>
       map_of (fm_adminPorts (pn_frpc P')) j = map_of (fm_adminPorts (pn_frpc P)) j \<and> Running j (pn_frpc P') = Running j (pn_frpc P))"

lemma SyncNode_syncs:
  assumes "faultless_db P" "\<And>j. pe_write e j = Written" "SyncNode e i P = (r, P')"
  shows "sync_frame i P P' \<and> synced e i P' \<and> (r = None \<longleftrightarrow> node_row i (app_store (pn_app P)) \<noteq> None)"
proof (cases "node_row i (app_store (pn_app P))")
  case None
  then show ?thesis using assms by (auto simp: SyncNode_def run_GetNode sync_frame_def synced_def)
next
  case (Some n)
  let ?ps = "map desired_proxy (enabled_rows i (app_store (pn_app P)))"
  obtain d P1 where en: "ensure e n ?ps P = (d, P1)" by (cases "ensure e n ?ps P")
  note fr = ensure_frame[OF en]
  then have E: "EnsureNode (pe_hmac e) (pe_host e) Written n ?ps (pn_frpc P) = (d, pn_frpc P1)" using assms(2) by simp
  have i: "nd_ID n = i" using node_row_id[OF Some] .
  note ok = EnsureNode_ok[OF E] and kp = EnsureNode_keeps[OF E]
  have f1: "faultless_db P1" using fr assms(1) by simp
  have "SyncNode e i P = (case Conn i P1 of None \<Rightarrow> (None, P1)
      | Some (oid, c) \<Rightarrow> (None, if Connected c then pushRateLimit e oid (node_ports i (app_store (pn_app P))) P1 else P1))"
    using Some en ok by (simp add: SyncNode_def run_GetNode[OF assms(1)] run_desired[OF assms(1)])
  then have P': "r = None \<and> (P' = P1 \<or> (\<exists>oid. P' = pushRateLimit e oid (node_ports i (app_store (pn_app P1))) P1))"
    using assms(3) fr by (auto split: option.splits if_splits)
  have same: "pn_app P' = pn_app P1 \<and> pn_frpc P' = pn_frpc P1 \<and> pn_conns P' = pn_conns P1 \<and> pn_next P' = pn_next P1 \<and> same_drivers (pn_objs P1) (pn_objs P')"
  proof (cases "P' = P1")
    case False
    then obtain oid where "P' = pushRateLimit e oid (node_ports i (app_store (pn_app P1))) P1" using P' by blast
    from pushRateLimit_frame[OF f1 this] show ?thesis by simp
  qed simp
  have eqs: "pn_app P' = pn_app P" "pn_frpc P' = pn_frpc P1" "pn_conns P' = pn_conns P" "pn_next P' = pn_next P" "same_drivers (pn_objs P) (pn_objs P')"
    using same fr by simp_all
  have "sync_frame i P P'"
    unfolding sync_frame_def eqs using kp Some eqs(5) by (simp add: i)
  moreover have "synced e i P'" unfolding synced_def eqs using ok Some by (simp add: i)
  ultimately show ?thesis using P' Some by simp
qed

section \<open>Synchronising all nodes\<close>

lemma wanted_cfg_cong:
  "fm_dir m' = fm_dir m \<Longrightarrow> fm_secret m' = fm_secret m \<Longrightarrow> map_of (fm_adminPorts m') (nd_ID n) = map_of (fm_adminPorts m) (nd_ID n) \<Longrightarrow>
   wanted_cfg hmac n ps m' = wanted_cfg hmac n ps m"
  by (simp add: wanted_cfg_def frpc_params_cong[of m' m])

lemma synced_frame:
  assumes "sync_frame j P P'" "i \<noteq> j" "synced e i P" shows "synced e i P'"
proof -
  have f: "pn_app P' = pn_app P" "cfg_file i (pn_frpc P') = cfg_file i (pn_frpc P)" "Running i (pn_frpc P') = Running i (pn_frpc P)"
    "map_of (fm_adminPorts (pn_frpc P')) i = map_of (fm_adminPorts (pn_frpc P)) i"
    "fm_dir (pn_frpc P') = fm_dir (pn_frpc P)" "fm_secret (pn_frpc P') = fm_secret (pn_frpc P)"
    using assms(1,2) by (simp_all add: sync_frame_def)
  have "wanted_cfg (pe_hmac e) n ps (pn_frpc P') = wanted_cfg (pe_hmac e) n ps (pn_frpc P)" if "node_row i (app_store (pn_app P)) = Some n" for n ps
    using f(4-6) node_row_id[OF that] by (intro wanted_cfg_cong) simp_all
  then show ?thesis using assms(3) unfolding synced_def f(1-3) by metis
qed

lemma sync_fold:
  assumes "faultless_db P" "\<And>j. pe_write e j = Written" "distinct ids" "P' = fold (\<lambda>i P. snd (SyncNode e i P)) ids P"
  shows "pn_app P' = pn_app P \<and> pn_conns P' = pn_conns P \<and> pn_next P' = pn_next P \<and> same_drivers (pn_objs P) (pn_objs P') \<and>
    fm_dir (pn_frpc P') = fm_dir (pn_frpc P) \<and> (\<forall>i\<in>set ids. synced e i P') \<and>
    (\<forall>j. j \<notin> set ids \<or> node_row j (app_store (pn_app P)) = None \<longrightarrow>
       cfg_file j (pn_frpc P') = cfg_file j (pn_frpc P) \<and> Running j (pn_frpc P') = Running j (pn_frpc P))"
  using assms(1,3,4)
proof (induction ids arbitrary: P' rule: rev_induct)
  case (snoc i ids)
  let ?P = "fold (\<lambda>i P. snd (SyncNode e i P)) ids P"
  have IH: "pn_app ?P = pn_app P" "pn_conns ?P = pn_conns P" "pn_next ?P = pn_next P" "same_drivers (pn_objs P) (pn_objs ?P)"
    "fm_dir (pn_frpc ?P) = fm_dir (pn_frpc P)" "\<And>i. i \<in> set ids \<Longrightarrow> synced e i ?P"
    "\<And>j. j \<notin> set ids \<or> node_row j (app_store (pn_app P)) = None \<Longrightarrow>
       cfg_file j (pn_frpc ?P) = cfg_file j (pn_frpc P) \<and> Running j (pn_frpc ?P) = Running j (pn_frpc P)"
    using snoc.IH[OF snoc.prems(1) _ refl] snoc.prems(2) unfolding distinct_append by blast+
  obtain r where r: "SyncNode e i ?P = (r, P')" using snoc.prems(3) by (cases "SyncNode e i ?P") simp
  have "faultless_db ?P" using snoc.prems(1) IH(1) by simp
  from SyncNode_syncs[OF this assms(2) r] have st: "sync_frame i ?P P'" "synced e i P'" by simp_all
  have notin: "i \<notin> set ids" using snoc.prems(2) by simp
  have "synced e j P'" if "j \<in> set ids" for j
    using synced_frame[OF st(1) _ IH(6)[OF that]] that notin by metis
  then have syn: "\<forall>j\<in>set (ids @ [i]). synced e j P'" using st(2) by simp
  have fr: "pn_app P' = pn_app ?P" "pn_conns P' = pn_conns ?P" "pn_next P' = pn_next ?P" "same_drivers (pn_objs ?P) (pn_objs P')"
    "fm_dir (pn_frpc P') = fm_dir (pn_frpc ?P)"
    "\<And>j. j \<noteq> i \<or> node_row i (app_store (pn_app ?P)) = None \<Longrightarrow> cfg_file j (pn_frpc P') = cfg_file j (pn_frpc ?P) \<and> Running j (pn_frpc P') = Running j (pn_frpc ?P)"
    using st(1) by (simp_all add: sync_frame_def)
  have "cfg_file j (pn_frpc P') = cfg_file j (pn_frpc P) \<and> Running j (pn_frpc P') = Running j (pn_frpc P)"
    if "j \<notin> set (ids @ [i]) \<or> node_row j (app_store (pn_app P)) = None" for j
    using that fr(6)[of j] IH(7)[of j] by (cases "j = i") (simp_all add: IH(1))
  then show ?case using syn same_drivers_trans[OF IH(4) fr(4)] by (simp add: fr(1-3,5) IH(1-3,5))
qed simp

section \<open>Well-formed panels\<close>

text \<open>
  The manager's table and the heap of drivers: a table entry names a driver of its node that was not
  stopped, and a driver that was not stopped is in the table; so a node has at most one.
\<close>

definition panel_wf :: "Panel \<Rightarrow> bool" where
  "panel_wf P \<longleftrightarrow> wf_gomap (pn_conns P) \<and>
     (\<forall>i oid. map_of (pn_conns P) i = Some oid \<longrightarrow> (\<exists>c. map_of (pn_objs P) oid = Some c \<and> nc_nodeID c = i \<and> \<not> nc_cancelled c)) \<and>
     (\<forall>oid c. map_of (pn_objs P) oid = Some c \<longrightarrow> oid < pn_next P \<and> nd_ID (nc_node c) = nc_nodeID c \<and>
        (\<not> nc_cancelled c \<longrightarrow> map_of (pn_conns P) (nc_nodeID c) = Some oid))"

text \<open>An operation that keeps the table, and of each driver its node and whether it was stopped.\<close>

definition ident :: "NodeConn \<Rightarrow> int \<times> int \<times> bool" where
  "ident c = (nc_nodeID c, nd_ID (nc_node c), nc_cancelled c)"

definition keeps_ids :: "Panel \<Rightarrow> Panel \<Rightarrow> bool" where
  "keeps_ids P P' \<longleftrightarrow> pn_conns P' = pn_conns P \<and> pn_next P' = pn_next P \<and>
     (\<forall>oid. map_option ident (map_of (pn_objs P') oid) = map_option ident (map_of (pn_objs P) oid))"

lemma map_option_eqD: "map_option f x' = map_option f x \<Longrightarrow> x = Some a \<Longrightarrow> \<exists>a'. x' = Some a' \<and> f a' = f a"
  by (cases x') auto

lemma panel_wf_keeps:
  assumes "panel_wf P" "keeps_ids P P'" shows "panel_wf P'"
proof -
  have c: "pn_conns P' = pn_conns P" "pn_next P' = pn_next P" using assms(2) by (simp_all add: keeps_ids_def)
  have io: "map_option ident (map_of (pn_objs P') oid) = map_option ident (map_of (pn_objs P) oid)" for oid using assms(2) by (simp add: keeps_ids_def)
  have o1: "\<exists>c'. map_of (pn_objs P') oid = Some c' \<and> ident c' = ident c" if "map_of (pn_objs P) oid = Some c" for oid c
    using map_option_eqD[OF io that] .
  have o2: "\<exists>c. map_of (pn_objs P) oid = Some c \<and> ident c = ident c'" if "map_of (pn_objs P') oid = Some c'" for oid c'
    using map_option_eqD[OF io[symmetric] that] .
  show ?thesis unfolding panel_wf_def c
  proof (intro conjI allI impI)
    show "wf_gomap (pn_conns P)" using assms(1) by (simp add: panel_wf_def)
  next
    fix i oid assume "map_of (pn_conns P) i = Some oid"
    then obtain c0 where "map_of (pn_objs P) oid = Some c0" "nc_nodeID c0 = i" "\<not> nc_cancelled c0" using assms(1) unfolding panel_wf_def by blast
    then show "\<exists>c. map_of (pn_objs P') oid = Some c \<and> nc_nodeID c = i \<and> \<not> nc_cancelled c" using o1 by (fastforce simp: ident_def)
  next
    fix oid c' assume "map_of (pn_objs P') oid = Some c'"
    then obtain c0 where "map_of (pn_objs P) oid = Some c0" "ident c0 = ident c'" using o2 by blast
    moreover from this(1) have "oid < pn_next P \<and> nd_ID (nc_node c0) = nc_nodeID c0 \<and> (\<not> nc_cancelled c0 \<longrightarrow> map_of (pn_conns P) (nc_nodeID c0) = Some oid)"
      using assms(1) by (simp add: panel_wf_def)
    ultimately show "oid < pn_next P" "nd_ID (nc_node c') = nc_nodeID c'" "\<not> nc_cancelled c' \<Longrightarrow> map_of (pn_conns P) (nc_nodeID c') = Some oid"
      by (simp_all add: ident_def)
  qed
qed

lemma keeps_ids_refl [simp]: "keeps_ids P P" by (simp add: keeps_ids_def)

lemma keeps_ids_trans [trans]: "keeps_ids P Q \<Longrightarrow> keeps_ids Q R \<Longrightarrow> keeps_ids P R"
  by (simp add: keeps_ids_def)

lemma ident_core: "core c' = core c \<Longrightarrow> ident c' = ident c"
  by (cases c; cases c') (simp add: core_def ident_def)

lemma keeps_ids_objs: "pn_conns P' = pn_conns P \<Longrightarrow> pn_next P' = pn_next P \<Longrightarrow> pn_objs P' = pn_objs P \<Longrightarrow> keeps_ids P P'"
  by (simp add: keeps_ids_def)

lemma keeps_ids_same:
  assumes "pn_conns P' = pn_conns P" "pn_next P' = pn_next P" "same_drivers (pn_objs P) (pn_objs P')" shows "keeps_ids P P'"
proof -
  have "map_option ident (map_of (pn_objs P') oid) = map_option ident (map_of (pn_objs P) oid)" for oid
    using assms(3)[unfolded same_drivers_def, rule_format, of oid] by (cases "map_of (pn_objs P) oid"; cases "map_of (pn_objs P') oid") (auto intro: ident_core)
  then show ?thesis using assms by (simp add: keeps_ids_def)
qed

lemma keeps_ids_on_obj:
  "(\<And>c. map_of (pn_objs P) oid = Some c \<Longrightarrow> ident (f c) = ident c) \<Longrightarrow> keeps_ids P (on_obj oid f P)"
  by (auto simp: keeps_ids_def on_obj_objs option.map_comp intro!: option.map_cong)

lemma keeps_ids_on_app: "keeps_ids P Q \<Longrightarrow> keeps_ids P (on_app g Q)" "keeps_ids P Q \<Longrightarrow> keeps_ids P (on_frpc h Q)"
  "keeps_ids P Q \<Longrightarrow> keeps_ids P (Q\<lparr>pn_sent := x\<rparr>)"
  by (simp_all add: keeps_ids_def)

lemma keeps_ids_run_app: "run_app f P = (r, P') \<Longrightarrow> keeps_ids P P'"
  using run_app_frame[of f P r P'] by (simp add: keeps_ids_objs)

lemma keeps_ids_snd_run: "keeps_ids P (snd (run_app f P))"
  by (rule keeps_ids_run_app[of f P "fst (run_app f P)"]) simp

lemma keeps_ids_ensure: "ensure e n ps P = (r, P') \<Longrightarrow> keeps_ids P P'"
  using ensure_frame[of e n ps P r P'] by (simp add: keeps_ids_objs)

lemma keeps_ids_request: "request e oid cmd P = (r, P') \<Longrightarrow> keeps_ids P P'"
  using request_frame[of e oid cmd P r P'] by (simp add: keeps_ids_same)

lemma keeps_ids_push: "keeps_ids P (pushRateLimit e oid ports P)"
proof -
  obtain rate P1 where 1: "run_app connRateLimit P = (rate, P1)" by (cases "run_app connRateLimit P")
  obtain r P2 where 2: "request e oid (CSetRateLimit \<lparr>rl_Rate = rate, rl_Ports = ports\<rparr>) P1 = (r, P2)"
    by (cases "request e oid (CSetRateLimit \<lparr>rl_Rate = rate, rl_Ports = ports\<rparr>) P1")
  show ?thesis using keeps_ids_trans[OF keeps_ids_run_app[OF 1] keeps_ids_request[OF 2]] by (simp add: pushRateLimit_def 1 2)
qed

lemmas keeps_steps = keeps_ids_run_app keeps_ids_ensure keeps_ids_request

lemma keeps_ids_reconcile: "keeps_ids P (reconcile e oid P)"
proof (cases "map_of (pn_objs P) oid")
  case (Some c)
  obtain r P1 where 1: "run_app (desiredProxies (nc_nodeID c)) P = (r, P1)" by (cases "run_app (desiredProxies (nc_nodeID c)) P")
  show ?thesis
  proof (cases r)
    case (Inr dp)
    obtain ds ports where dp: "dp = (ds, ports)" by (cases dp)
    obtain r2 P2 where 2: "request e oid CListProxies P1 = (r2, P2)" by (cases "request e oid CListProxies P1")
    let ?P3 = "on_app (reconcile_logs e (nc_node c) (nc_nodeID c) (map px_Name ds) (registered_names e r2)) P2"
    obtain r4 P4 where 4: "ensure e (nc_node c) ds ?P3 = (r4, P4)" by (cases "ensure e (nc_node c) ds ?P3")
    have "keeps_ids P ?P3" using keeps_ids_trans[OF keeps_ids_run_app[OF 1] keeps_ids_request[OF 2]] by (rule keeps_ids_on_app)
    from keeps_ids_trans[OF keeps_ids_trans[OF this keeps_ids_ensure[OF 4]] keeps_ids_push] show ?thesis
      by (simp add: reconcile_def Some 1 Inr dp 2 4)
  qed (use 1 Some keeps_ids_run_app[OF 1] in \<open>simp add: reconcile_def\<close>)
qed (simp add: reconcile_def)

lemma map_ident_Some: "keeps_ids P Q \<Longrightarrow> map_of (pn_objs P) oid = Some c \<Longrightarrow> \<exists>c'. map_of (pn_objs Q) oid = Some c' \<and> ident c' = ident c"
  by (rule map_option_eqD[of ident]) (simp_all add: keeps_ids_def)

lemma learn_id: "nd_ID (fst (learn ack node)) = nd_ID node"
  by (simp add: learn_def Let_def)

lemma keeps_ids_session_up:
  assumes "map_of (pn_objs P) oid = Some c" "nd_ID node = nd_ID (nc_node c)"
  shows "keeps_ids P (session_up e oid i ack lastSeq node P)"
proof -
  obtain node' changed where l: "learn ack node = (node', changed)" by (cases "learn ack node")
  have n: "nd_ID node' = nd_ID (nc_node c)" using learn_id[of ack node] assms(2) by (simp add: l)
  define P1 where "P1 = on_obj oid (\<lambda>c. c\<lparr>nc_agentProto := signed_take_bit 31 (ha_Proto ack)\<rparr>) P"
  have k1: "keeps_ids P P1" unfolding P1_def by (rule keeps_ids_on_obj) (simp add: ident_def)
  define P2 where "P2 = (if changed then on_frpc (StopNode i) (if DBUp (pn_app P1)
      then snd (run_app (run_db (UpdateNodeFrps (pe_unix e) i (nd_FrpsToken node') (nd_FrpsPort node'))) P1) else P1) else P1)"
  have "keeps_ids P1 P2" unfolding P2_def
    using keeps_ids_snd_run by (auto intro!: keeps_ids_on_app)
  then have k2: "keeps_ids P P2" using k1 keeps_ids_trans by blast
  obtain c2 where c2: "map_of (pn_objs P2) oid = Some c2" "ident c2 = ident c" using map_ident_Some[OF k2 assms(1)] by blast
  have "keeps_ids P2 (on_obj oid (\<lambda>c. c\<lparr>nc_node := node', nc_up := True\<rparr>) P2)"
    by (rule keeps_ids_on_obj) (use c2 n in \<open>simp add: ident_def\<close>)
  then have "keeps_ids P (on_obj oid (\<lambda>c. c\<lparr>nc_node := node', nc_up := True\<rparr>) P2)" using k2 keeps_ids_trans by blast
  then show ?thesis unfolding session_up_def Let_def l P1_def[symmetric] prod.case P2_def[symmetric]
    by (auto intro!: keeps_ids_on_app)
qed

lemma keeps_ids_session_start: "keeps_ids P (snd (session_start e s oid P))"
proof (cases "map_of (pn_objs P) oid")
  case (Some c)
  define P1 where "P1 = on_obj oid (\<lambda>c. snd (newID (pe_nano e) (c\<lparr>nc_conn := True\<rparr>))) P"
  have k1: "keeps_ids P P1" unfolding P1_def by (rule keeps_ids_on_obj) (simp add: ident_def newID_def)
  have cl: "keeps_ids P (on_obj oid (\<lambda>c. c\<lparr>nc_conn := False\<rparr>) Q)" if "keeps_ids P Q" for Q
    using keeps_ids_trans[OF that] keeps_ids_on_obj[of Q oid "\<lambda>c. c\<lparr>nc_conn := False\<rparr>"] by (simp add: ident_def)
  have sent: "keeps_ids P (P1\<lparr>pn_sent := x\<rparr>)" for x using k1 by (rule keeps_ids_on_app)
  have up: "keeps_ids P (session_up e oid i ack l (nc_node c) (P1\<lparr>pn_sent := x\<rparr>))" for i ack l x
  proof -
    obtain c1 where c1: "map_of (pn_objs P1) oid = Some c1" "ident c1 = ident c" using map_ident_Some[OF k1 Some] by blast
    then show ?thesis using keeps_ids_trans[OF sent keeps_ids_session_up[of "P1\<lparr>pn_sent := x\<rparr>" oid c1 "nc_node c"]] by (simp add: ident_def)
  qed
  show ?thesis
    using cl[OF k1] cl[OF sent] up by (auto simp: session_start_def Some Let_def P1_def[symmetric] split: option.split)
qed (simp add: session_start_def)

lemma keeps_ids_handle: "keeps_ids P (handle_msg e h oid env P)"
proof -
  have "ident (deliver env c) = ident c" for c by (simp add: deliver_def ident_def split: option.split)
  then show ?thesis
    by (auto simp: handle_msg_def Let_def split: option.split prod.split intro!: keeps_ids_on_app keeps_ids_on_obj dest: keeps_ids_run_app)
qed

lemma keeps_ids_read: "keeps_ids P (snd (session_read e h now oid frame P))"
  using keeps_ids_handle by (auto simp: session_read_def split: option.split verify_error.split)

lemma keeps_ids_end: "keeps_ids P (session_end e oid P)"
  by (auto simp: session_end_def Let_def ident_def split: option.split intro!: keeps_ids_on_app keeps_ids_on_obj)

lemma keeps_ids_SyncNode: "keeps_ids P (snd (SyncNode e i P))"
proof -
  obtain r P1 where 1: "run_app (run_db (GetNode i)) P = (r, P1)" by (cases "run_app (run_db (GetNode i)) P")
  obtain r2 P2 where 2: "run_app (desiredProxies i) P1 = (r2, P2)" by (cases "run_app (desiredProxies i) P1")
  have k: "keeps_ids P P1" "keeps_ids P P2" using keeps_ids_run_app[OF 1] keeps_ids_trans[OF keeps_ids_run_app[OF 1] keeps_ids_run_app[OF 2]] .
  have e3: "keeps_ids P P3" "keeps_ids P (pushRateLimit e oid ports P3)" if "ensure e n ps P2 = (d, P3)" for n ps d P3 oid ports
    using keeps_ids_trans[OF k(2) keeps_ids_ensure[OF that]] keeps_ids_trans[OF keeps_ids_trans[OF k(2) keeps_ids_ensure[OF that]] keeps_ids_push] .
  show ?thesis unfolding SyncNode_def 1 using k e3
    by (auto simp: 2 split: option.split sum.split prod.split bool.split)
qed

lemma keeps_ids_fold: "(\<And>x P. keeps_ids P (f x P)) \<Longrightarrow> keeps_ids P (fold f xs P)"
proof (induction xs arbitrary: P)
  case (Cons x xs)
  then show ?case using keeps_ids_trans[OF Cons.prems[of P x]] by simp
qed simp

lemma keeps_ids_SyncAll: "keeps_ids P (SyncAll e P)"
  unfolding SyncAll_def by (rule keeps_ids_fold) (rule keeps_ids_SyncNode)

lemma keeps_ids_PushAll: "keeps_ids P (PushRateLimitAll e P)"
proof -
  have "keeps_ids P (push_one e oid P)" for oid P
    using keeps_ids_trans[OF keeps_ids_run_app keeps_ids_push] by (auto simp: push_one_def split: option.split sum.split prod.split dest: keeps_ids_run_app)
  then show ?thesis unfolding PushRateLimitAll_def by (rule keeps_ids_fold)
qed

lemma Conn_Some: "Conn i P = Some (oid, c) \<Longrightarrow> map_of (pn_objs P) oid = Some c"
  by (auto simp: Conn_def split: option.splits)

lemma keeps_ids_PortCheck: "keeps_ids P (snd (nm_PortCheck e i port proto P))"
  by (auto simp: nm_PortCheck_def split: option.split prod.split sum.split dest: keeps_ids_request)

lemma keeps_ids_UpdateAgent: "keeps_ids P (snd (nm_UpdateAgent e i ver base mirror P))"
  by (auto simp: nm_UpdateAgent_def Let_def split: option.split prod.split sum.split dest: keeps_ids_request)

lemma keeps_ids_UpdateMeta: "keeps_ids P (UpdateMeta i name region P)"
  by (auto simp: UpdateMeta_def ident_def split: option.split intro!: keeps_ids_on_obj)

lemma keeps_ids_Rotate: "keeps_ids P (snd (RotateFrpsToken e i P))"
proof (cases "Conn i P")
  case (Some oc)
  obtain oid c where oc: "oc = (oid, c)" by (cases oc)
  let ?cmd = "CRestartFrps \<lparr>rf_NewFrpsToken = pe_newToken e, rf_Reason = ''token_rotation''\<rparr>"
  let ?node = "(nc_node c)\<lparr>nd_FrpsToken := pe_newToken e\<rparr>"
  obtain r P1 where 1: "request e oid ?cmd P = (r, P1)" by (cases "request e oid ?cmd P")
  obtain r2 P2 where 2: "run_app (run_db (UpdateNodeFrps (pe_unix e) i (pe_newToken e) (nd_FrpsPort ?node))) P1 = (r2, P2)"
    by (cases "run_app (run_db (UpdateNodeFrps (pe_unix e) i (pe_newToken e) (nd_FrpsPort ?node))) P1")
  define P3 where "P3 = on_obj oid (\<lambda>c. c\<lparr>nc_node := ?node\<rparr>) P2"
  obtain r4 P4 where 4: "run_app (desiredProxies i) P3 = (r4, P4)" by (cases "run_app (desiredProxies i) P3")
  have k2: "keeps_ids P P1" "keeps_ids P P2" using keeps_ids_request[OF 1] keeps_ids_trans[OF keeps_ids_request[OF 1] keeps_ids_run_app[OF 2]] .
  obtain c2 where "map_of (pn_objs P2) oid = Some c2" "ident c2 = ident c" using map_ident_Some[OF k2(2)] Conn_Some Some oc by blast
  then have "keeps_ids P2 P3" unfolding P3_def by (intro keeps_ids_on_obj) (simp add: ident_def)
  then have k4: "keeps_ids P P4" using k2(2) keeps_ids_run_app[OF 4] keeps_ids_trans by blast
  have k5: "keeps_ids P P5" "keeps_ids P (on_app g (pushRateLimit e oid ports P5))" if "ensure e n ps (on_frpc h P4) = (d, P5)" for n ps h d P5 g ports
    using keeps_ids_trans[OF keeps_ids_on_app(2)[OF k4] keeps_ids_ensure[OF that]]
      keeps_ids_on_app(1)[OF keeps_ids_trans[OF keeps_ids_trans[OF keeps_ids_on_app(2)[OF k4] keeps_ids_ensure[OF that]] keeps_ids_push]] .
  show ?thesis
    using k2 k4 k5 by (auto simp: RotateFrpsToken_def Some oc Let_def 1 2[simplified] P3_def[symmetric] 4 split: sum.split prod.split bool.split)
qed (simp add: RotateFrpsToken_def)

lemmas keeps_ids_ops = keeps_ids_reconcile keeps_ids_session_start keeps_ids_read keeps_ids_end keeps_ids_SyncAll keeps_ids_PushAll
  keeps_ids_PortCheck keeps_ids_UpdateAgent keeps_ids_UpdateMeta keeps_ids_Rotate

text \<open>Starting and stopping a node.\<close>

lemma panel_wf_conns: "panel_wf P \<Longrightarrow> map_of (pn_conns P) i = Some oid \<Longrightarrow> \<exists>c. map_of (pn_objs P) oid = Some c \<and> nc_nodeID c = i \<and> \<not> nc_cancelled c"
  unfolding panel_wf_def by blast

lemma panel_wf_objs: "panel_wf P \<Longrightarrow> map_of (pn_objs P) oid = Some c \<Longrightarrow> oid < pn_next P \<and> nd_ID (nc_node c) = nc_nodeID c \<and>
    (\<not> nc_cancelled c \<longrightarrow> map_of (pn_conns P) (nc_nodeID c) = Some oid)"
  unfolding panel_wf_def by blast

text \<open>Starting a node that is not in the table adds a driver for it, and nothing else of the table changes.\<close>

lemma nm_start_new:
  assumes "map_of (pn_conns P) (nd_ID node) = None"
  shows "keeps_ids (P\<lparr>pn_objs := AList.update (pn_next P) (newNodeConn node) (pn_objs P), pn_conns := AList.update (nd_ID node) (pn_next P) (pn_conns P), pn_next := pn_next P + 1\<rparr>)
    (nm_start e node P)" (is "keeps_ids ?Q _")
proof -
  let ?R = "on_app (InitNode (nd_ID node) (nd_LastCommitSeq node)) ?Q"
  have k: "keeps_ids ?Q ?R" by (rule keeps_ids_on_app(1)[OF keeps_ids_refl])
  obtain r R2 where r: "run_app (desiredProxies (nd_ID node)) ?R = (r, R2)" by (cases "run_app (desiredProxies (nd_ID node)) ?R")
  have k2: "keeps_ids ?Q R2" using keeps_ids_trans[OF k keeps_ids_run_app[OF r]] .
  then have "keeps_ids ?Q (snd (ensure e node ps R2))" for ps
    using keeps_ids_trans[OF k2 keeps_ids_ensure[of e node ps R2]] by (metis surjective_pairing)
  then show ?thesis using assms k k2 by (auto simp: nm_start_def Let_def r split: sum.split)
qed

lemma panel_wf_start:
  assumes "panel_wf P" shows "panel_wf (nm_start e node P)"
proof (cases "map_of (pn_conns P) (nd_ID node)")
  case None
  let ?Q = "P\<lparr>pn_objs := AList.update (pn_next P) (newNodeConn node) (pn_objs P), pn_conns := AList.update (nd_ID node) (pn_next P) (pn_conns P), pn_next := pn_next P + 1\<rparr>"
  have fresh: "map_of (pn_conns P) i \<noteq> Some (pn_next P)" "map_of (pn_objs P) (pn_next P) = None" for i
    using panel_wf_conns[OF assms] panel_wf_objs[OF assms] by (metis less_irrefl, metis less_irrefl not_None_eq)
  have "panel_wf ?Q" unfolding panel_wf_def
  proof (intro conjI allI impI)
    show "wf_gomap (pn_conns ?Q)" using assms by (simp add: panel_wf_def wf_gomap_update)
  next
    fix i oid assume "map_of (pn_conns ?Q) i = Some oid"
    then show "\<exists>c. map_of (pn_objs ?Q) oid = Some c \<and> nc_nodeID c = i \<and> \<not> nc_cancelled c"
      using panel_wf_conns[OF assms, of i oid] fresh(1)[of i] by (cases "i = nd_ID node") (auto simp: map_of_update newNodeConn_def)
  next
    fix oid c assume "map_of (pn_objs ?Q) oid = Some c"
    then show "oid < pn_next ?Q" "nd_ID (nc_node c) = nc_nodeID c" "\<not> nc_cancelled c \<Longrightarrow> map_of (pn_conns ?Q) (nc_nodeID c) = Some oid"
      using panel_wf_objs[OF assms, of oid c] None by (auto simp: map_of_update newNodeConn_def split: if_splits)
  qed
  moreover have "keeps_ids ?Q (nm_start e node P)" by (rule nm_start_new[OF None])
  ultimately show ?thesis using panel_wf_keeps by blast
qed (simp add: nm_start_def assms)

lemma panel_wf_stop:
  assumes "panel_wf P" shows "panel_wf (nm_stop i P)"
proof (cases "map_of (pn_conns P) i")
  case None
  then have "AList.delete i (pn_conns P) = pn_conns P" by (intro delete_id) (simp add: map_of_eq_None_iff)
  then have "nm_stop i P = P" by (simp add: nm_stop_def None)
  then show ?thesis using assms by simp
next
  case (Some o1)
  let ?Q = "nm_stop i P"
  have objs: "map_of (pn_objs ?Q) oid = (if oid = o1 then map_option (\<lambda>c. c\<lparr>nc_cancelled := True\<rparr>) (map_of (pn_objs P) oid) else map_of (pn_objs P) oid)" for oid
    by (simp add: nm_stop_def Some on_obj_objs)
  have rest: "pn_conns ?Q = AList.delete i (pn_conns P)" "pn_next ?Q = pn_next P" by (simp_all add: nm_stop_def Some)
  show ?thesis unfolding panel_wf_def rest
  proof (intro conjI allI impI)
    show "wf_gomap (AList.delete i (pn_conns P))" using assms by (simp add: panel_wf_def wf_gomap_delete)
  next
    fix j oid assume a: "map_of (AList.delete i (pn_conns P)) j = Some oid"
    then have j: "j \<noteq> i" "map_of (pn_conns P) j = Some oid" by (auto simp: delete_conv' split: if_splits)
    then have "oid \<noteq> o1" using panel_wf_conns[OF assms] Some by (metis option.inject)
    then show "\<exists>c. map_of (pn_objs ?Q) oid = Some c \<and> nc_nodeID c = j \<and> \<not> nc_cancelled c" using panel_wf_conns[OF assms j(2)] by (simp add: objs)
  next
    fix oid c assume a: "map_of (pn_objs ?Q) oid = Some c"
    then obtain c0 where c0: "map_of (pn_objs P) oid = Some c0" "c = (if oid = o1 then c0\<lparr>nc_cancelled := True\<rparr> else c0)"
      by (auto simp: objs split: if_splits)
    note w = panel_wf_objs[OF assms c0(1)]
    show "oid < pn_next P" "nd_ID (nc_node c) = nc_nodeID c" using w c0(2) by (simp_all split: if_splits)
    assume "\<not> nc_cancelled c"
    then have "oid \<noteq> o1" "c = c0" using c0(2) by (auto split: if_splits)
    moreover from this w \<open>\<not> nc_cancelled c\<close> have "map_of (pn_conns P) (nc_nodeID c0) = Some oid" by simp
    ultimately show "map_of (AList.delete i (pn_conns P)) (nc_nodeID c) = Some oid" using Some by (auto simp: delete_conv')
  qed
qed

lemma panel_wf_fold: "(\<And>x P. panel_wf P \<Longrightarrow> panel_wf (f x P)) \<Longrightarrow> panel_wf P \<Longrightarrow> panel_wf (fold f xs P)"
  by (induction xs arbitrary: P) simp_all

lemma panel_wf_run: "panel_wf P \<Longrightarrow> run_app f P = (r, P') \<Longrightarrow> panel_wf P'"
  by (rule panel_wf_keeps[OF _ keeps_ids_run_app])

lemma panel_wf_on: "panel_wf P \<Longrightarrow> panel_wf (on_app g P)" "panel_wf P \<Longrightarrow> panel_wf (on_frpc h P)"
  by (simp_all add: panel_wf_def)

text \<open>The states the panel reaches: any of its operations, with any outcome of what it asks of the outside.\<close>

inductive panel_reach :: "Panel \<Rightarrow> bool" where
  init: "panel_reach (NewNodeManager a fm)"
| start_all: "panel_reach P \<Longrightarrow> panel_reach (snd (tryStartAll e P))"
| add: "panel_reach P \<Longrightarrow> panel_reach (nm_Add e node P)"
| restart: "panel_reach P \<Longrightarrow> panel_reach (nm_Restart e i P)"
| remove: "panel_reach P \<Longrightarrow> panel_reach (nm_Remove i P)"
| stop_all: "panel_reach P \<Longrightarrow> panel_reach (nm_StopAll P)"
| session: "panel_reach P \<Longrightarrow> panel_reach (snd (session_start e s oid P))"
| reading: "panel_reach P \<Longrightarrow> panel_reach (snd (session_read e h now oid frame P))"
| ended: "panel_reach P \<Longrightarrow> panel_reach (session_end e oid P)"
| reconciled: "panel_reach P \<Longrightarrow> panel_reach (reconcile e oid P)"
| sync_all: "panel_reach P \<Longrightarrow> panel_reach (SyncAll e P)"
| push_all: "panel_reach P \<Longrightarrow> panel_reach (PushRateLimitAll e P)"
| port_check: "panel_reach P \<Longrightarrow> panel_reach (snd (nm_PortCheck e i port proto P))"
| rotate: "panel_reach P \<Longrightarrow> panel_reach (snd (RotateFrpsToken e i P))"
| update_agent: "panel_reach P \<Longrightarrow> panel_reach (snd (nm_UpdateAgent e i ver base mirror P))"
| update_meta: "panel_reach P \<Longrightarrow> panel_reach (UpdateMeta i name region P)"
| shared: "panel_reach P \<Longrightarrow> panel_reach (on_app g P)"
| frpc: "panel_reach P \<Longrightarrow> panel_reach (on_frpc g' P)"

lemma panel_reach_wf: "panel_reach P \<Longrightarrow> panel_wf P"
proof (induction rule: panel_reach.induct)
  case (init a fm)
  then show ?case by (simp add: panel_wf_def NewNodeManager_def)
next
  case (start_all P e)
  then show ?case by (auto simp: tryStartAll_def split: sum.split prod.split intro!: panel_wf_fold panel_wf_start dest: panel_wf_run)
next
  case (restart P e i)
  then show ?case by (auto simp: nm_Restart_def split: sum.split prod.split option.split intro!: panel_wf_start panel_wf_stop dest: panel_wf_run)
next
  case (remove P i)
  then show ?case unfolding nm_Remove_def by (intro panel_wf_on panel_wf_stop)
next
  case (stop_all P)
  then show ?case unfolding nm_StopAll_def by (intro panel_wf_on panel_wf_fold panel_wf_stop)
next
  case (add P e node)
  then show ?case unfolding nm_Add_def by (intro panel_wf_start panel_wf_stop)
next
  case (shared P g)
  then show ?case by (intro panel_wf_on)
next
  case (frpc P g')
  then show ?case by (intro panel_wf_on)
qed (erule panel_wf_keeps, rule keeps_ids_ops)+

section \<open>Properties\<close>

text \<open>
  C13: one driver for each node. In every state the panel reaches, whatever agents, database and file
  system do, the manager's entry of a node is a driver of that node that was not stopped, every driver
  that was not stopped is the entry of its node, and so no node has two.
\<close>
theorem one_driver_per_node:
  assumes "panel_reach P"
  shows "(map_of (pn_conns P) i = Some oid \<longrightarrow> (\<exists>c. map_of (pn_objs P) oid = Some c \<and> nc_nodeID c = i \<and> nd_ID (nc_node c) = i \<and> \<not> nc_cancelled c)) \<and>
    (map_of (pn_objs P) oid = Some c \<and> map_of (pn_objs P) oid' = Some c' \<and> nc_nodeID c = nc_nodeID c' \<and> \<not> nc_cancelled c \<and> \<not> nc_cancelled c' \<longrightarrow> oid = oid')"
proof -
  note wf = panel_reach_wf[OF assms]
  show ?thesis
    using panel_wf_conns[OF wf, of i oid] panel_wf_objs[OF wf, of oid] panel_wf_objs[OF wf, of oid'] by (metis option.inject)
qed

text \<open>
  C2: a synchronisation refines the abstract data plane. Seen as a function from nodes to frpc
  configurations, the panel's files after \<^verbatim>\<open>SyncAll\<close> over a working database are, for every managed node
  of the database, the configuration rendered from its row and exactly its enabled targets, with the
  process running, and for every other node what they were; the database is unchanged.
\<close>
theorem sync_refines:
  assumes "panel_reach P" "db_faults (app_store (pn_app P)) = []" "\<forall>j. pe_write e j = Written" "P' = SyncAll e P" "db = app_store (pn_app P)"
  shows "pn_app P' = pn_app P \<and>
    (case (map_of (pn_conns P) i, node_row i db) of
       (Some _, Some n) \<Rightarrow> Running i (pn_frpc P') \<and>
         (\<exists>port. map_of (fm_adminPorts (pn_frpc P')) i = Some port \<and>
            cfg_file i (pn_frpc P') = Some (RenderFrpc (frpc_params (pe_hmac e) n (map desired_proxy (enabled_rows i db)) port (pn_frpc P'))))
     | _ \<Rightarrow> cfg_file i (pn_frpc P') = cfg_file i (pn_frpc P) \<and> Running i (pn_frpc P') = Running i (pn_frpc P))"
proof -
  have d: "distinct (map fst (pn_conns P))" using panel_reach_wf[OF assms(1)] by (simp add: panel_wf_def)
  have m: "map_of (pn_conns P) i \<noteq> None \<longleftrightarrow> i \<in> set (map fst (pn_conns P))" by (simp add: map_of_eq_None_iff)
  note s = sync_fold[OF assms(2) assms(3)[rule_format] d, of P', folded SyncAll_def, OF assms(4)]
  show ?thesis
  proof (cases "map_of (pn_conns P) i \<noteq> None \<and> node_row i db \<noteq> None")
    case True
    then obtain n oid where n: "node_row i db = Some n" "map_of (pn_conns P) i = Some oid" by auto
    have "synced e i P'" using s True m by blast
    moreover have "pn_app P' = pn_app P" using s by blast
    ultimately show ?thesis using n node_row_id[OF n(1)]
      by (cases "map_of (fm_adminPorts (pn_frpc P')) i") (auto simp: synced_def assms(5) wanted_cfg_def)
  next
    case False
    then have "cfg_file i (pn_frpc P') = cfg_file i (pn_frpc P) \<and> Running i (pn_frpc P') = Running i (pn_frpc P)"
      using s m unfolding assms(5) by metis
    then show ?thesis using False s by (auto split: option.split)
  qed
qed

lemma offline_rows:
  "map nd_Status (filter (\<lambda>n. nd_ID n = i) (map (\<lambda>n. if nd_ID n = i then n\<lparr>nd_Status := ''offline'', nd_UpdatedAt := t\<rparr> else n) xs)) =
   replicate (length (filter (\<lambda>n. nd_ID n = i) xs)) ''offline''"
  by (induction xs) auto

lemma Account_present: "map_of (app_pipe (snd (Account t i m a))) i \<noteq> None"
  by (auto simp: Account_def Let_def put_node_def gomap_simps split: prod.splits)

text \<open>
  C37: a stopped driver still acts on its node. When a node is added again while connected, the old
  driver is only cancelled; its session ends when its read fails, and \<^verbatim>\<open>Run\<close> then marks the node offline
  in the database, clears its tunnel statuses and tells the browsers so, although the new driver is
  connected. After a node is removed, a sample the old driver still reads creates its pipeline state
  again.
\<close>
theorem stopped_driver_acts:
  assumes "map_of (pn_objs P) oid = Some c" "nc_nodeID c = i" "nc_up c" "DBUp (pn_app P)" "db_faults (app_store (pn_app P)) = []"
  shows "(Conn i P = Some (oid2, c2) \<and> oid2 \<noteq> oid \<longrightarrow> Conn i (session_end e oid P) = Some (oid2, c2)) \<and>
    map nd_Status (filter (\<lambda>n. nd_ID n = i) (db_nodes (app_store (pn_app (session_end e oid P))))) =
      replicate (length (filter (\<lambda>n. nd_ID n = i) (db_nodes (app_store (pn_app P))))) ''offline'' \<and>
    getLive i p (pn_app (session_end e oid P)) = [] \<and>
    (e_Type env = TypeMetrics \<and> hd_metrics h (e_Payload env) = Some m \<longrightarrow>
       map_of (app_pipe (pn_app (handle_msg e h oid env (nm_Remove i P)))) i \<noteq> None)"
proof -
  let ?P = "session_end e oid P"
  have "Conn i ?P = Some (oid2, c2)" if "Conn i P = Some (oid2, c2)" "oid2 \<noteq> oid"
    using that assms(1) by (auto simp: Conn_def session_end_def Let_def on_obj_objs split: option.splits)
  moreover have "pn_app ?P = broadcastEvent ''node_offline'' ''node_offline'' (Some i) (pe_nano e div 1000000)
      (app_AddLog (pe_unix e) ''frp_event'' (nd_Name (nc_node c)) (Some i) ''node_offline'' (markNodeOffline (pe_unix e) i (pn_app P)))"
    using assms by (simp add: session_end_def Let_def)
  then have "db_nodes (app_store (pn_app ?P)) = map (\<lambda>n. if nd_ID n = i then n\<lparr>nd_Status := ''offline'', nd_UpdatedAt := pe_unix e\<rparr> else n) (db_nodes (app_store (pn_app P)))"
    and live: "app_live (pn_app ?P) = app_live (clearLiveForNode i (pn_app P))"
    using assms(4,5) by (simp_all add: broadcastEvent_def broadcast_def app_AddLog_def markNodeOffline_def run_db_def SetNodeOffline_def AddLog_def db_upd_def upd_node_def
        clearLiveForNode_def Let_def)
  then have "map nd_Status (filter (\<lambda>n. nd_ID n = i) (db_nodes (app_store (pn_app ?P)))) =
      replicate (length (filter (\<lambda>n. nd_ID n = i) (db_nodes (app_store (pn_app P))))) ''offline''"
    by (simp only: offline_rows)
  moreover have "getLive i p (pn_app ?P) = []" using getLive_clear[of i p i "pn_app P"] live by (simp add: getLive_def)
  moreover have "map_of (app_pipe (pn_app (handle_msg e h oid env (nm_Remove i P)))) i \<noteq> None"
    if "e_Type env = TypeMetrics" "hd_metrics h (e_Payload env) = Some m"
  proof -
    have "\<exists>c'. map_of (pn_objs (nm_Remove i P)) oid = Some c' \<and> nc_nodeID c' = i"
      using assms(1,2) by (simp add: nm_Remove_def nm_stop_def on_obj_objs Let_def split: option.split)
    then obtain c' where c': "map_of (pn_objs (nm_Remove i P)) oid = Some c'" "nc_nodeID c' = i" by blast
    have "TypeMetrics \<noteq> TypePong" by (simp add: TypeMetrics_def TypePong_def)
    then show ?thesis using that c' Account_present[of "pe_nano e div 1000000" i m "pn_app (nm_Remove i P)"]
      by (auto simp: handle_msg_def Let_def run_app_def broadcast_def split: prod.splits option.splits)
  qed
  ultimately show ?thesis by blast
qed

section \<open>A concrete panel\<close>

text \<open>A panel with one node: it connects, is added again and connects again, and the first session ends.\<close>

definition ex_panel_env :: panel_env where
  "ex_panel_env = \<lparr>pe_unix = 10, pe_nano = 0, pe_hmac = (\<lambda>_ _. ''mac''), pe_host = ex_host, pe_write = (\<lambda>_. Written), pe_reply = (\<lambda>_ _. None),
     pe_proxyList = (\<lambda>_. None), pe_portRes = (\<lambda>_. \<lparr>pr_Port = 0, pr_Proto = [], pr_Available = False, pr_Reason = [], pr_Process = []\<rparr>),
     pe_restartRes = (\<lambda>_. \<lparr>rr_OK = False, rr_FrpsVersion = [], rr_Message = []\<rparr>),
     pe_updateRes = (\<lambda>_. \<lparr>ur_OK = False, ur_Started = False, ur_Message = []\<rparr>), pe_newToken = ''n'', pe_version = ''v''\<rparr>"

definition ex_session :: session_env where
  "ex_session = \<lparr>sn_dial = True, sn_sent = True, sn_ack = Some \<lparr>e_Ver = 2, e_Type = TypeHelloAck, e_ID = ''1-0'', e_TS = 0, e_Nonce = [], e_Sig = ''mac'', e_Payload = []\<rparr>,
     sn_unix = 0, sn_decode = (\<lambda>_. \<lparr>ha_AgentVersion = [], ha_FrpsVersion = [], ha_Proto = 2, ha_FrpsPort = 7000, ha_FrpsToken = [], ha_Compatible = True, ha_Message = []\<rparr>)\<rparr>"

definition ex_panel :: Panel where
  "ex_panel = NewNodeManager (New (snd (CreateOrUpdateNode 5 (ex_row\<lparr>nd_FrpsToken := []\<rparr>) empty_store)) [] []) (NewFrpcManager ''/d'' ''k'')"

text \<open>A working database stays one, and a verified acknowledgement brings the driver up.\<close>

abbreviation db_fine :: "App \<Rightarrow> bool" where
  "db_fine a \<equiv> DBUp a \<and> db_faults (app_store a) = []"

lemma db_fine_ops:
  "db_fine a \<Longrightarrow> db_fine (InitNode i v a)" "db_fine a \<Longrightarrow> db_fine (markNodeOnline t i x y a)" "db_fine a \<Longrightarrow> db_fine (app_AddLog t ty src n d a)"
  "db_fine a \<Longrightarrow> db_fine (broadcastEvent k d n ms a)" "db_fine a \<Longrightarrow> db_fine (snd (run_db (UpdateNodeFrps t i tok port) a))"
  by (simp_all add: InitNode_def markNodeOnline_def app_AddLog_def broadcastEvent_def broadcast_def run_db_def UpdateNodeStatus_def UpdateNodeFrps_def AddLog_def
      db_upd_def upd_node_def Let_def split: option.split)

lemma session_up_state:
  assumes "db_fine (pn_app P)" "map_of (pn_objs P) oid = Some c"
  shows "db_fine (pn_app (session_up e oid i ack l node P)) \<and> pn_conns (session_up e oid i ack l node P) = pn_conns P \<and>
    (\<exists>c'. map_of (pn_objs (session_up e oid i ack l node P)) oid = Some c' \<and> nc_up c' \<and> nc_nodeID c' = nc_nodeID c \<and> nc_cancelled c' = nc_cancelled c) \<and>
    (\<forall>j. j \<noteq> oid \<longrightarrow> map_of (pn_objs (session_up e oid i ack l node P)) j = map_of (pn_objs P) j)"
proof -
  obtain node' changed where ln: "learn ack node = (node', changed)" by (cases "learn ack node")
  define P1 where "P1 = on_obj oid (\<lambda>c. c\<lparr>nc_agentProto := signed_take_bit 31 (ha_Proto ack)\<rparr>) P"
  define P2 where "P2 = (if changed then on_frpc (StopNode i) (if DBUp (pn_app P1)
      then snd (run_app (run_db (UpdateNodeFrps (pe_unix e) i (nd_FrpsToken node') (nd_FrpsPort node'))) P1) else P1) else P1)"
  have 1: "db_fine (pn_app P1)" "pn_conns P1 = pn_conns P" using assms(1) by (simp_all add: P1_def)
  have "pn_app (snd (run_app f P1)) = snd (f (pn_app P1))" "pn_conns (snd (run_app f P1)) = pn_conns P1" "pn_objs (snd (run_app f P1)) = pn_objs P1"
    for f :: "App \<Rightarrow> (db_error + unit) \<times> App" by (simp_all add: run_app_def split: prod.split)
  then have 2: "db_fine (pn_app P2)" "pn_conns P2 = pn_conns P" "pn_objs P2 = pn_objs P1"
    using 1 db_fine_ops(5)[OF 1(1)] by (simp_all add: P2_def)
  define Q where "Q = on_obj oid (\<lambda>c. c\<lparr>nc_node := node', nc_up := True\<rparr>) P2"
  have Q: "db_fine (pn_app Q)" "pn_conns Q = pn_conns P" "\<forall>j. j \<noteq> oid \<longrightarrow> map_of (pn_objs Q) j = map_of (pn_objs P) j"
    "\<exists>c'. map_of (pn_objs Q) oid = Some c' \<and> nc_up c' \<and> nc_nodeID c' = nc_nodeID c \<and> nc_cancelled c' = nc_cancelled c"
    using 2 assms(2) by (simp_all add: Q_def on_obj_objs P1_def)
  show ?thesis unfolding session_up_def Let_def ln P1_def[symmetric] prod.case P2_def[symmetric] Q_def[symmetric]
    using Q(2-4) db_fine_ops(1-4) Q(1) by simp
qed

lemma session_start_up:
  assumes "db_fine (pn_app P)" "map_of (pn_objs P) oid = Some c" "sn_dial s" "sn_sent s" "sn_ack s = Some env"
    "Verify (pe_hmac e) env (nd_AgentToken (nc_node c)) (sn_unix s) = None" "Q = snd (session_start e s oid P)"
  shows "db_fine (pn_app Q) \<and> pn_conns Q = pn_conns P \<and>
    (\<exists>c'. map_of (pn_objs Q) oid = Some c' \<and> nc_up c' \<and> nc_nodeID c' = nc_nodeID c \<and> nc_cancelled c' = nc_cancelled c) \<and>
    (\<forall>j. j \<noteq> oid \<longrightarrow> map_of (pn_objs Q) j = map_of (pn_objs P) j)"
proof -
  define P1 where "P1 = on_obj oid (\<lambda>c. snd (newID (pe_nano e) (c\<lparr>nc_conn := True\<rparr>))) P"
  obtain l x where Q: "Q = session_up e oid (nc_nodeID c) (sn_decode s (e_Payload env)) l (nc_node c) (P1\<lparr>pn_sent := x\<rparr>)"
    using assms(2-7) by (simp add: session_start_def Let_def P1_def[symmetric])
  have "db_fine (pn_app (P1\<lparr>pn_sent := x\<rparr>))" "map_of (pn_objs (P1\<lparr>pn_sent := x\<rparr>)) oid = Some (snd (newID (pe_nano e) (c\<lparr>nc_conn := True\<rparr>)))"
    using assms(1,2) by (simp_all add: P1_def on_obj_objs)
  from session_up_state[OF this, of e "nc_nodeID c" _ l "nc_node c"] show ?thesis
    unfolding Q by (simp add: P1_def on_obj_objs newID_def)
qed

lemma ex_verify: "Verify (pe_hmac ex_panel_env) (the (sn_ack ex_session)) tok (sn_unix ex_session) = None"
  by (simp add: Verify_def ex_panel_env_def ex_session_def time_distance_def ReplayToleranceSec_def Let_def)

definition ex_started :: Panel where
  "ex_started = snd (tryStartAll ex_panel_env ex_panel)"

lemma ex_started_state: "db_fine (pn_app ex_started)" "pn_conns ex_started = [(1, 0)]"
  "\<exists>c. map_of (pn_objs ex_started) 0 = Some c \<and> nc_nodeID c = 1 \<and> \<not> nc_cancelled c" "pn_next ex_started = 1"
  by (simp_all add: ex_started_def ex_panel_def tryStartAll_def run_app_def run_db_def ListNodes_def db_read_def NewNodeManager_def New_def CreateOrUpdateNode_def
      empty_store_def nm_start_def Let_def ex_row_def on_app_def InitNode_def newNodeConn_def NewFrpcManager_def)

lemma ex_started_row: "\<exists>n. node_row 1 (app_store (pn_app ex_started)) = Some n"
  by (simp_all add: ex_started_def ex_panel_def tryStartAll_def run_app_def run_db_def ListNodes_def db_read_def NewNodeManager_def New_def CreateOrUpdateNode_def
      empty_store_def nm_start_def Let_def ex_row_def on_app_def InitNode_def newNodeConn_def NewFrpcManager_def node_row_def)

lemma ex_started_store: "wf_store (app_store (pn_app ex_started))" "db_targets (app_store (pn_app ex_started)) = []"
proof -
  have e: "app_store (pn_app ex_started) = snd (CreateOrUpdateNode 5 (ex_row\<lparr>nd_FrpsToken := []\<rparr>) empty_store)"
    by (simp add: ex_started_def ex_panel_def tryStartAll_def run_app_def run_db_def ListNodes_def db_read_def NewNodeManager_def New_def CreateOrUpdateNode_def
      empty_store_def nm_start_def Let_def ex_row_def on_app_def InitNode_def newNodeConn_def NewFrpcManager_def)
  show "wf_store (app_store (pn_app ex_started))" unfolding e by (rule keepsD[OF keeps_CreateOrUpdateNode wf_empty_store])
  show "db_targets (app_store (pn_app ex_started)) = []" by (simp add: e CreateOrUpdateNode_def empty_store_def Let_def)
qed

lemma nm_Add_state:
  assumes "db_fine (pn_app P)" "map_of (pn_conns P) (nd_ID node) = Some o1" "nd_FrpsToken node = []" "o1 \<noteq> pn_next P" "Q = nm_Add e node P"
  shows "db_fine (pn_app Q)" "map_of (pn_conns Q) (nd_ID node) = Some (pn_next P)" "map_of (pn_objs Q) (pn_next P) = Some (newNodeConn node)"
    "map_of (pn_objs Q) o1 = map_option (\<lambda>c. c\<lparr>nc_cancelled := True\<rparr>) (map_of (pn_objs P) o1)"
  using assms by (simp_all add: nm_Add_def nm_stop_def nm_start_def Let_def gomap_simps on_obj_objs db_fine_ops)

definition ex_readded :: Panel where
  "ex_readded = snd (session_start ex_panel_env ex_session 1
     (nm_Add ex_panel_env (ex_row\<lparr>nd_FrpsToken := []\<rparr>) (snd (session_start ex_panel_env ex_session 0 ex_started))))"

lemma ex_readded_reach: "panel_reach ex_readded"
  unfolding ex_readded_def ex_started_def ex_panel_def by (intro panel_reach.intros)

lemma ex_session_ok: "sn_dial ex_session" "sn_sent ex_session" "sn_ack ex_session = Some (the (sn_ack ex_session))"
  by (simp_all add: ex_session_def)

lemma ex_readded_state:
  "\<exists>c. map_of (pn_objs ex_readded) 0 = Some c \<and> nc_nodeID c = 1 \<and> nc_up c" "\<exists>c. Conn 1 ex_readded = Some (1, c) \<and> nc_up c" "db_fine (pn_app ex_readded)"
proof -
  define U where "U = snd (session_start ex_panel_env ex_session 0 ex_started)"
  obtain c0 where c0: "map_of (pn_objs ex_started) 0 = Some c0" "nc_nodeID c0 = 1" using ex_started_state(3) by blast
  note u = session_start_up[OF ex_started_state(1) c0(1) ex_session_ok ex_verify U_def]
  have "keeps_ids ex_started U" unfolding U_def by (rule keeps_ids_session_start)
  then have n: "pn_next U = 1" "pn_conns U = [(1, 0)]" using ex_started_state by (simp_all add: keeps_ids_def)
  define A where "A = nm_Add ex_panel_env (ex_row\<lparr>nd_FrpsToken := []\<rparr>) U"
  have r: "nd_ID (ex_row\<lparr>nd_FrpsToken := []\<rparr>) = 1" "nd_FrpsToken (ex_row\<lparr>nd_FrpsToken := []\<rparr>) = []" by (simp_all add: ex_row_def)
  have "db_fine (pn_app U)" "map_of (pn_conns U) (nd_ID (ex_row\<lparr>nd_FrpsToken := []\<rparr>)) = Some 0" "0 \<noteq> pn_next U" using u n[unfolded ex_started_state(2)] r ex_started_state(2) by simp_all
  note a = nm_Add_state[OF this(1,2) r(2) this(3) A_def, unfolded n(1) r(1)]
  note s = session_start_up[OF a(1,3) ex_session_ok ex_verify refl, folded ex_readded_def[folded U_def, folded A_def]]
  obtain c1 where "map_of (pn_objs U) 0 = Some c1" "nc_up c1" "nc_nodeID c1 = 1" using u c0(2) by auto
  then show "\<exists>c. map_of (pn_objs ex_readded) 0 = Some c \<and> nc_nodeID c = 1 \<and> nc_up c" using s a(4) by simp
  show "\<exists>c. Conn 1 ex_readded = Some (1, c) \<and> nc_up c" using s a(2) by (auto simp: Conn_def)
  show "db_fine (pn_app ex_readded)" using s by simp
qed

theorem one_driver_per_node_witness: "\<exists>c. map_of (pn_objs ex_started) 0 = Some c \<and> nc_nodeID c = 1 \<and> nd_ID (nc_node c) = 1 \<and> \<not> nc_cancelled c"
proof -
  have "panel_reach ex_started" unfolding ex_started_def ex_panel_def by (intro panel_reach.intros)
  from one_driver_per_node[OF this, of 1 0] show ?thesis by (simp add: ex_started_state)
qed

theorem sync_refines_witness:
  "\<exists>port. map_of (fm_adminPorts (pn_frpc (SyncAll ex_panel_env ex_started))) 1 = Some port"
proof -
  have "panel_reach ex_started" unfolding ex_started_def ex_panel_def by (intro panel_reach.intros)
  moreover have "\<forall>j. pe_write ex_panel_env j = Written" by (simp add: ex_panel_env_def)
  moreover have "db_faults (app_store (pn_app ex_started)) = []" using ex_started_state(1) by blast
  ultimately show ?thesis
    using sync_refines[of ex_started ex_panel_env "SyncAll ex_panel_env ex_started" "app_store (pn_app ex_started)" 1] ex_started_state(2) ex_started_row by auto
qed

theorem stopped_driver_acts_witness:
  "panel_reach ex_readded \<and> (\<exists>c. Conn 1 (session_end ex_panel_env 0 ex_readded) = Some (1, c) \<and> nc_up c) \<and>
   getLive 1 6000 (pn_app (session_end ex_panel_env 0 ex_readded)) = []"
proof -
  obtain c where c: "map_of (pn_objs ex_readded) 0 = Some c" "nc_nodeID c = 1" "nc_up c" using ex_readded_state(1) by blast
  obtain c2 where c2: "Conn 1 ex_readded = Some (1, c2)" "nc_up c2" using ex_readded_state(2) by blast
  show ?thesis using stopped_driver_acts[OF c, of 1 c2 ex_panel_env 6000] ex_readded_state(3) ex_readded_reach c2 by auto
qed

end
