(* ===== verification/Session.thy ===== *)
theory Session
  imports App Limiter Resp
begin

text \<open>
  \<^verbatim>\<open>internal/panel/auth.go\<close> and \<^verbatim>\<open>handlers_auth.go\<close>: sessions of the panel. JSON Web Tokens and bcrypt are
  libraries outside the repository; what the code uses of them are the fields of \<open>auth_lib\<close>. A request
  is given by its cookies, header and decoded body; a response carries the cookies it sets. The login
  limiter is in \<open>Limiter\<close>. Times are Unix seconds, for the limiter nanoseconds.
\<close>

section \<open>Claims and library\<close>

record Claims =
  cl_UID :: int
  cl_Uname :: string
  cl_PV :: int
  cl_ExpiresAt :: int
  cl_IssuedAt :: int

record auth_lib =
  lib_sign :: "string \<Rightarrow> Claims \<Rightarrow> string option"
  lib_parse :: "string \<Rightarrow> int \<Rightarrow> string \<Rightarrow> Claims option"
  lib_hash :: "string \<Rightarrow> string option"
  lib_check :: "string \<Rightarrow> string \<Rightarrow> bool"

record Auth =
  au_secret :: string
  au_limiter :: loginLimiter

definition NewAuth :: "string \<Rightarrow> Auth" where
  "NewAuth secret = \<lparr>au_secret = secret, au_limiter = newLoginLimiter\<rparr>"

definition jwtTTL :: int where "jwtTTL = 7 * 24 * 3600"

definition password_alphabet :: string where
  "password_alphabet = ''ABCDEFGHJKLMNPQRSTUVWXYZabcdefghijkmnopqrstuvwxyz23456789!@#%^&*''"

text \<open>\<^verbatim>\<open>RandomPassword\<close> over the random bytes.\<close>

definition RandomPassword :: "nat list \<Rightarrow> string" where
  "RandomPassword bs = map (\<lambda>b. password_alphabet ! (b mod length password_alphabet)) bs"

definition user_claims :: "int \<Rightarrow> User \<Rightarrow> Claims" where
  "user_claims now u = \<lparr>cl_UID = u_ID u, cl_Uname = u_Username u, cl_PV = u_PwdVersion u, cl_ExpiresAt = now + jwtTTL, cl_IssuedAt = now\<rparr>"

definition Issue :: "auth_lib \<Rightarrow> int \<Rightarrow> User \<Rightarrow> Auth \<Rightarrow> string option" where
  "Issue lib now u au = lib_sign lib (au_secret au) (user_claims now u)"

definition Parse :: "auth_lib \<Rightarrow> int \<Rightarrow> string \<Rightarrow> Auth \<Rightarrow> Claims option" where
  "Parse lib now tok au = lib_parse lib (au_secret au) now tok"

section \<open>Guards\<close>

text \<open>\<^verbatim>\<open>claimsFromRequest\<close>: the JWT cookie (\<open>None\<close>: not sent).\<close>

definition claimsFromRequest :: "auth_lib \<Rightarrow> int \<Rightarrow> string option \<Rightarrow> Auth \<Rightarrow> App \<Rightarrow> (AppError + Claims) \<times> App" where
  "claimsFromRequest lib now cookie au a =
     (case cookie of
        None \<Rightarrow> (Inl ErrUnauthorized, a)
      | Some tok \<Rightarrow>
          if tok = [] then (Inl ErrUnauthorized, a)
          else case Parse lib now tok au of
                 None \<Rightarrow> (Inl ErrUnauthorized, a)
               | Some c \<Rightarrow>
                   if \<not> DBUp a then (Inr c, a)
                   else case run_db (GetUserByID (cl_UID c)) a of
                          (Inl _, a) \<Rightarrow> (Inl ErrDBDown, a)
                        | (Inr None, a) \<Rightarrow> (Inl ErrSessionStale, a)
                        | (Inr (Some u), a) \<Rightarrow> (if u_PwdVersion u = cl_PV c then Inr c else Inl ErrSessionStale, a))"

definition CSRFGuard :: "string \<Rightarrow> string option \<Rightarrow> string \<Rightarrow> AppError option" where
  "CSRFGuard meth cookie header =
     (if meth \<in> {''GET'', ''HEAD'', ''OPTIONS''} then None
      else case cookie of
             None \<Rightarrow> Some ErrCSRF
           | Some v \<Rightarrow> if v = [] \<or> header = [] \<or> v \<noteq> header then Some ErrCSRF else None)"

text \<open>The guards the router puts before every handler but the login.\<close>

record http_req =
  rq_Method :: string
  rq_JWT :: "string option"
  rq_CSRF :: "string option"
  rq_Header :: string
  rq_IP :: string

definition guarded :: "auth_lib \<Rightarrow> int \<Rightarrow> http_req \<Rightarrow> Auth \<Rightarrow> App \<Rightarrow> (AppError + Claims) \<times> App" where
  "guarded lib now r au a =
     (case claimsFromRequest lib now (rq_JWT r) au a of
        (Inl err, a) \<Rightarrow> (Inl err, a)
      | (Inr c, a) \<Rightarrow> (case CSRFGuard (rq_Method r) (rq_CSRF r) (rq_Header r) of Some err \<Rightarrow> (Inl err, a) | None \<Rightarrow> (Inr c, a)))"

section \<open>Handlers\<close>

text \<open>The attributes of a cookie; its path is always \<^verbatim>\<open>/\<close>.\<close>

record cookie =
  ck_Name :: string
  ck_Value :: string
  ck_HttpOnly :: bool
  ck_SameSiteLax :: bool
  ck_Secure :: bool
  ck_MaxAge :: int

definition cookieJWT :: string where "cookieJWT = ''frpanel_jwt''"
definition cookieCSRF :: string where "cookieCSRF = ''frpanel_csrf''"

definition SetSession_cookies :: "bool \<Rightarrow> string \<Rightarrow> string \<Rightarrow> cookie list" where
  "SetSession_cookies secure token csrf =
     [\<lparr>ck_Name = cookieJWT, ck_Value = token, ck_HttpOnly = True, ck_SameSiteLax = True, ck_Secure = secure, ck_MaxAge = jwtTTL\<rparr>,
      \<lparr>ck_Name = cookieCSRF, ck_Value = csrf, ck_HttpOnly = False, ck_SameSiteLax = True, ck_Secure = secure, ck_MaxAge = jwtTTL\<rparr>]"

definition ClearSession_cookies :: "bool \<Rightarrow> cookie list" where
  "ClearSession_cookies secure =
     map (\<lambda>name. \<lparr>ck_Name = name, ck_Value = [], ck_HttpOnly = (name = cookieJWT), ck_SameSiteLax = False, ck_Secure = secure, ck_MaxAge = -1\<rparr>) [cookieJWT, cookieCSRF]"

text \<open>Which cookies a response carries.\<close>

datatype cookies = Unchanged | SetSession string string | ClearSession | SetCSRF string

datatype auth_data = LoginData string string | MeData string string string string

record loginReq =
  lr_Username :: string
  lr_Password :: string

text \<open>The limiter runs on nanoseconds; \<open>csrf\<close> is the random token of the new CSRF cookie.\<close>

definition handleLogin :: "auth_lib \<Rightarrow> int \<Rightarrow> string \<Rightarrow> http_req \<Rightarrow> string + loginReq \<Rightarrow> Auth \<Rightarrow> App \<Rightarrow> (auth_data reply \<times> cookies) \<times> Auth \<times> App" where
  "handleLogin lib now csrf r body au a =
     (let (blocked, l) = login_Blocked (rq_IP r) (now * 1000000000) (au_limiter au); au = au\<lparr>au_limiter := l\<rparr>
      in if blocked then ((failCode CodeLoginLocked ''login_locked'', Unchanged), au, a)
         else if \<not> DBUp a then ((fail (Business ErrDBDown), Unchanged), au, a)
         else case decodeJSON body of
                Inl e \<Rightarrow> ((fail e, Unchanged), au, a)
              | Inr req \<Rightarrow>
                  (let refuse = (\<lambda>a. ((failCode CodeUnauthorized ''bad_credentials'', Unchanged),
                                      au\<lparr>au_limiter := login_Fail (rq_IP r) (now * 1000000000) l\<rparr>,
                                      app_AddLog now ''panel_op'' (lr_Username req) None ''login_failed'' a))
                   in case run_db (GetUserByUsername (lr_Username req)) a of
                        (Inl _, a) \<Rightarrow> ((fail (Business ErrDBDown), Unchanged), au, a)
                      | (Inr None, a) \<Rightarrow> refuse a
                      | (Inr (Some u), a) \<Rightarrow>
                          if \<not> lib_check lib (u_PasswordHash u) (lr_Password req) then refuse a
                          else
                            (let au = au\<lparr>au_limiter := login_Success (rq_IP r) l\<rparr>
                             in case Issue lib now u au of
                                  None \<Rightarrow> ((fail OtherError, Unchanged), au, a)
                                | Some tok \<Rightarrow>
                                    ((ok (LoginData (u_Username u) (app_panelName a)), SetSession tok csrf), au,
                                     app_AddLog now ''panel_op'' (u_Username u) None ''login_ok'' a))))"

definition handleLogout :: "int \<Rightarrow> Claims \<Rightarrow> App \<Rightarrow> (auth_data reply \<times> cookies) \<times> App" where
  "handleLogout now c a = ((ok_nil, ClearSession), app_AddLog now ''panel_op'' (cl_Uname c) None ''logout'' a)"

definition handleMe :: "string \<Rightarrow> string \<Rightarrow> http_req \<Rightarrow> Claims \<Rightarrow> App \<Rightarrow> (auth_data reply \<times> cookies) \<times> App" where
  "handleMe csrf ver r c a =
     (let (base, a) = (if app_updateBaseURL a = [] then setting ''update_base_url'' a else (app_updateBaseURL a, a))
      in ((ok (MeData (cl_Uname c) (app_panelName a) ver base), if rq_CSRF r = None then SetCSRF csrf else Unchanged), a))"

record changePwReq =
  cp_Old :: string
  cp_New :: string

definition handleChangePassword :: "auth_lib \<Rightarrow> int \<Rightarrow> string \<Rightarrow> Claims \<Rightarrow> string + changePwReq \<Rightarrow> Auth \<Rightarrow> App \<Rightarrow> (auth_data reply \<times> cookies) \<times> App" where
  "handleChangePassword lib now csrf c body au a =
     (if \<not> DBUp a then ((fail (Business ErrDBDown), Unchanged), a)
      else case decodeJSON body of
             Inl e \<Rightarrow> ((fail e, Unchanged), a)
           | Inr req \<Rightarrow>
               if length (cp_New req) < 8 then ((failCode CodeValidation ''password_too_short'', Unchanged), a)
               else case run_db (GetUserByID (cl_UID c)) a of
                      (Inl _, a) \<Rightarrow> ((fail (Business ErrDBDown), Unchanged), a)
                    | (Inr None, a) \<Rightarrow> ((failCode CodeValidation ''wrong_password'', Unchanged), a)
                    | (Inr (Some u), a) \<Rightarrow>
                        if \<not> lib_check lib (u_PasswordHash u) (cp_Old req) then ((failCode CodeValidation ''wrong_password'', Unchanged), a)
                        else case lib_hash lib (cp_New req) of
                               None \<Rightarrow> ((fail OtherError, Unchanged), a)
                             | Some hash \<Rightarrow>
                                 (case run_db (UpdatePassword now (cl_UID c) hash) a of
                                    (Inl _, a) \<Rightarrow> ((fail (Business ErrDBDown), Unchanged), a)
                                  | (Inr newPV, a) \<Rightarrow>
                                      (case Issue lib now (u\<lparr>u_PwdVersion := newPV\<rparr>) au of
                                         None \<Rightarrow> ((fail OtherError, Unchanged), a)
                                       | Some tok \<Rightarrow>
                                           ((ok_nil, SetSession tok csrf),
                                            app_AddLog now ''panel_op'' (cl_Uname c) None ''password_changed'' a))))"

section \<open>Sessions follow the password version\<close>

abbreviation user_row :: "int \<Rightarrow> App \<Rightarrow> User option" where
  "user_row i a \<equiv> find (\<lambda>u. u_ID u = i) (db_users (app_store a))"

lemma run_GetUserByID:
  "run_db (GetUserByID i) a = (r, a') \<Longrightarrow> DBUp a' = DBUp a \<and> db_users (app_store a') = db_users (app_store a) \<and> (\<forall>x. r = Inr x \<longrightarrow> x = user_row i a) \<and>
     (db_faults (app_store a) = [] \<longrightarrow> r = Inr (user_row i a))"
  by (auto simp: run_db_def GetUserByID_def stmt_def db_read_def split: prod.splits list.splits if_splits)

lemma run_GetUserByID_ok: "db_faults (app_store a) = [] \<Longrightarrow> run_db (GetUserByID i) a = (Inr (user_row i a), a)"
  by (simp add: run_db_def GetUserByID_def db_read_def)

lemma find_map_pres: "(\<And>x. P (f x) = P x) \<Longrightarrow> find P (map f xs) = map_option f (find P xs)"
  by (induction xs) auto

lemma run_UpdatePassword:
  assumes "run_db (UpdatePassword t i h) a = (Inr pv, a')" "user_row i a = Some u"
  shows "DBUp a' = DBUp a \<and> pv = u_PwdVersion u + 1 \<and> (\<exists>u'. user_row i a' = Some u' \<and> u_PwdVersion u' = pv)"
proof -
  let ?f = "\<lambda>u. if u_ID u = i then u\<lparr>u_PasswordHash := h, u_PwdVersion := u_PwdVersion u + 1, u_UpdatedAt := t\<rparr> else u"
  have f: "find (\<lambda>u. u_ID u = i) (map ?f xs) = map_option ?f (find (\<lambda>u. u_ID u = i) xs)" for xs by (rule find_map_pres) simp
  have "u_ID u = i" using assms(2) by (auto simp: find_Some_iff)
  moreover have "db_users (app_store a') = map ?f (db_users (app_store a))" "DBUp a' = DBUp a"
      "find (\<lambda>u. u_ID u = i) (map ?f (db_users (app_store a))) = Some u' \<Longrightarrow> pv = u_PwdVersion u'" for u'
    using assms(1) by (auto simp: run_db_def UpdatePassword_def db_bind_def stmt_def db_upd_def split: prod.splits list.splits if_splits option.splits)
  ultimately show ?thesis using assms(2) by (simp add: f)
qed

lemma app_AddLog_users: "DBUp (app_AddLog t ty src n d a) = DBUp a" "db_users (app_store (app_AddLog t ty src n d a)) = db_users (app_store a)"
  by (auto simp: app_AddLog_def run_db_def AddLog_def stmt_def db_upd_def split: prod.splits list.splits if_splits)

lemma claims_stale:
  assumes "DBUp a" "user_row (cl_UID c) a = Some u" "u_PwdVersion u \<noteq> cl_PV c" "Parse lib now tok au = Some c"
  shows "\<exists>err. fst (claimsFromRequest lib now (Some tok) au a) = Inl err"
proof (cases "run_db (GetUserByID (cl_UID c)) a")
  case (Pair r a')
  have "r = Inr (Some u) \<or> (\<exists>err. r = Inl err)" using run_GetUserByID[OF Pair] assms(2) by (cases r) simp_all
  then show ?thesis using assms(1,3,4) by (elim disjE exE) (simp_all add: claimsFromRequest_def Pair)
qed

lemma claims_current:
  assumes "DBUp a" "db_faults (app_store a) = []" "user_row (cl_UID c) a = Some u" "u_PwdVersion u = cl_PV c" "Parse lib now tok au = Some c" "tok \<noteq> []"
  shows "fst (claimsFromRequest lib now (Some tok) au a) = Inr c"
  using assms(1,4-6) by (simp add: claimsFromRequest_def run_GetUserByID_ok[OF assms(2)] assms(3))

lemma handleChangePassword_ok:
  assumes "handleChangePassword lib now csrf c body au a = ((r, ck), a')" "rs_Code r = CodeOK"
  shows "\<exists>u u' tok. user_row (cl_UID c) a = Some u \<and> ck = SetSession tok csrf \<and> Issue lib now (u\<lparr>u_PwdVersion := u_PwdVersion u + 1\<rparr>) au = Some tok \<and>
    DBUp a' \<and> user_row (cl_UID c) a' = Some u' \<and> u_PwdVersion u' = u_PwdVersion u + 1"
proof -
  have r: "r \<noteq> fail OtherError" "r \<noteq> fail (Business ErrDBDown)" "r \<noteq> failCode CodeValidation msg" "r \<noteq> fail (Business (Err CodeBadRequest msg))" for msg
    using assms(2) by (auto simp: fail_def failCode_def Let_def code_defs err_defs)
  note D = assms(1)[unfolded handleChangePassword_def]
  have up: "DBUp a" using D r(2) by (rule_tac ccontr) simp
  obtain req where req: "decodeJSON body = Inr req"
    using D r(4) up decodeJSON_Inl[of body] by (cases "decodeJSON body") (fastforce, simp)
  have len: "\<not> length (cp_New req) < 8" using D r(3) by (rule_tac notI) (auto simp: up req)
  obtain x a1 where 1: "run_db (GetUserByID (cl_UID c)) a = (x, a1)" by (cases "run_db (GetUserByID (cl_UID c)) a")
  note g = run_GetUserByID[OF 1]
  obtain xo where xo: "x = Inr xo" using D r(2) by (cases x) (auto simp: up req len 1)
  obtain u where x: "xo = Some u" using D r(3) by (cases xo) (auto simp: up req len 1 xo)
  have u: "user_row (cl_UID c) a = Some u" using g xo x by simp
  have chk: "lib_check lib (u_PasswordHash u) (cp_Old req)" using D r(3) by (rule_tac ccontr) (auto simp: up req len 1 xo x)
  obtain hash where h: "lib_hash lib (cp_New req) = Some hash" using D r(1) by (cases "lib_hash lib (cp_New req)") (auto simp: up req len 1 xo x chk)
  obtain y a2 where 2: "run_db (UpdatePassword now (cl_UID c) hash) a1 = (y, a2)" by (cases "run_db (UpdatePassword now (cl_UID c) hash) a1")
  obtain pv where pv: "y = Inr pv" using D r(2) by (cases y) (auto simp: up req len 1 xo x chk h 2)
  have "user_row (cl_UID c) a1 = Some u" using g u by simp
  note p = run_UpdatePassword[OF 2[unfolded pv] this]
  obtain tok where tok: "Issue lib now (u\<lparr>u_PwdVersion := pv\<rparr>) au = Some tok"
    using D r(1) by (cases "Issue lib now (u\<lparr>u_PwdVersion := pv\<rparr>) au") (auto simp: up req len 1 xo x chk h 2 pv)
  have "ck = SetSession tok csrf" "a' = app_AddLog now ''panel_op'' (cl_Uname c) None ''password_changed'' a2"
    using D by (simp_all add: up req len 1 xo x chk h 2 pv tok)
  then show ?thesis using p g u up tok by (auto simp: app_AddLog_users)
qed

section \<open>Properties\<close>



definition ex_claims :: Claims where
  "ex_claims = \<lparr>cl_UID = 1, cl_Uname = ''admin'', cl_PV = 1, cl_ExpiresAt = 604800, cl_IssuedAt = 0\<rparr>"

definition ex_lib :: auth_lib where
  "ex_lib = \<lparr>lib_sign = (\<lambda>_ _. Some ''new''), lib_parse = (\<lambda>_ _ tok. if tok = ''old'' then Some ex_claims else None), lib_hash = Some, lib_check = (=)\<rparr>"

definition ex_admin :: App where
  "ex_admin = New (snd (CreateUser 0 ''admin'' ''first-password'' empty_store)) [] []"

definition ex_change :: "(auth_data reply \<times> cookies) \<times> App" where
  "ex_change = handleChangePassword ex_lib 5 ''c'' ex_claims (Inr \<lparr>cp_Old = ''first-password'', cp_New = ''other-password''\<rparr>) (NewAuth ''s'') ex_admin"

lemma ex_admin_simps: "DBUp ex_admin" "db_faults (app_store ex_admin) = []"
  "user_row 1 ex_admin = Some \<lparr>u_ID = 1, u_Username = ''admin'', u_PasswordHash = ''first-password'', u_PwdVersion = 1, u_CreatedAt = 0, u_UpdatedAt = 0\<rparr>"
  by (simp_all add: ex_admin_def New_def CreateUser_def empty_store_def)

lemma ex_change_ok: "rs_Code (fst (fst ex_change)) = CodeOK"
  by (simp add: ex_change_def handleChangePassword_def ex_admin_simps run_GetUserByID_ok decodeJSON_def ex_claims_def ex_lib_def)
    (simp add: run_db_def UpdatePassword_def db_defs ex_admin_simps find_map_pres ex_admin_def New_def CreateUser_def empty_store_def Issue_def)



section \<open>Random passwords\<close>

text \<open>The alphabet has 64 distinct characters, a divisor of 256: every character is equally likely.\<close>

lemma password_alphabet_64: "length password_alphabet = 64" "distinct password_alphabet"
  by code_simp+

lemma mod_64_class: "k < 64 \<Longrightarrow> {b::nat. b < 256 \<and> b mod 64 = k} = {k, k + 64, k + 128, k + 192}"
proof (intro set_eqI iffI)
  fix b :: nat assume b: "b \<in> {b. b < 256 \<and> b mod 64 = k}"
  then have "b div 64 < 4" by auto
  then have "b div 64 = 0 \<or> b div 64 = 1 \<or> b div 64 = 2 \<or> b div 64 = 3" by linarith
  then show "b \<in> {k, k + 64, k + 128, k + 192}" using b div_mult_mod_eq[of b 64] by auto
qed (use mod_mult_self2[of k 64 2] mod_mult_self2[of k 64 3] in auto)

lemma RandomPassword_uniform:
  assumes "k < 64" shows "card {b. b < 256 \<and> RandomPassword [b] = [password_alphabet ! k]} = 4"
proof -
  have "RandomPassword [b] = [password_alphabet ! k] \<longleftrightarrow> b mod 64 = k" for b
    using nth_eq_iff_index_eq[OF password_alphabet_64(2), of "b mod 64" k] assms by (simp add: RandomPassword_def password_alphabet_64(1))
  then show ?thesis by (simp add: mod_64_class[OF assms])
qed

end
