(* ===== verification/Mappings_Api.thy ===== *)
theory Mappings_Api
  imports Sync Agent
begin

text \<open>
  \<^verbatim>\<open>internal/panel/handlers_mappings.go\<close>: validation of port mappings and the handlers that list, create,
  edit, delete and switch them. A handler gets the decoded body (\<open>Inl\<close>: the decoder's message), the
  path parameter as text and the name of the user, and returns the response and the new panel. The
  lemmas show what a successful request does to the database and to the frpc configurations.
\<close>

section \<open>Requests and views\<close>

record mappingTarget =
  rt_NodeID :: int
  rt_RemotePort :: int

record mappingReq =
  mq_LocalPort :: int
  mq_Proto :: string
  mq_Remark :: string
  mq_Enabled :: bool
  mq_Version :: int
  mq_Targets :: "mappingTarget list"

record targetDTO =
  to_Target :: MappingTarget
  to_NodeName :: string
  to_NodeIP :: string
  to_NodeRegion :: string
  to_NodeOnline :: bool
  to_NodeLatencyMs :: int
  to_LiveStatus :: string

record mappingDTO =
  md_Mapping :: Mapping
  md_Targets :: "targetDTO list"

datatype mapping_data = MappingList "mappingDTO list" | NewMappingID int | PortRes PortCheckRes | ReservedPort reserved_reason | LocalRes bool string

section \<open>Listing\<close>

definition target_view :: "Panel \<Rightarrow> Node list \<Rightarrow> MappingTarget \<Rightarrow> targetDTO" where
  "target_view P nodes t =
     (let n = find (\<lambda>n. nd_ID n = mt_NodeID t) (rev nodes);
          live = getLive (mt_NodeID t) (mt_RemotePort t) (pn_app P)
      in \<lparr>to_Target = t,
          to_NodeName = (case n of None \<Rightarrow> [] | Some n \<Rightarrow> nd_Name n), to_NodeIP = (case n of None \<Rightarrow> [] | Some n \<Rightarrow> nd_IP n),
          to_NodeRegion = (case n of None \<Rightarrow> [] | Some n \<Rightarrow> nd_Region n),
          to_NodeOnline = (case Conn (mt_NodeID t) P of None \<Rightarrow> False | Some (_, c) \<Rightarrow> nc_up c),
          to_NodeLatencyMs = LinkLatency (mt_NodeID t) (mt_RemotePort t) (pn_app P),
          to_LiveStatus = (if live = [] then mt_TunnelStatus t else live)\<rparr>)"

definition handleListMappings :: "Panel \<Rightarrow> mapping_data reply \<times> Panel" where
  "handleListMappings P =
     (if \<not> DBUp (pn_app P) then (fail (Business ErrDBDown), P)
      else case run_app (run_db ListMappings) P of
             (Inl _, P) \<Rightarrow> (fail (Business ErrDBDown), P)
           | (Inr mps, P) \<Rightarrow>
               (case run_app (run_db (ListTargetsForMappings (map mp_ID mps))) P of
                  (Inl _, P) \<Rightarrow> (fail (Business ErrDBDown), P)
                | (Inr targets, P) \<Rightarrow>
                    (let (r, P) = run_app (run_db ListNodes) P; nodes = (case r of Inl _ \<Rightarrow> [] | Inr ns \<Rightarrow> ns)
                     in (ok (MappingList (map (\<lambda>m. \<lparr>md_Mapping = m,
                           md_Targets = map (target_view P nodes) (filter (\<lambda>t. mt_MappingID t = mp_ID m) targets)\<rparr>) mps)), P))))"

section \<open>Validation\<close>

definition port_text :: "port_error \<Rightarrow> string" where
  "port_text e = (case e of PortOutOfRange \<Rightarrow> ''port_out_of_range'' | PortReserved r \<Rightarrow> reason_text r)"

text \<open>The first loop: each node at most once, each public port allowed.\<close>

fun check_targets :: "int list \<Rightarrow> mappingTarget list \<Rightarrow> AppError option" where
  "check_targets seen [] = None"
| "check_targets seen (t # ts) =
     (if rt_NodeID t \<in> set seen then Some (Err CodeValidation ''duplicate_node'')
      else case ValidateRemotePort (rt_RemotePort t) of
             Some e \<Rightarrow> Some (if IsReserved (rt_RemotePort t) then Err CodeReservedPort (port_text e) else Err CodeValidation (''public_port: '' @ port_text e))
           | None \<Rightarrow> check_targets (rt_NodeID t # seen) ts)"

text \<open>The second loop: connected nodes are asked whether the port is free; failing questions are ignored.\<close>

fun check_remote :: "panel_env \<Rightarrow> string \<Rightarrow> mappingTarget list \<Rightarrow> Panel \<Rightarrow> AppError option \<times> Panel" where
  "check_remote e proto [] P = (None, P)"
| "check_remote e proto (t # ts) P =
     (case Conn (rt_NodeID t) P of
        Some (_, c) \<Rightarrow>
          if nc_up c
          then (case nm_PortCheck e (rt_NodeID t) (rt_RemotePort t) proto P of
                  (Inr res, P') \<Rightarrow> if \<not> pr_Available res then (Some (Err CodePortBusy (''port_busy '' @ Itoa (rt_RemotePort t) @ pr_Process res)), P')
                                    else check_remote e proto ts P'
                | (Inl _, P') \<Rightarrow> check_remote e proto ts P')
          else check_remote e proto ts P
      | None \<Rightarrow> check_remote e proto ts P)"

definition validateMapping :: "panel_env \<Rightarrow> mappingReq \<Rightarrow> Panel \<Rightarrow> AppError option \<times> Panel" where
  "validateMapping e req P =
     (case ValidatePort (mq_LocalPort req) of
        Some err \<Rightarrow> (Some (Err CodeValidation (''local_port: '' @ port_text err)), P)
      | None \<Rightarrow>
          if mq_Proto req \<noteq> ''tcp'' \<and> mq_Proto req \<noteq> ''udp'' then (Some (Err CodeValidation ''bad_proto''), P)
          else if mq_Targets req = [] then (Some (Err CodeValidation ''no_target''), P)
          else case check_targets [] (mq_Targets req) of
                 Some err \<Rightarrow> (Some err, P)
               | None \<Rightarrow>
                   if \<not> mq_Enabled req then (None, P)
                   else if \<not> fst (LocalListen (pe_host e) (mq_LocalPort req) (mq_Proto req)) then (Some (Err CodeLocalNoListen ''not_listening''), P)
                   else check_remote e (mq_Proto req) (mq_Targets req) P)"

definition toTargetInputs :: "mappingTarget list \<Rightarrow> TargetInput list" where
  "toTargetInputs ts = map (\<lambda>t. \<lparr>ti_NodeID = rt_NodeID t, ti_RemotePort = rt_RemotePort t\<rparr>) ts"

text \<open>The text of MySQL's duplicate-key error contains \<^verbatim>\<open>Duplicate\<close>; other errors do not.\<close>

definition mapMappingErr :: "db_error \<Rightarrow> AppError" where
  "mapMappingErr err = (case err of DBDuplicate _ \<Rightarrow> Err CodePortBusy ''port_taken'' | _ \<Rightarrow> ErrDBDown)"

section \<open>Handlers\<close>

definition req_mapping :: "mappingReq \<Rightarrow> Mapping" where
  "req_mapping req = \<lparr>mp_ID = 0, mp_LocalPort = mq_LocalPort req, mp_Proto = mq_Proto req, mp_Remark = mq_Remark req, mp_Enabled = mq_Enabled req,
     mp_Version = 0, mp_CreatedAt = 0, mp_UpdatedAt = 0\<rparr>"

definition after_change :: "panel_env \<Rightarrow> string \<Rightarrow> string \<Rightarrow> Panel \<Rightarrow> Panel" where
  "after_change e user detail P = on_app (app_AddLog (pe_unix e) ''panel_op'' user None detail) (SyncAll e P)"

definition handleCreateMapping :: "panel_env \<Rightarrow> string \<Rightarrow> string + mappingReq \<Rightarrow> Panel \<Rightarrow> mapping_data reply \<times> Panel" where
  "handleCreateMapping e user body P =
     (if \<not> DBUp (pn_app P) then (fail (Business ErrDBDown), P)
      else case decodeJSON body of
             Inl err \<Rightarrow> (fail err, P)
           | Inr req \<Rightarrow>
               (case validateMapping e req P of
                  (Some err, P) \<Rightarrow> (fail (Business err), P)
                | (None, P) \<Rightarrow>
                    (case run_app (run_db (CreateMapping (pe_unix e) (req_mapping req) (toTargetInputs (mq_Targets req)))) P of
                       (Inl err, P) \<Rightarrow> (fail (Business (mapMappingErr err)), P)
                     | (Inr i, P) \<Rightarrow>
                         (ok (NewMappingID i),
                          after_change e user (''mapping_created '' @ Itoa (mq_LocalPort req) @ ''->'' @ Itoa (int (length (mq_Targets req)))) P))))"

definition handleUpdateMapping :: "panel_env \<Rightarrow> string \<Rightarrow> string \<Rightarrow> string + mappingReq \<Rightarrow> Panel \<Rightarrow> mapping_data reply \<times> Panel" where
  "handleUpdateMapping e user path body P =
     (if \<not> DBUp (pn_app P) then (fail (Business ErrDBDown), P)
      else case pathID path of
             Inl err \<Rightarrow> (fail err, P)
           | Inr i \<Rightarrow>
               (case decodeJSON body of
                  Inl err \<Rightarrow> (fail err, P)
                | Inr req \<Rightarrow>
                    (case validateMapping e req P of
                       (Some err, P) \<Rightarrow> (fail (Business err), P)
                     | (None, P) \<Rightarrow>
                         (case run_app (run_db (UpdateMapping (pe_unix e) i (mq_Version req) (req_mapping req) (toTargetInputs (mq_Targets req)))) P of
                            (Inl ErrOptimisticConflict, P) \<Rightarrow> (failCode CodeConflict ''changed_meanwhile'', P)
                          | (Inl err, P) \<Rightarrow> (fail (Business (mapMappingErr err)), P)
                          | (Inr _, P) \<Rightarrow> (ok_nil, after_change e user (''mapping_edited '' @ Itoa i) P)))))"

definition handleDeleteMapping :: "panel_env \<Rightarrow> string \<Rightarrow> string \<Rightarrow> Panel \<Rightarrow> mapping_data reply \<times> Panel" where
  "handleDeleteMapping e user path P =
     (if \<not> DBUp (pn_app P) then (fail (Business ErrDBDown), P)
      else case pathID path of
             Inl err \<Rightarrow> (fail err, P)
           | Inr i \<Rightarrow>
               (case run_app (run_db (DeleteMapping i)) P of
                  (Inl _, P) \<Rightarrow> (fail (Business ErrDBDown), P)
                | (Inr _, P) \<Rightarrow> (ok_nil, after_change e user (''mapping_deleted '' @ Itoa i) P)))"

record toggleReq =
  tq_Enabled :: bool
  tq_Version :: int

definition handleToggleMapping :: "panel_env \<Rightarrow> string \<Rightarrow> string \<Rightarrow> string + toggleReq \<Rightarrow> Panel \<Rightarrow> mapping_data reply \<times> Panel" where
  "handleToggleMapping e user path body P =
     (if \<not> DBUp (pn_app P) then (fail (Business ErrDBDown), P)
      else case pathID path of
             Inl err \<Rightarrow> (fail err, P)
           | Inr i \<Rightarrow>
               (case decodeJSON body of
                  Inl err \<Rightarrow> (fail err, P)
                | Inr req \<Rightarrow>
                    (case run_app (run_db (GetMapping i)) P of
                       (Inl _, P) \<Rightarrow> (fail (Business ErrDBDown), P)
                     | (Inr None, P) \<Rightarrow> (fail (Business ErrNotFound), P)
                     | (Inr (Some m), P) \<Rightarrow>
                         if tq_Enabled req \<and> \<not> fst (LocalListen (pe_host e) (mp_LocalPort m) (mp_Proto m))
                         then (failCode CodeLocalNoListen ''not_listening'', P)
                         else (case run_app (run_db (SetMappingEnabled (pe_unix e) i (tq_Version req) (tq_Enabled req))) P of
                                 (Inl ErrOptimisticConflict, P) \<Rightarrow> (failCode CodeConflict ''changed_meanwhile'', P)
                               | (Inl _, P) \<Rightarrow> (fail (Business ErrDBDown), P)
                               | (Inr _, P) \<Rightarrow>
                                   (ok_nil, after_change e user ((if tq_Enabled req then ''mapping_enabled '' else ''mapping_disabled '') @ Itoa i) P)))))"

record portCheckReq =
  pq_NodeID :: int
  pq_Port :: int
  pq_Proto :: string

definition handlePortCheck :: "panel_env \<Rightarrow> string + portCheckReq \<Rightarrow> Panel \<Rightarrow> mapping_data reply \<times> Panel" where
  "handlePortCheck e body P =
     (case decodeJSON body of
        Inl err \<Rightarrow> (fail err, P)
      | Inr req \<Rightarrow>
          (case ReservedReason (pq_Port req) of
             Some r \<Rightarrow> (ok (ReservedPort r), P)
           | None \<Rightarrow>
               (case nm_PortCheck e (pq_NodeID req) (pq_Port req) (pq_Proto req) P of
                  (Inl err, P) \<Rightarrow> (fail (Business err), P)
                | (Inr res, P) \<Rightarrow> (ok (PortRes res), P))))"

definition handleLocalCheck :: "panel_env \<Rightarrow> string + int \<times> string \<Rightarrow> mapping_data reply" where
  "handleLocalCheck e body =
     (case decodeJSON body of
        Inl err \<Rightarrow> fail err
      | Inr (port, proto) \<Rightarrow> (let (listening, proc) = LocalListen (pe_host e) port proto in ok (LocalRes listening proc)))"


section \<open>What validation accepts\<close>

lemma check_targets_None:
  "check_targets seen ts = None \<longleftrightarrow> distinct (map rt_NodeID ts) \<and> set (map rt_NodeID ts) \<inter> set seen = {} \<and> (\<forall>t\<in>set ts. ValidateRemotePort (rt_RemotePort t) = None)"
  by (induction seen ts rule: check_targets.induct) (auto split: option.splits)

text \<open>A connected agent says that a public port is in use.\<close>

definition port_busy :: "panel_env \<Rightarrow> string \<Rightarrow> Panel \<Rightarrow> mappingTarget \<Rightarrow> bool" where
  "port_busy e proto P t =
     (case Conn (rt_NodeID t) P of
        None \<Rightarrow> False
      | Some (_, c) \<Rightarrow> nc_up c \<and> nc_conn c \<and>
          (case pe_reply e (nc_nodeID c) (CPortCheck \<lparr>pc_Port = rt_RemotePort t, pc_Proto = proto\<rparr>) of
             None \<Rightarrow> False
           | Some payload \<Rightarrow> \<not> pr_Available (pe_portRes e payload)))"

definition same_links :: "Panel \<Rightarrow> Panel \<Rightarrow> bool" where
  "same_links P P' \<longleftrightarrow> pn_app P' = pn_app P \<and> pn_frpc P' = pn_frpc P \<and> pn_conns P' = pn_conns P \<and> pn_next P' = pn_next P \<and> same_drivers (pn_objs P) (pn_objs P')"

lemma same_links_refl [simp]: "same_links P P"
  by (simp add: same_links_def)

lemma same_links_trans: "same_links P Q \<Longrightarrow> same_links Q R \<Longrightarrow> same_links P R"
  unfolding same_links_def using same_drivers_trans by auto

lemma core_fields: "core c' = core c \<Longrightarrow> nc_up c' = nc_up c \<and> nc_conn c' = nc_conn c \<and> nc_nodeID c' = nc_nodeID c"
  by (cases c; cases c') (simp add: core_def)

lemma port_busy_same: "same_links P P' \<Longrightarrow> port_busy e proto P' t = port_busy e proto P t"
proof -
  assume s: "same_links P P'"
  have k: "map_option core (map_of (pn_objs P') oid) = map_option core (map_of (pn_objs P) oid)" for oid
    using s by (simp add: same_links_def same_drivers_def)
  have c: "pn_conns P' = pn_conns P" using s by (simp add: same_links_def)
  show ?thesis
  proof (cases "map_of (pn_conns P) (rt_NodeID t)")
    case (Some oid)
    show ?thesis
    proof (cases "map_of (pn_objs P) oid")
      case o: (Some d)
      obtain d' where "map_of (pn_objs P') oid = Some d'" "core d' = core d" using map_option_eqD[OF k o] by blast
      then show ?thesis using core_fields[of d' d] Some o c by (simp add: port_busy_def Conn_def)
    qed (use k[of oid] Some c in \<open>simp add: port_busy_def Conn_def\<close>)
  qed (simp add: port_busy_def Conn_def c)
qed

lemma PortCheck_outcome:
  assumes "Conn (rt_NodeID t) P = Some (oid, c)" "nc_up c" "nm_PortCheck e (rt_NodeID t) (rt_RemotePort t) proto P = (r, P')"
  shows "same_links P P' \<and> (port_busy e proto P t \<longleftrightarrow> (\<exists>res. r = Inr res \<and> \<not> pr_Available res))"
proof -
  have m: "map_of (pn_objs P) oid = Some c" using assms(1) by (rule Conn_Some)
  obtain r1 P1 where 1: "request e oid (CPortCheck \<lparr>pc_Port = rt_RemotePort t, pc_Proto = proto\<rparr>) P = (r1, P1)"
    by (cases "request e oid (CPortCheck \<lparr>pc_Port = rt_RemotePort t, pc_Proto = proto\<rparr>) P")
  have P1: "P1 = P'" using assms 1 by (auto simp: nm_PortCheck_def split: sum.splits)
  have "same_links P P'" using request_frame[OF 1] P1 by (simp add: same_links_def)
  moreover have "port_busy e proto P t \<longleftrightarrow> (\<exists>res. r = Inr res \<and> \<not> pr_Available res)"
    using assms 1 m by (auto simp: nm_PortCheck_def port_busy_def request_def Let_def request_begin_def newID_def split: sum.splits option.splits if_splits)
  ultimately show ?thesis ..
qed

lemma check_remote_outcome:
  "check_remote e proto ts P = (r, P') \<Longrightarrow> same_links P P' \<and> (r = None \<longleftrightarrow> (\<forall>t\<in>set ts. \<not> port_busy e proto P t)) \<and> (\<forall>err. r = Some err \<longrightarrow> ae_Code err = CodePortBusy)"
proof (induction ts arbitrary: P)
  case (Cons t ts)
  have step: ?case if "\<not> port_busy e proto P t" "check_remote e proto ts Q = (r, P')" "same_links P Q" for Q
    using Cons.IH[OF that(2)] port_busy_same[OF that(3)] that(1,3) same_links_trans by auto
  show ?case
  proof (cases "\<exists>oid c. Conn (rt_NodeID t) P = Some (oid, c) \<and> nc_up c")
    case True
    then obtain oid c where c: "Conn (rt_NodeID t) P = Some (oid, c)" "nc_up c" by blast
    obtain r1 Q where r1: "nm_PortCheck e (rt_NodeID t) (rt_RemotePort t) proto P = (r1, Q)" by (cases "nm_PortCheck e (rt_NodeID t) (rt_RemotePort t) proto P")
    note o = PortCheck_outcome[OF c r1]
    show ?thesis
    proof (cases "port_busy e proto P t")
      case True
      then show ?thesis using o Cons.prems c r1 by (auto simp: Err_def)
    next
      case False
      then have "check_remote e proto ts Q = (r, P')" using o Cons.prems c r1 by (auto split: sum.splits if_splits)
      then show ?thesis using step False o by blast
    qed
  next
    case False
    then have "check_remote e proto ts P = (r, P')" "\<not> port_busy e proto P t" using Cons.prems by (auto simp: port_busy_def split: option.splits)
    then show ?thesis using step[OF _ _ same_links_refl] by blast
  qed
qed simp

definition acceptable :: "panel_env \<Rightarrow> mappingReq \<Rightarrow> Panel \<Rightarrow> bool" where
  "acceptable e req P \<longleftrightarrow> 1 \<le> mq_LocalPort req \<and> mq_LocalPort req \<le> 65535 \<and> mq_Proto req \<in> {''tcp'', ''udp''} \<and> mq_Targets req \<noteq> [] \<and>
     distinct (map rt_NodeID (mq_Targets req)) \<and> (\<forall>t\<in>set (mq_Targets req). ValidateRemotePort (rt_RemotePort t) = None) \<and>
     (mq_Enabled req \<longrightarrow> fst (LocalListen (pe_host e) (mq_LocalPort req) (mq_Proto req)) \<and> (\<forall>t\<in>set (mq_Targets req). \<not> port_busy e (mq_Proto req) P t))"

lemma validateMapping_outcome:
  assumes "validateMapping e req P = (r, P')"
  shows "same_links P P' \<and> (r = None \<longleftrightarrow> acceptable e req P)"
proof -
  have ct: "check_targets [] (mq_Targets req) = None \<longleftrightarrow> distinct (map rt_NodeID (mq_Targets req)) \<and> (\<forall>t\<in>set (mq_Targets req). ValidateRemotePort (rt_RemotePort t) = None)"
    by (simp add: check_targets_None)
  show ?thesis
  proof (cases "check_targets [] (mq_Targets req)")
    case None
    then show ?thesis using assms check_remote_outcome[of e "mq_Proto req" "mq_Targets req" P r P'] ct
      by (auto simp: validateMapping_def acceptable_def ValidatePort_def split: if_splits)
  next
    case (Some err)
    then have "\<not> acceptable e req P" using ct by (auto simp: acceptable_def)
    then show ?thesis using assms by (auto simp: validateMapping_def Some split: if_splits option.splits)
  qed
qed

section \<open>Creating a mapping\<close>

lemma run_app_run_db: "f (app_store (pn_app P)) = (r, s') \<Longrightarrow> run_app (run_db f) P = (r, on_app (\<lambda>a. a\<lparr>app_store := s'\<rparr>) P)"
  by (simp add: run_app_def run_db_def on_app_def)

lemma AddLog_tables: "db_fine a \<Longrightarrow> db_mappings (app_store (app_AddLog t ty src n d a)) = db_mappings (app_store a) \<and>
    db_targets (app_store (app_AddLog t ty src n d a)) = db_targets (app_store a) \<and> node_row i (app_store (app_AddLog t ty src n d a)) = node_row i (app_store a)"
  by (simp add: app_AddLog_def run_db_def AddLog_def db_upd_def Let_def node_row_def)

definition taken :: "Store \<Rightarrow> mappingTarget list \<Rightarrow> bool" where
  "taken s ts \<longleftrightarrow> (\<exists>t\<in>set ts. \<exists>x\<in>set (db_targets s). mt_NodeID x = rt_NodeID t \<and> mt_RemotePort x = rt_RemotePort t)"

text \<open>The database after a creation.\<close>

definition created :: "int \<Rightarrow> mappingReq \<Rightarrow> Store \<Rightarrow> Store" where
  "created t req s = (with_mapping t (req_mapping req) s)\<lparr>
     db_targets := db_targets s @ new_targets t (db_nextMapping s) (db_nextTarget s) (toTargetInputs (mq_Targets req)),
     db_nextTarget := db_nextTarget s + int (length (toTargetInputs (mq_Targets req)))\<rparr>"

lemma fresh_mapping: "wf_store s \<Longrightarrow> x \<in> set (db_targets s) \<Longrightarrow> mt_MappingID x \<noteq> db_nextMapping s"
proof
  assume "wf_store s" "x \<in> set (db_targets s)" and n: "mt_MappingID x = db_nextMapping s"
  then obtain m where "m \<in> set (db_mappings s)" "mp_ID m = mt_MappingID x" by (auto simp: wf_store_simps)
  then show False using \<open>wf_store s\<close> n by (auto simp: wf_store_simps ids_ok_def)
qed

lemma targets_fit_new:
  assumes "wf_store s" "acceptable e req P" "\<not> taken s (mq_Targets req)"
  shows "targets_fit (db_nextMapping s) (db_targets s) (toTargetInputs (mq_Targets req))"
  using assms fresh_mapping[OF assms(1)] by (auto simp: targets_fit_def toTargetInputs_def acceptable_def taken_def o_def)

lemma handleCreateMapping_ok:
  assumes "db_fine (pn_app P)" "wf_store s" "s = app_store (pn_app P)" "acceptable e req P" "\<not> taken s (mq_Targets req)"
  obtains Q detail where "same_links P Q"
    "handleCreateMapping e user (Inr req) P =
       (ok (NewMappingID (db_nextMapping s)), after_change e user detail (on_app (\<lambda>a. a\<lparr>app_store := created (pe_unix e) req s\<rparr>) Q))"
proof -
  obtain r Q where v: "validateMapping e req P = (r, Q)" by (cases "validateMapping e req P")
  note o = validateMapping_outcome[OF v]
  have app: "pn_app Q = pn_app P" using o by (simp add: same_links_def)
  have "CreateMapping (pe_unix e) (req_mapping req) (toTargetInputs (mq_Targets req)) (app_store (pn_app Q)) =
      (Inr (db_nextMapping s), created (pe_unix e) req s)"
    using CreateMapping_ok[OF _ targets_fit_new[OF assms(2,4,5)], of "pe_unix e" "req_mapping req"] assms(1,3) by (simp add: created_def app)
  from run_app_run_db[where f = "CreateMapping (pe_unix e) (req_mapping req) (toTargetInputs (mq_Targets req))", OF this] have "handleCreateMapping e user (Inr req) P =
       (ok (NewMappingID (db_nextMapping s)), after_change e user (''mapping_created '' @ Itoa (mq_LocalPort req) @ ''->'' @ Itoa (int (length (mq_Targets req))))
          (on_app (\<lambda>a. a\<lparr>app_store := created (pe_unix e) req s\<rparr>) Q))"
    using v o assms(1,4) by (simp add: handleCreateMapping_def decodeJSON_def)
  then show thesis using that o by blast
qed

lemma after_change_syncs:
  assumes "db_fine (pn_app P)" "\<And>j. pe_write e j = Written" "distinct (map fst (pn_conns P))" "P' = after_change e user detail P"
  shows "db_mappings (app_store (pn_app P')) = db_mappings (app_store (pn_app P)) \<and> db_targets (app_store (pn_app P')) = db_targets (app_store (pn_app P)) \<and>
    (map_of (pn_conns P) i \<noteq> None \<longrightarrow> node_row i (app_store (pn_app P)) = Some n \<longrightarrow> Running i (pn_frpc P') \<and>
       (\<exists>port. cfg_file i (pn_frpc P') = Some (RenderFrpc (frpc_params (pe_hmac e) n (map desired_proxy (enabled_rows i (app_store (pn_app P)))) port (pn_frpc P')))))"
proof -
  define Q where "Q = SyncAll e P"
  note s = sync_fold[OF conjunct2[OF assms(1)] assms(2,3) Q_def[unfolded SyncAll_def]]
  have app: "pn_app Q = pn_app P" using s by blast
  have P': "pn_frpc P' = pn_frpc Q" "pn_app P' = app_AddLog (pe_unix e) ''panel_op'' user None detail (pn_app Q)" by (simp_all add: assms(4) after_change_def Q_def)
  have "Running i (pn_frpc Q) \<and> (\<exists>port. cfg_file i (pn_frpc Q) =
      Some (RenderFrpc (frpc_params (pe_hmac e) n (map desired_proxy (enabled_rows i (app_store (pn_app P)))) port (pn_frpc Q))))"
    if "map_of (pn_conns P) i \<noteq> None" "node_row i (app_store (pn_app P)) = Some n"
  proof -
    have "i \<in> set (map fst (pn_conns P))" using that(1) by (metis map_of_eq_None_iff set_map)
    then have "synced e i Q" using s by blast
    then show ?thesis using that(2)
      by (cases "map_of (fm_adminPorts (pn_frpc Q)) (nd_ID n)") (auto simp: synced_def app wanted_cfg_def)
  qed
  then show ?thesis unfolding P' using AddLog_tables assms(1) app by simp
qed

lemma new_targets_keys: "map (\<lambda>x. (mt_MappingID x, mt_NodeID x, mt_RemotePort x)) (new_targets t mid k tgs) = map (\<lambda>tg. (mid, ti_NodeID tg, ti_RemotePort tg)) tgs"
  by (induction t mid k tgs rule: new_targets.induct) simp_all

lemma new_targets_mapping: "x \<in> set (new_targets t mid k tgs) \<Longrightarrow> mt_MappingID x = mid"
  by (induction t mid k tgs rule: new_targets.induct) auto

lemma created_rows:
  assumes "wf_store s" "i = db_nextMapping s"
  shows "map (\<lambda>x. (mt_NodeID x, mt_RemotePort x)) (filter (\<lambda>x. mt_MappingID x = i) (db_targets (created t req s))) = map (\<lambda>r. (rt_NodeID r, rt_RemotePort r)) (mq_Targets req)"
    and "filter (\<lambda>m. mp_ID m = i) (db_mappings (created t req s)) = [(req_mapping req)\<lparr>mp_ID := i, mp_Version := 1, mp_CreatedAt := t, mp_UpdatedAt := t\<rparr>]"
    and "node_row j (created t req s) = node_row j s"
    and "r \<in> set (mq_Targets req) \<Longrightarrow> mq_Enabled req \<Longrightarrow> \<lparr>np_MappingID = i, np_NodeID = rt_NodeID r, np_LocalPort = mq_LocalPort req, np_Proto = mq_Proto req,
        np_RemotePort = rt_RemotePort r, np_Remark = mq_Remark req\<rparr> \<in> set (enabled_rows (rt_NodeID r) (created t req s))"
proof -
  have old: "filter (\<lambda>x. mt_MappingID x = i) (db_targets s) = []" using fresh_mapping[OF assms(1)] assms(2) by (auto simp: filter_empty_conv)
  let ?new = "new_targets t i (db_nextTarget s) (toTargetInputs (mq_Targets req))"
  have "filter (\<lambda>x. mt_MappingID x = i) ?new = ?new" by (auto simp: filter_id_conv dest: new_targets_mapping)
  then show "map (\<lambda>x. (mt_NodeID x, mt_RemotePort x)) (filter (\<lambda>x. mt_MappingID x = i) (db_targets (created t req s))) = map (\<lambda>r. (rt_NodeID r, rt_RemotePort r)) (mq_Targets req)"
    using arg_cong[OF new_targets_keys[of t i "db_nextTarget s" "toTargetInputs (mq_Targets req)"], of "map snd"] old
    by (simp add: created_def assms(2)[symmetric] o_def toTargetInputs_def)
  have "filter (\<lambda>m. mp_ID m = i) (db_mappings s) = []" using assms by (auto simp: filter_empty_conv wf_store_simps ids_ok_def)
  then show "filter (\<lambda>m. mp_ID m = i) (db_mappings (created t req s)) = [(req_mapping req)\<lparr>mp_ID := i, mp_Version := 1, mp_CreatedAt := t, mp_UpdatedAt := t\<rparr>]"
    by (simp add: created_def with_mapping_def assms(2))
  show "node_row j (created t req s) = node_row j s" by (simp add: created_def with_mapping_def node_row_def)
  assume r: "r \<in> set (mq_Targets req)" "mq_Enabled req"
  then have "(i, rt_NodeID r, rt_RemotePort r) \<in> set (map (\<lambda>tg. (i, ti_NodeID tg, ti_RemotePort tg)) (toTargetInputs (mq_Targets req)))"
    by (auto simp: toTargetInputs_def)
  then obtain x where "x \<in> set ?new" "mt_MappingID x = i" "mt_NodeID x = rt_NodeID r" "mt_RemotePort x = rt_RemotePort r"
    unfolding new_targets_keys[of t i "db_nextTarget s" "toTargetInputs (mq_Targets req)", symmetric] by auto
  then show "\<lparr>np_MappingID = i, np_NodeID = rt_NodeID r, np_LocalPort = mq_LocalPort req, np_Proto = mq_Proto req,
        np_RemotePort = rt_RemotePort r, np_Remark = mq_Remark req\<rparr> \<in> set (enabled_rows (rt_NodeID r) (created t req s))"
    using r(2) assms(2) by (force simp: enabled_rows_def created_def with_mapping_def req_mapping_def)
qed

section \<open>Properties\<close>

text \<open>
  C27: validation is exact. A mapping is accepted if and only if its local port is a port, the protocol
  is \<open>tcp\<close> or \<open>udp\<close>, it has targets, no node twice, only public ports of the policy, and, when it is
  to be enabled, something listens on the local port and no connected agent reports a public port as
  used; validation changes nothing but the counters of requests.
\<close>
theorem mapping_validation:
  assumes "validateMapping e req P = (r, P')"
  shows "(r = None \<longleftrightarrow> 1 \<le> mq_LocalPort req \<and> mq_LocalPort req \<le> 65535 \<and> mq_Proto req \<in> {''tcp'', ''udp''} \<and> mq_Targets req \<noteq> [] \<and>
       distinct (map rt_NodeID (mq_Targets req)) \<and> (\<forall>t\<in>set (mq_Targets req). ValidateRemotePort (rt_RemotePort t) = None) \<and>
       (mq_Enabled req \<longrightarrow> fst (LocalListen (pe_host e) (mq_LocalPort req) (mq_Proto req)) \<and>
          (\<forall>t\<in>set (mq_Targets req). \<not> port_busy e (mq_Proto req) P t))) \<and>
    pn_app P' = pn_app P \<and> pn_frpc P' = pn_frpc P \<and> pn_conns P' = pn_conns P"
  using validateMapping_outcome[OF assms] unfolding acceptable_def same_links_def by simp


text \<open>
  C35: an enabled mapping cannot be edited while it works. Take a target on a connected node, and an agent
  that answers the panel's port check as \<^verbatim>\<open>checkPort\<close> does, on a host where the target's public port is
  in use, as it is when frps already serves the mapping there. Then every edit that keeps the mapping
  enabled and the target is refused as \<open>CodePortBusy\<close>, even one that only changes the remark, and
  nothing is stored.
\<close>
theorem edit_enabled_mapping_refused:
  assumes "DBUp (pn_app P)" "pathID path = Inr i" "mq_Enabled req" "acceptable e (req\<lparr>mq_Enabled := False\<rparr>) P"
    "fst (LocalListen (pe_host e) (mq_LocalPort req) (mq_Proto req))" "t \<in> set (mq_Targets req)"
    "Conn (rt_NodeID t) P = Some (oid, c)" "nc_up c" "nc_conn c" "pc = \<lparr>pc_Port = rt_RemotePort t, pc_Proto = mq_Proto req\<rparr>"
    "pe_reply e (nc_nodeID c) (CPortCheck pc) = Some payload" "pe_portRes e payload = checkPort agent pc"
    "fst (LocalListen (de_host agent) (rt_RemotePort t) (mq_Proto req)) \<or>
       snd (Proxies (de_api agent)) \<and> (\<exists>p\<in>set (fst (Proxies (de_api agent))). pi_RemotePort p = rt_RemotePort t)"
    "handleUpdateMapping e user path (Inr req) P = (reply, P')"
  shows "rs_Code reply = CodePortBusy \<and> pn_app P' = pn_app P"
proof -
  have "\<not> pr_Available (checkPort agent pc)"
    using assms(13) unfolding assms(10) by (auto simp: checkPort_def Let_def find_None_iff split: option.split prod.split bool.split)
  then have busy: "port_busy e (mq_Proto req) P t" using assms(7-12) by (simp add: port_busy_def)
  have ct: "check_targets [] (mq_Targets req) = None" using assms(4) by (simp add: acceptable_def check_targets_None)
  obtain r Q where r: "check_remote e (mq_Proto req) (mq_Targets req) P = (r, Q)" by (cases "check_remote e (mq_Proto req) (mq_Targets req) P")
  note o = check_remote_outcome[OF r]
  have "r \<noteq> None" using o busy assms(6) by blast
  then obtain err where err: "r = Some err" "ae_Code err = CodePortBusy" using o by blast
  have "validateMapping e req P = (Some err, Q)"
    using assms(3-5) ct r err(1) by (auto simp: validateMapping_def acceptable_def ValidatePort_def)
  then have "reply = fail (Business err)" "P' = Q" using assms(1,2,14) by (simp_all add: handleUpdateMapping_def decodeJSON_def)
  then show ?thesis using err(2) o by (simp add: same_links_def)
qed

section \<open>Concrete requests\<close>

text \<open>A host on which something listens on port 6000, a connected node and a request for that port.\<close>

definition ex_listening :: host where
  "ex_listening = \<lparr>h_files = [(''/proc/net/tcp'', ''h'' @ [CHR 0x0A] @ ''0: 0:1770 0:0 0A 0 0 0 0 0 9'')], h_pids = []\<rparr>"

lemma ex_listening_6000: "fst (LocalListen ex_listening 6000 ''tcp'')"
proof -
  define line :: string where "line = ''0: 0:1770 0:0 0A 0 0 0 0 0 9''"
  have "raw_lines (''h'' @ [CHR 0x0A] @ line) = [''h'', line]" using raw_lines_line[of "''h''" line] raw_lines_last[of line] by (simp add: line_def)
  moreover have "length line < 2 ^ 20" "line \<noteq> []" by (simp_all add: line_def)
  moreover have "drop_cr line = line" "drop_cr ''h'' = ''h''" "TrimSpace line = line" unfolding line_def by code_simp+
  moreover have "Fields line = [''0:'', ''0:1770'', ''0:0'', ''0A'', ''0'', ''0'', ''0'', ''0'', ''0'', ''9'']" "LastIndexByte ''0:1770'' (CHR '':'') = Some 1"
    unfolding line_def by code_simp+
  then have "parse_sock_line line = Some \<lparr>se_LocalPort = 6000, se_State = ''0A'', se_Inode = ''9''\<rparr>"
    by (simp add: parse_sock_line_def ParseInt_def digit_val_def Let_def)
  ultimately have "fst (ParseProcNet (''h'' @ [CHR 0x0A] @ line)) = [\<lparr>se_LocalPort = 6000, se_State = ''0A'', se_Inode = ''9''\<rparr>]"
    by (simp add: ParseProcNet_def scan_lines_def Let_def)
  moreover have "procFiles ''tcp'' = [''/proc/net/tcp'', ''/proc/net/tcp6'']" by code_simp
  ultimately show ?thesis
    by (simp add: LocalListen_iff ex_listening_def line_def[symmetric] occupies_def tcpListen_def)
qed

definition ex_req :: mappingReq where
  "ex_req = \<lparr>mq_LocalPort = 6000, mq_Proto = ''tcp'', mq_Remark = ''web'', mq_Enabled = True, mq_Version = 1,
     mq_Targets = [\<lparr>rt_NodeID = 1, rt_RemotePort = 6000\<rparr>]\<rparr>"

definition ex_map_env :: panel_env where
  "ex_map_env = ex_panel_env\<lparr>pe_host := ex_listening\<rparr>"

lemma ex_acceptable_off: "acceptable e (ex_req\<lparr>mq_Enabled := False\<rparr>) P"
  by (simp add: acceptable_def ex_req_def ValidateRemotePort_ok_iff)

lemma ex_acceptable: "acceptable ex_map_env ex_req ex_started"
proof -
  have "pe_reply ex_map_env i cmd = None" for i cmd by (simp add: ex_map_env_def ex_panel_env_def)
  then have "\<not> port_busy ex_map_env proto ex_started t" for proto t by (simp add: port_busy_def split: option.split)
  then show ?thesis
    by (simp add: acceptable_def ex_req_def ValidateRemotePort_ok_iff ex_map_env_def ex_listening_6000)
qed

theorem mapping_validation_witness: "fst (validateMapping ex_map_env ex_req ex_started) = None"
proof -
  obtain r P' where v: "validateMapping ex_map_env ex_req ex_started = (r, P')" by (cases "validateMapping ex_map_env ex_req ex_started")
  show ?thesis using mapping_validation[OF v] ex_acceptable unfolding v acceptable_def by simp
qed


definition ex_agent :: dispatch_env where
  "ex_agent = \<lparr>de_unix = 0, de_portCheck = (\<lambda>_. \<lparr>pc_Port = 0, pc_Proto = []\<rparr>), de_restart = undefined, de_rate = undefined, de_update = undefined,
     de_host = ex_listening, de_api = (\<lambda>_. None), de_frps_io = undefined, de_binver = [], de_fw = undefined, de_errtext = (\<lambda>_. []), de_rltext = (\<lambda>_. [])\<rparr>"

definition ex_online :: Panel where
  "ex_online = ex_started\<lparr>pn_objs := [(0, ex_conn)]\<rparr>"

definition ex_edit_env :: panel_env where
  "ex_edit_env = ex_map_env\<lparr>pe_reply := (\<lambda>_ _. Some []), pe_portRes := (\<lambda>_. checkPort ex_agent \<lparr>pc_Port = 6000, pc_Proto = ''tcp''\<rparr>)\<rparr>"

theorem edit_enabled_mapping_refused_witness:
  "rs_Code (fst (handleUpdateMapping ex_edit_env ''admin'' (Itoa 1) (Inr (ex_req\<lparr>mq_Remark := ''new''\<rparr>)) ex_online)) = CodePortBusy"
proof -
  let ?t = "\<lparr>rt_NodeID = 1, rt_RemotePort = 6000\<rparr>" and ?req = "ex_req\<lparr>mq_Remark := ''new''\<rparr>" and ?pc = "\<lparr>pc_Port = 6000, pc_Proto = ''tcp''\<rparr>"
  have 1: "DBUp (pn_app ex_online)" "Conn 1 ex_online = Some (0, ex_conn)" using ex_started_state by (simp_all add: ex_online_def Conn_def)
  have 2: "pathID (Itoa 1) = Inr 1" by (rule pathID_Itoa) simp_all
  have 3: "acceptable ex_edit_env (?req\<lparr>mq_Enabled := False\<rparr>) ex_online" by (simp add: acceptable_def ex_req_def ValidateRemotePort_ok_iff)
  obtain r P' where h: "handleUpdateMapping ex_edit_env ''admin'' (Itoa 1) (Inr ?req) ex_online = (r, P')"
    by (cases "handleUpdateMapping ex_edit_env ''admin'' (Itoa 1) (Inr ?req) ex_online")
  have 4: "fst (LocalListen (pe_host ex_edit_env) 6000 ''tcp'')" "fst (LocalListen (de_host ex_agent) 6000 ''tcp'')"
    by (simp_all add: ex_edit_env_def ex_map_env_def ex_agent_def ex_listening_6000)
  have "rs_Code r = CodePortBusy"
    by (rule edit_enabled_mapping_refused[OF 1(1) 2 _ 3 _ _ _ _ _ _ _ _ _ h, of ?t 0 ex_conn ?pc "[]" ex_agent, THEN conjunct1])
      (use 1(2) 4 in \<open>simp_all add: ex_req_def ex_conn_def ex_edit_env_def\<close>)
  then show ?thesis by (simp add: h)
qed

end
