(* ===== verification/Nodes_Api.thy ===== *)
theory Nodes_Api
  imports Sync Selfupdate Session
begin

text \<open>
  \<^verbatim>\<open>internal/panel/handlers_nodes.go\<close>: listing, registering, editing and deleting nodes, rotating the frps
  token, updating an agent and reading a node's history. A handler gets the decoded body, the path
  and query parameters as text and the name of the user. The lemmas show what a registration that
  succeeds has verified, and that a deletion removes every trace of the node.
\<close>

section \<open>Views\<close>

record nodeDTO =
  no_Node :: Node
  no_Connected :: bool
  no_LatencyMs :: int
  no_TargetCount :: int
  no_Live :: "(real \<times> real \<times> int64 \<times> int64)"
  no_Today :: "int64 \<times> int64"

datatype node_data = NodeList "nodeDTO list" | NodeView nodeDTO | NewNodeID int | UpdateStarted string | History "MinuteRow list" "TrafficDaily list"

definition is_connected :: "int \<Rightarrow> Panel \<Rightarrow> bool" where
  "is_connected i P = (case Conn i P of None \<Rightarrow> False | Some (_, c) \<Rightarrow> nc_up c)"

definition live_view :: "int \<Rightarrow> App \<Rightarrow> real \<times> real \<times> int64 \<times> int64" where
  "live_view i a = (case LastSample i a of None \<Rightarrow> (0, 0, 0, 0) | Some s \<Rightarrow> (sm_CPU s, sm_Mem s, sm_NetRxBps s, sm_NetTxBps s))"

definition node_view :: "Panel \<Rightarrow> (int, int) gomap \<Rightarrow> (int, TrafficDaily) gomap \<Rightarrow> Node \<Rightarrow> nodeDTO" where
  "node_view P counts today n =
     \<lparr>no_Node = n, no_Connected = is_connected (nd_ID n) P, no_LatencyMs = NodeLatency (nd_ID n) (pn_app P), no_TargetCount = mget 0 counts (nd_ID n),
      no_Live = live_view (nd_ID n) (pn_app P),
      no_Today = (case map_of today (nd_ID n) of None \<Rightarrow> (0, 0) | Some t \<Rightarrow> (td_TunInBytes t, td_TunOutBytes t))\<rparr>"

text \<open>A read whose error is dropped.\<close>

definition or_zero :: "'a \<Rightarrow> 'e + 'a \<Rightarrow> 'a" where
  "or_zero z r = (case r of Inl _ \<Rightarrow> z | Inr x \<Rightarrow> x)"

definition handleListNodes :: "panel_env \<Rightarrow> Panel \<Rightarrow> node_data reply \<times> Panel" where
  "handleListNodes e P =
     (if \<not> DBUp (pn_app P) then (fail (Business ErrDBDown), P)
      else case run_app (run_db ListNodes) P of
             (Inl _, P) \<Rightarrow> (fail (Business ErrDBDown), P)
           | (Inr nodes, P) \<Rightarrow>
               (let (counts, P) = run_app (run_db TargetCounts) P; (today, P) = run_app (run_db (TodayTrafficByNode (pe_unix e))) P
                in (ok (NodeList (map (node_view P (or_zero [] counts) (or_zero [] today)) nodes)), P)))"

section \<open>Registration\<close>

record createNodeReq =
  cn_Name :: string
  cn_Region :: string
  cn_Receipt :: string

definition receipt_text :: "receipt_error \<Rightarrow> string" where
  "receipt_text err = (case err of ReceiptEmpty \<Rightarrow> ''receipt_empty'' | ReceiptBase64 \<Rightarrow> ''receipt_base64'' | ReceiptJson \<Rightarrow> ''receipt_json'' | ReceiptFields \<Rightarrow> ''receipt_fields'')"

definition receipt_node :: "string \<Rightarrow> string \<Rightarrow> Receipt \<Rightarrow> Node" where
  "receipt_node name region rc =
     \<lparr>nd_ID = 0, nd_Name = name, nd_IP = rc_IP rc, nd_AgentPort = rc_Port rc, nd_AgentToken = rc_Token rc, nd_Fingerprint = rc_FP rc,
      nd_FrpsToken = [], nd_FrpsPort = rc_FrpsPort rc, nd_Region = region, nd_Status = [], nd_AgentVersion = [], nd_FrpsVersion = [],
      nd_LastCommitSeq = 0, nd_LastSeen = None, nd_CreatedAt = 0, nd_UpdatedAt = 0\<rparr>"

text \<open>The agent reached at an address answers as \<open>ve\<close> says.\<close>

definition handleCreateNode :: "panel_env \<Rightarrow> (string \<Rightarrow> string) \<Rightarrow> (string \<Rightarrow> int \<Rightarrow> verify_env) \<Rightarrow> string \<Rightarrow> string + createNodeReq \<Rightarrow> Panel \<Rightarrow> node_data reply \<times> Panel" where
  "handleCreateNode e sha ve user body P =
     (if \<not> DBUp (pn_app P) then (fail (Business ErrDBDown), P)
      else case decodeJSON body of
             Inl err \<Rightarrow> (fail err, P)
           | Inr req \<Rightarrow>
               if cn_Name req = [] then (failCode CodeValidation ''no_name'', P)
               else case Decode (cn_Receipt req) of
                      Inl err \<Rightarrow> (failCode CodeValidation (receipt_text err), P)
                    | Inr rc \<Rightarrow>
                        (case verifyAgent (pe_hmac e) sha (ve (rc_IP rc) (rc_Port rc)) (rc_Token rc) (rc_FP rc) of
                           Some err \<Rightarrow> (fail (Business err), P)
                         | None \<Rightarrow>
                             (let node = receipt_node (cn_Name req) (if cn_Region req = [] then ''overseas'' else cn_Region req) rc
                              in case run_app (run_db (CreateOrUpdateNode (pe_unix e) node)) P of
                                   (Inl _, P) \<Rightarrow> (fail (Business ErrDBDown), P)
                                 | (Inr i, P) \<Rightarrow>
                                     (ok (NewNodeID i),
                                      on_app (app_AddLog (pe_unix e) ''panel_op'' user (Some i) (''node_added '' @ cn_Name req @ rc_IP rc))
                                        (nm_Add e (node\<lparr>nd_ID := i\<rparr>) P)))))"

section \<open>One node\<close>

definition handleGetNode :: "string \<Rightarrow> Panel \<Rightarrow> node_data reply \<times> Panel" where
  "handleGetNode path P =
     (if \<not> DBUp (pn_app P) then (fail (Business ErrDBDown), P)
      else case pathID path of
             Inl err \<Rightarrow> (fail err, P)
           | Inr i \<Rightarrow>
               (case run_app (run_db (GetNode i)) P of
                  (Inl _, P) \<Rightarrow> (fail (Business ErrDBDown), P)
                | (Inr None, P) \<Rightarrow> (fail (Business ErrNotFound), P)
                | (Inr (Some n), P) \<Rightarrow>
                    (ok (NodeView \<lparr>no_Node = n, no_Connected = is_connected i P, no_LatencyMs = NodeLatency i (pn_app P), no_TargetCount = 0,
                       no_Live = live_view i (pn_app P), no_Today = (0, 0)\<rparr>), P)))"

record updateNodeReq =
  un_Name :: string
  un_Region :: string

definition handleUpdateNode :: "panel_env \<Rightarrow> string \<Rightarrow> string \<Rightarrow> string + updateNodeReq \<Rightarrow> Panel \<Rightarrow> node_data reply \<times> Panel" where
  "handleUpdateNode e user path body P =
     (if \<not> DBUp (pn_app P) then (fail (Business ErrDBDown), P)
      else case pathID path of
             Inl err \<Rightarrow> (fail err, P)
           | Inr i \<Rightarrow>
               (case decodeJSON body of
                  Inl err \<Rightarrow> (fail err, P)
                | Inr req \<Rightarrow>
                    if un_Name req = [] then (failCode CodeValidation ''empty_name'', P)
                    else case run_app (run_db (UpdateNodeMeta (pe_unix e) i (un_Name req) (un_Region req))) P of
                           (Inl _, P) \<Rightarrow> (fail (Business ErrDBDown), P)
                         | (Inr _, P) \<Rightarrow>
                             (ok_nil, on_app (app_AddLog (pe_unix e) ''panel_op'' user (Some i) ''node_edited'') (UpdateMeta i (un_Name req) (un_Region req) P))))"

definition handleDeleteNode :: "panel_env \<Rightarrow> string \<Rightarrow> string \<Rightarrow> Panel \<Rightarrow> node_data reply \<times> Panel" where
  "handleDeleteNode e user path P =
     (if \<not> DBUp (pn_app P) then (fail (Business ErrDBDown), P)
      else case pathID path of
             Inl err \<Rightarrow> (fail err, P)
           | Inr i \<Rightarrow>
               (let (r, P) = run_app (run_db (GetNode i)) P; name = (case or_zero None r of None \<Rightarrow> [] | Some n \<Rightarrow> nd_Name n); P = nm_Remove i P
                in case run_app (run_db (DeleteNode i)) P of
                     (Inl _, P) \<Rightarrow> (fail (Business ErrDBDown), P)
                   | (Inr _, P) \<Rightarrow> (ok_nil, on_app (app_AddLog (pe_unix e) ''panel_op'' user (Some i) (''node_deleted '' @ name)) P)))"

definition handleRotateToken :: "panel_env \<Rightarrow> string \<Rightarrow> Panel \<Rightarrow> node_data reply \<times> Panel" where
  "handleRotateToken e path P =
     (case pathID path of
        Inl err \<Rightarrow> (fail err, P)
      | Inr i \<Rightarrow> (case RotateFrpsToken e i P of (Some err, P) \<Rightarrow> (fail err, P) | (None, P) \<Rightarrow> (ok_nil, P)))"

definition handleUpdateAgent :: "panel_env \<Rightarrow> net \<Rightarrow> string \<Rightarrow> string \<Rightarrow> Panel \<Rightarrow> node_data reply \<times> Panel" where
  "handleUpdateAgent e get user path P =
     (case pathID path of
        Inl err \<Rightarrow> (fail err, P)
      | Inr i \<Rightarrow>
          (let ((base, mirror), P) = run_app updateSource P
           in if base = [] then (failCode CodeValidation ''no_update_source'', P)
              else
                (let latest = (case Fetch get base mirror ''VERSION'' of None \<Rightarrow> [] | Some b \<Rightarrow> TrimSpace b)
                 in case nm_UpdateAgent e i latest base mirror P of
                      (Some err, P) \<Rightarrow> (fail (Business err), P)
                    | (None, P) \<Rightarrow>
                        (ok (UpdateStarted latest), on_app (app_AddLog (pe_unix e) ''panel_op'' user (Some i) (''agent_update '' @ latest)) P))))"

definition history_hours :: "string \<Rightarrow> int" where
  "history_hours h = (if h = [] then 24 else let (n, parsed) = Atoi h in if parsed \<and> 0 < n \<and> n \<le> 24 * 400 then n else 24)"

definition handleNodeHistory :: "panel_env \<Rightarrow> string \<Rightarrow> string \<Rightarrow> Panel \<Rightarrow> node_data reply \<times> Panel" where
  "handleNodeHistory e path hoursText P =
     (if \<not> DBUp (pn_app P) then (fail (Business ErrDBDown), P)
      else case pathID path of
             Inl err \<Rightarrow> (fail err, P)
           | Inr i \<Rightarrow>
               (let hours = history_hours hoursText
                in case run_app (run_db (NodeHistory (pe_unix e) i hours)) P of
                     (Inl _, P) \<Rightarrow> (fail (Business ErrDBDown), P)
                   | (Inr pts, P) \<Rightarrow>
                       (let days = (if hours div 24 < 1 then 7 else hours div 24);
                            (traffic, P) = run_app (run_db (TrafficForNodeDays (pe_unix e) i days)) P
                        in (ok (History pts (or_zero [] traffic)), P))))"

definition currentUser :: "Claims option \<Rightarrow> string" where
  "currentUser c = (case c of Some c \<Rightarrow> cl_Uname c | None \<Rightarrow> ''system'')"

section \<open>What a registration has verified\<close>

lemma verifyAgent_None:
  "verifyAgent hmac sha v tok fp = None \<longleftrightarrow>
     (\<exists>der rest ack. ve_certs v = Some (der # rest) \<and> EqualFingerprint (''sha256:'' @ sha der) fp \<and> ve_sent v \<and> ve_ack v = Some ack \<and> Verify hmac ack tok (ve_unix v) = None)"
  by (auto simp: verifyAgent_def pinned_ok_def split: option.splits list.splits verify_error.splits if_splits)

lemma verifyAgent_code: "verifyAgent hmac sha v tok fp = Some err \<Longrightarrow> ae_Code err \<noteq> CodeOK"
  by (auto simp: verifyAgent_def err_defs code_defs split: option.splits verify_error.splits if_splits)

lemma find_map_id:
  assumes "distinct (map f xs)" "x \<in> set xs" "\<And>y. f (g y) = f y"
  shows "find (\<lambda>y. f y = f x) (map g xs) = Some (g x)"
  using assms by (induction xs) (auto simp: image_iff)

lemma find_snoc: "find p (xs @ [x]) = (case find p xs of None \<Rightarrow> if p x then Some x else None | Some y \<Rightarrow> Some y)"
  by (induction xs) auto

lemma CreateOrUpdateNode_row:
  assumes "wf_store s" "CreateOrUpdateNode t n s = (Inr i, s')"
  shows "\<exists>x. node_row i s' = Some x \<and> nd_IP x = nd_IP n \<and> nd_AgentPort x = nd_AgentPort n \<and> nd_AgentToken x = nd_AgentToken n \<and> nd_Fingerprint x = nd_Fingerprint n \<and>
     nd_FrpsPort x = nd_FrpsPort n \<and> nd_Name x = nd_Name n"
proof -
  let ?f = "find (\<lambda>x. nd_IP x = nd_IP n \<and> nd_AgentPort x = nd_AgentPort n)"
  have d: "distinct (map nd_ID (db_nodes s))" "\<forall>x\<in>set (db_nodes s). nd_ID x < db_nextNode s"
    using assms(1) by (auto simp: wf_store_simps ids_ok_def dest: ids_ok_distinct strict_sorted_iff[THEN iffD1])
  show ?thesis
  proof (cases "?f (db_nodes s)")
    case None
    then have s': "i = db_nextNode s" "\<exists>x. db_nodes s' = db_nodes s @ [x] \<and> nd_ID x = i \<and> nd_IP x = nd_IP n \<and> nd_AgentPort x = nd_AgentPort n \<and> nd_AgentToken x = nd_AgentToken n \<and>
        nd_Fingerprint x = nd_Fingerprint n \<and> nd_FrpsPort x = nd_FrpsPort n \<and> nd_Name x = nd_Name n"
      using assms(2) by (auto simp: CreateOrUpdateNode_def stmt_def split: list.splits if_splits)
    have "find (\<lambda>x. nd_ID x = i) (db_nodes s) = None" using d(2) s'(1) by (auto simp: find_None_iff)
    then show ?thesis using s'(2) by (auto simp: node_row_def find_snoc)
  next
    case (Some x)
    define g :: "Node \<Rightarrow> Node" where "g = (\<lambda>y. if nd_ID y = nd_ID x then y\<lparr>nd_Name := nd_Name n, nd_AgentToken := nd_AgentToken n,
                       nd_Fingerprint := nd_Fingerprint n, nd_Region := nd_Region n, nd_FrpsPort := nd_FrpsPort n, nd_UpdatedAt := t\<rparr> else y)"
    have x: "x \<in> set (db_nodes s)" "nd_IP x = nd_IP n" "nd_AgentPort x = nd_AgentPort n" using Some by (auto simp: find_Some_iff)
    have s': "i = nd_ID x" "db_nodes s' = map g (db_nodes s)"
      using assms(2) Some by (auto simp: CreateOrUpdateNode_def stmt_def g_def split: list.splits if_splits)
    have "node_row i s' = Some (g x)" unfolding node_row_def s' by (rule find_map_id[OF d(1) x(1)]) (simp add: g_def)
    then show ?thesis using x by (simp add: g_def)
  qed
qed

lemma Conn_on_app [simp]: "Conn i (on_app g P) = Conn i P"
  by (simp add: Conn_def cong: option.case_cong)

lemma nm_Add_fresh:
  assumes "nd_FrpsToken n = []" "nd_ID n = i"
  shows "app_store (pn_app (nm_Add e n P)) = app_store (pn_app P) \<and> (\<exists>oid. Conn i (nm_Add e n P) = Some (oid, newNodeConn n))"
  using assms by (auto simp: nm_Add_def nm_stop_def nm_start_def Let_def gomap_simps Conn_def InitNode_def split: option.split)

lemma AddLog_nodes: "db_nodes (app_store (app_AddLog t ty src n d a)) = db_nodes (app_store a)"
  by (auto simp: app_AddLog_def run_db_def AddLog_def stmt_def db_upd_def Let_def split: list.split)

lemma run_db_frame: "run_app (run_db f) P = (r, P') \<Longrightarrow> pn_conns P' = pn_conns P \<and> f (app_store (pn_app P)) = (r, app_store (pn_app P'))"
  by (auto simp: run_app_def run_db_def Let_def split: prod.splits)

lemma stmt_error: "CreateOrUpdateNode t n s = (Inl err, s') \<Longrightarrow> db_nodes s' = db_nodes s"
  by (auto simp: CreateOrUpdateNode_def stmt_def split: list.splits if_splits option.splits)

section \<open>What a deletion removes\<close>

lemma db_bind_Inr: "db_bind f g s = (Inr y, s') \<Longrightarrow> \<exists>x s1. f s = (Inr x, s1) \<and> g x s1 = (Inr y, s')"
  by (auto simp: db_bind_def split: prod.splits sum.splits)

lemma upd_Inr: "stmt (db_upd f) s = (Inr y, s') \<Longrightarrow> \<exists>fs. s' = f (s\<lparr>db_faults := fs\<rparr>)"
  by (cases s) (auto simp: stmt_def db_upd_def split: list.splits if_splits)

definition node_free :: "int \<Rightarrow> Store \<Rightarrow> bool" where
  "node_free i s \<longleftrightarrow> i \<notin> mt_NodeID ` set (db_targets s) \<and> i \<notin> mr_NodeID ` set (db_minutely s) \<and> i \<notin> mr_NodeID ` set (db_hourly s) \<and>
     i \<notin> mr_NodeID ` set (db_daily s) \<and> i \<notin> td_NodeID ` set (db_traffic s) \<and> i \<notin> nd_ID ` set (db_nodes s)"

lemma node_free_faults [simp]: "node_free i (s\<lparr>db_faults := fs\<rparr>) = node_free i s"
  by (simp add: node_free_def)

lemma stmt_return: "stmt (db_return x) s = (Inr y, s') \<Longrightarrow> y = x \<and> (\<exists>fs. s' = s\<lparr>db_faults := fs\<rparr>)"
  by (cases s) (auto simp: stmt_def db_return_def split: list.splits if_splits)

lemma stmt_read: "stmt (db_read f) s = (r, s') \<Longrightarrow> s' = s\<lparr>db_faults := db_faults s'\<rparr>"
  by (auto simp: stmt_def db_read_def split: list.splits if_splits)

lemma in_tx_Inr:
  assumes "in_tx body s = (Inr y, s')"
  shows "\<exists>s1 s2 fs. body s1 = (Inr y, s2) \<and> s' = s2\<lparr>db_faults := fs\<rparr>"
proof -
  have "db_bind (stmt (db_return ())) (\<lambda>_. db_bind body (\<lambda>x. stmt (db_return x))) s = (Inr y, s')"
    using assms by (auto simp: in_tx_def split: prod.splits sum.splits)
  from db_bind_Inr[OF this] obtain s1 where "db_bind body (\<lambda>x. stmt (db_return x)) s1 = (Inr y, s')" by blast
  from db_bind_Inr[OF this] obtain x s2 where "body s1 = (Inr x, s2)" "stmt (db_return x) s2 = (Inr y, s')" by blast
  then show ?thesis using stmt_return[of x s2 y s'] by blast
qed

lemma DeleteNode_frees: "DeleteNode i s = (Inr u, s') \<Longrightarrow> node_free i s'"
  unfolding DeleteNode_def by (drule in_tx_Inr) (auto simp: node_free_def dest!: db_bind_Inr upd_Inr)

lemma best_latency_none: "\<forall>(k, v)\<in>set lat. \<not> HasPrefix k p \<Longrightarrow> best_latency p lat = 0"
  unfolding best_latency_def by (induction lat) (auto simp: best_step_def)

definition forgotten :: "int \<Rightarrow> Panel \<Rightarrow> bool" where
  "forgotten i P \<longleftrightarrow> Conn i P = None \<and> map_of (app_pipe (pn_app P)) i = None \<and> (\<forall>port. getLive i port (pn_app P) = [] \<and> LinkLatency i port (pn_app P) = 0) \<and>
     NodeLatency i (pn_app P) = 0 \<and> \<not> Running i (pn_frpc P) \<and> cfg_file i (pn_frpc P) = None"

lemma Remove_forgets: "forgotten i (nm_Remove i P)"
proof -
  have "best_latency (node_prefix i) (filter (\<lambda>(k, v). \<not> HasPrefix k (node_prefix i)) lat) = 0" for lat by (rule best_latency_none) auto
  moreover have "map_of (pn_conns (nm_stop i P)) i = None" by (simp add: nm_stop_def Let_def gomap_simps split: option.split)
  moreover have "\<not> Running i (StopNode i m)" for m by (simp add: StopNode_def Running_def gomap_simps Let_def split: option.split)
  ultimately show ?thesis
    unfolding forgotten_def nm_Remove_def
    by (simp add: Conn_def RemoveNode_def clearLiveForNode_def clearLatForNode_def gomap_simps getLive_def LinkLatency_def NodeLatency_def mget_def map_of_filter_key StopNode_file)
qed

lemma forgotten_app: "forgotten i P \<Longrightarrow> forgotten i (on_app (\<lambda>a. a\<lparr>app_store := s\<rparr>) P)"
  by (auto simp: forgotten_def getLive_def LinkLatency_def NodeLatency_def Let_def split: if_splits)

lemma run_db_on: "run_app (run_db f) P = (r, P') \<Longrightarrow> \<exists>s. P' = on_app (\<lambda>a. a\<lparr>app_store := s\<rparr>) P"
  by (auto simp: run_app_def run_db_def on_app_def Let_def split: prod.splits)

lemma AddLog_app: "\<exists>s. app_AddLog t ty src n d a = a\<lparr>app_store := s\<rparr> \<and> (node_free i s \<longleftrightarrow> node_free i (app_store a))"
proof (cases "DBUp a")
  case True
  obtain r s where r: "AddLog t ty src n d (app_store a) = (r, s)" by (cases "AddLog t ty src n d (app_store a)")
  have "node_free i s = node_free i (app_store a)" using r by (auto simp: AddLog_def stmt_def db_upd_def Let_def node_free_def split: list.splits if_splits)
  then show ?thesis using True r by (auto simp: app_AddLog_def run_db_def)
next
  case False
  then show ?thesis by (auto simp: app_AddLog_def intro!: exI[of _ "app_store a"])
qed

lemma create_node_outcome:
  assumes "wf_store (app_store (pn_app P))" "handleCreateNode e sha ve user (Inr req) P = (reply, P')"
  shows "(rs_Code reply = CodeOK \<longrightarrow> (\<exists>rc der rest ack i x oid c. Decode (cn_Receipt req) = Inr rc \<and>
      ve_certs (ve (rc_IP rc) (rc_Port rc)) = Some (der # rest) \<and> EqualFingerprint (''sha256:'' @ sha der) (rc_FP rc) \<and>
      ve_ack (ve (rc_IP rc) (rc_Port rc)) = Some ack \<and> Verify (pe_hmac e) ack (rc_Token rc) (ve_unix (ve (rc_IP rc) (rc_Port rc))) = None \<and>
      reply = ok (NewNodeID i) \<and> node_row i (app_store (pn_app P')) = Some x \<and> Conn i P' = Some (oid, c) \<and>
      (\<forall>n\<in>{x, nc_node c}. nd_IP n = rc_IP rc \<and> nd_AgentPort n = rc_Port rc \<and> nd_AgentToken n = rc_Token rc \<and> nd_Fingerprint n = rc_FP rc))) \<and>
    (rs_Code reply \<noteq> CodeOK \<longrightarrow> db_nodes (app_store (pn_app P')) = db_nodes (app_store (pn_app P)) \<and> pn_conns P' = pn_conns P)"
proof (cases "\<exists>rc. DBUp (pn_app P) \<and> cn_Name req \<noteq> [] \<and> Decode (cn_Receipt req) = Inr rc \<and> verifyAgent (pe_hmac e) sha (ve (rc_IP rc) (rc_Port rc)) (rc_Token rc) (rc_FP rc) = None")
  case False
  then have "P' = P \<and> rs_Code reply \<noteq> CodeOK"
  proof (cases "Decode (cn_Receipt req)")
    case (Inr rc)
    show ?thesis using False assms(2) Inr verifyAgent_code[of "pe_hmac e" sha "ve (rc_IP rc) (rc_Port rc)" "rc_Token rc" "rc_FP rc"]
      by (auto simp: handleCreateNode_def decodeJSON_def err_defs code_defs split: if_splits option.splits)
  qed (use assms(2) in \<open>auto simp: handleCreateNode_def decodeJSON_def err_defs code_defs split: if_splits\<close>)
  then show ?thesis by simp
next
  case True
  then obtain rc where rc: "DBUp (pn_app P)" "cn_Name req \<noteq> []" "Decode (cn_Receipt req) = Inr rc"
    "verifyAgent (pe_hmac e) sha (ve (rc_IP rc) (rc_Port rc)) (rc_Token rc) (rc_FP rc) = None" by blast
  define n where "n = receipt_node (cn_Name req) (if cn_Region req = [] then ''overseas'' else cn_Region req) rc"
  obtain r Q where r: "run_app (run_db (CreateOrUpdateNode (pe_unix e) n)) P = (r, Q)" by (cases "run_app (run_db (CreateOrUpdateNode (pe_unix e) n)) P")
  note fr = run_db_frame[OF r]
  show ?thesis
  proof (cases r)
    case (Inl err)
    then have "reply = fail (Business ErrDBDown)" "P' = Q" using assms(2) rc r by (simp_all add: handleCreateNode_def decodeJSON_def n_def)
    then show ?thesis using fr Inl stmt_error by (auto simp: err_defs code_defs)
  next
    case (Inr i)
    then have o: "reply = ok (NewNodeID i)" "\<exists>d. P' = on_app (app_AddLog (pe_unix e) ''panel_op'' user (Some i) d) (nm_Add e (n\<lparr>nd_ID := i\<rparr>) Q)"
      using assms(2) rc r by (auto simp: handleCreateNode_def decodeJSON_def n_def Let_def)
    have ft: "nd_FrpsToken (n\<lparr>nd_ID := i\<rparr>) = []" "nd_ID (n\<lparr>nd_ID := i\<rparr>) = i" by (simp_all add: n_def receipt_node_def)
    obtain x where x: "node_row i (app_store (pn_app Q)) = Some x" "nd_IP x = nd_IP n" "nd_AgentPort x = nd_AgentPort n" "nd_AgentToken x = nd_AgentToken n" "nd_Fingerprint x = nd_Fingerprint n"
      using CreateOrUpdateNode_row[OF assms(1)] fr Inr by blast
    obtain oid where "Conn i (nm_Add e (n\<lparr>nd_ID := i\<rparr>) Q) = Some (oid, newNodeConn (n\<lparr>nd_ID := i\<rparr>))" using nm_Add_fresh[OF ft] by blast
    then have "Conn i P' = Some (oid, newNodeConn (n\<lparr>nd_ID := i\<rparr>))" "node_row i (app_store (pn_app P')) = Some x"
      using o(2) x(1) nm_Add_fresh[OF ft, of e Q] by (auto simp: node_row_def AddLog_nodes)
    moreover have "m \<in> {x, nc_node (newNodeConn (n\<lparr>nd_ID := i\<rparr>))} \<Longrightarrow>
        nd_IP m = rc_IP rc \<and> nd_AgentPort m = rc_Port rc \<and> nd_AgentToken m = rc_Token rc \<and> nd_Fingerprint m = rc_FP rc" for m
      using x(2-) by (auto simp: n_def receipt_node_def newNodeConn_def)
    ultimately have "\<exists>i x oid c. reply = ok (NewNodeID i) \<and> node_row i (app_store (pn_app P')) = Some x \<and> Conn i P' = Some (oid, c) \<and>
        (\<forall>n\<in>{x, nc_node c}. nd_IP n = rc_IP rc \<and> nd_AgentPort n = rc_Port rc \<and> nd_AgentToken n = rc_Token rc \<and> nd_Fingerprint n = rc_FP rc)"
      using o(1) by blast
    moreover have "rs_Code reply = CodeOK" using o(1) by simp
    ultimately show ?thesis using rc(3) rc(4)[unfolded verifyAgent_None] by blast
  qed
qed

section \<open>Properties\<close>

text \<open>
  C21: registration is authentic. If the panel accepts a node, then the receipt decoded, the agent at its
  address presented a certificate with the receipt's fingerprint and answered with a fresh message
  signed under the receipt's token; the node's row has the receipt's address, token and fingerprint,
  and the manager drives it with them. If it refuses, neither the nodes nor the drivers have changed.
\<close>
theorem registration_authentic:
  assumes "wf_store (app_store (pn_app P))" "handleCreateNode e sha ve user (Inr req) P = (reply, P')"
  shows "(rs_Code reply = CodeOK \<longrightarrow> (\<exists>rc der rest ack i x oid c. Decode (cn_Receipt req) = Inr rc \<and>
      ve_certs (ve (rc_IP rc) (rc_Port rc)) = Some (der # rest) \<and> EqualFingerprint (''sha256:'' @ sha der) (rc_FP rc) \<and>
      ve_ack (ve (rc_IP rc) (rc_Port rc)) = Some ack \<and> Verify (pe_hmac e) ack (rc_Token rc) (ve_unix (ve (rc_IP rc) (rc_Port rc))) = None \<and>
      reply = ok (NewNodeID i) \<and> node_row i (app_store (pn_app P')) = Some x \<and> Conn i P' = Some (oid, c) \<and>
      (\<forall>n\<in>{x, nc_node c}. nd_IP n = rc_IP rc \<and> nd_AgentPort n = rc_Port rc \<and> nd_AgentToken n = rc_Token rc \<and> nd_Fingerprint n = rc_FP rc))) \<and>
    (rs_Code reply \<noteq> CodeOK \<longrightarrow> db_nodes (app_store (pn_app P')) = db_nodes (app_store (pn_app P)) \<and> pn_conns P' = pn_conns P)"
  using assms by (rule create_node_outcome)


section \<open>Concrete requests\<close>

definition ex_ack :: Envelope where
  "ex_ack = \<lparr>e_Ver = 2, e_Type = TypeHelloAck, e_ID = [], e_TS = 0, e_Nonce = [], e_Sig = ''mac'', e_Payload = []\<rparr>"

definition ex_ve :: "string \<Rightarrow> int \<Rightarrow> verify_env" where
  "ex_ve ip port = \<lparr>ve_certs = Some [''der''], ve_sent = True, ve_ack = Some ex_ack, ve_unix = 0\<rparr>"

definition ex_create :: createNodeReq where
  "ex_create = \<lparr>cn_Name = ''n'', cn_Region = [], cn_Receipt = '' '' @ Encode ex_receipt @ [CHR 0x0A]\<rparr>"

lemma ex_create_decodes: "Decode (cn_Receipt ex_create) = Inr ex_receipt"
proof -
  have "\<not> blank c" if "c \<in> set (Encode ex_receipt)" for c
    using that set_encode64 alphabet_no_space by (auto simp: Encode_def)
  then have "filter (\<lambda>c. \<not> blank c) (cn_Receipt ex_create) = Encode ex_receipt"
    by (simp add: ex_create_def blank_def[of "CHR '' ''"] blank_def[of "CHR 0x0A"])
  then show ?thesis by (rule Decode_blanks[rotated]) (simp add: wf_receipt_def ex_receipt_def)
qed

theorem registration_authentic_witness: "\<exists>i x. fst (handleCreateNode ex_panel_env (\<lambda>_. ''AA'') ex_ve ''admin'' (Inr ex_create) ex_started) = ok (NewNodeID i) \<and>
    node_row i (app_store (pn_app (snd (handleCreateNode ex_panel_env (\<lambda>_. ''AA'') ex_ve ''admin'' (Inr ex_create) ex_started)))) = Some x \<and> nd_AgentToken x = ''t''"
proof -
  let ?h = "handleCreateNode ex_panel_env (\<lambda>_. ''AA'') ex_ve ''admin'' (Inr ex_create) ex_started"
  obtain r P' where h: "?h = (r, P')" by (cases ?h)
  have wf: "wf_store (app_store (pn_app ex_started))" by (rule ex_started_store)
  have fp: "EqualFingerprint ''sha256:AA'' ''aa''" by code_simp
  have "Verify (pe_hmac ex_panel_env) ex_ack tok 0 = None" for tok
    by (simp add: Verify_def ex_panel_env_def ex_ack_def time_distance_def ReplayToleranceSec_def Let_def)
  then have v: "verifyAgent (pe_hmac ex_panel_env) (\<lambda>_. ''AA'') (ex_ve ip port) tok ''aa'' = None" for ip port tok
    using fp by (auto simp: verifyAgent_None ex_ve_def)
  have "rs_Code r = CodeOK"
  proof -
    have c: "cn_Name ex_create \<noteq> []" "cn_Region ex_create = []" "rc_FP ex_receipt = ''aa''" by (simp_all add: ex_create_def ex_receipt_def)
    have "\<exists>i s'. CreateOrUpdateNode t n (app_store (pn_app ex_started)) = (Inr i, s')" for t n
      using ex_started_state(1) by (auto simp: CreateOrUpdateNode_def split: option.split)
    then have "\<exists>i Q. run_app (run_db (CreateOrUpdateNode t n)) ex_started = (Inr i, Q)" for t n
      by (simp add: run_app_def run_db_def Let_def split: prod.split) (metis prod.inject)
    then obtain i Q where "run_app (run_db (CreateOrUpdateNode (pe_unix ex_panel_env) (receipt_node (cn_Name ex_create) ''overseas'' ex_receipt))) ex_started = (Inr i, Q)" by blast
    then show ?thesis using h ex_create_decodes c v ex_started_state(1) by (auto simp: handleCreateNode_def decodeJSON_def)
  qed
  then show ?thesis using registration_authentic[OF wf h] ex_create_decodes by (auto simp: h ex_receipt_def)
qed


end
