(* ===== verification/Misc_Api.thy ===== *)
theory Misc_Api
  imports Nodes_Api Gotime
begin

text \<open>
  \<^verbatim>\<open>internal/panel/handlers_misc.go\<close> and the probe loops of \<^verbatim>\<open>app.go\<close>: overview, logs, settings, updates of the
  panel itself and database backups. The backup directory is a map from file names to contents, as far
  as it holds files; what \<^verbatim>\<open>mysqldump\<close> wrote and whether it succeeded is an argument, as are the network,
  the hash and the outcome of file operations. The lemmas show that settings are read back as they
  were set, and which backups a backup keeps.
\<close>

section \<open>Overview and logs\<close>

record overview =
  ov_nodeTotal :: int
  ov_nodeOnline :: int
  ov_mappingTotal :: int
  ov_mappingEnabled :: int
  ov_live :: "int64 \<times> int64 \<times> int64 \<times> int64"
  ov_today :: TrafficTop
  ov_last30 :: TrafficTop
  ov_top :: "(TrafficTop \<times> string) list"
  ov_logs :: "OperationLog list"

record settings_view =
  sv_panelName :: string
  sv_connRateLimit :: int
  sv_pingInterval :: int
  sv_autoBackup :: bool
  sv_version :: string
  sv_tls :: bool
  sv_updateBase :: string
  sv_updateMirror :: string

datatype misc_data = Overview overview | Logs "OperationLog list" int int int | Deleted int | Settings settings_view
  | UpdateCheck string string bool string | Restarting | BackupDone string int

definition add_live :: "App \<Rightarrow> Node \<Rightarrow> int64 \<times> int64 \<times> int64 \<times> int64 \<Rightarrow> int64 \<times> int64 \<times> int64 \<times> int64" where
  "add_live a n acc =
     (case acc of (rx, tx, ti, to) \<Rightarrow>
        (case LastSample (nd_ID n) a of
           None \<Rightarrow> acc
         | Some s \<Rightarrow> (rx + sm_NetRxBps s, tx + sm_NetTxBps s, ti + sm_TunInBps s, to + sm_TunOutBps s)))"

definition zero_top :: TrafficTop where
  "zero_top = \<lparr>tt_NodeID = 0, tt_NodeRx = 0, tt_NodeTx = 0, tt_TunIn = 0, tt_TunOut = 0\<rparr>"

definition handleOverview :: "panel_env \<Rightarrow> Panel \<Rightarrow> misc_data reply \<times> Panel" where
  "handleOverview e P =
     (if \<not> DBUp (pn_app P) then (fail (Business ErrDBDown), P)
      else case run_app (run_db ListNodes) P of
             (Inl _, P) \<Rightarrow> (fail (Business ErrDBDown), P)
           | (Inr nodes, P) \<Rightarrow>
               (let online = length (filter (\<lambda>n. is_connected (nd_ID n) P) nodes);
                    live = fold (add_live (pn_app P)) nodes (0, 0, 0, 0);
                    (r, P) = run_app (run_db ListMappings) P; mps = or_zero [] r;
                    (r, P) = run_app (run_db (TrafficTotals (pe_unix e))) P; (today, last30) = or_zero (zero_top, zero_top) r;
                    (r, P) = run_app (run_db (TrafficTopN (pe_unix e) 30 5)) P; top = or_zero [] r;
                    (r, P) = run_app (run_db (ListLogs \<lparr>lf_Type = [], lf_NodeID = None, lf_Since = None, lf_Until = None, lf_Page = 1, lf_Size = 10\<rparr>)) P;
                    logs = fst (or_zero ([], 0) r);
                    name = (\<lambda>i. case find (\<lambda>n. nd_ID n = i) (rev nodes) of None \<Rightarrow> [] | Some n \<Rightarrow> nd_Name n)
                in (ok (Overview \<lparr>ov_nodeTotal = int (length nodes), ov_nodeOnline = int online, ov_mappingTotal = int (length mps),
                      ov_mappingEnabled = int (length (filter mp_Enabled mps)), ov_live = live, ov_today = today, ov_last30 = last30,
                      ov_top = map (\<lambda>t. (t, name (tt_NodeID t))) top, ov_logs = logs\<rparr>), P)))"

text \<open>The query's parameters as text; \<^verbatim>\<open>Atoi\<close>'s error is dropped and its value used.\<close>

definition log_query :: "string \<Rightarrow> string \<Rightarrow> string \<Rightarrow> string \<Rightarrow> LogFilter" where
  "log_query typ nid page sz =
     \<lparr>lf_Type = typ, lf_NodeID = (let (i, parsed) = ParseInt nid 10 64 in if nid \<noteq> [] \<and> parsed then Some i else None), lf_Since = None, lf_Until = None,
      lf_Page = fst (Atoi page), lf_Size = fst (Atoi sz)\<rparr>"

definition handleListLogs :: "LogFilter \<Rightarrow> Panel \<Rightarrow> misc_data reply \<times> Panel" where
  "handleListLogs f P =
     (if \<not> DBUp (pn_app P) then (fail (Business ErrDBDown), P)
      else case run_app (run_db (ListLogs f)) P of
             (Inl _, P) \<Rightarrow> (fail (Business ErrDBDown), P)
           | (Inr (logs, n), P) \<Rightarrow> (ok (Logs logs n (lf_Page f) (lf_Size f)), P))"

definition handleCleanLogs :: "panel_env \<Rightarrow> string \<Rightarrow> string + bool \<Rightarrow> Panel \<Rightarrow> misc_data reply \<times> Panel" where
  "handleCleanLogs e user body P =
     (if \<not> DBUp (pn_app P) then (fail (Business ErrDBDown), P)
      else case decodeJSON body of
             Inl err \<Rightarrow> (fail err, P)
           | Inr everything \<Rightarrow>
               (case run_app (run_db (CleanLogs (pe_unix e) everything)) P of
                  (Inl _, P) \<Rightarrow> (fail (Business ErrDBDown), P)
                | (Inr n, P) \<Rightarrow>
                    (ok (Deleted n), on_app (app_AddLog (pe_unix e) ''panel_op'' user None ((if everything then ''logs_all '' else ''logs_old '') @ Itoa n)) P)))"

section \<open>Settings\<close>

definition handleGetSettings :: "panel_env \<Rightarrow> bool \<Rightarrow> Panel \<Rightarrow> misc_data reply \<times> Panel" where
  "handleGetSettings e tls P =
     (if \<not> DBUp (pn_app P) then (fail (Business ErrDBDown), P)
      else
        (let (r, P) = run_app (run_db (GetSetting ''auto_backup'')) P; backup = or_zero [] r;
             ((base, mirror), P) = run_app updateSource P; (rate, P) = run_app connRateLimit P; (ping, P) = run_app pingIntervalSec P
         in (ok (Settings \<lparr>sv_panelName = app_panelName (pn_app P), sv_connRateLimit = rate, sv_pingInterval = ping, sv_autoBackup = (backup = ''1''),
               sv_version = pe_version e, sv_tls = tls, sv_updateBase = base, sv_updateMirror = mirror\<rparr>), P)))"

record updateSettingsReq =
  us_PanelName :: "string option"
  us_ConnRateLimit :: "int option"
  us_TCPPingInterval :: "int option"
  us_AutoBackup :: "bool option"
  us_UpdateMirror :: "string option"

text \<open>One optional field: absent, refused, stored (and something done after it) or not stored.\<close>

definition put_setting :: "string \<Rightarrow> string \<Rightarrow> (Panel \<Rightarrow> Panel) \<Rightarrow> Panel \<Rightarrow> misc_data reply option \<times> Panel" where
  "put_setting k v after P = (case run_app (run_db (SetSetting k v)) P of (Inl _, P) \<Rightarrow> (Some (fail (Business ErrDBDown)), P) | (Inr _, P) \<Rightarrow> (None, after P))"

definition set_panel_name :: "updateSettingsReq \<Rightarrow> Panel \<Rightarrow> misc_data reply option \<times> Panel" where
  "set_panel_name req P =
     (case us_PanelName req of
        None \<Rightarrow> (None, P)
      | Some raw \<Rightarrow>
          (let name = TrimSpace raw
           in if name = [] \<or> 64 < length name then (Some (failCode CodeValidation ''bad_panel_name''), P)
              else put_setting ''panel_name'' name (on_app (\<lambda>a. a\<lparr>app_panelName := name\<rparr>)) P))"

definition set_rate_limit :: "panel_env \<Rightarrow> updateSettingsReq \<Rightarrow> Panel \<Rightarrow> misc_data reply option \<times> Panel" where
  "set_rate_limit e req P =
     (case us_ConnRateLimit req of
        None \<Rightarrow> (None, P)
      | Some n \<Rightarrow>
          if n < 0 \<or> 1000000 < n then (Some (failCode CodeValidation ''bad_rate_limit''), P)
          else put_setting ''conn_rate_limit'' (Itoa n) (PushRateLimitAll e) P)"

definition set_ping_interval :: "updateSettingsReq \<Rightarrow> Panel \<Rightarrow> misc_data reply option \<times> Panel" where
  "set_ping_interval req P =
     (case us_TCPPingInterval req of
        None \<Rightarrow> (None, P)
      | Some n \<Rightarrow>
          if n < 5 \<or> 3600 < n then (Some (failCode CodeValidation ''bad_ping_interval''), P)
          else put_setting ''tcp_ping_interval'' (Itoa n) id P)"

definition set_auto_backup :: "updateSettingsReq \<Rightarrow> Panel \<Rightarrow> misc_data reply option \<times> Panel" where
  "set_auto_backup req P =
     (case us_AutoBackup req of
        None \<Rightarrow> (None, P)
      | Some b \<Rightarrow> (None, snd (run_app (run_db (SetSetting ''auto_backup'' (if b then ''1'' else ''0''))) P)))"

definition set_mirror :: "updateSettingsReq \<Rightarrow> Panel \<Rightarrow> misc_data reply option \<times> Panel" where
  "set_mirror req P =
     (case us_UpdateMirror req of
        None \<Rightarrow> (None, P)
      | Some raw \<Rightarrow>
          (let m = TrimSpace raw
           in if m \<noteq> [] \<and> \<not> HasPrefix m ''https://'' \<and> \<not> HasPrefix m ''http://'' then (Some (failCode CodeValidation ''bad_mirror''), P)
              else put_setting ''update_mirror'' m id P))"

fun run_fields :: "(Panel \<Rightarrow> misc_data reply option \<times> Panel) list \<Rightarrow> Panel \<Rightarrow> misc_data reply option \<times> Panel" where
  "run_fields [] P = (None, P)"
| "run_fields (f # fs) P = (case f P of (Some r, P) \<Rightarrow> (Some r, P) | (None, P) \<Rightarrow> run_fields fs P)"

definition handleUpdateSettings :: "panel_env \<Rightarrow> string \<Rightarrow> string + updateSettingsReq \<Rightarrow> Panel \<Rightarrow> misc_data reply \<times> Panel" where
  "handleUpdateSettings e user body P =
     (if \<not> DBUp (pn_app P) then (fail (Business ErrDBDown), P)
      else case decodeJSON body of
             Inl err \<Rightarrow> (fail err, P)
           | Inr req \<Rightarrow>
               (case run_fields [set_panel_name req, set_rate_limit e req, set_ping_interval req, set_auto_backup req, set_mirror req] P of
                  (Some r, P) \<Rightarrow> (r, P)
                | (None, P) \<Rightarrow> (ok_nil, on_app (app_AddLog (pe_unix e) ''panel_op'' user None ''settings_changed'') P)))"

section \<open>Updates of the panel\<close>

definition handleCheckUpdate :: "panel_env \<Rightarrow> net \<Rightarrow> Panel \<Rightarrow> misc_data reply \<times> Panel" where
  "handleCheckUpdate e get P =
     (let ((base, mirror), P) = run_app updateSource P
      in if base = [] then (ok (UpdateCheck (pe_version e) (pe_version e) False ''no_update_source''), P)
         else case Fetch get base mirror ''VERSION'' of
                None \<Rightarrow> (ok (UpdateCheck (pe_version e) [] False ''unreachable''), P)
              | Some b \<Rightarrow>
                  (let latest = take 64 (TrimSpace b)
                   in (ok (UpdateCheck (pe_version e) latest (latest \<noteq> [] \<and> latest \<noteq> pe_version e)
                         (''curl -fsSL '' @ base @ ''/install-panel.sh | bash -s -- --upgrade'')), P)))"

text \<open>\<open>exe\<close>: the path of the running binary, if it can be found. The last component of the result: a restart is scheduled.\<close>

definition handleSelfUpdate :: "panel_env \<Rightarrow> net \<Rightarrow> (string \<Rightarrow> string) \<Rightarrow> apply_io \<Rightarrow> string \<Rightarrow> string option \<Rightarrow> string \<Rightarrow> dir \<Rightarrow> Panel \<Rightarrow> misc_data reply \<times> dir \<times> Panel \<times> bool" where
  "handleSelfUpdate e get sha io arch exe user d P =
     (let ((base, mirror), P) = run_app updateSource P
      in if base = [] then (failCode CodeValidation ''no_update_source'', d, P, False)
         else case exe of
                None \<Rightarrow> (fail (Business (Err CodeInternal ''no_executable'')), d, P, False)
              | Some target \<Rightarrow>
                  (case update_Run get sha io base mirror (''frpanel-panel-'' @ arch) target d of
                     (Some err, d) \<Rightarrow>
                       (fail (Business (Err CodeInternal ''update_failed'')), d, on_app (app_AddLog (pe_unix e) ''panel_op'' user None ''update_failed'') P, False)
                   | (None, d) \<Rightarrow> (ok Restarting, d, on_app (app_AddLog (pe_unix e) ''panel_op'' user None ''update_installed'') P, True)))"

section \<open>Backups\<close>

definition backup_stamp :: "int \<Rightarrow> string" where
  "backup_stamp sec =
     (case unix_date sec of (y, m, d) \<Rightarrow>
        pad 4 (nat y) @ pad 2 (nat m) @ pad 2 (nat d) @ CHR ''-'' # pad 2 (nat (sec mod 86400 div 3600)) @ pad 2 (nat (sec mod 3600 div 60)) @ pad 2 (nat (sec mod 60)))"

definition backup_name :: "int \<Rightarrow> string" where
  "backup_name sec = ''frpanel-'' @ backup_stamp sec @ ''.sql''"

text \<open>What \<^verbatim>\<open>mysqldump\<close> does to the file: not created; created, and cut by an error; complete.\<close>

datatype dump_io = CreateFails | DumpFails string | DumpOk string

definition mysqldump :: "dump_io \<Rightarrow> string \<Rightarrow> dir \<Rightarrow> bool \<times> dir" where
  "mysqldump io outFile d =
     (case io of
        CreateFails \<Rightarrow> (False, d)
      | DumpFails part \<Rightarrow> (False, AList.update outFile part d)
      | DumpOk full \<Rightarrow> (True, AList.update outFile full d))"

definition is_backup :: "string \<Rightarrow> bool" where
  "is_backup name \<longleftrightarrow> HasPrefix name ''frpanel-'' \<and> HasSuffix name ''.sql''"

definition pruneBackups :: "nat \<Rightarrow> dir \<Rightarrow> dir" where
  "pruneBackups keep d =
     (let files = sort (filter is_backup (map fst d)); gone = take (length files - keep) files
      in filter (\<lambda>(name, _). name \<notin> set gone) d)"

text \<open>\<open>mkdir\<close>: whether the directory exists or can be made.\<close>

definition handleBackup :: "panel_env \<Rightarrow> bool \<Rightarrow> dump_io \<Rightarrow> string \<Rightarrow> dir \<Rightarrow> Panel \<Rightarrow> misc_data reply \<times> dir \<times> Panel" where
  "handleBackup e mkdir io user d P =
     (if \<not> DBUp (pn_app P) then (fail (Business ErrDBDown), d, P)
      else if \<not> mkdir then (fail (Business (Err CodeInternal ''no_backup_dir'')), d, P)
      else
        (let file = backup_name (pe_unix e)
         in case mysqldump io file d of
              (False, d) \<Rightarrow> (fail (Business (Err CodeInternal ''backup_failed'')), d, P)
            | (True, d) \<Rightarrow>
                (let d = pruneBackups 7 d; size = (case map_of d file of None \<Rightarrow> 0 | Some txt \<Rightarrow> int (length txt))
                 in (ok (BackupDone file size), d, on_app (app_AddLog (pe_unix e) ''panel_op'' user None (''backup '' @ file)) P))))"

section \<open>Probing\<close>

text \<open>The outcome of a dial and of the probe's request, with the elapsed milliseconds.\<close>

datatype link_io = NoDial | NoAnswer int | Answered int

definition probe :: "int option \<Rightarrow> int" where
  "probe dial = (case dial of None \<Rightarrow> -1 | Some ms \<Rightarrow> ms)"

definition probeLink :: "link_io \<Rightarrow> int" where
  "probeLink io = (case io of NoDial \<Rightarrow> -1 | NoAnswer connectMs \<Rightarrow> connectMs | Answered totalMs \<Rightarrow> totalMs)"

text \<open>One round of \<^verbatim>\<open>tcpPingLoop\<close>, its probes run to completion, and the wait before the next one in seconds.\<close>

definition ping_round :: "(NodeAddr \<Rightarrow> int option) \<Rightarrow> (ProbeTarget \<Rightarrow> link_io) \<Rightarrow> Panel \<Rightarrow> int \<times> Panel" where
  "ping_round dial link P =
     (let P = on_app (fold (\<lambda>na. setCtrlLat (na_ID na) (probe (dial na))) (Snapshots P)) P;
          P = (if DBUp (pn_app P)
               then (case run_app (run_db EnabledTargetsForProbe) P of
                       (Inl _, P) \<Rightarrow> P
                     | (Inr ts, P) \<Rightarrow> on_app (fold (\<lambda>t. setLinkLat (pt_NodeID t) (pt_RemotePort t) (probeLink (link t))) ts) P)
               else P)
      in run_app pingIntervalSec P)"

definition db_tick :: "int \<Rightarrow> bool \<Rightarrow> Panel \<Rightarrow> Panel" where
  "db_tick now ping P = on_app (setDBHealth now ping) P"

section \<open>Backups sort by time\<close>

lemma div_lex: "0 < n \<Longrightarrow> a < c \<Longrightarrow> a div n < c div n \<or> a div n = c div n \<and> a mod n < c mod n" for a c n :: int
proof (cases "a div n = c div n")
  case True
  moreover assume "a < c"
  ultimately have "n * (c div n) + a mod n < n * (c div n) + c mod n" using mult_div_mod_eq[of n a] mult_div_mod_eq[of n c] by metis
  then show ?thesis unfolding add_less_cancel_left using True by blast
next
  case False
  moreover assume "0 < n" "a < c"
  ultimately show ?thesis using zdiv_mono1[of a c n] by simp
qed

lemma pads_less:
  assumes "a < a' \<or> a = a' \<and> (b < b' \<or> b = b' \<and> c < c')" "0 \<le> a" "0 \<le> b" "0 \<le> c" "a' < 100" "b' < 100" "c' < (100 :: int)"
  shows "pad 2 (nat a) @ pad 2 (nat b) @ pad 2 (nat c) < pad 2 (nat a') @ pad 2 (nat b') @ pad 2 (nat c')"
proof -
  have p: "x < x' \<Longrightarrow> 0 \<le> x \<Longrightarrow> x' < 100 \<Longrightarrow> pad 2 (nat x) < pad 2 (nat x')" for x x' :: int by (rule pad_less) auto
  from assms(1) consider "a < a'" | "a = a'" "b < b'" | "a = a'" "b = b'" "c < c'" by blast
  then show ?thesis by cases (use assms(2-) p in \<open>simp_all add: append_less_same_length del: pad.simps\<close>)
qed

lemma stamp_time_less:
  fixes s t :: int
  assumes "0 \<le> s" "s < t" "t < 86400"
  shows "pad 2 (nat (s div 3600)) @ pad 2 (nat (s mod 3600 div 60)) @ pad 2 (nat (s mod 60)) <
         pad 2 (nat (t div 3600)) @ pad 2 (nat (t mod 3600 div 60)) @ pad 2 (nat (t mod 60))"
proof (rule pads_less)
  have m: "x mod 60 = x mod 3600 mod 60" for x :: int by (simp add: mod_mod_cancel)
  show "s div 3600 < t div 3600 \<or> s div 3600 = t div 3600 \<and> (s mod 3600 div 60 < t mod 3600 div 60 \<or> s mod 3600 div 60 = t mod 3600 div 60 \<and> s mod 60 < t mod 60)"
    using div_lex[of 3600 s t] div_lex[of 60 "s mod 3600" "t mod 3600"] assms(2) unfolding m[of s] m[of t] by auto
  have "t mod 3600 < 3600" "t mod 60 < 60" by simp_all
  then show "t div 3600 < 100" "t mod 3600 div 60 < 100" "t mod 60 < 100" using assms(3) by auto
qed (use assms(1) in \<open>simp_all add: pos_imp_zdiv_nonneg_iff\<close>)

definition stamp_fits :: "int \<Rightarrow> bool" where
  "stamp_fits sec \<longleftrightarrow> fits_four_digits (sec div 86400 + epoch_day)"

lemma stamp_date_less:
  assumes "z < z'" "absDate z = (y, m, d)" "absDate z' = (y', m', d')" "0 \<le> y" "y' \<le> 9999"
  shows "pad 4 (nat y) @ pad 2 (nat m) @ pad 2 (nat d) < pad 4 (nat y') @ pad 2 (nat m') @ pad 2 (nat d')"
proof -
  have "format_date (absDate z) < format_date (absDate z')" by (rule format_date_less[OF assms])
  then show ?thesis unfolding assms(2,3) format_date_def by (auto simp: append_less_same_length simp del: pad.simps)
qed

lemma backup_name_less:
  assumes "s < t" "stamp_fits s" "stamp_fits t"
  shows "backup_name s < backup_name t"
proof -
  obtain y m d where D: "absDate (s div 86400 + epoch_day) = (y, m, d)" by (metis prod_cases3)
  obtain y' m' d' where D': "absDate (t div 86400 + epoch_day) = (y', m', d')" by (metis prod_cases3)
  let ?ds = "pad 4 (nat y) @ pad 2 (nat m) @ pad 2 (nat d)" and ?ds' = "pad 4 (nat y') @ pad 2 (nat m') @ pad 2 (nat d')"
  let ?tm = "\<lambda>s. pad 2 (nat (s mod 86400 div 3600)) @ pad 2 (nat (s mod 3600 div 60)) @ pad 2 (nat (s mod 60))"
  have st: "backup_stamp s = ?ds @ CHR ''-'' # ?tm s" "backup_stamp t = ?ds' @ CHR ''-'' # ?tm t"
    by (simp_all add: backup_stamp_def unix_date_def D D' del: pad.simps)
  have "?ds < ?ds' \<or> ?ds = ?ds' \<and> ?tm s < ?tm t"
  proof (cases "s div 86400 = t div 86400")
    case True
    then have "s mod 86400 < t mod 86400" using assms(1) by (metis add_less_cancel_left mult_div_mod_eq)
    then have "?tm s < ?tm t" using stamp_time_less[of "s mod 86400" "t mod 86400"] by (simp add: mod_mod_cancel del: pad.simps)
    then show ?thesis using True D D' by simp
  next
    case False
    then have "s div 86400 + epoch_day < t div 86400 + epoch_day" using assms(1) zdiv_mono1[of s t 86400] by simp
    from stamp_date_less[OF this D D'] show ?thesis
      using absDate_four_digits(1)[OF assms(2)[unfolded stamp_fits_def] D] absDate_four_digits(2)[OF assms(3)[unfolded stamp_fits_def] D'] by blast
  qed
  then have "backup_stamp s < backup_stamp t" unfolding st by (auto simp: append_less_same_length simp del: pad.simps)
  moreover have "length (backup_stamp s) = length (backup_stamp t)" by (simp add: st del: pad.simps)
  ultimately show ?thesis by (auto simp: backup_name_def append_less_same_length)
qed

section \<open>What pruning keeps\<close>

lemma above_nth:
  fixes xs :: "string list"
  assumes "sorted xs" "distinct xs" "i < length xs"
  shows "card {m \<in> set xs. xs ! i < m} = length xs - Suc i"
proof -
  define ys zs where "ys = take i xs" and "zs = drop (Suc i) xs"
  have e: "xs = ys @ xs ! i # zs" unfolding ys_def zs_def by (rule id_take_nth_drop[OF assms(3)])
  define y where "y = xs ! i"
  have s: "sorted (ys @ y # zs)" "distinct (ys @ y # zs)" using assms(1,2) e unfolding y_def by metis+
  have "{m \<in> set (ys @ y # zs). y < m} = set zs" using s by (auto simp: sorted_append order_le_less)
  moreover have "card (set zs) = length xs - Suc i" using s(2) by (simp add: distinct_card zs_def)
  ultimately show ?thesis using e unfolding y_def by metis
qed

lemma nth_in_take: "distinct xs \<Longrightarrow> i < length xs \<Longrightarrow> xs ! i \<in> set (take j xs) \<longleftrightarrow> i < j"
  by (auto simp: in_set_conv_nth nth_eq_iff_index_eq)

definition backups :: "dir \<Rightarrow> string set" where
  "backups d = {n. is_backup n \<and> map_of d n \<noteq> None}"

lemma pruneBackups_exact:
  assumes "wf_gomap d"
  shows "map_of (pruneBackups k d) n = (if is_backup n \<and> k \<le> card {m \<in> backups d. n < m} then None else map_of d n)"
proof -
  define xs where "xs = sort (filter is_backup (map fst d))"
  have xs: "sorted xs" "distinct xs" "set xs = backups d"
    using assms by (auto simp: xs_def backups_def map_of_eq_None_iff image_iff)
  have gone: "n \<in> set (take (length xs - k) xs) \<longleftrightarrow> n \<in> backups d \<and> k \<le> card {m \<in> backups d. n < m}"
  proof (cases "n \<in> set xs")
    case True
    then obtain i where i: "i < length xs" "n = xs ! i" by (metis in_set_conv_nth)
    have "n \<in> set (take (length xs - k) xs) \<longleftrightarrow> i < length xs - k" using nth_in_take[OF xs(2) i(1)] i(2) by simp
    moreover have "card {m \<in> backups d. n < m} = length xs - Suc i" using above_nth[OF xs(1,2) i(1)] i(2) xs(3) by simp
    moreover have "n \<in> backups d" "(i < length xs - k) = (k \<le> length xs - Suc i)" using True xs(3) i(1) by auto
    ultimately show ?thesis by simp
  next
    case False
    then show ?thesis using xs(3) by (metis in_set_takeD)
  qed
  have "map_of (filter (\<lambda>(name, _). name \<notin> G) d) n = (if n \<in> G then None else map_of d n)" for G :: "string set"
    by (induction d) auto
  then have "map_of (pruneBackups k d) n = (if n \<in> backups d \<and> k \<le> card {m \<in> backups d. n < m} then None else map_of d n)"
    using gone unfolding pruneBackups_def Let_def xs_def[symmetric] by presburger
  then show ?thesis by (cases "n \<in> backups d") (simp_all add: backups_def)
qed


lemma fold_updates:
  assumes "wf_gomap d"
  shows "wf_gomap (fold (\<lambda>x. AList.update (f x) v) xs d)"
    and "map_of (fold (\<lambda>x. AList.update (f x) v) xs d) n = (if n \<in> f ` set xs then Some v else map_of d n)"
  using assms by (induction xs rule: rev_induct) (auto simp: gomap_simps distinct_update)

lemma backup_name_is_backup: "is_backup (backup_name sec)"
  using suffixI[of "backup_name sec" "''frpanel-'' @ backup_stamp sec" "''.sql''"] by (simp add: is_backup_def backup_name_def HasPrefix_def HasSuffix_def)

section \<open>Settings are read back\<close>

lemma TrimSpace_idem [simp]: "TrimSpace (TrimSpace s) = TrimSpace s"
proof (cases "dropWhile go_space (rev (dropWhile go_space s)) = []")
  case False
  define t where "t = dropWhile go_space (rev (dropWhile go_space s))"
  have d: "dropWhile go_space s \<noteq> []" using False by (metis dropWhile.simps(1) rev.simps(1))
  then have h: "\<not> go_space (hd (dropWhile go_space s))" by (simp add: hd_dropWhile)
  obtain pre where pre: "rev (dropWhile go_space s) = pre @ t" unfolding t_def by (metis takeWhile_dropWhile_id)
  have "t \<noteq> []" "\<not> go_space (hd t)" using False hd_dropWhile unfolding t_def by blast+
  moreover have "last t = hd (dropWhile go_space s)" using pre \<open>t \<noteq> []\<close> d by (metis last_appendR last_rev)
  ultimately have "dropWhile go_space (rev t) = rev t" "dropWhile go_space t = t"
    using h by (simp_all add: dropWhile_eq_self_iff hd_rev)
  then show ?thesis by (simp add: TrimSpace_def t_def[symmetric])
next
  case True
  then have "TrimSpace s = []" by (simp only: TrimSpace_def rev.simps)
  then show ?thesis by (simp add: TrimSpace_def[of "[]"])
qed

text \<open>The settings of the shared state, read over a working database.\<close>

definition settings_of :: "panel_env \<Rightarrow> bool \<Rightarrow> App \<Rightarrow> settings_view" where
  "settings_of e tls a =
     (let g = mget [] (db_settings (app_store a))
      in \<lparr>sv_panelName = app_panelName a,
          sv_connRateLimit = (if g ''conn_rate_limit'' = [] then defaultConnRateLimit
             else let (n, parsed) = Atoi (g ''conn_rate_limit'') in if \<not> parsed \<or> n < 0 then defaultConnRateLimit else n),
          sv_pingInterval = (let (n, parsed) = Atoi (g ''tcp_ping_interval'') in if parsed \<and> 5 \<le> n then n else defaultPingInterval),
          sv_autoBackup = (g ''auto_backup'' = ''1''), sv_version = pe_version e, sv_tls = tls,
          sv_updateBase = TrimRight CHR ''/'' (TrimSpace (if app_updateBaseURL a = [] then g ''update_base_url'' else app_updateBaseURL a)),
          sv_updateMirror = TrimSpace (g ''update_mirror'')\<rparr>)"

lemma setting_eq: "db_faults (app_store a) = [] \<Longrightarrow> run_db (GetSetting k) a = (Inr (mget [] (db_settings (app_store a)) k), a)"
  "db_faults (app_store a) = [] \<Longrightarrow> setting k a = (mget [] (db_settings (app_store a)) k, a)"
  by (simp_all add: setting_def run_db_def GetSetting_def db_read_def)

lemma handleGetSettings_eq:
  assumes "db_fine (pn_app P)"
  shows "handleGetSettings e tls P = (ok (Settings (settings_of e tls (pn_app P))), P)"
proof -
  define v where "v = settings_of e tls (pn_app P)"
  have f: "db_faults (app_store (pn_app P)) = []" "DBUp (pn_app P)" using assms by blast+
  have 1: "run_app (run_db (GetSetting k)) P = (Inr (mget [] (db_settings (app_store (pn_app P))) k), P)" for k
    by (simp add: run_app_def setting_eq[OF f(1)])
  have 2: "run_app updateSource P = ((sv_updateBase v, sv_updateMirror v), P)"
    using f by (simp add: run_app_def updateSource_def setting_eq v_def settings_of_def Let_def)
  have 3: "run_app connRateLimit P = (sv_connRateLimit v, P)" using f by (simp add: run_app_def connRateLimit_def setting_eq v_def settings_of_def Let_def)
  have 4: "run_app pingIntervalSec P = (sv_pingInterval v, P)" using f by (simp add: run_app_def pingIntervalSec_def setting_eq v_def settings_of_def Let_def split: prod.split)
  have 5: "\<lparr>sv_panelName = app_panelName (pn_app P), sv_connRateLimit = sv_connRateLimit v, sv_pingInterval = sv_pingInterval v,
      sv_autoBackup = (mget [] (db_settings (app_store (pn_app P))) ''auto_backup'' = ''1''), sv_version = pe_version e, sv_tls = tls,
      sv_updateBase = sv_updateBase v, sv_updateMirror = sv_updateMirror v\<rparr> = v"
    by (simp add: v_def settings_of_def Let_def)
  show ?thesis unfolding v_def[symmetric] using f(2) by (simp add: handleGetSettings_def 1 2 3 4 5 or_zero_def)
qed

definition with_setting :: "string \<Rightarrow> string \<Rightarrow> App \<Rightarrow> App" where
  "with_setting k v a = a\<lparr>app_store := (app_store a)\<lparr>db_settings := AList.update k v (db_settings (app_store a))\<rparr>\<rparr>"

lemma run_SetSetting: "db_fine (pn_app P) \<Longrightarrow> run_app (run_db (SetSetting k v)) P = (Inr (), on_app (with_setting k v) P)"
  by (simp add: run_app_def run_db_def SetSetting_def db_upd_def on_app_def with_setting_def)

lemma with_setting_fine [simp]: "DBUp (with_setting k v a) = DBUp a" "db_faults (app_store (with_setting k v a)) = db_faults (app_store a)"
  "app_panelName (with_setting k v a) = app_panelName a" "app_updateBaseURL (with_setting k v a) = app_updateBaseURL a"
  "mget z (db_settings (app_store (with_setting k v a))) k' = (if k' = k then v else mget z (db_settings (app_store a)) k')"
  by (simp_all add: with_setting_def mget_def gomap_simps)

lemma push_one_app:
  assumes "db_fine (pn_app P)" shows "pn_app (push_one e oid P) = pn_app P"
proof (cases "map_of (pn_objs P) oid")
  case (Some c)
  have f: "faultless_db P" using assms by blast
  have "pn_app (pushRateLimit e oid (node_ports (nc_nodeID c) (app_store (pn_app P))) P) = pn_app P"
    using pushRateLimit_frame[OF f refl] by blast
  then show ?thesis using Some run_desired[OF f] by (simp add: push_one_def)
qed (simp add: push_one_def)

lemma PushAll_app: "db_fine (pn_app P) \<Longrightarrow> pn_app (PushRateLimitAll e P) = pn_app P"
proof -
  have "db_fine (pn_app P) \<Longrightarrow> pn_app (fold (push_one e) oids P) = pn_app P" for oids
    by (induction oids arbitrary: P) (simp_all add: push_one_app)
  then show "db_fine (pn_app P) \<Longrightarrow> pn_app (PushRateLimitAll e P) = pn_app P" by (simp add: PushRateLimitAll_def)
qed

definition opt_set :: "('a \<Rightarrow> App \<Rightarrow> App) \<Rightarrow> 'a option \<Rightarrow> App \<Rightarrow> App" where
  "opt_set f x a = (case x of None \<Rightarrow> a | Some v \<Rightarrow> f v a)"

definition name_app :: "string \<Rightarrow> App \<Rightarrow> App" where
  "name_app raw a = (with_setting ''panel_name'' (TrimSpace raw) a)\<lparr>app_panelName := TrimSpace raw\<rparr>"

definition rate_valid :: "int \<Rightarrow> bool" where "rate_valid n \<longleftrightarrow> 0 \<le> n \<and> n \<le> 1000000"
definition ping_valid :: "int \<Rightarrow> bool" where "ping_valid n \<longleftrightarrow> 5 \<le> n \<and> n \<le> 3600"

lemma set_fields:
  assumes "db_fine (pn_app P)"
  shows "set_panel_name req P = (None, Q) \<Longrightarrow> pn_app Q = opt_set name_app (us_PanelName req) (pn_app P)"
    and "set_rate_limit e req P = (None, Q) \<Longrightarrow> pn_app Q = opt_set (\<lambda>n. with_setting ''conn_rate_limit'' (Itoa n)) (us_ConnRateLimit req) (pn_app P) \<and>
           pred_option rate_valid (us_ConnRateLimit req)"
    and "set_ping_interval req P = (None, Q) \<Longrightarrow> pn_app Q = opt_set (\<lambda>n. with_setting ''tcp_ping_interval'' (Itoa n)) (us_TCPPingInterval req) (pn_app P) \<and>
           pred_option ping_valid (us_TCPPingInterval req)"
    and "set_auto_backup req P = (r, Q) \<Longrightarrow> r = None \<and> pn_app Q = opt_set (\<lambda>b. with_setting ''auto_backup'' (if b then ''1'' else ''0'')) (us_AutoBackup req) (pn_app P)"
    and "set_mirror req P = (None, Q) \<Longrightarrow> pn_app Q = opt_set (\<lambda>m. with_setting ''update_mirror'' (TrimSpace m)) (us_UpdateMirror req) (pn_app P)"
  using assms run_SetSetting[OF assms] PushAll_app
  by (auto simp: set_panel_name_def set_rate_limit_def set_ping_interval_def set_auto_backup_def set_mirror_def put_setting_def opt_set_def name_app_def
      rate_valid_def ping_valid_def Let_def split: option.splits if_splits)

lemma opt_set_fine:
  "db_fine a \<Longrightarrow> db_fine (opt_set name_app x a)" "db_fine a \<Longrightarrow> db_fine (opt_set (\<lambda>v. with_setting k (f v)) y a)"
  by (simp_all add: opt_set_def name_app_def split: option.split)

lemma put_setting_error: "put_setting k v g P = (Some x, Q) \<Longrightarrow> rs_Code x \<noteq> CodeOK"
  by (auto simp: put_setting_def err_defs code_defs split: prod.splits sum.splits)

lemma set_errors:
  "set_panel_name req P = (Some x, Q) \<Longrightarrow> rs_Code x \<noteq> CodeOK" "set_rate_limit e req P = (Some x, Q) \<Longrightarrow> rs_Code x \<noteq> CodeOK"
  "set_ping_interval req P = (Some x, Q) \<Longrightarrow> rs_Code x \<noteq> CodeOK" "set_auto_backup req P \<noteq> (Some x, Q)" "set_mirror req P = (Some x, Q) \<Longrightarrow> rs_Code x \<noteq> CodeOK"
proof -
  have c: "CodeValidation \<noteq> CodeOK" by (simp add: code_defs)
  show "set_panel_name req P = (Some x, Q) \<Longrightarrow> rs_Code x \<noteq> CodeOK"
    unfolding set_panel_name_def Let_def using c put_setting_error by (fastforce split: option.splits if_splits)
  show "set_rate_limit e req P = (Some x, Q) \<Longrightarrow> rs_Code x \<noteq> CodeOK"
    unfolding set_rate_limit_def using c put_setting_error by (fastforce split: option.splits if_splits)
  show "set_ping_interval req P = (Some x, Q) \<Longrightarrow> rs_Code x \<noteq> CodeOK"
    unfolding set_ping_interval_def using c put_setting_error by (fastforce split: option.splits if_splits)
  show "set_auto_backup req P \<noteq> (Some x, Q)" by (simp add: set_auto_backup_def split: option.split)
  show "set_mirror req P = (Some x, Q) \<Longrightarrow> rs_Code x \<noteq> CodeOK"
    unfolding set_mirror_def Let_def using c put_setting_error by (fastforce split: option.splits if_splits)
qed

text \<open>A successful update composes the stored fields.\<close>

lemma handleUpdateSettings_ok:
  assumes "db_fine (pn_app P)" "handleUpdateSettings e user (Inr req) P = (reply, P')" "rs_Code reply = CodeOK"
  shows "pn_app P' = app_AddLog (pe_unix e) ''panel_op'' user None ''settings_changed''
      (opt_set (\<lambda>m. with_setting ''update_mirror'' (TrimSpace m)) (us_UpdateMirror req)
      (opt_set (\<lambda>b. with_setting ''auto_backup'' (if b then ''1'' else ''0'')) (us_AutoBackup req)
      (opt_set (\<lambda>n. with_setting ''tcp_ping_interval'' (Itoa n)) (us_TCPPingInterval req)
      (opt_set (\<lambda>n. with_setting ''conn_rate_limit'' (Itoa n)) (us_ConnRateLimit req) (opt_set name_app (us_PanelName req) (pn_app P)))))) \<and>
    pred_option rate_valid (us_ConnRateLimit req) \<and> pred_option ping_valid (us_TCPPingInterval req)"
proof -
  obtain r1 P1 where 1: "set_panel_name req P = (r1, P1)" by (cases "set_panel_name req P")
  obtain r2 P2 where 2: "set_rate_limit e req P1 = (r2, P2)" by (cases "set_rate_limit e req P1")
  obtain r3 P3 where 3: "set_ping_interval req P2 = (r3, P3)" by (cases "set_ping_interval req P2")
  obtain r4 P4 where 4: "set_auto_backup req P3 = (r4, P4)" by (cases "set_auto_backup req P3")
  obtain r5 P5 where 5: "set_mirror req P4 = (r5, P5)" by (cases "set_mirror req P4")
  have run: "handleUpdateSettings e user (Inr req) P =
      (case r1 of Some r \<Rightarrow> (r, P1) | None \<Rightarrow> case r2 of Some r \<Rightarrow> (r, P2) | None \<Rightarrow> case r3 of Some r \<Rightarrow> (r, P3) | None \<Rightarrow>
       case r4 of Some r \<Rightarrow> (r, P4) | None \<Rightarrow> case r5 of Some r \<Rightarrow> (r, P5)
         | None \<Rightarrow> (ok_nil, on_app (app_AddLog (pe_unix e) ''panel_op'' user None ''settings_changed'') P5))"
    using assms(1) by (simp add: handleUpdateSettings_def decodeJSON_def 1 2 3 4 5 split: option.split)
  have none: "r1 = None" "r2 = None" "r3 = None" "r4 = None" "r5 = None"
  proof -
    show "r1 = None" using run assms(2,3) set_errors(1)[of req P _ P1] 1 by (cases r1) auto
    then show "r2 = None" using run assms(2,3) set_errors(2)[of e req P1 _ P2] 2 by (cases r2) auto
    with \<open>r1 = None\<close> show "r3 = None" using run assms(2,3) set_errors(3)[of req P2 _ P3] 3 by (cases r3) auto
    show "r4 = None" using set_errors(4)[of req P3 _ P4] 4 by (cases r4) auto
    with \<open>r1 = None\<close> \<open>r2 = None\<close> \<open>r3 = None\<close> show "r5 = None" using run assms(2,3) set_errors(5)[of req P4 _ P5] 5 by (cases r5) auto
  qed
  then have h: "r1 = None \<and> r2 = None \<and> r3 = None \<and> r5 = None \<and> P' = on_app (app_AddLog (pe_unix e) ''panel_op'' user None ''settings_changed'') P5"
    using run assms(2) by simp
  have f1: "pn_app P1 = opt_set name_app (us_PanelName req) (pn_app P)" using set_fields(1)[OF assms(1)] 1 h by blast
  then have d1: "db_fine (pn_app P1)" using opt_set_fine(1) assms(1) by simp
  note f2 = set_fields(2)[OF d1, of e req P2]
  have d2: "db_fine (pn_app P2)" using f2 2 h opt_set_fine(2)[OF d1] by simp
  note f3 = set_fields(3)[OF d2, of req P3]
  have d3: "db_fine (pn_app P3)" using f3 3 h opt_set_fine(2)[OF d2] by simp
  note f4 = set_fields(4)[OF d3 4]
  have d4: "db_fine (pn_app P4)" using f4 opt_set_fine(2)[OF d3] by simp
  note f5 = set_fields(5)[OF d4, of req P5]
  show ?thesis using h f1 f2 f3 f4 f5 2 3 5 by simp
qed

lemma AddLog_settings: "db_fine a \<Longrightarrow> settings_of e tls (app_AddLog t ty src n d a) = settings_of e tls a \<and> db_fine (app_AddLog t ty src n d a)"
  by (simp add: app_AddLog_def run_db_def AddLog_def db_upd_def Let_def settings_of_def)

lemma Atoi_Itoa: "0 \<le> n \<Longrightarrow> n < 2 ^ 63 \<Longrightarrow> Atoi (Itoa n) = (n, True)"
  by (simp add: Atoi_def golib_simps)

lemma settings_of_set:
  "settings_of e tls (opt_set name_app x a) = (settings_of e tls a)\<lparr>sv_panelName := (case x of None \<Rightarrow> sv_panelName (settings_of e tls a) | Some raw \<Rightarrow> TrimSpace raw)\<rparr>"
  "pred_option rate_valid r \<Longrightarrow> settings_of e tls (opt_set (\<lambda>n. with_setting ''conn_rate_limit'' (Itoa n)) r a) =
     (settings_of e tls a)\<lparr>sv_connRateLimit := (case r of None \<Rightarrow> sv_connRateLimit (settings_of e tls a) | Some n \<Rightarrow> n)\<rparr>"
  "pred_option ping_valid p \<Longrightarrow> settings_of e tls (opt_set (\<lambda>n. with_setting ''tcp_ping_interval'' (Itoa n)) p a) =
     (settings_of e tls a)\<lparr>sv_pingInterval := (case p of None \<Rightarrow> sv_pingInterval (settings_of e tls a) | Some n \<Rightarrow> n)\<rparr>"
  "settings_of e tls (opt_set (\<lambda>b. with_setting ''auto_backup'' (if b then ''1'' else ''0'')) b a) =
     (settings_of e tls a)\<lparr>sv_autoBackup := (case b of None \<Rightarrow> sv_autoBackup (settings_of e tls a) | Some b \<Rightarrow> b)\<rparr>"
  "settings_of e tls (opt_set (\<lambda>m. with_setting ''update_mirror'' (TrimSpace m)) m a) =
     (settings_of e tls a)\<lparr>sv_updateMirror := (case m of None \<Rightarrow> sv_updateMirror (settings_of e tls a) | Some m \<Rightarrow> TrimSpace m)\<rparr>"
proof -
  have ne: "0 \<le> n \<Longrightarrow> n < 2 ^ 63 \<Longrightarrow> Itoa n \<noteq> []" for n using Atoi_Itoa[of n] by (auto simp: Atoi_def ParseInt_def)
  show "settings_of e tls (opt_set name_app x a) = (settings_of e tls a)\<lparr>sv_panelName := (case x of None \<Rightarrow> sv_panelName (settings_of e tls a) | Some raw \<Rightarrow> TrimSpace raw)\<rparr>"
    by (cases x) (simp_all add: opt_set_def name_app_def settings_of_def Let_def)
  show "settings_of e tls (opt_set (\<lambda>n. with_setting ''conn_rate_limit'' (Itoa n)) r a) =
     (settings_of e tls a)\<lparr>sv_connRateLimit := (case r of None \<Rightarrow> sv_connRateLimit (settings_of e tls a) | Some n \<Rightarrow> n)\<rparr>" if "pred_option rate_valid r"
    using that ne by (cases r) (simp_all add: opt_set_def settings_of_def Let_def rate_valid_def Atoi_Itoa)
  show "settings_of e tls (opt_set (\<lambda>n. with_setting ''tcp_ping_interval'' (Itoa n)) p a) =
     (settings_of e tls a)\<lparr>sv_pingInterval := (case p of None \<Rightarrow> sv_pingInterval (settings_of e tls a) | Some n \<Rightarrow> n)\<rparr>" if "pred_option ping_valid p"
    using that by (cases p) (simp_all add: opt_set_def settings_of_def Let_def ping_valid_def Atoi_Itoa)
  show "settings_of e tls (opt_set (\<lambda>b. with_setting ''auto_backup'' (if b then ''1'' else ''0'')) b a) =
     (settings_of e tls a)\<lparr>sv_autoBackup := (case b of None \<Rightarrow> sv_autoBackup (settings_of e tls a) | Some b \<Rightarrow> b)\<rparr>"
    by (cases b) (simp_all add: opt_set_def settings_of_def Let_def)
  show "settings_of e tls (opt_set (\<lambda>m. with_setting ''update_mirror'' (TrimSpace m)) m a) =
     (settings_of e tls a)\<lparr>sv_updateMirror := (case m of None \<Rightarrow> sv_updateMirror (settings_of e tls a) | Some m \<Rightarrow> TrimSpace m)\<rparr>"
    by (cases m) (simp_all add: opt_set_def settings_of_def Let_def)
qed

section \<open>Properties\<close>

text \<open>
  Settings are read back. After an update that succeeds over a working database, the settings page
  shows for every field that was sent the value sent, the name and the mirror trimmed, and for every
  other field what it showed before.
\<close>
theorem settings_roundtrip:
  assumes "db_fine (pn_app P)" "handleUpdateSettings e user (Inr req) P = (reply, P')" "rs_Code reply = CodeOK"
    "fst (handleGetSettings e tls P) = ok (Settings v)"
  shows "fst (handleGetSettings e tls P') = ok (Settings
    (v\<lparr>sv_panelName := (case us_PanelName req of None \<Rightarrow> sv_panelName v | Some raw \<Rightarrow> TrimSpace raw),
       sv_connRateLimit := (case us_ConnRateLimit req of None \<Rightarrow> sv_connRateLimit v | Some n \<Rightarrow> n),
       sv_pingInterval := (case us_TCPPingInterval req of None \<Rightarrow> sv_pingInterval v | Some n \<Rightarrow> n),
       sv_autoBackup := (case us_AutoBackup req of None \<Rightarrow> sv_autoBackup v | Some b \<Rightarrow> b),
       sv_updateMirror := (case us_UpdateMirror req of None \<Rightarrow> sv_updateMirror v | Some m \<Rightarrow> TrimSpace m)\<rparr>))"
proof -
  note h = handleUpdateSettings_ok[OF assms(1-3)]
  have v: "v = settings_of e tls (pn_app P)" using assms(4) handleGetSettings_eq[OF assms(1)] by (simp add: ok_def)
  define A where "A = opt_set (\<lambda>m. with_setting ''update_mirror'' (TrimSpace m)) (us_UpdateMirror req)
      (opt_set (\<lambda>b. with_setting ''auto_backup'' (if b then ''1'' else ''0'')) (us_AutoBackup req)
      (opt_set (\<lambda>n. with_setting ''tcp_ping_interval'' (Itoa n)) (us_TCPPingInterval req)
      (opt_set (\<lambda>n. with_setting ''conn_rate_limit'' (Itoa n)) (us_ConnRateLimit req) (opt_set name_app (us_PanelName req) (pn_app P)))))"
  have "db_fine A" unfolding A_def by (rule opt_set_fine(2))+ (rule opt_set_fine(1)[OF assms(1)])
  note a = AddLog_settings[OF this, of e tls "pe_unix e" "''panel_op''" user None "''settings_changed''"]
  have P': "pn_app P' = app_AddLog (pe_unix e) ''panel_op'' user None ''settings_changed'' A" using h unfolding A_def by blast
  then have "db_fine (pn_app P')" using a by simp
  from handleGetSettings_eq[OF this] have "fst (handleGetSettings e tls P') = ok (Settings (settings_of e tls A))" using a P' by simp
  moreover have "pred_option rate_valid (us_ConnRateLimit req)" "pred_option ping_valid (us_TCPPingInterval req)" using h by blast+
  ultimately show ?thesis unfolding v A_def by (simp add: settings_of_set cong: option.case_cong)
qed

text \<open>
  Failed dumps push out good backups. A dump that fails leaves its file behind, under the name of a
  backup. Six failed backups followed by one that succeeds therefore delete every older backup, although
  only one complete backup is left; pruning counts files, not complete dumps.
\<close>
theorem failed_dumps_evict:
  assumes "DBUp (pn_app P)" "wf_gomap d" "length es = 6" "sorted_wrt (\<lambda>a b. pe_unix a < pe_unix b) (es @ [e])" "\<forall>x\<in>set (es @ [e]). stamp_fits (pe_unix x)"
    "\<forall>n\<in>backups d. \<forall>x\<in>set (es @ [e]). n < backup_name (pe_unix x)"
    "d6 = fold (\<lambda>x d. fst (snd (handleBackup x True (DumpFails part) user d P))) es d" "handleBackup e True (DumpOk full) user d6 P = (reply, d', P')"
  shows "rs_Code reply = CodeOK \<and> backups d' = (\<lambda>x. backup_name (pe_unix x)) ` set (es @ [e]) \<and>
    map_of d' (backup_name (pe_unix e)) = Some full \<and> (\<forall>x\<in>set es. map_of d' (backup_name (pe_unix x)) = Some part)"
proof -
  let ?n = "\<lambda>x. backup_name (pe_unix x)" and ?new = "(\<lambda>x. backup_name (pe_unix x)) ` set (es @ [e])"
  define dd where "dd = AList.update (?n e) full d6"
  have "d6 = fold (\<lambda>x. AList.update (?n x) part) es d" using assms(1,7) by (simp add: handleBackup_def mysqldump_def)
  then have w: "wf_gomap dd" and m: "map_of dd n = (if n = ?n e then Some full else if n \<in> ?n ` set es then Some part else map_of d n)" for n
    using fold_updates[OF assms(2), of ?n part es] by (simp_all add: dd_def gomap_simps distinct_update)
  have d': "d' = pruneBackups 7 dd" "rs_Code reply = CodeOK" using assms(1,8) by (auto simp: handleBackup_def mysqldump_def Let_def dd_def)
  have srt: "sorted_wrt (<) (map ?n (es @ [e]))"
    unfolding sorted_wrt_map by (rule sorted_wrt_mono_rel[OF _ assms(4)]) (use assms(5) backup_name_less in blast)
  then have dist: "distinct (map ?n (es @ [e]))" by (simp only: strict_sorted_iff)
  have card: "card ?new = 7" using distinct_card[OF dist] assms(3) by simp
  have bd: "backups dd = backups d \<union> ?new" using m backup_name_is_backup by (auto simp: backups_def)
  have fin: "finite (backups dd)" by (rule finite_subset[of _ "set (map fst dd)"]) (auto simp: backups_def map_of_eq_None_iff)
  have old: "map_of d' n = None" if "n \<in> backups d" for n
  proof -
    have above: "?new \<subseteq> {k \<in> backups dd. n < k}" using bd assms(6) that by auto
    have "7 \<le> card {k \<in> backups dd. n < k}" using card_mono[OF _ above] fin card by simp
    then show ?thesis using pruneBackups_exact[OF w, of 7 n] that d'(1) by (simp add: backups_def)
  qed
  have new: "map_of d' (?n x) = map_of dd (?n x)" if x: "x \<in> set (es @ [e])" for x
  proof -
    have "{k \<in> backups dd. ?n x < k} \<subseteq> ?new - {?n x}" using bd assms(6) x by (auto dest: less_asym)
    then have "card {k \<in> backups dd. ?n x < k} \<le> card (?new - {?n x})" by (intro card_mono) auto
    also have "\<dots> < 7" using card_Diff1_less[of ?new "?n x"] x unfolding card by blast
    finally show ?thesis using pruneBackups_exact[OF w, of 7 "?n x"] d'(1) by simp
  qed
  have "backups d' = ?new"
  proof (rule set_eqI)
    fix k
    have "k \<in> backups d' \<Longrightarrow> k \<in> backups dd" using pruneBackups_exact[OF w, of 7 k] d'(1) by (auto simp: backups_def split: if_splits)
    moreover have "k \<in> ?new \<Longrightarrow> k \<in> backups d'" using new m backup_name_is_backup by (auto simp: backups_def)
    moreover have "k \<in> backups d \<Longrightarrow> k \<notin> backups d'" using old by (simp add: backups_def)
    ultimately show "k \<in> backups d' \<longleftrightarrow> k \<in> ?new" using bd by blast
  qed
  moreover have "x \<in> set es \<Longrightarrow> ?n x \<noteq> ?n e" for x using dist by (auto simp: image_iff)
  ultimately show ?thesis using d'(2) new m by auto
qed

section \<open>Concrete requests\<close>

definition ex_settings :: updateSettingsReq where
  "ex_settings = \<lparr>us_PanelName = None, us_ConnRateLimit = None, us_TCPPingInterval = Some 30, us_AutoBackup = None, us_UpdateMirror = None\<rparr>"

theorem settings_roundtrip_witness:
  "\<exists>v. fst (handleGetSettings ex_panel_env False (snd (handleUpdateSettings ex_panel_env ''admin'' (Inr ex_settings) ex_started))) = ok (Settings v) \<and> sv_pingInterval v = 30"
proof -
  have fine: "db_fine (pn_app ex_started)" by (rule ex_started_state)
  have "rs_Code (fst (handleUpdateSettings ex_panel_env ''admin'' (Inr ex_settings) ex_started)) = CodeOK"
    using fine run_SetSetting[OF fine]
    by (simp add: handleUpdateSettings_def decodeJSON_def ex_settings_def set_panel_name_def set_rate_limit_def set_ping_interval_def set_auto_backup_def set_mirror_def put_setting_def)
  moreover obtain r P' where "handleUpdateSettings ex_panel_env ''admin'' (Inr ex_settings) ex_started = (r, P')"
    by (cases "handleUpdateSettings ex_panel_env ''admin'' (Inr ex_settings) ex_started")
  moreover have "fst (handleGetSettings ex_panel_env False ex_started) = ok (Settings (settings_of ex_panel_env False (pn_app ex_started)))"
    by (simp add: handleGetSettings_eq[OF fine])
  ultimately show ?thesis
    using settings_roundtrip[OF fine, of ex_panel_env "''admin''" ex_settings r P' False] by (simp add: ex_settings_def ok_def)
qed

definition at_second :: "int \<Rightarrow> panel_env" where
  "at_second t = ex_panel_env\<lparr>pe_unix := t\<rparr>"

theorem failed_dumps_evict_witness:
  "backups (fst (snd (handleBackup (at_second 6) True (DumpOk ''all'') ''admin''
     (fold (\<lambda>x d. fst (snd (handleBackup x True (DumpFails []) ''admin'' d ex_started))) (map at_second [0..5]) [(''frpanel-0.sql'', ''good'')]) ex_started))) =
   (\<lambda>x. backup_name (pe_unix x)) ` set (map at_second [0..5] @ [at_second 6])"
proof -
  have t: "map at_second [0..5] = [at_second 0, at_second 1, at_second 2, at_second 3, at_second 4, at_second 5]" by (simp add: upto.simps)
  have n: "''frpanel-0.sql'' < backup_name k" if "k \<in> {0, 1, 2, 3, 4, 5, 6}" for k
  proof -
    have "absDate 719162 = (1970, 1, 1)" by code_simp
    moreover have "digit_char 1 = CHR ''1''" by code_simp
    then have "pad 4 1970 = CHR ''1'' # pad 3 970" using pad.simps(2)[of 3 1970] by (simp del: pad.simps)
    moreover have "k div 86400 = 0" using that by auto
    ultimately show ?thesis by (simp add: backup_name_def backup_stamp_def unix_date_def epoch_day_def less_char_def del: pad.simps)
  qed
  let ?d = "[(''frpanel-0.sql'', ''good'')]" and ?es = "map at_second [0..5]"
  have 1: "DBUp (pn_app ex_started)" using ex_started_state(1) by blast
  have 2: "wf_gomap ?d" "length ?es = 6" by (simp_all add: t)
  have 3: "sorted_wrt (\<lambda>a b. pe_unix a < pe_unix b) (?es @ [at_second 6])" by (simp add: t at_second_def)
  have 4: "\<forall>x\<in>set (?es @ [at_second 6]). stamp_fits (pe_unix x)" by (simp add: t at_second_def stamp_fits_def fits_four_digits_def epoch_day_def)
  have 5: "\<forall>n\<in>backups ?d. \<forall>x\<in>set (?es @ [at_second 6]). n < backup_name (pe_unix x)"
    by (auto simp: t at_second_def backups_def split: if_splits intro!: n)
  obtain r d' P' where h: "handleBackup (at_second 6) True (DumpOk ''all'') ''admin''
     (fold (\<lambda>x d. fst (snd (handleBackup x True (DumpFails []) ''admin'' d ex_started))) ?es ?d) ex_started = (r, d', P')" by (metis prod_cases3)
  show ?thesis using failed_dumps_evict[OF 1 2 3 4 5 refl h] by (simp add: h)
qed

end
