(* ===== verification/Setup.thy ===== *)
theory Setup
  imports Session
begin

text \<open>
  \<^verbatim>\<open>internal/panel/config.go\<close>, \<^verbatim>\<open>db.go\<close> and the routing of \<^verbatim>\<open>server.go\<close>: defaults of the configuration, the
  migrations of the database schema, the table of routes with the guards in front of them, the security
  headers and the delivery of the embedded pages. The YAML decoder is outside the repository, so the
  decoded value is an argument; which statements of a migration fail is a script. The lemmas show that
  migrations run in order, once, and that a panel that stopped in the middle continues where it was.
\<close>

section \<open>Configuration\<close>

record MySQLConfig =
  my_Host :: string
  my_Port :: int
  my_User :: string
  my_Password :: string
  my_Database :: string

record TLSConfig =
  tls_Enabled :: bool
  tls_CertFile :: string
  tls_KeyFile :: string

record panel_Config =
  pg_Listen :: string
  pg_MySQL :: MySQLConfig
  pg_JWTSecret :: string
  pg_TLS :: TLSConfig
  pg_DataDir :: string
  pg_FrpcBin :: string
  pg_PanelName :: string
  pg_UpdateBaseURL :: string
  pg_Debug :: bool

definition DSN :: "MySQLConfig \<Rightarrow> string" where
  "DSN m = my_User m @ '':'' @ my_Password m @ ''@tcp('' @ my_Host m @ '':'' @ Itoa (my_Port m) @ '')/'' @ my_Database m @
     ''?parseTime=true&loc=UTC&charset=utf8mb4,utf8&timeout=8s&readTimeout=30s&writeTimeout=30s&multiStatements=true''"

definition DSNNoDB :: "MySQLConfig \<Rightarrow> string" where
  "DSNNoDB m = my_User m @ '':'' @ my_Password m @ ''@tcp('' @ my_Host m @ '':'' @ Itoa (my_Port m) @ '')/?parseTime=true&loc=UTC&charset=utf8mb4,utf8&timeout=8s''"

datatype config_error = ConfigUnreadable | ConfigSyntax | NoJWTSecret

text \<open>\<open>file\<close>: the text of the file, if it can be read; \<open>yaml\<close>: the decoder.\<close>

definition panel_LoadConfig :: "(string \<Rightarrow> panel_Config option) \<Rightarrow> string option \<Rightarrow> config_error + panel_Config" where
  "panel_LoadConfig yaml file =
     (case file of
        None \<Rightarrow> Inl ConfigUnreadable
      | Some txt \<Rightarrow>
          (case yaml txt of
             None \<Rightarrow> Inl ConfigSyntax
           | Some c \<Rightarrow>
               (let c = (if pg_Listen c = [] then c\<lparr>pg_Listen := ''0.0.0.0:8080''\<rparr> else c);
                    c = (if pg_DataDir c = [] then c\<lparr>pg_DataDir := ''/opt/frp-panel''\<rparr> else c);
                    c = (if pg_FrpcBin c = [] then c\<lparr>pg_FrpcBin := pg_DataDir c @ ''/frpc''\<rparr> else c);
                    c = (if pg_PanelName c = [] then c\<lparr>pg_PanelName := ''FRPanel''\<rparr> else c)
                in if pg_JWTSecret c = [] then Inl NoJWTSecret
                   else Inr (if my_Port (pg_MySQL c) = 0 then c\<lparr>pg_MySQL := (pg_MySQL c)\<lparr>my_Port := 3306\<rparr>\<rparr> else c))))"

section \<open>Migrations\<close>

text \<open>
  The database as migrations see it: the recorded versions and the files executed so far, in order.
  A script says which statements fail, one entry for each; an empty script means that all succeed.
\<close>

record schema =
  sc_recorded :: "string list"
  sc_executed :: "string list"
  sc_faults :: "bool list"

definition sc_stmt :: "schema \<Rightarrow> bool \<times> schema" where
  "sc_stmt s = (case sc_faults s of [] \<Rightarrow> (True, s) | b # bs \<Rightarrow> (\<not> b, s\<lparr>sc_faults := bs\<rparr>))"

fun migrate_files :: "string list \<Rightarrow> schema \<Rightarrow> bool \<times> schema" where
  "migrate_files [] s = (True, s)"
| "migrate_files (name # names) s =
     (case sc_stmt s of
        (False, s) \<Rightarrow> (False, s)
      | (True, s) \<Rightarrow>
          if name \<in> set (sc_recorded s) then migrate_files names s
          else (case sc_stmt s of
                  (False, s) \<Rightarrow> (False, s)
                | (True, s) \<Rightarrow>
                    (let s = s\<lparr>sc_executed := sc_executed s @ [name]\<rparr>
                     in case sc_stmt s of
                          (False, s) \<Rightarrow> (False, s)
                        | (True, s) \<Rightarrow> migrate_files names (s\<lparr>sc_recorded := sc_recorded s @ [name]\<rparr>))))"

text \<open>\<open>entries\<close>: the names of the embedded files.\<close>

definition Migrate :: "string list \<Rightarrow> schema \<Rightarrow> bool \<times> schema" where
  "Migrate entries s = (case sc_stmt s of (False, s) \<Rightarrow> (False, s) | (True, s) \<Rightarrow> migrate_files (sort entries) s)"

section \<open>Routes\<close>

record route =
  rt_Method :: string
  rt_Pattern :: string
  rt_Guarded :: bool

definition api_route :: "string \<Rightarrow> string \<Rightarrow> route" where
  "api_route m p = \<lparr>rt_Method = m, rt_Pattern = ''/api'' @ p, rt_Guarded = True\<rparr>"

definition router :: "route list" where
  "router =
     [\<lparr>rt_Method = ''GET'', rt_Pattern = ''/healthz'', rt_Guarded = False\<rparr>, \<lparr>rt_Method = ''POST'', rt_Pattern = ''/api/login'', rt_Guarded = False\<rparr>,
      api_route ''POST'' ''/logout'', api_route ''GET'' ''/me'', api_route ''GET'' ''/overview'',
      api_route ''GET'' ''/nodes'', api_route ''POST'' ''/nodes'', api_route ''GET'' ''/nodes/{id}'', api_route ''PUT'' ''/nodes/{id}'',
      api_route ''DELETE'' ''/nodes/{id}'', api_route ''POST'' ''/nodes/{id}/rotate-token'', api_route ''POST'' ''/nodes/{id}/update-agent'',
      api_route ''GET'' ''/nodes/{id}/history'',
      api_route ''GET'' ''/mappings'', api_route ''POST'' ''/mappings'', api_route ''PUT'' ''/mappings/{id}'', api_route ''DELETE'' ''/mappings/{id}'',
      api_route ''POST'' ''/mappings/{id}/toggle'', api_route ''POST'' ''/mappings/port-check'', api_route ''POST'' ''/mappings/local-check'',
      api_route ''GET'' ''/logs'', api_route ''POST'' ''/logs/clean'',
      api_route ''GET'' ''/settings'', api_route ''PUT'' ''/settings'', api_route ''POST'' ''/settings/password'', api_route ''GET'' ''/settings/check-update'',
      api_route ''POST'' ''/settings/self-update'', api_route ''POST'' ''/settings/backup'',
      api_route ''GET'' ''/internal/metrics'', api_route ''GET'' ''/ws'']"

definition debugRouter :: "route list" where
  "debugRouter = map (\<lambda>p. \<lparr>rt_Method = ''*'', rt_Pattern = ''/debug/pprof/'' @ p, rt_Guarded = False\<rparr>) [''*'', ''cmdline'', ''profile'', ''symbol'', ''trace'']"

definition all_routes :: "panel_Config \<Rightarrow> route list" where
  "all_routes cfg = router @ (if pg_Debug cfg then debugRouter else []) @ [\<lparr>rt_Method = ''GET'', rt_Pattern = ''/*'', rt_Guarded = False\<rparr>]"

text \<open>The answer to a request whose handler panics: the JSON error for API paths, plain text otherwise.\<close>

datatype 'd answer = JSONReply "'d reply" | PlainError int string

definition recoverer :: "string \<Rightarrow> 'd answer option \<Rightarrow> 'd answer" where
  "recoverer path result =
     (case result of
        Some a \<Rightarrow> a
      | None \<Rightarrow> if HasPrefix path ''/api/'' then JSONReply (failCode CodeInternal ''internal_error'') else PlainError 500 ''internal error'')"

definition securityHeaders :: "(string, string) gomap \<Rightarrow> (string, string) gomap" where
  "securityHeaders h =
     AList.update ''Content-Security-Policy''
       (''default-src 'self'; script-src 'self'; style-src 'self' 'unsafe-inline'; '' @
        ''img-src 'self' data:; font-src 'self' data:; connect-src 'self' ws: wss:; '' @ ''object-src 'none'; base-uri 'self'; frame-ancestors 'none'' @ [CHR 0x27])
       (AList.update ''Referrer-Policy'' ''no-referrer'' (AList.update ''X-Content-Type-Options'' ''nosniff'' (AList.update ''X-Frame-Options'' ''DENY'' h)))"

section \<open>Pages\<close>

text \<open>The embedded files; what is served, and the caching header if one is set.\<close>

datatype page = IndexPage string | NotBuilt | AssetFile string string

definition serveIndex :: "string \<Rightarrow> page \<times> string option" where
  "serveIndex index = (if index = [] then NotBuilt else IndexPage index, Some ''no-cache'')"

definition mountSPA :: "(string, string) gomap \<Rightarrow> string \<Rightarrow> page \<times> string option" where
  "mountSPA files path =
     (let p = TrimPrefix path ''/''; index = mget [] files ''index.html''
      in if p = [] then serveIndex index
         else case map_of files p of
                Some txt \<Rightarrow> (AssetFile p txt, if HasPrefix p ''assets/'' then Some ''public, max-age=31536000, immutable'' else None)
              | None \<Rightarrow> serveIndex index)"

section \<open>Health\<close>

record internal_metrics =
  im_wsClients :: nat
  im_droppedBatches :: int
  im_dbHealthy :: bool
  im_version :: string

definition handleInternalMetrics :: "string \<Rightarrow> App \<Rightarrow> internal_metrics" where
  "handleInternalMetrics ver a = \<lparr>im_wsClients = hub_Clients (app_hub a), im_droppedBatches = app_droppedBatches a, im_dbHealthy = DBUp a, im_version = ver\<rparr>"

section \<open>Runs of migrations\<close>

definition empty_schema :: schema where
  "empty_schema = \<lparr>sc_recorded = [], sc_executed = [], sc_faults = []\<rparr>"

text \<open>Any number of starts of the panel, each with its own failing statements.\<close>

inductive mig_reach :: "string list \<Rightarrow> schema \<Rightarrow> bool" for entries where
  mig_init: "mig_reach entries empty_schema"
| mig_run: "mig_reach entries s \<Longrightarrow> mig_reach entries (snd (Migrate entries (s\<lparr>sc_faults := fs\<rparr>)))"

definition mig_ok :: "string list \<Rightarrow> nat \<Rightarrow> schema \<Rightarrow> bool" where
  "mig_ok xs n s \<longleftrightarrow> (\<exists>k\<le>length xs. n \<le> k \<and> sc_recorded s = take k xs \<and> set (sc_executed s) \<subseteq> set (take (Suc k) xs) \<and> sorted (sc_executed s) \<and>
     set (take k xs) \<subseteq> set (sc_executed s))"

lemma mig_ok_faults [simp]: "mig_ok xs n (s\<lparr>sc_faults := fs\<rparr>) = mig_ok xs n s"
  by (simp add: mig_ok_def)

lemma sc_stmt_faults: "sc_stmt s = (b, s') \<Longrightarrow> \<exists>fs. s' = s\<lparr>sc_faults := fs\<rparr>"
  by (cases s) (auto simp: sc_stmt_def split: list.splits)

lemma sc_stmt_keeps: "sc_stmt s = (b, s') \<Longrightarrow> mig_ok xs n s' = mig_ok xs n s" "sc_stmt s = (b, s') \<Longrightarrow> sc_recorded s' = sc_recorded s"
  by (auto dest: sc_stmt_faults)

lemma mig_ok_skip:
  assumes "mig_ok xs n s" "distinct xs" "n < length xs" "xs ! n \<in> set (sc_recorded s)"
  shows "mig_ok xs (Suc n) s"
proof -
  obtain k where k: "k \<le> length xs" "n \<le> k" "sc_recorded s = take k xs" "set (sc_executed s) \<subseteq> set (take (Suc k) xs)" "sorted (sc_executed s)"
    "set (take k xs) \<subseteq> set (sc_executed s)" using assms(1) by (auto simp: mig_ok_def)
  have "n \<noteq> k" using assms(2-4) k(3) by (auto simp: in_set_conv_nth nth_eq_iff_index_eq)
  then have "Suc n \<le> k" using k(2) by simp
  then show ?thesis unfolding mig_ok_def using k by blast
qed

lemma mig_ok_record:
  assumes "mig_ok xs n s" "sorted xs" "distinct xs" "n < length xs" "xs ! n \<notin> set (sc_recorded s)"
  shows "mig_ok xs n (s\<lparr>sc_executed := sc_executed s @ [xs ! n]\<rparr>)"
    and "mig_ok xs (Suc n) (s\<lparr>sc_executed := sc_executed s @ [xs ! n], sc_recorded := sc_recorded s @ [xs ! n]\<rparr>)"
proof -
  obtain k where k: "k \<le> length xs" "n \<le> k" "sc_recorded s = take k xs" "set (sc_executed s) \<subseteq> set (take (Suc k) xs)" "sorted (sc_executed s)"
    "set (take k xs) \<subseteq> set (sc_executed s)" using assms(1) by (auto simp: mig_ok_def)
  have "xs ! n \<in> set (take k xs)" if "n < k" using that assms(4) by (metis in_set_conv_nth length_take min_less_iff_conj nth_take)
  then have "\<not> n < k" using assms(5) k(3) by auto
  then have n: "k = n" using k(2) by simp
  have t: "take (Suc n) xs = take n xs @ [xs ! n]" using assms(4) by (rule take_Suc_conv_app_nth)
  have le: "x \<le> xs ! n" if x: "x \<in> set (take (Suc n) xs)" for x
  proof -
    obtain j where j: "j < length (take (Suc n) xs)" "x = take (Suc n) xs ! j" using x unfolding in_set_conv_nth by blast
    then have "j < Suc n" "x = xs ! j" "j < length xs" by simp_all
    then show ?thesis using assms(2,4) by (simp add: sorted_nth_mono)
  qed
  have "\<forall>x\<in>set (sc_executed s). x \<le> xs ! n" using le k(4) unfolding n by blast
  then have srt: "sorted (sc_executed s @ [xs ! n])" using k(5) by (simp add: sorted_append)
  have ex: "set (sc_executed s @ [xs ! n]) \<subseteq> set (take (Suc n) xs)" "set (take (Suc n) xs) \<subseteq> set (sc_executed s @ [xs ! n])"
    using k(4,6) unfolding n t by auto
  have "set (take n xs) \<subseteq> set (sc_executed s @ [xs ! n])" using k(6) unfolding n by auto
  then show "mig_ok xs n (s\<lparr>sc_executed := sc_executed s @ [xs ! n]\<rparr>)"
    unfolding mig_ok_def using k(1,3) ex(1) srt unfolding n by (intro exI[of _ n]) simp
  have "set (sc_executed s @ [xs ! n]) \<subseteq> set (take (Suc (Suc n)) xs)" using ex(1) set_take_subset_set_take[of "Suc n" "Suc (Suc n)" xs] by auto
  then show "mig_ok xs (Suc n) (s\<lparr>sc_executed := sc_executed s @ [xs ! n], sc_recorded := sc_recorded s @ [xs ! n]\<rparr>)"
    unfolding mig_ok_def using k(3) ex(2) srt t assms(4) unfolding n by (intro exI[of _ "Suc n"]) simp
qed

lemma migrate_files_keeps:
  assumes "sorted xs" "distinct xs" "mig_ok xs n s" "zs = drop n xs"
  shows "mig_ok xs 0 (snd (migrate_files zs s))"
  using assms(3,4)
proof (induction zs arbitrary: n s)
  case Nil
  then show ?case by (auto simp: mig_ok_def)
next
  case (Cons z zs)
  have n: "n < length xs" using Cons.prems(2) by (metis drop_all list.discI not_le_imp_less)
  then have z: "z = xs ! n" "zs = drop (Suc n) xs" using Cons.prems(2) by (simp_all add: Cons_nth_drop_Suc[symmetric])
  have weak: "mig_ok xs m t \<Longrightarrow> mig_ok xs 0 t" for m t by (auto simp: mig_ok_def)
  obtain b1 s1 where 1: "sc_stmt s = (b1, s1)" by (cases "sc_stmt s")
  have k1: "mig_ok xs n s1" using Cons.prems(1) sc_stmt_keeps(1)[OF 1] by blast
  obtain b2 s2 where 2: "sc_stmt s1 = (b2, s2)" by (cases "sc_stmt s1")
  have k2: "mig_ok xs n s2" "sc_recorded s2 = sc_recorded s1" using k1 sc_stmt_keeps[OF 2] by blast+
  define s3 where "s3 = s2\<lparr>sc_executed := sc_executed s2 @ [z]\<rparr>"
  obtain b4 s4 where 4: "sc_stmt s3 = (b4, s4)" by (cases "sc_stmt s3")
  show ?case
  proof (cases "z \<in> set (sc_recorded s1)")
    case True
    have "mig_ok xs (Suc n) s1" using mig_ok_skip[OF k1 assms(2) n] True z by simp
    from Cons.IH[OF this z(2)] show ?thesis using True 1 weak[OF k1] by (cases b1) simp_all
  next
    case False
    note r = mig_ok_record[OF k2(1) assms(1,2) n]
    have k3: "mig_ok xs n s3" using r(1) False z k2(2) by (simp add: s3_def)
    obtain fs where e4: "s4 = s3\<lparr>sc_faults := fs\<rparr>" using sc_stmt_faults[OF 4] by blast
    have e5: "s4\<lparr>sc_recorded := sc_recorded s4 @ [z]\<rparr> = (s2\<lparr>sc_executed := sc_executed s2 @ [z], sc_recorded := sc_recorded s2 @ [z]\<rparr>)\<lparr>sc_faults := fs\<rparr>"
      by (simp add: e4 s3_def)
    have k4: "mig_ok xs n s4" using k3 by (simp add: e4)
    have "mig_ok xs (Suc n) (s2\<lparr>sc_executed := sc_executed s2 @ [z], sc_recorded := sc_recorded s2 @ [z]\<rparr>)" using r(2) False z k2(2) by simp
    then have "mig_ok xs (Suc n) (s4\<lparr>sc_recorded := sc_recorded s4 @ [z]\<rparr>)" unfolding e5 mig_ok_faults .
    note ih = Cons.IH[OF this z(2)]
    have m: "migrate_files (z # zs) s = (if \<not> b1 then (False, s1) else if \<not> b2 then (False, s2) else if \<not> b4 then (False, s4)
        else migrate_files zs (s4\<lparr>sc_recorded := sc_recorded s4 @ [z]\<rparr>))"
      using False 1 2 4 by (simp add: s3_def[symmetric] split: bool.split)
    show ?thesis unfolding m using ih weak[OF k1] weak[OF k2(1)] weak[OF k4] by (simp del: migrate_files.simps)
  qed
qed

lemma mig_reach_ok: "mig_reach entries s \<Longrightarrow> distinct entries \<Longrightarrow> mig_ok (sort entries) 0 s"
proof (induction rule: mig_reach.induct)
  case (mig_run s fs)
  obtain b s1 where 1: "sc_stmt (s\<lparr>sc_faults := fs\<rparr>) = (b, s1)" by (cases "sc_stmt (s\<lparr>sc_faults := fs\<rparr>)")
  have "mig_ok (sort entries) 0 s1" using sc_stmt_keeps(1)[OF 1] mig_run.IH[OF mig_run.prems] by simp
  then show ?case using migrate_files_keeps[of "sort entries" 0 s1] 1 mig_run.prems by (cases b) (simp_all add: Migrate_def)
qed (auto simp: mig_ok_def empty_schema_def intro!: exI[of _ 0])

text \<open>A run without faults executes and records what is missing.\<close>

lemma migrate_files_ok:
  "sc_faults s = [] \<Longrightarrow> distinct zs \<Longrightarrow> migrate_files zs s =
     (True, s\<lparr>sc_executed := sc_executed s @ filter (\<lambda>z. z \<notin> set (sc_recorded s)) zs, sc_recorded := sc_recorded s @ filter (\<lambda>z. z \<notin> set (sc_recorded s)) zs\<rparr>)"
proof (induction zs arbitrary: s)
  case (Cons z zs)
  have "filter (\<lambda>x. x \<noteq> z \<and> x \<notin> set (sc_recorded s)) zs = filter (\<lambda>x. x \<notin> set (sc_recorded s)) zs" using Cons.prems(2) by (auto intro: filter_cong)
  then show ?case using Cons by (simp add: sc_stmt_def Let_def)
qed simp

section \<open>Properties\<close>

text \<open>
  C40: migrations. After any number of starts, whatever statements fail, the recorded files are an initial
  part of the files in name order, every recorded file was executed, files were executed in name order,
  and at most the next file was executed without being recorded. A start on which nothing fails executes
  exactly the files not recorded, in order, and records them all; the next one executes nothing.
\<close>
theorem migrations_resume:
  assumes "mig_reach entries s" "distinct entries" "xs = sort entries"
  shows "\<exists>k\<le>length xs. sc_recorded s = take k xs \<and> set (take k xs) \<subseteq> set (sc_executed s) \<and> set (sc_executed s) \<subseteq> set (take (Suc k) xs) \<and> sorted (sc_executed s) \<and>
    Migrate entries (s\<lparr>sc_faults := []\<rparr>) = (True, \<lparr>sc_recorded = xs, sc_executed = sc_executed s @ drop k xs, sc_faults = []\<rparr>) \<and>
    snd (Migrate entries (snd (Migrate entries (s\<lparr>sc_faults := []\<rparr>)))) = snd (Migrate entries (s\<lparr>sc_faults := []\<rparr>))"
proof -
  obtain k where k: "k \<le> length xs" "sc_recorded s = take k xs" "set (take k xs) \<subseteq> set (sc_executed s)" "set (sc_executed s) \<subseteq> set (take (Suc k) xs)" "sorted (sc_executed s)"
    using mig_reach_ok[OF assms(1,2)] assms(3) by (auto simp: mig_ok_def)
  have d: "distinct xs" using assms(2,3) by simp
  have f: "filter (\<lambda>z. z \<notin> set (take k xs)) xs = drop k xs"
  proof -
    have dis: "set (take k xs) \<inter> set (drop k xs) = {}" using d by (metis append_take_drop_id distinct_append)
    have "filter (\<lambda>z. z \<notin> set (take k xs)) (take k xs) = []" "filter (\<lambda>z. z \<notin> set (take k xs)) (drop k xs) = drop k xs"
      using dis by (simp add: filter_empty_conv, subst filter_id_conv, blast)
    then show ?thesis by (metis append_Nil append_take_drop_id filter_append)
  qed
  have 1: "Migrate entries (s\<lparr>sc_faults := []\<rparr>) = (True, \<lparr>sc_recorded = xs, sc_executed = sc_executed s @ drop k xs, sc_faults = []\<rparr>)"
    using migrate_files_ok[of "s\<lparr>sc_faults := []\<rparr>" xs] d by (simp add: Migrate_def sc_stmt_def assms(3)[symmetric] k(2) f)
  moreover have "snd (Migrate entries \<lparr>sc_recorded = xs, sc_executed = sc_executed s @ drop k xs, sc_faults = []\<rparr>) = \<lparr>sc_recorded = xs, sc_executed = sc_executed s @ drop k xs, sc_faults = []\<rparr>"
    using migrate_files_ok[of "\<lparr>sc_recorded = xs, sc_executed = sc_executed s @ drop k xs, sc_faults = []\<rparr>" xs] d
    by (simp add: Migrate_def sc_stmt_def assms(3)[symmetric] filter_False)
  ultimately have "snd (Migrate entries (snd (Migrate entries (s\<lparr>sc_faults := []\<rparr>)))) = snd (Migrate entries (s\<lparr>sc_faults := []\<rparr>))" by (simp only: snd_conv)
  then show ?thesis using k 1 by blast
qed

theorem migrations_resume_witness:
  "sc_recorded (snd (Migrate [''2.sql'', ''1.sql''] ((snd (Migrate [''2.sql'', ''1.sql''] (empty_schema\<lparr>sc_faults := [False, False, False, True]\<rparr>)))\<lparr>sc_faults := []\<rparr>))) = [''1.sql'', ''2.sql'']"
proof -
  let ?s = "snd (Migrate [''2.sql'', ''1.sql''] (empty_schema\<lparr>sc_faults := [False, False, False, True]\<rparr>))"
  have "mig_reach [''2.sql'', ''1.sql''] ?s" by (intro mig_reach.intros)
  from migrations_resume[OF this _ refl] show ?thesis by (auto simp: less_char_def)
qed

text \<open>Every route of the API but the login is behind the session and CSRF guards.\<close>

lemma api_guarded: "r \<in> set (all_routes cfg) \<Longrightarrow> HasPrefix (rt_Pattern r) ''/api'' \<Longrightarrow> rt_Guarded r \<or> rt_Method r = ''POST'' \<and> rt_Pattern r = ''/api/login''"
  by (auto simp: all_routes_def router_def api_route_def debugRouter_def HasPrefix_def split: if_splits)

end
