(* ===== verification/Codec.thy ===== *)
theory Codec
  imports Protocol Json
begin

text \<open>
  The text of the control channel: the JSON of every message struct of \<^verbatim>\<open>internal/protocol/protocol.go\<close>,
  \<^verbatim>\<open>Decode\<close> of a payload, and the text of an envelope, whose payload is a \<^verbatim>\<open>json.RawMessage\<close>: it is
  copied into the text (compacted) and taken out of it byte for byte, because the signature covers
  these bytes. A struct is filled as \<^verbatim>\<open>json.Unmarshal\<close> fills it: a member of the wrong type is left out
  and the others are still assigned, so every decoder returns the struct and whether there was an error.
  The locale \<open>struct_codec\<close> is what a message type promises; it is interpreted for each of them. The
  lemmas show that what one side writes the other reads, and that the signature survives the way.
\<close>

section \<open>Filling a struct\<close>

type_synonym 'r setter = "string \<Rightarrow> json \<Rightarrow> 'r \<Rightarrow> 'r \<times> bool"

definition put :: "(json \<Rightarrow> 'f \<Rightarrow> 'f option) \<Rightarrow> ('r \<Rightarrow> 'f) \<Rightarrow> (('f \<Rightarrow> 'f) \<Rightarrow> 'r \<Rightarrow> 'r) \<Rightarrow> json \<Rightarrow> 'r \<Rightarrow> 'r \<times> bool" where
  "put dec get upd v r = (case dec v (get r) of None \<Rightarrow> (r, False) | Some x \<Rightarrow> (upd (\<lambda>_. x) r, True))"

fun fill_fields :: "'r setter \<Rightarrow> (string \<times> json) list \<Rightarrow> 'r \<Rightarrow> 'r \<times> bool" where
  "fill_fields f [] r = (r, True)"
| "fill_fields f ((k, v) # kvs) r =
     (let (r, fine) = f (ToLower k) v r; (r, rest) = fill_fields f kvs r in (r, fine \<and> rest))"

definition fill :: "'r setter \<Rightarrow> json \<Rightarrow> 'r \<Rightarrow> 'r \<times> bool" where
  "fill f v r = (case v of JNull \<Rightarrow> (r, True) | JObj kvs \<Rightarrow> fill_fields f kvs r | _ \<Rightarrow> (r, False))"

text \<open>A slice of structs: \<^verbatim>\<open>nil\<close> is written as \<^verbatim>\<open>null\<close>, and the program only builds slices by appending to \<^verbatim>\<open>nil\<close>.\<close>

definition slice_json :: "('r \<Rightarrow> json) \<Rightarrow> 'r list \<Rightarrow> json" where
  "slice_json enc rs = (if rs = [] then JNull else JArr (map enc rs))"

definition fill_slice :: "'r setter \<Rightarrow> 'r \<Rightarrow> json \<Rightarrow> 'r list \<Rightarrow> 'r list \<times> bool" where
  "fill_slice f zero v old =
     (case v of
        JNull \<Rightarrow> ([], True)
      | JArr vs \<Rightarrow> (map (\<lambda>v. fst (fill f v zero)) vs, \<forall>v\<in>set vs. snd (fill f v zero))
      | _ \<Rightarrow> (old, False))"

definition put_slice :: "'e setter \<Rightarrow> 'e \<Rightarrow> ('r \<Rightarrow> 'e list) \<Rightarrow> (('e list \<Rightarrow> 'e list) \<Rightarrow> 'r \<Rightarrow> 'r) \<Rightarrow> json \<Rightarrow> 'r \<Rightarrow> 'r \<times> bool" where
  "put_slice f zero get upd v r = (let (xs, fine) = fill_slice f zero v (get r) in (upd (\<lambda>_. xs) r, fine))"

text \<open>\<^verbatim>\<open>omitempty\<close> for strings and for \<^verbatim>\<open>false\<close>.\<close>

definition opt_str :: "string \<Rightarrow> string \<Rightarrow> (string \<times> json) list" where
  "opt_str k s = (if s = [] then [] else [(k, JStr s)])"

definition opt_true :: "string \<Rightarrow> bool \<Rightarrow> (string \<times> json) list" where
  "opt_true k b = (if b then [(k, JBool True)] else [])"

abbreviation jint :: "int \<Rightarrow> json" where "jint i \<equiv> JNum (Itoa i)"
abbreviation jword :: "int64 \<Rightarrow> json" where "jword w \<equiv> JNum (Itoa (sint w))"

text \<open>\<^verbatim>\<open>Decode\<close> of \<^verbatim>\<open>protocol.go\<close>: an empty payload leaves the struct as it is.\<close>

definition Envelope_Decode :: "'r setter \<Rightarrow> 'r \<Rightarrow> string \<Rightarrow> 'r \<times> bool" where
  "Envelope_Decode f zero payload =
     (if payload = [] then (zero, True)
      else case parse_json payload of None \<Rightarrow> (zero, False) | Some v \<Rightarrow> fill f v zero)"

section \<open>Message structs\<close>

definition Hello_json :: "Hello \<Rightarrow> json" where
  "Hello_json h = JObj [(''panel_version'', JStr (h_PanelVersion h)), (''min_agent_proto'', jint (h_MinAgentProto h)),
     (''last_commit_seq'', jint (h_LastCommitSeq h))]"

definition set_Hello :: "Hello setter" where
  "set_Hello k v r =
     (if k = ''panel_version'' then put dec_string h_PanelVersion h_PanelVersion_update v r
      else if k = ''min_agent_proto'' then put dec_int h_MinAgentProto h_MinAgentProto_update v r
      else if k = ''last_commit_seq'' then put dec_int h_LastCommitSeq h_LastCommitSeq_update v r
      else (r, True))"

definition zero_Hello :: Hello where
  "zero_Hello = \<lparr>h_PanelVersion = [], h_MinAgentProto = 0, h_LastCommitSeq = 0\<rparr>"

definition HelloAck_json :: "HelloAck \<Rightarrow> json" where
  "HelloAck_json a = JObj ([(''agent_version'', JStr (ha_AgentVersion a)), (''frps_version'', JStr (ha_FrpsVersion a)), (''proto'', jint (ha_Proto a)),
     (''frps_port'', jint (ha_FrpsPort a)), (''frps_token'', JStr (ha_FrpsToken a)), (''compatible'', JBool (ha_Compatible a))] @
     opt_str ''message'' (ha_Message a))"

definition set_HelloAck :: "HelloAck setter" where
  "set_HelloAck k v r =
     (if k = ''agent_version'' then put dec_string ha_AgentVersion ha_AgentVersion_update v r
      else if k = ''frps_version'' then put dec_string ha_FrpsVersion ha_FrpsVersion_update v r
      else if k = ''proto'' then put dec_int ha_Proto ha_Proto_update v r
      else if k = ''frps_port'' then put dec_int ha_FrpsPort ha_FrpsPort_update v r
      else if k = ''frps_token'' then put dec_string ha_FrpsToken ha_FrpsToken_update v r
      else if k = ''compatible'' then put dec_bool ha_Compatible ha_Compatible_update v r
      else if k = ''message'' then put dec_string ha_Message ha_Message_update v r
      else (r, True))"

definition zero_HelloAck :: HelloAck where
  "zero_HelloAck = \<lparr>ha_AgentVersion = [], ha_FrpsVersion = [], ha_Proto = 0, ha_FrpsPort = 0, ha_FrpsToken = [], ha_Compatible = False, ha_Message = []\<rparr>"

definition PortCheck_json :: "PortCheck \<Rightarrow> json" where
  "PortCheck_json p = JObj [(''port'', jint (pc_Port p)), (''proto'', JStr (pc_Proto p))]"

definition set_PortCheck :: "PortCheck setter" where
  "set_PortCheck k v r =
     (if k = ''port'' then put dec_int pc_Port pc_Port_update v r
      else if k = ''proto'' then put dec_string pc_Proto pc_Proto_update v r
      else (r, True))"

definition zero_PortCheck :: PortCheck where "zero_PortCheck = \<lparr>pc_Port = 0, pc_Proto = []\<rparr>"

definition PortCheckRes_json :: "PortCheckRes \<Rightarrow> json" where
  "PortCheckRes_json p = JObj ([(''port'', jint (pr_Port p)), (''proto'', JStr (pr_Proto p)), (''available'', JBool (pr_Available p))] @
     opt_str ''reason'' (pr_Reason p) @ opt_str ''process'' (pr_Process p))"

definition set_PortCheckRes :: "PortCheckRes setter" where
  "set_PortCheckRes k v r =
     (if k = ''port'' then put dec_int pr_Port pr_Port_update v r
      else if k = ''proto'' then put dec_string pr_Proto pr_Proto_update v r
      else if k = ''available'' then put dec_bool pr_Available pr_Available_update v r
      else if k = ''reason'' then put dec_string pr_Reason pr_Reason_update v r
      else if k = ''process'' then put dec_string pr_Process pr_Process_update v r
      else (r, True))"

definition zero_PortCheckRes :: PortCheckRes where
  "zero_PortCheckRes = \<lparr>pr_Port = 0, pr_Proto = [], pr_Available = False, pr_Reason = [], pr_Process = []\<rparr>"

definition ProxyInfo_json :: "ProxyInfo \<Rightarrow> json" where
  "ProxyInfo_json p = JObj [(''name'', JStr (pi_Name p)), (''proto'', JStr (pi_Proto p)), (''remote_port'', jint (pi_RemotePort p)),
     (''status'', JStr (pi_Status p)), (''today_in'', jword (pi_TodayIn p)), (''today_out'', jword (pi_TodayOut p))]"

definition set_ProxyInfo :: "ProxyInfo setter" where
  "set_ProxyInfo k v r =
     (if k = ''name'' then put dec_string pi_Name pi_Name_update v r
      else if k = ''proto'' then put dec_string pi_Proto pi_Proto_update v r
      else if k = ''remote_port'' then put dec_int pi_RemotePort pi_RemotePort_update v r
      else if k = ''status'' then put dec_string pi_Status pi_Status_update v r
      else if k = ''today_in'' then put dec_word pi_TodayIn pi_TodayIn_update v r
      else if k = ''today_out'' then put dec_word pi_TodayOut pi_TodayOut_update v r
      else (r, True))"

definition zero_ProxyInfo :: ProxyInfo where
  "zero_ProxyInfo = \<lparr>pi_Name = [], pi_Proto = [], pi_RemotePort = 0, pi_Status = [], pi_TodayIn = 0, pi_TodayOut = 0\<rparr>"

record ProxyList =
  pl_Proxies :: "ProxyInfo list"

definition ProxyList_json :: "ProxyList \<Rightarrow> json" where
  "ProxyList_json p = JObj [(''proxies'', slice_json ProxyInfo_json (pl_Proxies p))]"

definition set_ProxyList :: "ProxyList setter" where
  "set_ProxyList k v r = (if k = ''proxies'' then put_slice set_ProxyInfo zero_ProxyInfo pl_Proxies pl_Proxies_update v r else (r, True))"

definition zero_ProxyList :: ProxyList where "zero_ProxyList = \<lparr>pl_Proxies = []\<rparr>"

definition RestartFrps_json :: "RestartFrps \<Rightarrow> json" where
  "RestartFrps_json r = JObj (opt_str ''new_frps_token'' (rf_NewFrpsToken r) @ opt_str ''reason'' (rf_Reason r))"

definition set_RestartFrps :: "RestartFrps setter" where
  "set_RestartFrps k v r =
     (if k = ''new_frps_token'' then put dec_string rf_NewFrpsToken rf_NewFrpsToken_update v r
      else if k = ''reason'' then put dec_string rf_Reason rf_Reason_update v r
      else (r, True))"

definition zero_RestartFrps :: RestartFrps where "zero_RestartFrps = \<lparr>rf_NewFrpsToken = [], rf_Reason = []\<rparr>"

definition RestartRes_json :: "RestartRes \<Rightarrow> json" where
  "RestartRes_json r = JObj ((''ok'', JBool (rr_OK r)) # opt_str ''frps_version'' (rr_FrpsVersion r) @ opt_str ''message'' (rr_Message r))"

definition set_RestartRes :: "RestartRes setter" where
  "set_RestartRes k v r =
     (if k = ''ok'' then put dec_bool rr_OK rr_OK_update v r
      else if k = ''frps_version'' then put dec_string rr_FrpsVersion rr_FrpsVersion_update v r
      else if k = ''message'' then put dec_string rr_Message rr_Message_update v r
      else (r, True))"

definition zero_RestartRes :: RestartRes where "zero_RestartRes = \<lparr>rr_OK = False, rr_FrpsVersion = [], rr_Message = []\<rparr>"

definition PortSpec_json :: "PortSpec \<Rightarrow> json" where
  "PortSpec_json p = JObj [(''port'', jint (ps_Port p)), (''proto'', JStr (ps_Proto p))]"

definition set_PortSpec :: "PortSpec setter" where
  "set_PortSpec k v r =
     (if k = ''port'' then put dec_int ps_Port ps_Port_update v r
      else if k = ''proto'' then put dec_string ps_Proto ps_Proto_update v r
      else (r, True))"

definition zero_PortSpec :: PortSpec where "zero_PortSpec = \<lparr>ps_Port = 0, ps_Proto = []\<rparr>"

definition SetRateLimit_json :: "SetRateLimit \<Rightarrow> json" where
  "SetRateLimit_json r = JObj [(''rate'', jint (rl_Rate r)), (''ports'', slice_json PortSpec_json (rl_Ports r))]"

definition set_SetRateLimit :: "SetRateLimit setter" where
  "set_SetRateLimit k v r =
     (if k = ''rate'' then put dec_int rl_Rate rl_Rate_update v r
      else if k = ''ports'' then put_slice set_PortSpec zero_PortSpec rl_Ports rl_Ports_update v r
      else (r, True))"

definition zero_SetRateLimit :: SetRateLimit where "zero_SetRateLimit = \<lparr>rl_Rate = 0, rl_Ports = []\<rparr>"

definition RateLimitRes_json :: "RateLimitRes \<Rightarrow> json" where
  "RateLimitRes_json r = JObj ([(''ok'', JBool (lr_OK r)), (''applied'', jint (lr_Applied r))] @ opt_str ''message'' (lr_Message r))"

definition set_RateLimitRes :: "RateLimitRes setter" where
  "set_RateLimitRes k v r =
     (if k = ''ok'' then put dec_bool lr_OK lr_OK_update v r
      else if k = ''applied'' then put dec_int lr_Applied lr_Applied_update v r
      else if k = ''message'' then put dec_string lr_Message lr_Message_update v r
      else (r, True))"

definition zero_RateLimitRes :: RateLimitRes where "zero_RateLimitRes = \<lparr>lr_OK = False, lr_Applied = 0, lr_Message = []\<rparr>"

definition UpdateAgent_json :: "UpdateAgent \<Rightarrow> json" where
  "UpdateAgent_json u = JObj (opt_str ''version'' (ua_Version u) @ (''base_url'', JStr (ua_BaseURL u)) # opt_str ''mirror'' (ua_Mirror u))"

definition set_UpdateAgent :: "UpdateAgent setter" where
  "set_UpdateAgent k v r =
     (if k = ''version'' then put dec_string ua_Version ua_Version_update v r
      else if k = ''base_url'' then put dec_string ua_BaseURL ua_BaseURL_update v r
      else if k = ''mirror'' then put dec_string ua_Mirror ua_Mirror_update v r
      else (r, True))"

definition zero_UpdateAgent :: UpdateAgent where "zero_UpdateAgent = \<lparr>ua_Version = [], ua_BaseURL = [], ua_Mirror = []\<rparr>"

definition UpdateRes_json :: "UpdateRes \<Rightarrow> json" where
  "UpdateRes_json u = JObj ([(''ok'', JBool (ur_OK u)), (''started'', JBool (ur_Started u))] @ opt_str ''message'' (ur_Message u))"

definition set_UpdateRes :: "UpdateRes setter" where
  "set_UpdateRes k v r =
     (if k = ''ok'' then put dec_bool ur_OK ur_OK_update v r
      else if k = ''started'' then put dec_bool ur_Started ur_Started_update v r
      else if k = ''message'' then put dec_string ur_Message ur_Message_update v r
      else (r, True))"

definition zero_UpdateRes :: UpdateRes where "zero_UpdateRes = \<lparr>ur_OK = False, ur_Started = False, ur_Message = []\<rparr>"

definition ProxyTraffic_json :: "ProxyTraffic \<Rightarrow> json" where
  "ProxyTraffic_json p = JObj [(''remote_port'', jint (tr_RemotePort p)), (''proto'', JStr (tr_Proto p)), (''status'', JStr (tr_Status p)),
     (''delta_in'', jword (tr_DeltaIn p)), (''delta_out'', jword (tr_DeltaOut p))]"

definition set_ProxyTraffic :: "ProxyTraffic setter" where
  "set_ProxyTraffic k v r =
     (if k = ''remote_port'' then put dec_int tr_RemotePort tr_RemotePort_update v r
      else if k = ''proto'' then put dec_string tr_Proto tr_Proto_update v r
      else if k = ''status'' then put dec_string tr_Status tr_Status_update v r
      else if k = ''delta_in'' then put dec_word tr_DeltaIn tr_DeltaIn_update v r
      else if k = ''delta_out'' then put dec_word tr_DeltaOut tr_DeltaOut_update v r
      else (r, True))"

definition zero_ProxyTraffic :: ProxyTraffic where
  "zero_ProxyTraffic = \<lparr>tr_RemotePort = 0, tr_Proto = [], tr_Status = [], tr_DeltaIn = 0, tr_DeltaOut = 0\<rparr>"

text \<open>The two percentages are \<^verbatim>\<open>float64\<close>; their decimal text \<open>ff\<close> and its reader \<open>pf\<close> are arguments.\<close>

definition dec_float :: "(string \<Rightarrow> real option) \<Rightarrow> json \<Rightarrow> real \<Rightarrow> real option" where
  "dec_float pf v old = (case v of JNull \<Rightarrow> Some old | JNum n \<Rightarrow> pf n | _ \<Rightarrow> None)"

definition Metrics_json :: "(real \<Rightarrow> string) \<Rightarrow> Metrics \<Rightarrow> json" where
  "Metrics_json ff m = JObj ([(''seq'', jint (m_Seq m)), (''cpu'', JNum (ff (m_CPU m))), (''mem'', JNum (ff (m_Mem m))), (''mem_total'', jword (m_MemTotal m)),
     (''net_rx_bps'', jword (m_NetRxBps m)), (''net_tx_bps'', jword (m_NetTxBps m)), (''net_rx_delta'', jword (m_NetRxDelta m)),
     (''net_tx_delta'', jword (m_NetTxDelta m)), (''frps_up'', JBool (m_FrpsUp m)), (''proxies'', slice_json ProxyTraffic_json (m_Proxies m)),
     (''sampled_at'', jint (m_SampledAt m))] @ opt_true ''backfill'' (m_Backfill m))"

definition set_Metrics :: "(string \<Rightarrow> real option) \<Rightarrow> Metrics setter" where
  "set_Metrics pf k v r =
     (if k = ''seq'' then put dec_int m_Seq m_Seq_update v r
      else if k = ''cpu'' then put (dec_float pf) m_CPU m_CPU_update v r
      else if k = ''mem'' then put (dec_float pf) m_Mem m_Mem_update v r
      else if k = ''mem_total'' then put dec_word m_MemTotal m_MemTotal_update v r
      else if k = ''net_rx_bps'' then put dec_word m_NetRxBps m_NetRxBps_update v r
      else if k = ''net_tx_bps'' then put dec_word m_NetTxBps m_NetTxBps_update v r
      else if k = ''net_rx_delta'' then put dec_word m_NetRxDelta m_NetRxDelta_update v r
      else if k = ''net_tx_delta'' then put dec_word m_NetTxDelta m_NetTxDelta_update v r
      else if k = ''frps_up'' then put dec_bool m_FrpsUp m_FrpsUp_update v r
      else if k = ''proxies'' then put_slice set_ProxyTraffic zero_ProxyTraffic m_Proxies m_Proxies_update v r
      else if k = ''sampled_at'' then put dec_int m_SampledAt m_SampledAt_update v r
      else if k = ''backfill'' then put dec_bool m_Backfill m_Backfill_update v r
      else (r, True))"

definition zero_Metrics :: Metrics where
  "zero_Metrics = \<lparr>m_Seq = 0, m_CPU = 0, m_Mem = 0, m_MemTotal = 0, m_NetRxBps = 0, m_NetTxBps = 0, m_NetRxDelta = 0, m_NetTxDelta = 0,
     m_FrpsUp = False, m_Proxies = [], m_SampledAt = 0, m_Backfill = False\<rparr>"

definition Event_json :: "Event \<Rightarrow> json" where
  "Event_json e = JObj [(''kind'', JStr (ev_Kind e)), (''detail'', JStr (ev_Detail e)), (''at_ms'', jint (ev_AtMs e))]"

definition set_Event :: "Event setter" where
  "set_Event k v r =
     (if k = ''kind'' then put dec_string ev_Kind ev_Kind_update v r
      else if k = ''detail'' then put dec_string ev_Detail ev_Detail_update v r
      else if k = ''at_ms'' then put dec_int ev_AtMs ev_AtMs_update v r
      else (r, True))"

definition zero_Event :: Event where "zero_Event = \<lparr>ev_Kind = [], ev_Detail = [], ev_AtMs = 0\<rparr>"

section \<open>The text of an envelope\<close>

text \<open>\<^verbatim>\<open>json.Marshal\<close> of a raw message: blanks outside strings are dropped and three characters escaped.\<close>

fun compact :: "bool \<Rightarrow> string \<Rightarrow> string" where
  "compact q [] = []"
| "compact q (c # s) =
     (if c = CHR 0x22 then c # compact (\<not> q) s
      else if q \<and> c = CHR 0x5C then (case s of [] \<Rightarrow> [c] | d # s' \<Rightarrow> c # d # compact q s')
      else if \<not> q \<and> json_ws c then compact q s
      else if c \<in> {CHR ''<'', CHR ''>'', CHR ''&''} then u00 c @ compact q s
      else c # compact q s)"

definition envelope_members :: "Envelope \<Rightarrow> (string \<times> string) list" where
  "envelope_members e =
     [(''ver'', Itoa (e_Ver e)), (''type'', quote_json (e_Type e))] @ (if e_ID e = [] then [] else [(''id'', quote_json (e_ID e))]) @
     [(''ts'', Itoa (sint (e_TS e)))] @ (if e_Nonce e = [] then [] else [(''nonce'', quote_json (e_Nonce e))]) @
     (if e_Sig e = [] then [] else [(''sig'', quote_json (e_Sig e))]) @
     (if e_Payload e = [] then [] else [(''payload'', compact False (e_Payload e))])"

text \<open>An envelope whose payload is not JSON cannot be marshalled.\<close>

definition Envelope_text :: "Envelope \<Rightarrow> string option" where
  "Envelope_text e =
     (if e_Payload e \<noteq> [] \<and> parse_json (e_Payload e) = None then None
      else Some (CHR ''{'' # commas (map (\<lambda>(k, t). quote_json k @ CHR '':'' # t) (envelope_members e)) @ ''}''))"

text \<open>Reading the members of an object together with the bytes of their values.\<close>

definition raw_value :: "nat \<Rightarrow> string \<Rightarrow> (json \<times> string \<times> string) option" where
  "raw_value n t =
     (case parse_value n t of
        None \<Rightarrow> None
      | Some (v, r) \<Rightarrow> Some (v, take (length (skip_ws t) - length r) (skip_ws t), r))"

fun raw_members :: "nat \<Rightarrow> string \<Rightarrow> ((string \<times> json \<times> string) list \<times> string) option" where
  "raw_members 0 s = None"
| "raw_members (Suc n) s =
     (case parse_key s of
        None \<Rightarrow> None
      | Some (k, t) \<Rightarrow>
          (case raw_value n t of
             None \<Rightarrow> None
           | Some (v, raw, r) \<Rightarrow>
               (case parse_sep CHR ''}'' r of
                  None \<Rightarrow> None
                | Some (again, r') \<Rightarrow>
                    if again then map_option (apfst ((#) (k, v, raw))) (raw_members n r') else Some ([(k, v, raw)], r'))))"

definition set_Envelope :: "string \<Rightarrow> json \<Rightarrow> string \<Rightarrow> Envelope \<Rightarrow> Envelope \<times> bool" where
  "set_Envelope k v raw r =
     (if k = ''ver'' then put dec_int e_Ver e_Ver_update v r
      else if k = ''type'' then put dec_string e_Type e_Type_update v r
      else if k = ''id'' then put dec_string e_ID e_ID_update v r
      else if k = ''ts'' then put dec_word e_TS e_TS_update v r
      else if k = ''nonce'' then put dec_string e_Nonce e_Nonce_update v r
      else if k = ''sig'' then put dec_string e_Sig e_Sig_update v r
      else if k = ''payload'' then (r\<lparr>e_Payload := raw\<rparr>, True)
      else (r, True))"

fun fill_Envelope :: "(string \<times> json \<times> string) list \<Rightarrow> Envelope \<Rightarrow> Envelope \<times> bool" where
  "fill_Envelope [] r = (r, True)"
| "fill_Envelope ((k, v, raw) # ms) r =
     (let (r, fine) = set_Envelope (ToLower k) v raw r; (r, rest) = fill_Envelope ms r in (r, fine \<and> rest))"

definition zero_Envelope :: Envelope where
  "zero_Envelope = \<lparr>e_Ver = 0, e_Type = [], e_ID = [], e_TS = 0, e_Nonce = [], e_Sig = [], e_Payload = []\<rparr>"

text \<open>\<^verbatim>\<open>json.Unmarshal\<close> into an envelope, as the handshakes, the reader loops and \<^verbatim>\<open>readEnvelope\<close> use it; \<open>None\<close> is an error.\<close>

definition read_members :: "string \<Rightarrow> Envelope option" where
  "read_members t =
     (if starts CHR ''}'' t then (if skip_ws (tl (skip_ws t)) = [] then Some zero_Envelope else None)
      else case raw_members (2 * length t + 2) t of
             None \<Rightarrow> None
           | Some (ms, r) \<Rightarrow>
               if skip_ws r \<noteq> [] then None
               else let (env, fine) = fill_Envelope ms zero_Envelope in if fine then Some env else None)"

definition read_Envelope :: "string \<Rightarrow> Envelope option" where
  "read_Envelope s =
     (case skip_ws s of
        [] \<Rightarrow> None
      | c # t \<Rightarrow>
          if c = CHR ''{'' then read_members t
          else if parse_json s = Some JNull then Some zero_Envelope else None)"

text \<open>\<^verbatim>\<open>write\<close> of \<^verbatim>\<open>nodeconn.go\<close>: the text handed to the socket. \<open>None\<close> stands for a nil payload.\<close>

definition payload_text :: "json option \<Rightarrow> string" where
  "payload_text p = (case p of None \<Rightarrow> [] | Some v \<Rightarrow> print_json v)"

definition conn_write :: "mac \<Rightarrow> int64 \<Rightarrow> string \<Rightarrow> string \<Rightarrow> string \<Rightarrow> json option \<Rightarrow> string option" where
  "conn_write hmac now token typ i p = Envelope_text (Sign hmac (Marshal now ProtocolVersion typ i (payload_text p)) token)"

section \<open>Reading back an envelope\<close>

lemma compact_num: "\<forall>c\<in>set n. num_char c \<Longrightarrow> compact False (n @ r) = n @ compact False r"
proof (induction n)
  case (Cons c n)
  moreover have "\<not> num_char CHR ''<''" "\<not> num_char CHR ''>''" "\<not> num_char CHR ''&''" by (simp_all add: num_char_def is_digit_def digit_val_def)
  ultimately show ?case using num_char_head[of c] by auto
qed simp

lemma compact_esc: "compact True (esc_char c @ r) = esc_char c @ compact True r"
proof (rule esc_char_cases[of c])
  assume u: "esc_char c = u00 c"
  have "u00 c = CHR 0x5C # ''u00'' @ [hex_char (of_char c div 16), hex_char (of_char c mod 16)]" by (simp add: u00_def Let_def)
  moreover have "of_char c div 16 < (16::nat)" "of_char c mod 16 < (16::nat)" using nat_of_char_less_256[of c] by linarith+
  moreover have "a < 16 \<Longrightarrow> hex_char a \<notin> {CHR 0x22, CHR 0x5C, CHR ''<'', CHR ''>'', CHR ''&''}" for a
    using digit_val_hex_char[of a] by (auto simp: digit_val_def)
  ultimately show ?thesis by (auto simp: u)
next
  assume "esc_char c = [c]" "\<not> of_char c < (32::nat)" "c \<noteq> CHR 0x22" "c \<noteq> CHR 0x5C"
  moreover from this have "c \<notin> {CHR ''<'', CHR ''>'', CHR ''&''}" by (auto simp: esc_char_def u00_def Let_def short_escapes_def)
  ultimately show ?thesis by auto
qed auto

lemma compact_quote: "compact False (quote_json s @ r) = quote_json s @ compact False r"
proof -
  have "compact True (concat (map esc_char s) @ CHR 0x22 # r) = concat (map esc_char s) @ CHR 0x22 # compact False r"
    by (induction s) (simp_all add: compact_esc del: compact.simps(2), simp)
  then show ?thesis by (simp add: quote_json_def)
qed

lemma compact_commas:
  assumes "\<And>x r. x \<in> set xs \<Longrightarrow> compact False (x @ r) = x @ compact False r"
  shows "compact False (commas xs @ r) = commas xs @ compact False r"
  using assms by (induction xs rule: commas.induct) (simp_all add: json_ws_def)

lemma compact_print_append: "wf_json v \<Longrightarrow> compact False (print_json v @ r) = print_json v @ compact False r"
proof (induction v arbitrary: r)
  case (JArr vs)
  then have "compact False (commas (map print_json vs) @ CHR '']'' # r) = commas (map print_json vs) @ compact False (CHR '']'' # r)"
    by (intro compact_commas) auto
  then show ?case by (simp add: json_ws_def)
next
  case (JObj kvs)
  have "compact False (x @ r) = x @ compact False r" if "x \<in> set (map print_member kvs)" for x r
  proof -
    obtain k v where kv: "(k, v) \<in> set kvs" "x = quote_json k @ CHR '':'' # print_json v" using \<open>x \<in> set (map print_member kvs)\<close> by auto
    have "compact False (print_json v @ r) = print_json v @ compact False r" using JObj kv(1) by fastforce
    then show ?thesis by (simp add: kv(2) compact_quote json_ws_def)
  qed
  then have "compact False (commas (map print_member kvs) @ CHR ''}'' # r) = commas (map print_member kvs) @ compact False (CHR ''}'' # r)"
    by (rule compact_commas)
  then show ?case by (simp add: json_ws_def)
qed (auto simp: compact_num compact_quote json_ws_def)

lemma compact_print [simp]: "wf_json v \<Longrightarrow> compact False (print_json v) = print_json v"
  using compact_print_append[of v "[]"] by simp

text \<open>Reading with the bytes is reading, so the fuel is enough here as well.\<close>

lemma raw_members_values: "map_option (apfst (map (\<lambda>(k, v, raw). (k, v)))) (raw_members n s) = parse_members n s"
proof (induction n arbitrary: s)
  case (Suc n)
  have "map_option (apfst ((#) (k, v))) (map_option (apfst (map (\<lambda>(k, v, raw). (k, v)))) x) =
      map_option (apfst (map (\<lambda>(k, v, raw). (k, v)))) (map_option (apfst ((#) (k, v, raw))) x)" for k v raw and x :: "((string \<times> json \<times> string) list \<times> string) option"
    by (cases x) auto
  then show ?case by (simp add: raw_value_def Suc[symmetric] split: option.splits)
qed simp

lemma raw_members_print:
  assumes "\<forall>(k, v)\<in>set kvs. wf_json v" "kvs \<noteq> []" "sum_list (map (\<lambda>(k, v). Suc (jfuel v)) kvs) \<le> m"
  shows "raw_members m (commas (map print_member kvs) @ CHR ''}'' # r) = Some (map (\<lambda>(k, v). (k, v, print_json v)) kvs, r)"
  using assms
proof (induction kvs arbitrary: m)
  case (Cons kv kvs)
  obtain k v where kv: "kv = (k, v)" by (cases kv)
  obtain n where m: "m = Suc n" using Cons.prems(3) by (cases m) (auto simp: kv)
  have v: "num_end r' \<Longrightarrow> raw_value n (print_json v @ r') = Some (v, print_json v, r')" for r'
  proof -
    assume "num_end r'"
    then have "parse_value n (print_json v @ r') = Some (v, r')" using Cons.prems by (intro parse_print_value) (auto simp: m kv)
    moreover have "skip_ws (print_json v @ r') = print_json v @ r'" using print_head[of v] Cons.prems(1) by (auto simp: kv skip_ws_def)
    ultimately show ?thesis by (simp add: raw_value_def)
  qed
  show ?case
  proof (cases kvs)
    case Nil
    then show ?thesis by (simp add: m v kv)
  next
    case (Cons w ws)
    then have "raw_members n (commas (map print_member kvs) @ CHR ''}'' # r) = Some (map (\<lambda>(k, v). (k, v, print_json v)) kvs, r)"
      using Cons.prems m by (intro Cons.IH) (auto simp: kv)
    with \<open>kvs = w # ws\<close> show ?thesis by (simp add: m v kv)
  qed
qed simp

definition in64 :: "int \<Rightarrow> bool" where
  "in64 i \<longleftrightarrow> - (2 ^ 63) \<le> i \<and> i < 2 ^ 63"

lemma dec_int_in64 [simp]: "in64 i \<Longrightarrow> dec_int (jint i) old = Some i"
  by (simp add: in64_def dec_int_Itoa)

lemma dec_bool_JBool [simp]: "dec_bool (JBool b) old = Some b"
  by (simp add: dec_bool_def)

lemma put_Some [simp]: "dec v (get r) = Some x \<Longrightarrow> put dec get upd v r = (upd (\<lambda>_. x) r, True)"
  by (simp add: put_def)

lemma ToLower_field_names [simp]:
  "ToLower ''panel_version'' = ''panel_version''" "ToLower ''min_agent_proto'' = ''min_agent_proto''" "ToLower ''last_commit_seq'' = ''last_commit_seq''" "ToLower ''agent_version'' = ''agent_version''"
  "ToLower ''frps_version'' = ''frps_version''" "ToLower ''proto'' = ''proto''" "ToLower ''frps_port'' = ''frps_port''" "ToLower ''frps_token'' = ''frps_token''"
  "ToLower ''compatible'' = ''compatible''" "ToLower ''message'' = ''message''" "ToLower ''port'' = ''port''" "ToLower ''available'' = ''available''"
  "ToLower ''reason'' = ''reason''" "ToLower ''process'' = ''process''" "ToLower ''name'' = ''name''" "ToLower ''remote_port'' = ''remote_port''"
  "ToLower ''status'' = ''status''" "ToLower ''today_in'' = ''today_in''" "ToLower ''today_out'' = ''today_out''" "ToLower ''proxies'' = ''proxies''"
  "ToLower ''new_frps_token'' = ''new_frps_token''" "ToLower ''ok'' = ''ok''" "ToLower ''rate'' = ''rate''" "ToLower ''ports'' = ''ports''"
  "ToLower ''applied'' = ''applied''" "ToLower ''version'' = ''version''" "ToLower ''base_url'' = ''base_url''" "ToLower ''mirror'' = ''mirror''"
  "ToLower ''started'' = ''started''" "ToLower ''delta_in'' = ''delta_in''" "ToLower ''delta_out'' = ''delta_out''" "ToLower ''seq'' = ''seq''"
  "ToLower ''cpu'' = ''cpu''" "ToLower ''mem'' = ''mem''" "ToLower ''mem_total'' = ''mem_total''" "ToLower ''net_rx_bps'' = ''net_rx_bps''"
  "ToLower ''net_tx_bps'' = ''net_tx_bps''" "ToLower ''net_rx_delta'' = ''net_rx_delta''" "ToLower ''net_tx_delta'' = ''net_tx_delta''" "ToLower ''frps_up'' = ''frps_up''"
  "ToLower ''sampled_at'' = ''sampled_at''" "ToLower ''backfill'' = ''backfill''" "ToLower ''kind'' = ''kind''" "ToLower ''detail'' = ''detail''"
  "ToLower ''at_ms'' = ''at_ms''" "ToLower ''ver'' = ''ver''" "ToLower ''type'' = ''type''" "ToLower ''id'' = ''id''"
  "ToLower ''ts'' = ''ts''" "ToLower ''nonce'' = ''nonce''" "ToLower ''sig'' = ''sig''" "ToLower ''payload'' = ''payload''"
  by (simp_all add: ToLower_def lower_char_def)

text \<open>The members of an envelope whose payload is the text of a value.\<close>

definition envelope_json :: "json option \<Rightarrow> Envelope \<Rightarrow> (string \<times> json) list" where
  "envelope_json p e =
     [(''ver'', jint (e_Ver e)), (''type'', JStr (e_Type e))] @ opt_str ''id'' (e_ID e) @ [(''ts'', jword (e_TS e))] @
     opt_str ''nonce'' (e_Nonce e) @ opt_str ''sig'' (e_Sig e) @ (case p of None \<Rightarrow> [] | Some v \<Rightarrow> [(''payload'', v)])"

definition carries :: "json option \<Rightarrow> Envelope \<Rightarrow> bool" where
  "carries p e \<longleftrightarrow> e_Payload e = payload_text p \<and> in64 (e_Ver e) \<and> (case p of None \<Rightarrow> True | Some v \<Rightarrow> wf_json v)"

lemma print_json_nonempty: "wf_json v \<Longrightarrow> print_json v \<noteq> []"
  using print_head[of v] by auto

lemma Envelope_text_json:
  assumes "carries p e"
  shows "Envelope_text e = Some (CHR ''{'' # commas (map print_member (envelope_json p e)) @ ''}'')"
proof -
  have "map (\<lambda>(k, t). quote_json k @ CHR '':'' # t) (envelope_members e) = map print_member (envelope_json p e)"
    using assms print_json_nonempty
    by (cases p) (auto simp: envelope_members_def envelope_json_def opt_str_def carries_def payload_text_def)
  moreover have "e_Payload e \<noteq> [] \<Longrightarrow> parse_json (e_Payload e) \<noteq> None"
    using assms by (cases p) (auto simp: carries_def payload_text_def parse_print)
  ultimately show ?thesis by (auto simp: Envelope_text_def)
qed

lemma fill_Envelope_json:
  assumes "carries p e"
  shows "fill_Envelope (map (\<lambda>(k, v). (k, v, print_json v)) (envelope_json p e)) zero_Envelope = (e, True)"
  using assms
  by (cases p; cases e) (auto simp: envelope_json_def opt_str_def carries_def payload_text_def set_Envelope_def zero_Envelope_def)

lemma read_Envelope_text:
  assumes "carries p e" "Envelope_text e = Some s"
  shows "read_Envelope s = Some e"
proof -
  let ?kvs = "envelope_json p e" and ?t = "commas (map print_member (envelope_json p e)) @ ''}''"
  have s: "s = CHR ''{'' # ?t" using Envelope_text_json[OF assms(1)] assms(2) by simp
  have wf: "\<forall>(k, v)\<in>set ?kvs. wf_json v" "?kvs \<noteq> []"
    using assms(1) by (auto simp: envelope_json_def opt_str_def carries_def valid_number_Itoa split: option.splits)
  have "wf_json (JObj ?kvs)" using wf(1) by simp
  from jfuel_length[OF this] have "sum_list (map (\<lambda>(k, v). Suc (jfuel v)) ?kvs) \<le> 2 * length ?t + 2" by simp
  from raw_members_print[OF wf this, of "[]"] have "raw_members (2 * length ?t + 2) ?t = Some (map (\<lambda>(k, v). (k, v, print_json v)) ?kvs, [])" .
  moreover have "\<not> starts CHR ''}'' ?t" using not_starts_members[OF wf(2), of "''}''"] by simp
  ultimately have "read_members ?t = Some e"
    using fill_Envelope_json[OF assms(1)] by (simp add: read_members_def skip_ws_def)
  then show ?thesis by (simp add: read_Envelope_def s skip_ws_def json_ws_def)
qed

section \<open>Every message is read back\<close>

text \<open>
  What a message type promises: its text is JSON, and a struct filled from it is the one written, for
  the values of the type (integers of 64 bits).
\<close>

locale struct_codec =
  fixes enc :: "'r \<Rightarrow> json" and set_field :: "'r setter" and zero :: 'r and valid :: "'r \<Rightarrow> bool"
  assumes wf_enc: "valid r \<Longrightarrow> wf_json (enc r)" and fill_enc: "valid r \<Longrightarrow> fill set_field (enc r) zero = (r, True)"
begin

lemma decode_text: "valid r \<Longrightarrow> Envelope_Decode set_field zero (print_json (enc r)) = (r, True)"
  using wf_enc[of r] by (simp add: Envelope_Decode_def parse_print fill_enc print_json_nonempty)

lemma slice_wf: "\<forall>r\<in>set rs. valid r \<Longrightarrow> wf_json (slice_json enc rs)"
  by (simp add: slice_json_def wf_enc)

lemma slice_fill: "\<forall>r\<in>set rs. valid r \<Longrightarrow> fill_slice set_field zero (slice_json enc rs) old = (rs, True)"
  by (auto simp: slice_json_def fill_slice_def fill_enc intro: map_idI)

lemma slice_put: "\<forall>r\<in>set rs. valid r \<Longrightarrow> put_slice set_field zero get upd (slice_json enc rs) x = (upd (\<lambda>_. rs) x, True)"
  by (simp add: put_slice_def slice_fill)

text \<open>What one side writes the other reads: envelope, signature and struct.\<close>

lemma written_read:
  assumes "valid r" "conn_write hmac now token typ i (Some (enc r)) = Some s"
  shows "\<exists>env. read_Envelope s = Some env \<and> e_Type env = typ \<and> e_ID env = i \<and> e_TS env = now \<and>
    env = Sign hmac (Marshal now ProtocolVersion typ i (print_json (enc r))) token \<and> Envelope_Decode set_field zero (e_Payload env) = (r, True)"
proof -
  let ?e = "Sign hmac (Marshal now ProtocolVersion typ i (print_json (enc r))) token"
  have "carries (Some (enc r)) ?e"
    using wf_enc[OF assms(1)] by (simp add: carries_def Sign_def Marshal_def payload_text_def in64_def ProtocolVersion_def)
  then have "read_Envelope s = Some ?e" using assms(2) read_Envelope_text[of "Some (enc r)" ?e s] by (simp add: conn_write_def payload_text_def)
  then show ?thesis using decode_text[OF assms(1)] by (simp add: Sign_def Marshal_def)
qed

end

lemmas struct_simps = fill_def opt_str_def opt_true_def valid_number_Itoa

interpretation c_Hello: struct_codec Hello_json set_Hello zero_Hello "\<lambda>r. in64 (h_MinAgentProto r) \<and> in64 (h_LastCommitSeq r)"
  by unfold_locales (auto simp: Hello_json_def set_Hello_def zero_Hello_def struct_simps)

interpretation c_HelloAck: struct_codec HelloAck_json set_HelloAck zero_HelloAck "\<lambda>r. in64 (ha_Proto r) \<and> in64 (ha_FrpsPort r)"
  by unfold_locales (auto simp: HelloAck_json_def set_HelloAck_def zero_HelloAck_def struct_simps)

interpretation c_PortCheck: struct_codec PortCheck_json set_PortCheck zero_PortCheck "\<lambda>r. in64 (pc_Port r)"
  by unfold_locales (auto simp: PortCheck_json_def set_PortCheck_def zero_PortCheck_def struct_simps)

interpretation c_PortCheckRes: struct_codec PortCheckRes_json set_PortCheckRes zero_PortCheckRes "\<lambda>r. in64 (pr_Port r)"
  by unfold_locales (auto simp: PortCheckRes_json_def set_PortCheckRes_def zero_PortCheckRes_def struct_simps)

interpretation c_ProxyInfo: struct_codec ProxyInfo_json set_ProxyInfo zero_ProxyInfo "\<lambda>r. in64 (pi_RemotePort r)"
  by unfold_locales (auto simp: ProxyInfo_json_def set_ProxyInfo_def zero_ProxyInfo_def struct_simps)

interpretation c_RestartFrps: struct_codec RestartFrps_json set_RestartFrps zero_RestartFrps "\<lambda>r. True"
  by unfold_locales (auto simp: RestartFrps_json_def set_RestartFrps_def zero_RestartFrps_def struct_simps)

interpretation c_RestartRes: struct_codec RestartRes_json set_RestartRes zero_RestartRes "\<lambda>r. True"
  by unfold_locales (auto simp: RestartRes_json_def set_RestartRes_def zero_RestartRes_def struct_simps)

interpretation c_PortSpec: struct_codec PortSpec_json set_PortSpec zero_PortSpec "\<lambda>r. in64 (ps_Port r)"
  by unfold_locales (auto simp: PortSpec_json_def set_PortSpec_def zero_PortSpec_def struct_simps)

interpretation c_RateLimitRes: struct_codec RateLimitRes_json set_RateLimitRes zero_RateLimitRes "\<lambda>r. in64 (lr_Applied r)"
  by unfold_locales (auto simp: RateLimitRes_json_def set_RateLimitRes_def zero_RateLimitRes_def struct_simps)

interpretation c_UpdateAgent: struct_codec UpdateAgent_json set_UpdateAgent zero_UpdateAgent "\<lambda>r. True"
  by unfold_locales (auto simp: UpdateAgent_json_def set_UpdateAgent_def zero_UpdateAgent_def struct_simps)

interpretation c_UpdateRes: struct_codec UpdateRes_json set_UpdateRes zero_UpdateRes "\<lambda>r. True"
  by unfold_locales (auto simp: UpdateRes_json_def set_UpdateRes_def zero_UpdateRes_def struct_simps)

interpretation c_ProxyTraffic: struct_codec ProxyTraffic_json set_ProxyTraffic zero_ProxyTraffic "\<lambda>r. in64 (tr_RemotePort r)"
  by unfold_locales (auto simp: ProxyTraffic_json_def set_ProxyTraffic_def zero_ProxyTraffic_def struct_simps)

interpretation c_Event: struct_codec Event_json set_Event zero_Event "\<lambda>r. in64 (ev_AtMs r)"
  by unfold_locales (auto simp: Event_json_def set_Event_def zero_Event_def struct_simps)

interpretation c_ProxyList: struct_codec ProxyList_json set_ProxyList zero_ProxyList "\<lambda>r. \<forall>p\<in>set (pl_Proxies r). in64 (pi_RemotePort p)"
  by unfold_locales (auto simp: ProxyList_json_def set_ProxyList_def zero_ProxyList_def struct_simps c_ProxyInfo.slice_wf c_ProxyInfo.slice_put)

interpretation c_SetRateLimit: struct_codec SetRateLimit_json set_SetRateLimit zero_SetRateLimit "\<lambda>r. in64 (rl_Rate r) \<and> (\<forall>p\<in>set (rl_Ports r). in64 (ps_Port p))"
  by unfold_locales (auto simp: SetRateLimit_json_def set_SetRateLimit_def zero_SetRateLimit_def struct_simps c_PortSpec.slice_wf c_PortSpec.slice_put)

text \<open>A decimal text of a \<^verbatim>\<open>float64\<close> that reads back, as \<^verbatim>\<open>encoding/json\<close> documents.\<close>

definition float_text :: "(real \<Rightarrow> string) \<Rightarrow> (string \<Rightarrow> real option) \<Rightarrow> real \<Rightarrow> bool" where
  "float_text ff pf x \<longleftrightarrow> wf_json (JNum (ff x)) \<and> pf (ff x) = Some x"

definition valid_Metrics :: "(real \<Rightarrow> string) \<Rightarrow> (string \<Rightarrow> real option) \<Rightarrow> Metrics \<Rightarrow> bool" where
  "valid_Metrics ff pf m \<longleftrightarrow> in64 (m_Seq m) \<and> in64 (m_SampledAt m) \<and> float_text ff pf (m_CPU m) \<and> float_text ff pf (m_Mem m) \<and>
     (\<forall>p\<in>set (m_Proxies m). in64 (tr_RemotePort p))"

interpretation c_Metrics: struct_codec "Metrics_json ff" "set_Metrics pf" zero_Metrics "valid_Metrics ff pf" for ff pf
  by unfold_locales (auto simp: Metrics_json_def set_Metrics_def zero_Metrics_def struct_simps c_ProxyTraffic.slice_wf c_ProxyTraffic.slice_put
      valid_Metrics_def float_text_def dec_float_def)

section \<open>What is signed verifies\<close>

definition clocks_agree :: "int64 \<Rightarrow> int64 \<Rightarrow> bool" where
  "clocks_agree a b \<longleftrightarrow> 0 <s a \<and> 0 <s b \<and> sint a < 2 ^ 62 \<and> sint b < 2 ^ 62 \<and> \<bar>sint a - sint b\<bar> \<le> ReplayToleranceSec"

lemma Verify_agreeing: "clocks_agree (e_TS e) now \<Longrightarrow> Verify hmac (Sign hmac e token) token now = None"
  using time_distance_small[of now "e_TS e"]
  by (auto simp: clocks_agree_def Verify_def Sign_def Let_def ReplayToleranceSec_def abs_minus_commute not_less)

end
