(* ===== verification/Configfile.thy ===== *)
theory Configfile
  imports Codec Agentcfg
begin

text \<open>
  The file \<^verbatim>\<open>config.json\<close> of \<^verbatim>\<open>internal/agent/config.go\<close> as text: the indented JSON that \<^verbatim>\<open>Save\<close> writes to a temporary
  file and renames, and the reader of \<^verbatim>\<open>Load\<close>. \<open>Agentcfg\<close> keeps the decoded value; the lemmas here show that
  this is what the text gives back, and that an interrupted \<^verbatim>\<open>Save\<close> never loses the configuration.
\<close>

section \<open>The text\<close>

definition Config_json :: "Config \<Rightarrow> json" where
  "Config_json c = JObj
     [(''version'', JStr (cf_Version c)),
      (''bind_addr'', JStr (cf_BindAddr c)),
      (''agent_token'', JStr (cf_AgentToken c)),
      (''frps_token'', JStr (cf_FrpsToken c)),
      (''frps_bind_port'', jint (cf_FrpsBindPort c)),
      (''frps_admin_addr'', JStr (cf_FrpsAdminAddr c)),
      (''frps_admin_port'', jint (cf_FrpsAdminPort c)),
      (''frps_admin_user'', JStr (cf_FrpsAdminUser c)),
      (''frps_admin_pass'', JStr (cf_FrpsAdminPass c)),
      (''cert_file'', JStr (cf_CertFile c)),
      (''key_file'', JStr (cf_KeyFile c)),
      (''fingerprint'', JStr (cf_Fingerprint c)),
      (''public_ip'', JStr (cf_PublicIP c)),
      (''data_dir'', JStr (cf_DataDir c))]"

definition set_Config :: "Config setter" where
  "set_Config k v r =
     (if k = ''version'' then put dec_string cf_Version cf_Version_update v r
      else if k = ''bind_addr'' then put dec_string cf_BindAddr cf_BindAddr_update v r
      else if k = ''agent_token'' then put dec_string cf_AgentToken cf_AgentToken_update v r
      else if k = ''frps_token'' then put dec_string cf_FrpsToken cf_FrpsToken_update v r
      else if k = ''frps_bind_port'' then put dec_int cf_FrpsBindPort cf_FrpsBindPort_update v r
      else if k = ''frps_admin_addr'' then put dec_string cf_FrpsAdminAddr cf_FrpsAdminAddr_update v r
      else if k = ''frps_admin_port'' then put dec_int cf_FrpsAdminPort cf_FrpsAdminPort_update v r
      else if k = ''frps_admin_user'' then put dec_string cf_FrpsAdminUser cf_FrpsAdminUser_update v r
      else if k = ''frps_admin_pass'' then put dec_string cf_FrpsAdminPass cf_FrpsAdminPass_update v r
      else if k = ''cert_file'' then put dec_string cf_CertFile cf_CertFile_update v r
      else if k = ''key_file'' then put dec_string cf_KeyFile cf_KeyFile_update v r
      else if k = ''fingerprint'' then put dec_string cf_Fingerprint cf_Fingerprint_update v r
      else if k = ''public_ip'' then put dec_string cf_PublicIP cf_PublicIP_update v r
      else if k = ''data_dir'' then put dec_string cf_DataDir cf_DataDir_update v r
      else (r, True))"

definition zero_Config :: Config where
  "zero_Config = \<lparr>cf_Version = [], cf_BindAddr = [], cf_AgentToken = [], cf_FrpsToken = [], cf_FrpsBindPort = 0, cf_FrpsAdminAddr = [], cf_FrpsAdminPort = 0, cf_FrpsAdminUser = [], cf_FrpsAdminPass = [], cf_CertFile = [], cf_KeyFile = [], cf_Fingerprint = [], cf_PublicIP = [], cf_DataDir = []\<rparr>"

text \<open>\<^verbatim>\<open>MarshalIndent\<close> with an indent of two blanks, for an object whose members are strings and numbers.\<close>

fun indent_members :: "(string \<times> json) list \<Rightarrow> string" where
  "indent_members [] = []"
| "indent_members [(k, v)] = ''  '' @ quote_json k @ '': '' @ print_json v @ [CHR 0x0A]"
| "indent_members ((k, v) # kv # kvs) = ''  '' @ quote_json k @ '': '' @ print_json v @ [CHR '','', CHR 0x0A] @ indent_members (kv # kvs)"

definition MarshalIndent :: "json \<Rightarrow> string" where
  "MarshalIndent v = (case v of JObj kvs \<Rightarrow> [CHR ''{'', CHR 0x0A] @ indent_members kvs @ ''}'' | _ \<Rightarrow> print_json v)"

section \<open>Files\<close>

record config_files =
  cg_config :: "string option"
  cg_tmp :: "string option"

text \<open>\<^verbatim>\<open>Load\<close> over the text of the file; \<open>None\<close> when it cannot be read.\<close>

definition Load_file :: "string \<Rightarrow> string option \<Rightarrow> agent_error + Config" where
  "Load_file dataDir file =
     (case file of
        None \<Rightarrow> Inl ConfigMissing
      | Some b \<Rightarrow>
          (case parse_json b of
             None \<Rightarrow> Inl ConfigMissing
           | Some v \<Rightarrow>
               (case fill set_Config v zero_Config of
                  (c, fine) \<Rightarrow> if \<not> fine then Inl ConfigMissing else Inr (if cf_DataDir c = [] then c\<lparr>cf_DataDir := dataDir\<rparr> else c))))"

text \<open>
  \<open>sv_mkdir\<close>: whether the directory can be made; \<open>sv_cut\<close>: after how many bytes writing the temporary file fails,
  if it does; \<open>sv_rename\<close>: whether the renaming succeeds.
\<close>

record save_io =
  sv_mkdir :: bool
  sv_cut :: "nat option"
  sv_rename :: bool

definition Save_file :: "save_io \<Rightarrow> Config \<Rightarrow> config_files \<Rightarrow> agent_error option \<times> config_files" where
  "Save_file io c f =
     (if \<not> sv_mkdir io then (Some SaveErr, f)
      else let b = MarshalIndent (Config_json c)
           in case sv_cut io of
                Some n \<Rightarrow> (Some SaveErr, f\<lparr>cg_tmp := Some (take n b)\<rparr>)
              | None \<Rightarrow>
                  if \<not> sv_rename io then (Some SaveErr, f\<lparr>cg_tmp := Some b\<rparr>)
                  else (None, f\<lparr>cg_config := Some b, cg_tmp := None\<rparr>))"

text \<open>The states of the two files between the system calls of \<^verbatim>\<open>Save\<close> and inside the write: what a crash can leave.\<close>

definition Save_states :: "Config \<Rightarrow> config_files \<Rightarrow> config_files list" where
  "Save_states c f =
     (let b = MarshalIndent (Config_json c)
      in f # map (\<lambda>n. f\<lparr>cg_tmp := Some (take n b)\<rparr>) [0..<Suc (length b)] @ [f\<lparr>cg_config := Some b, cg_tmp := None\<rparr>])"

section \<open>Reading indented text\<close>

lemma ws_simps [simp]: "json_ws CHR '' ''" "json_ws CHR 0x0A"
  by (simp_all add: json_ws_def)

lemma skip_ws_Cons [simp]: "json_ws c \<Longrightarrow> skip_ws (c # s) = skip_ws s"
  by (simp add: skip_ws_def)

lemma parse_ws:
  "json_ws c \<Longrightarrow> parse_value n (c # s) = parse_value n s" "json_ws c \<Longrightarrow> parse_key (c # s) = parse_key s" "json_ws c \<Longrightarrow> parse_sep d (c # s) = parse_sep d s"
  "json_ws c \<Longrightarrow> parse_members n (c # s) = parse_members n s" "json_ws c \<Longrightarrow> starts d (c # s) = starts d s"
proof -
  assume w: "json_ws c"
  show "parse_value n (c # s) = parse_value n s" using w by (cases n) simp_all
  show k: "parse_key (c # s) = parse_key s" using w by (simp add: parse_key_def)
  show "parse_sep d (c # s) = parse_sep d s" using w by (simp add: parse_sep_def)
  show "parse_members n (c # s) = parse_members n s" by (cases n) (simp_all add: k)
  show "starts d (c # s) = starts d s" using w by (simp add: starts_def)
qed

lemma skip_ws_brace: "skip_ws (CHR ''{'' # t) = CHR ''{'' # t"
  by (simp add: skip_ws_def json_ws_def)

lemma num_end_newline [simp]: "num_end (CHR 0x0A # r)"
  by (simp add: num_end_def num_char_def is_digit_def digit_val_def)

lemma parse_indented:
  assumes "kvs \<noteq> []" "\<forall>(k, v)\<in>set kvs. wf_json v" "sum_list (map (\<lambda>(k, v). Suc (jfuel v)) kvs) \<le> m"
  shows "parse_members m (indent_members kvs @ CHR ''}'' # r) = Some (kvs, r)"
  using assms
proof (induction kvs arbitrary: m rule: indent_members.induct)
  case (2 k v)
  obtain n where m: "m = Suc n" using "2.prems"(3) by (cases m) auto
  show ?case using "2.prems" parse_print_value[of v n "CHR 0x0A # CHR ''}'' # r"] by (simp add: m parse_ws)
next
  case (3 k v kv kvs)
  obtain n where m: "m = Suc n" using "3.prems"(3) by (cases m) auto
  have "parse_members n (indent_members (kv # kvs) @ CHR ''}'' # r) = Some (kv # kvs, r)" using "3.prems" by (intro "3.IH") (auto simp: m)
  then show ?case using "3.prems" parse_print_value[of v n] by (simp add: m parse_ws)
qed simp

lemma MarshalIndent_read:
  assumes "kvs \<noteq> []" "\<forall>(k, v)\<in>set kvs. wf_json v"
  shows "parse_json (MarshalIndent (JObj kvs)) = Some (JObj kvs)"
proof -
  let ?n = "sum_list (map (\<lambda>(k, v). Suc (jfuel v)) kvs)" and ?s = "MarshalIndent (JObj kvs)"
  obtain k v rest where kvs: "kvs = (k, v) # rest" using assms(1) by (cases kvs) auto
  have "\<not> starts CHR ''}'' (indent_members kvs @ ''}'')"
    by (cases rest) (simp_all add: kvs parse_ws starts_def skip_ws_def quote_json_def json_ws_def)
  moreover have "parse_members ?n (indent_members kvs @ ''}'') = Some (kvs, [])" using parse_indented[OF assms order.refl, of "[]"] by simp
  ultimately have "parse_value (Suc ?n) ?s = Some (JObj kvs, [])"
    by (simp add: MarshalIndent_def skip_ws_brace parse_ws)
  then have "parse_value (2 * length ?s + 2) ?s = Some (JObj kvs, [])" using parse_fuel by blast
  then show ?thesis by (simp add: parse_json_def skip_ws_def)
qed

lemma ToLower_config_names [simp]:
  "ToLower ''bind_addr'' = ''bind_addr''"
  "ToLower ''agent_token'' = ''agent_token''"
  "ToLower ''frps_bind_port'' = ''frps_bind_port''"
  "ToLower ''frps_admin_addr'' = ''frps_admin_addr''"
  "ToLower ''frps_admin_port'' = ''frps_admin_port''"
  "ToLower ''frps_admin_user'' = ''frps_admin_user''"
  "ToLower ''frps_admin_pass'' = ''frps_admin_pass''"
  "ToLower ''cert_file'' = ''cert_file''"
  "ToLower ''key_file'' = ''key_file''"
  "ToLower ''fingerprint'' = ''fingerprint''"
  "ToLower ''public_ip'' = ''public_ip''"
  "ToLower ''data_dir'' = ''data_dir''"
  by (simp_all add: ToLower_def lower_char_def)

definition valid_Config :: "Config \<Rightarrow> bool" where
  "valid_Config c \<longleftrightarrow> in64 (cf_FrpsBindPort c) \<and> in64 (cf_FrpsAdminPort c)"

interpretation c_Config: struct_codec Config_json set_Config zero_Config valid_Config
  by unfold_locales (auto simp: Config_json_def set_Config_def zero_Config_def valid_Config_def struct_simps)

lemma Load_saved:
  assumes "valid_Config c"
  shows "Load_file dir (Some (MarshalIndent (Config_json c))) = Inr (if cf_DataDir c = [] then c\<lparr>cf_DataDir := dir\<rparr> else c)"
proof -
  have "parse_json (MarshalIndent (Config_json c)) = Some (Config_json c)"
    using c_Config.wf_enc[OF assms] unfolding Config_json_def by (intro MarshalIndent_read) simp_all
  then show ?thesis using c_Config.fill_enc[OF assms] by (simp add: Load_file_def)
qed

text \<open>\<open>Load\<close> and \<open>Save\<close> of \<open>Agentcfg\<close> are this, with the file kept as its value.\<close>

definition holds_config :: "agent_disk \<Rightarrow> config_files \<Rightarrow> bool" where
  "holds_config d f \<longleftrightarrow>
     (case dk_config d of
        None \<Rightarrow> Load_file [] (cg_config f) = Inl ConfigMissing
      | Some c \<Rightarrow> valid_Config c \<and> cg_config f = Some (MarshalIndent (Config_json c)))"

lemma Load_file_error: "Load_file dir file = Inl e \<longleftrightarrow> Load_file dir' file = Inl e"
  by (auto simp: Load_file_def split: option.splits prod.splits if_splits)

lemma Load_refines: "holds_config d f \<Longrightarrow> Load_file dir (cg_config f) = Load dir d"
  using Load_file_error[of "[]" "cg_config f" ConfigMissing dir] by (auto simp: holds_config_def Load_def Load_saved split: option.splits)

lemma Save_refines:
  assumes "holds_config d f" "valid_Config c" "Save_file io c f = (e, f')" "Save (e = None) c d = (e', d')"
  shows "e' = e \<and> holds_config d' f'"
  using assms by (auto simp: holds_config_def Save_file_def Save_def Let_def split: if_splits option.splits)

lemma Save_cut: "f\<lparr>cg_tmp := Some (take n (MarshalIndent (Config_json c)))\<rparr> \<in> set (Save_states c f)"
proof -
  let ?b = "MarshalIndent (Config_json c)"
  have "take n ?b = take (min n (length ?b)) ?b" by (simp add: min_def)
  moreover have "min n (length ?b) \<in> set [0..<Suc (length ?b)]" by auto
  ultimately have "f\<lparr>cg_tmp := Some (take n ?b)\<rparr> \<in> (\<lambda>n. f\<lparr>cg_tmp := Some (take n ?b)\<rparr>) ` set [0..<Suc (length ?b)]" by (intro image_eqI[where x = "min n (length ?b)"]) simp_all
  then show ?thesis unfolding Save_states_def Let_def set_simps set_append set_map by blast
qed

section \<open>Properties\<close>

text \<open>
  C19: the configuration survives an interrupted save. In whatever state of its files a crash leaves \<^verbatim>\<open>Save\<close>,
  and also when one of its steps fails, the next \<^verbatim>\<open>Load\<close> returns what it returned before or the new
  configuration in full, never a mixture and never an error that was not there; when \<^verbatim>\<open>Save\<close> reports success
  it returns the new one. \<open>Load\<close> and \<open>Save\<close> over the decoded value do the same.
\<close>
theorem config_save_atomic:
  assumes "valid_Config c" "cf_DataDir c \<noteq> []" "Save_file io c f = (e, f')"
  shows "f' \<in> set (Save_states c f) \<and> (\<forall>x\<in>set (Save_states c f). Load_file dir (cg_config x) \<in> {Load_file dir (cg_config f), Inr c}) \<and>
    Load_file dir (cg_config f') = (if e = None then Inr c else Load_file dir (cg_config f)) \<and>
    (holds_config d f \<longrightarrow> holds_config (snd (Save (e = None) c d)) f' \<and> Load dir (snd (Save (e = None) c d)) = Load_file dir (cg_config f'))"
proof -
  have s: "f' \<in> set (Save_states c f)"
    using assms(3) Save_cut[of _ c f] by (auto simp: Save_file_def Let_def split: if_splits option.splits) (auto simp: Save_states_def Let_def)
  have l: "\<forall>x\<in>set (Save_states c f). Load_file dir (cg_config x) \<in> {Load_file dir (cg_config f), Inr c}"
    using Load_saved[OF assms(1), of dir] assms(2) by (auto simp: Save_states_def Let_def)
  have r: "Load_file dir (cg_config f') = (if e = None then Inr c else Load_file dir (cg_config f))"
    using assms(3) Load_saved[OF assms(1), of dir] assms(2) by (auto simp: Save_file_def Let_def split: if_splits option.splits)
  have "holds_config (snd (Save (e = None) c d)) f'" if "holds_config d f"
    using Save_refines[OF that assms(1,3), of "fst (Save (e = None) c d)"] by simp
  then show ?thesis using s l r Load_refines[of "snd (Save (e = None) c d)" f' dir] by auto
qed

theorem config_save_atomic_witness:
  "Load_file [] (cg_config (snd (Save_file \<lparr>sv_mkdir = True, sv_cut = Some 9, sv_rename = True\<rparr> (fresh_config ''2'' (ex_env ''b'') (init_defaults ex_opt))
     \<lparr>cg_config = Some (MarshalIndent (Config_json (fresh_config ''1'' (ex_env ''a'') (init_defaults ex_opt)))), cg_tmp = None\<rparr>))) = Inr (fresh_config ''1'' (ex_env ''a'') (init_defaults ex_opt))"
proof -
  let ?c = "\<lambda>v s. fresh_config v (ex_env s) (init_defaults ex_opt)"
  have v: "valid_Config (?c v s)" "cf_DataDir (?c v s) \<noteq> []" for v s
    using pickAdminPort_range[of 1 2] by (simp_all add: valid_Config_def fresh_config_def in64_def ex_env_def init_defaults_def ex_opt_def DefaultDataDir_def)
  have "Load_file [] (Some (MarshalIndent (Config_json (?c ''1'' ''a'')))) = Inr (?c ''1'' ''a'')" using Load_saved[OF v(1)] v(2) by simp
  then show ?thesis
    using config_save_atomic[OF v, of "\<lparr>sv_mkdir = True, sv_cut = Some 9, sv_rename = True\<rparr>" "''2''" "''b''"
        "\<lparr>cg_config = Some (MarshalIndent (Config_json (?c ''1'' ''a''))), cg_tmp = None\<rparr>" "Some SaveErr" _ "[]"]
    by (simp add: Save_file_def Let_def)
qed

end
