(* ===== verification/Certs.thy ===== *)
theory Certs
  imports Receipt Gotime
begin

text \<open>
  \<^verbatim>\<open>internal/certutil/certutil.go\<close>: the self-signed certificate of an agent and its fingerprint. Key
  generation, signing, the DER and PEM encodings and the reader of addresses are arguments.
\<close>

text \<open>\<open>pem\<close> gives the type and the bytes of the first block of a PEM text.\<close>

definition FingerprintPEM :: "(string \<Rightarrow> (string \<times> string) option) \<Rightarrow> (string \<Rightarrow> string) \<Rightarrow> string \<Rightarrow> string option" where
  "FingerprintPEM pem sha256hex certPEM =
     (case pem certPEM of
        None \<Rightarrow> None
      | Some (typ, der) \<Rightarrow> if typ \<noteq> ''CERTIFICATE'' then None else Some (Fingerprint sha256hex der))"

section \<open>The certificate\<close>

text \<open>The fields of the template the program sets; times in seconds.\<close>

record cert_template =
  ct_SerialNumber :: nat
  ct_CommonName :: string
  ct_NotBefore :: int
  ct_NotAfter :: int
  ct_KeyUsage :: "string list"
  ct_ExtKeyUsage :: "string list"
  ct_BasicConstraintsValid :: bool
  ct_IPAddresses :: "string list"
  ct_DNSNames :: "string list"

text \<open>
  \<open>xk_key\<close>: the generated key; \<open>xk_serial\<close>: the random serial number below \<open>2^128\<close>; \<open>xk_parseIP\<close>: whether
  \<^verbatim>\<open>net.ParseIP\<close> accepts a text; \<open>xk_create\<close>: \<^verbatim>\<open>x509.CreateCertificate\<close>, self-signed with the key; \<open>xk_marshal\<close>: the
  key in DER; \<open>xk_pem\<close>: a PEM block of a type and bytes.
\<close>

record x509_kit =
  xk_key :: "string option"
  xk_serial :: "nat option"
  xk_now :: int
  xk_parseIP :: "string \<Rightarrow> bool"
  xk_create :: "cert_template \<Rightarrow> string \<Rightarrow> string option"
  xk_marshal :: "string \<Rightarrow> string option"
  xk_pem :: "string \<Rightarrow> string \<Rightarrow> string"

text \<open>The loop over the hosts.\<close>

definition add_host :: "(string \<Rightarrow> bool) \<Rightarrow> string \<Rightarrow> cert_template \<Rightarrow> cert_template" where
  "add_host parseIP h0 t =
     (let h = TrimSpace h0
      in if h = [] then t
         else if parseIP h then t\<lparr>ct_IPAddresses := ct_IPAddresses t @ [h]\<rparr> else t\<lparr>ct_DNSNames := ct_DNSNames t @ [h]\<rparr>)"

definition cert_for :: "x509_kit \<Rightarrow> nat \<Rightarrow> string list \<Rightarrow> cert_template" where
  "cert_for k serial hosts =
     fold (add_host (xk_parseIP k)) hosts
       \<lparr>ct_SerialNumber = serial, ct_CommonName = ''frpanel-agent'', ct_NotBefore = xk_now k - 3600, ct_NotAfter = AddDate_years (xk_now k) 10,
        ct_KeyUsage = [''DigitalSignature'', ''KeyEncipherment''], ct_ExtKeyUsage = [''ServerAuth''], ct_BasicConstraintsValid = True, ct_IPAddresses = [], ct_DNSNames = []\<rparr>"

definition GenerateSelfSigned :: "x509_kit \<Rightarrow> string list \<Rightarrow> (string \<times> string) option" where
  "GenerateSelfSigned k hosts =
     (case xk_key k of
        None \<Rightarrow> None
      | Some key \<Rightarrow>
          (case xk_serial k of
             None \<Rightarrow> None
           | Some serial \<Rightarrow>
               (case xk_create k (cert_for k serial hosts) key of
                  None \<Rightarrow> None
                | Some der \<Rightarrow>
                    (case xk_marshal k key of
                       None \<Rightarrow> None
                     | Some keyDER \<Rightarrow> Some (xk_pem k ''CERTIFICATE'' der, xk_pem k ''EC PRIVATE KEY'' keyDER)))))"

definition FormatDER :: "string \<Rightarrow> string" where
  "FormatDER der = Itoa (int (length der)) @ '' bytes''"

text \<open>Every host that is not blank is named in the certificate, as an address or as a name, and nothing else is.\<close>

lemma add_hosts_names:
  "set (ct_IPAddresses (fold (add_host p) hosts t)) = set (ct_IPAddresses t) \<union> {h \<in> TrimSpace ` set hosts. h \<noteq> [] \<and> p h} \<and>
   set (ct_DNSNames (fold (add_host p) hosts t)) = set (ct_DNSNames t) \<union> {h \<in> TrimSpace ` set hosts. h \<noteq> [] \<and> \<not> p h}"
  by (induction hosts arbitrary: t) (auto simp: add_host_def Let_def)

text \<open>
  The fingerprint of a generated certificate is over its DER bytes, provided reading a PEM block gives
  back what was written.
\<close>

lemma generated_fingerprint:
  assumes "GenerateSelfSigned k hosts = Some (cert, key)" "\<And>typ der. pem (xk_pem k typ der) = Some (typ, der)"
  shows "\<exists>serial kk der. xk_create k (cert_for k serial hosts) kk = Some der \<and> FingerprintPEM pem sha cert = Some (Fingerprint sha der)"
  using assms by (auto simp: GenerateSelfSigned_def FingerprintPEM_def split: option.splits) blast

end
