(* ===== verification/Endtoend.thy ===== *)
theory Endtoend
  imports Codec Certs Replay Mappings_Api Nodes_Api
begin

text \<open>
  The panel and an agent together. The operations of both sides are connected by the text on the wire:
  what one side writes is the text of \<open>Codec\<close>, what the other side's handlers take as decoded values is
  read from that text. Here the arguments of the agent's and the panel's definitions that stand for
  decoding are the decoders of \<open>Codec\<close>. The lemmas follow a node from its installation over the
  registration and the handshake to the firewall rules of its ports.
\<close>

section \<open>Messages on the wire\<close>

text \<open>The type and the payload the panel writes for a command.\<close>

fun panel_type :: "panel_cmd \<Rightarrow> string" where
  "panel_type (CHello h) = TypeHello"
| "panel_type CListProxies = TypeListProxies"
| "panel_type (CPortCheck p) = TypePortCheck"
| "panel_type (CSetRateLimit r) = TypeSetRateLimit"
| "panel_type (CRestartFrps r) = TypeRestartFrps"
| "panel_type (CUpdateAgent u) = TypeUpdateAgent"

fun panel_json :: "panel_cmd \<Rightarrow> json option" where
  "panel_json (CHello h) = Some (Hello_json h)"
| "panel_json CListProxies = None"
| "panel_json (CPortCheck p) = Some (PortCheck_json p)"
| "panel_json (CSetRateLimit r) = Some (SetRateLimit_json r)"
| "panel_json (CRestartFrps r) = Some (RestartFrps_json r)"
| "panel_json (CUpdateAgent u) = Some (UpdateAgent_json u)"

definition panel_text :: "mac \<Rightarrow> int64 \<Rightarrow> string \<Rightarrow> string \<Rightarrow> panel_cmd \<Rightarrow> string option" where
  "panel_text hmac now token i cmd = conn_write hmac now token (panel_type cmd) i (panel_json cmd)"

fun agent_json :: "(real \<Rightarrow> string) \<Rightarrow> agent_payload \<Rightarrow> json option" where
  "agent_json ff PNone = None"
| "agent_json ff (PHelloAck a) = Some (HelloAck_json a)"
| "agent_json ff (PPortCheckRes r) = Some (PortCheckRes_json r)"
| "agent_json ff (PProxyList ps) = Some (ProxyList_json \<lparr>pl_Proxies = ps\<rparr>)"
| "agent_json ff (PRestartRes r) = Some (RestartRes_json r)"
| "agent_json ff (PRateLimitRes r) = Some (RateLimitRes_json r)"
| "agent_json ff (PUpdateRes r) = Some (UpdateRes_json r)"
| "agent_json ff (PMetrics m) = Some (Metrics_json ff m)"
| "agent_json ff (PEvent ev) = Some (Event_json ev)"

text \<open>\<^verbatim>\<open>writer\<close> of the agent: \<^verbatim>\<open>json.Marshal\<close> of the signed envelope.\<close>

definition agent_text :: "mac \<Rightarrow> (real \<Rightarrow> string) \<Rightarrow> string \<Rightarrow> out_msg \<Rightarrow> string option" where
  "agent_text hmac ff token m = Envelope_text (wire hmac (\<lambda>p. payload_text (agent_json ff p)) token m)"

text \<open>The decoders both sides apply to payloads.\<close>

definition read_Hello :: "string \<Rightarrow> Hello" where "read_Hello p = fst (Envelope_Decode set_Hello zero_Hello p)"
definition read_HelloAck :: "string \<Rightarrow> HelloAck" where "read_HelloAck p = fst (Envelope_Decode set_HelloAck zero_HelloAck p)"
definition read_PortCheck :: "string \<Rightarrow> PortCheck" where "read_PortCheck p = fst (Envelope_Decode set_PortCheck zero_PortCheck p)"
definition read_RestartFrps :: "string \<Rightarrow> RestartFrps" where "read_RestartFrps p = fst (Envelope_Decode set_RestartFrps zero_RestartFrps p)"
definition read_SetRateLimit :: "string \<Rightarrow> SetRateLimit" where "read_SetRateLimit p = fst (Envelope_Decode set_SetRateLimit zero_SetRateLimit p)"
definition read_UpdateAgent :: "string \<Rightarrow> UpdateAgent" where "read_UpdateAgent p = fst (Envelope_Decode set_UpdateAgent zero_UpdateAgent p)"

definition read_Metrics :: "(string \<Rightarrow> real option) \<Rightarrow> string \<Rightarrow> Metrics option" where
  "read_Metrics pf p = (let (m, fine) = Envelope_Decode (set_Metrics pf) zero_Metrics p in if fine then Some m else None)"

definition read_Event :: "string \<Rightarrow> Event option" where
  "read_Event p = (let (ev, fine) = Envelope_Decode set_Event zero_Event p in if fine then Some ev else None)"

fun valid_cmd :: "panel_cmd \<Rightarrow> bool" where
  "valid_cmd (CHello h) \<longleftrightarrow> in64 (h_MinAgentProto h) \<and> in64 (h_LastCommitSeq h)"
| "valid_cmd (CPortCheck p) \<longleftrightarrow> in64 (pc_Port p)"
| "valid_cmd (CSetRateLimit r) \<longleftrightarrow> in64 (rl_Rate r) \<and> (\<forall>p\<in>set (rl_Ports r). in64 (ps_Port p))"
| "valid_cmd _ \<longleftrightarrow> True"

text \<open>How the agent's handlers read the payload of a command.\<close>

fun agent_reads :: "panel_cmd \<Rightarrow> string \<Rightarrow> bool" where
  "agent_reads (CHello h) p \<longleftrightarrow> read_Hello p = h"
| "agent_reads CListProxies p \<longleftrightarrow> p = []"
| "agent_reads (CPortCheck r) p \<longleftrightarrow> read_PortCheck p = r"
| "agent_reads (CSetRateLimit r) p \<longleftrightarrow> read_SetRateLimit p = r"
| "agent_reads (CRestartFrps r) p \<longleftrightarrow> read_RestartFrps p = r"
| "agent_reads (CUpdateAgent u) p \<longleftrightarrow> read_UpdateAgent p = u"

lemma payload_carries:
  assumes "\<And>v. p = Some v \<Longrightarrow> wf_json v"
  shows "carries p (Sign hmac (Marshal now ProtocolVersion typ i (payload_text p)) token)"
  using assms by (cases p) (simp_all add: carries_def Sign_def Marshal_def in64_def ProtocolVersion_def)

lemma panel_json_wf: "valid_cmd cmd \<Longrightarrow> panel_json cmd = Some v \<Longrightarrow> wf_json v"
  using c_Hello.wf_enc c_PortCheck.wf_enc c_SetRateLimit.wf_enc c_RestartFrps.wf_enc c_UpdateAgent.wf_enc
  by (cases cmd) auto

lemma panel_payload_read: "valid_cmd cmd \<Longrightarrow> agent_reads cmd (payload_text (panel_json cmd))"
  by (cases cmd) (simp_all add: payload_text_def read_Hello_def read_PortCheck_def read_SetRateLimit_def read_RestartFrps_def read_UpdateAgent_def
      c_Hello.decode_text c_PortCheck.decode_text c_SetRateLimit.decode_text c_RestartFrps.decode_text c_UpdateAgent.decode_text)

text \<open>The panel's commands reach the agent: the text exists and is read as the signed envelope.\<close>

lemma panel_text_read:
  assumes "valid_cmd cmd" and env_def: "env = Sign hmac (Marshal now ProtocolVersion (panel_type cmd) i (payload_text (panel_json cmd))) token"
  shows "\<exists>t. panel_text hmac now token i cmd = Some t \<and> read_Envelope t = Some env"
proof -
  have c: "carries (panel_json cmd) env" unfolding env_def by (rule payload_carries) (rule panel_json_wf[OF assms(1)])
  then obtain t where "Envelope_text env = Some t" using Envelope_text_json by blast
  then show ?thesis using read_Envelope_text[OF c] by (simp add: panel_text_def conn_write_def env_def)
qed

lemma signed_fields [simp]:
  "e_Type (Sign hmac (Marshal now ver typ i p) token) = typ" "e_ID (Sign hmac (Marshal now ver typ i p) token) = i"
  "e_TS (Sign hmac (Marshal now ver typ i p) token) = now" "e_Payload (Sign hmac (Marshal now ver typ i p) token) = p"
  by (simp_all add: Sign_def Marshal_def)

lemma Verify_signed [simp]: "clocks_agree now now' \<Longrightarrow> Verify hmac (Sign hmac (Marshal now ver typ i p) token) token now' = None"
  by (rule Verify_agreeing) (simp add: Marshal_def)

text \<open>And back: the messages of the agent.\<close>

fun valid_payload :: "(real \<Rightarrow> string) \<Rightarrow> (string \<Rightarrow> real option) \<Rightarrow> agent_payload \<Rightarrow> bool" where
  "valid_payload ff pf (PHelloAck a) \<longleftrightarrow> in64 (ha_Proto a) \<and> in64 (ha_FrpsPort a)"
| "valid_payload ff pf (PPortCheckRes r) \<longleftrightarrow> in64 (pr_Port r)"
| "valid_payload ff pf (PProxyList ps) \<longleftrightarrow> (\<forall>p\<in>set ps. in64 (pi_RemotePort p))"
| "valid_payload ff pf (PRateLimitRes r) \<longleftrightarrow> in64 (lr_Applied r)"
| "valid_payload ff pf (PMetrics m) \<longleftrightarrow> valid_Metrics ff pf m"
| "valid_payload ff pf (PEvent ev) \<longleftrightarrow> in64 (ev_AtMs ev)"
| "valid_payload ff pf _ \<longleftrightarrow> True"

fun panel_reads :: "(string \<Rightarrow> real option) \<Rightarrow> agent_payload \<Rightarrow> string \<Rightarrow> bool" where
  "panel_reads pf PNone p \<longleftrightarrow> p = []"
| "panel_reads pf (PHelloAck a) p \<longleftrightarrow> read_HelloAck p = a"
| "panel_reads pf (PPortCheckRes r) p \<longleftrightarrow> Envelope_Decode set_PortCheckRes zero_PortCheckRes p = (r, True)"
| "panel_reads pf (PProxyList ps) p \<longleftrightarrow> Envelope_Decode set_ProxyList zero_ProxyList p = (\<lparr>pl_Proxies = ps\<rparr>, True)"
| "panel_reads pf (PRestartRes r) p \<longleftrightarrow> Envelope_Decode set_RestartRes zero_RestartRes p = (r, True)"
| "panel_reads pf (PRateLimitRes r) p \<longleftrightarrow> Envelope_Decode set_RateLimitRes zero_RateLimitRes p = (r, True)"
| "panel_reads pf (PUpdateRes r) p \<longleftrightarrow> Envelope_Decode set_UpdateRes zero_UpdateRes p = (r, True)"
| "panel_reads pf (PMetrics m) p \<longleftrightarrow> read_Metrics pf p = Some m"
| "panel_reads pf (PEvent ev) p \<longleftrightarrow> read_Event p = Some ev"

lemma agent_json_wf: "valid_payload ff pf p \<Longrightarrow> agent_json ff p = Some v \<Longrightarrow> wf_json v"
  using c_HelloAck.wf_enc c_PortCheckRes.wf_enc c_ProxyList.wf_enc c_RestartRes.wf_enc c_RateLimitRes.wf_enc c_UpdateRes.wf_enc c_Metrics.wf_enc c_Event.wf_enc
  by (cases p) auto

lemma agent_payload_read: "valid_payload ff pf p \<Longrightarrow> panel_reads pf p (payload_text (agent_json ff p))"
  by (cases p) (simp_all add: payload_text_def read_HelloAck_def read_Metrics_def read_Event_def
      c_HelloAck.decode_text c_PortCheckRes.decode_text c_ProxyList.decode_text c_RestartRes.decode_text c_RateLimitRes.decode_text
      c_UpdateRes.decode_text c_Metrics.decode_text c_Event.decode_text)

lemma agent_text_read:
  assumes "valid_payload ff pf (om_Payload m)"
  shows "\<exists>t. agent_text hmac ff token m = Some t \<and> read_Envelope t = Some (wire hmac (\<lambda>p. payload_text (agent_json ff p)) token m)"
proof -
  let ?env = "wire hmac (\<lambda>p. payload_text (agent_json ff p)) token m"
  have c: "carries (agent_json ff (om_Payload m)) ?env"
    unfolding wire_def by (rule payload_carries) (rule agent_json_wf[OF assms])
  then obtain t where "Envelope_text ?env = Some t" using Envelope_text_json by blast
  then show ?thesis using read_Envelope_text[OF c] by (simp add: agent_text_def)
qed

section \<open>The handshake\<close>

text \<open>The hello a session starts with: the watermark is the newer of the row's and the pipeline's.\<close>

definition session_hello :: "panel_env \<Rightarrow> NodeConn \<Rightarrow> Panel \<Rightarrow> Hello" where
  "session_hello e c P =
     (let s = CommitSeq (nc_nodeID c) (pn_app P); lastSeq = (if nd_LastCommitSeq (nc_node c) < s then s else nd_LastCommitSeq (nc_node c))
      in \<lparr>h_PanelVersion = pe_version e, h_MinAgentProto = MinAgentProtocol, h_LastCommitSeq = lastSeq\<rparr>)"

lemma session_start_verified:
  assumes "map_of (pn_objs P) oid = Some c" "sn_dial se" "sn_sent se" "sn_ack se = Some env" "Verify (pe_hmac e) env (nd_AgentToken (nc_node c)) (sn_unix se) = None"
  shows "\<exists>P1. session_start e se oid P = (True, session_up e oid (nc_nodeID c) (sn_decode se (e_Payload env)) (h_LastCommitSeq (session_hello e c P)) (nc_node c) P1) \<and>
    pn_sent P1 = pn_sent P @ [(nc_nodeID c, CHello (session_hello e c P))] \<and> pn_app P1 = pn_app P \<and> (\<exists>c1. map_of (pn_objs P1) oid = Some c1 \<and> nc_conn c1 \<and> nc_nodeID c1 = nc_nodeID c)"
  using assms by (auto simp: session_start_def session_hello_def Let_def on_obj_objs newID_def)

text \<open>What the driver has learned once its session is up.\<close>

lemma session_up_learned:
  assumes "map_of (pn_objs P) oid = Some c"
  shows "\<exists>c'. map_of (pn_objs (session_up e oid i ack l node P)) oid = Some c' \<and> nc_up c' \<and> nc_conn c' = nc_conn c \<and> nc_node c' = fst (learn ack node) \<and> nc_nodeID c' = nc_nodeID c"
proof -
  have r: "pn_objs (snd (run_app f Q)) = pn_objs Q" for f :: "App \<Rightarrow> (db_error + unit) \<times> App" and Q by (simp add: run_app_def split: prod.split)
  show ?thesis using assms by (auto simp: session_up_def Let_def on_obj_objs r split: prod.split)
qed

lemma session_up_sent: "pn_sent (session_up e oid i ack l node P) = pn_sent P"
proof -
  have r: "pn_sent (snd (run_app f Q)) = pn_sent Q" for f :: "App \<Rightarrow> (db_error + unit) \<times> App" and Q by (simp add: run_app_def split: prod.split)
  show ?thesis by (auto simp: session_up_def Let_def r split: prod.split)
qed

text \<open>The session an accepted hello opens, with the acknowledgement as its first message.\<close>

lemma handleWS_accepts:
  assumes "\<not> fst (auth_Blocked (we_ip we) (we_now we) (sv_limiter s))" "we_upgrade we" "we_read we = FirstFrame (Some env)" "e_Type env = TypeHello"
    "Verify hmac env (cf_AgentToken (sv_cfg s)) (we_unix we) = None"
  shows "\<exists>s' ss. handleWS hmac we sid s = (ws_result.Connected, s') \<and> map_of (sv_sessions s') sid = Some ss \<and> sv_cfg s' = sv_cfg s \<and>
    ss_send ss = [sign (we_unix we) TypeHelloAck (e_ID env) (PHelloAck (hello_ack we (we_hello we (e_Payload env)) (sv_cfg s)))] \<and> \<not> ss_done ss \<and> \<not> ss_ready ss"
  using assms by (auto simp: handleWS_def Let_def enqueue_def send_or_drop_def sendBuffer_def gomap_simps split: prod.split)

text \<open>
  One run of the handshake over the wire: the panel's hello, the agent's answer to it, and the answer's
  text. \<open>punix\<close> is the panel's clock when it writes; the agent's clock is in \<open>we\<close>.
\<close>

definition answer_hello :: "mac \<Rightarrow> (real \<Rightarrow> string) \<Rightarrow> ws_env \<Rightarrow> int \<Rightarrow> string option \<Rightarrow> Server \<Rightarrow> string option \<times> Server" where
  "answer_hello hmac ff we sid t s =
     (case t of
        None \<Rightarrow> (None, s)
      | Some txt \<Rightarrow>
          (case handleWS hmac (we\<lparr>we_read := FirstFrame (read_Envelope txt), we_hello := read_Hello\<rparr>) sid s of
             (ws_result.Connected, s') \<Rightarrow>
               (case map_of (sv_sessions s') sid of
                  None \<Rightarrow> (None, s')
                | Some ss \<Rightarrow>
                    (case writer_step ss of
                       None \<Rightarrow> (None, s')
                     | Some (m, ss') \<Rightarrow> (agent_text hmac ff (cf_AgentToken (sv_cfg s')) m, upd_session sid (\<lambda>_. ss') s')))
           | (_, s') \<Rightarrow> (None, s')))"

lemma agent_answers:
  assumes "valid_cmd (CHello h)" "in64 (cf_FrpsBindPort (sv_cfg s))" "\<not> fst (auth_Blocked (we_ip we) (we_now we) (sv_limiter s))" "we_upgrade we"
    "clocks_agree punix (we_unix we)" "token = cf_AgentToken (sv_cfg s)"
  shows "\<exists>t s' env. answer_hello hmac ff we sid (panel_text hmac punix token i (CHello h)) s = (Some t, s') \<and> read_Envelope t = Some env \<and>
    e_Type env = TypeHelloAck \<and> e_ID env = i \<and> (\<forall>now. clocks_agree (we_unix we) now \<longrightarrow> Verify hmac env token now = None) \<and>
    read_HelloAck (e_Payload env) = hello_ack we h (sv_cfg s) \<and> sid \<in> fst ` set (sv_sessions s') \<and> sv_cfg s' = sv_cfg s"
proof -
  let ?env = "Sign hmac (Marshal punix ProtocolVersion TypeHello i (payload_text (panel_json (CHello h)))) token"
  obtain ht where ht: "panel_text hmac punix token i (CHello h) = Some ht" "read_Envelope ht = Some ?env"
    using panel_text_read[OF assms(1) refl, of hmac punix token i] by auto
  have rh: "read_Hello (payload_text (panel_json (CHello h))) = h" using panel_payload_read[OF assms(1)] by (simp only: agent_reads.simps)
  let ?we = "we\<lparr>we_read := FirstFrame (read_Envelope ht), we_hello := read_Hello\<rparr>"
  let ?m = "sign (we_unix we) TypeHelloAck i (PHelloAck (hello_ack we h (sv_cfg s)))"
  have ha: "hello_ack ?we h (sv_cfg s) = hello_ack we h (sv_cfg s)" by (simp add: hello_ack_def Let_def)
  have "Verify hmac ?env (cf_AgentToken (sv_cfg s)) (we_unix ?we) = None" using assms(5) by (simp add: assms(6)[symmetric])
  then obtain s' ss where s': "handleWS hmac ?we sid s = (ws_result.Connected, s')" "map_of (sv_sessions s') sid = Some ss" "sv_cfg s' = sv_cfg s"
      "ss_send ss = [?m]" "\<not> ss_done ss"
    using handleWS_accepts[of ?we s ?env hmac sid] assms(3,4) ht(2) rh ha by auto
  then have w: "writer_step ss = Some (?m, ss\<lparr>ss_send := []\<rparr>)" by (simp add: writer_step_def)
  have "valid_payload ff pf (om_Payload ?m)" for pf
    using assms(2) by (simp add: sign_def hello_ack_def Let_def in64_def ProtocolVersion_def)
  then obtain t where t: "agent_text hmac ff token ?m = Some t" "read_Envelope t = Some (wire hmac (\<lambda>p. payload_text (agent_json ff p)) token ?m)"
    and rd: "read_HelloAck (payload_text (agent_json ff (om_Payload ?m))) = hello_ack we h (sv_cfg s)"
    using agent_text_read[of ff _ ?m] agent_payload_read[of ff _ "om_Payload ?m"] by (auto simp: sign_def)
  have "sid \<in> fst ` set (sv_sessions (upd_session sid (\<lambda>_. ss\<lparr>ss_send := []\<rparr>) s'))"
    using s'(2) by (simp add: upd_session_def dom_update)
  moreover have "sv_cfg (upd_session sid f s') = sv_cfg s" for f using s'(2,3) by (simp add: upd_session_def)
  ultimately show ?thesis using t rd s' ht w
    by (auto simp: answer_hello_def wire_def sign_def assms(6))
qed

section \<open>Heartbeats\<close>

text \<open>
  \<^verbatim>\<open>heartbeat\<close> of a session over its ticks (the two clocks, and whether the socket takes the text): the texts
  written, until a write fails or the context ends.
\<close>

fun heartbeat :: "mac \<Rightarrow> string \<Rightarrow> (int64 \<times> int \<times> bool) list \<Rightarrow> NodeConn \<Rightarrow> string list \<times> NodeConn" where
  "heartbeat hmac token [] c = ([], c)"
| "heartbeat hmac token ((unix, nano, sent) # ts) c =
     (let (i, c) = newID nano c
      in case conn_write hmac unix token TypePing i None of
           None \<Rightarrow> ([], c)
         | Some text \<Rightarrow> if \<not> sent then ([], c) else (let (texts, c) = heartbeat hmac token ts c in (text # texts, c)))"

text \<open>Every heartbeat that is written is read by the agent and answered on the session it came from.\<close>

lemma heartbeat_answered:
  assumes "t \<in> set (fst (heartbeat hmac token ts c))" "\<forall>(unix, nano, sent)\<in>set ts. clocks_agree unix (de_unix de)" "token = cf_AgentToken (sv_cfg s)"
    "map_of (sv_sessions s) sid = Some ss" "length (ss_send ss) < sendBuffer"
  shows "\<exists>env s'. read_Envelope t = Some env \<and> reader_step hmac de sid (Some env) s = (True, s', None) \<and>
    map_of (sv_sessions s') sid = Some (ss\<lparr>ss_send := ss_send ss @ [sign (de_unix de) TypePong (e_ID env) PNone]\<rparr>)"
  using assms(1,2)
proof (induction ts arbitrary: c)
  case (Cons tk ts)
  obtain unix nano sent where tk: "tk = (unix, nano, sent)" by (cases tk)
  obtain i c' where i: "newID nano c = (i, c')" by (cases "newID nano c")
  let ?env = "Sign hmac (Marshal unix ProtocolVersion TypePing i []) token"
  have "carries None ?env" using payload_carries[of None] by (simp add: payload_text_def)
  then obtain x where x: "Envelope_text ?env = Some x" "read_Envelope x = Some ?env" using Envelope_text_json read_Envelope_text by blast
  then have w: "conn_write hmac unix token TypePing i None = Some x" by (simp add: conn_write_def payload_text_def)
  show ?case
  proof (cases "t = x")
    case True
    have "Verify hmac ?env (cf_AgentToken (sv_cfg s)) (de_unix de) = None" using Cons.prems(2) assms(3) tk by simp
    then show ?thesis using True x(2) assms(4,5)
      by (auto simp: reader_step_def dispatch_def Let_def enqueueReply_def upd_session_def enqueue_def send_or_drop_def gomap_simps)
  next
    case False
    then have "t \<in> set (fst (heartbeat hmac token ts c'))" using Cons.prems(1) w i tk by (auto simp: Let_def split: if_splits prod.splits)
    then show ?thesis using Cons.IH Cons.prems(2) by auto
  qed
qed simp

section \<open>Registration\<close>

text \<open>SHA-256 in hexadecimal: 64 digits.\<close>

definition hex_digest :: "(string \<Rightarrow> string) \<Rightarrow> bool" where
  "hex_digest sha \<longleftrightarrow> (\<forall>x. length (sha x) = 64 \<and> set (sha x) \<subseteq> set ''0123456789abcdef'')"

lemma TrimSpace_id: "s \<noteq> [] \<Longrightarrow> \<not> go_space (hd s) \<Longrightarrow> \<not> go_space (last s) \<Longrightarrow> TrimSpace s = s"
proof -
  assume s: "s \<noteq> []" "\<not> go_space (hd s)" "\<not> go_space (last s)"
  then have "dropWhile go_space s = s" "dropWhile go_space (rev s) = rev s" by (simp_all add: dropWhile_eq_self_iff hd_rev)
  then show ?thesis by (simp add: TrimSpace_def)
qed

lemma hex_digest_equal:
  assumes "hex_digest sha" shows "EqualFingerprint (''sha256:'' @ sha der) (''sha256:'' @ sha der)"
proof -
  let ?h = "sha der" and ?f = "''sha256:'' @ sha der"
  have h: "set ?h \<subseteq> set ''0123456789abcdef''" using assms unfolding hex_digest_def by fast
  have l: "length ?h = 64" using assms unfolding hex_digest_def by fast
  then have ne: "?h \<noteq> []" by (cases ?h) simp_all
  then have "last ?h \<in> set ''0123456789abcdef''" using h last_in_set by blast
  then have "\<not> go_space (last ?f)" using ne by (auto simp: go_space_def)
  then have t: "TrimSpace ?f = ?f" by (intro TrimSpace_id) (simp_all add: go_space_def)
  have "lower_char c = c" if "c \<in> set ''0123456789abcdef''" for c using that by (auto simp: lower_char_def)
  then have "ToLower ?h = ?h" using h by (simp add: ToLower_def map_idI subset_iff)
  then have low: "ToLower ?f = ?f" by (simp add: ToLower_def lower_char_def)
  have "norm_fp ?f = filter (\<lambda>c. c \<noteq> CHR '':'') ?h" unfolding norm_fp_def t low by (simp add: TrimPrefix_def HasPrefix_def)
  also have "\<dots> = ?h" using h by (intro filter_True) auto
  finally show ?thesis using ne by (simp add: EqualFingerprint_def)
qed

text \<open>
  What the panel's check of a new node meets when it dials the agent: the certificate of the agent's
  disk, and the agent's answer to the hello the check writes.
\<close>

definition verify_hello :: "string \<Rightarrow> Hello" where
  "verify_hello ver = \<lparr>h_PanelVersion = ver, h_MinAgentProto = MinAgentProtocol, h_LastCommitSeq = 0\<rparr>"

definition dialled :: "mac \<Rightarrow> (real \<Rightarrow> string) \<Rightarrow> (string \<Rightarrow> (string \<times> string) option) \<Rightarrow> ws_env \<Rightarrow> int \<Rightarrow> int64 \<Rightarrow> string \<Rightarrow> string \<Rightarrow> Server \<Rightarrow> verify_env" where
  "dialled hmac ff pem we sid punix ver token s =
     \<lparr>ve_certs = (case dk_cert (sv_disk s) of None \<Rightarrow> None | Some cert \<Rightarrow> map_option (\<lambda>(typ, der). [der]) (pem cert)), ve_sent = True,
      ve_ack = Option.bind (fst (answer_hello hmac ff we sid (panel_text hmac punix token ''verify'' (CHello (verify_hello ver))) s)) read_Envelope, ve_unix = punix\<rparr>"

lemma verify_succeeds:
  assumes "hex_digest sha" "dk_cert (sv_disk s) = Some cert" "FingerprintPEM pem sha cert = Some fp" "in64 (cf_FrpsBindPort (sv_cfg s))"
    "\<not> fst (auth_Blocked (we_ip we) (we_now we) (sv_limiter s))" "we_upgrade we" "clocks_agree punix (we_unix we)" "token = cf_AgentToken (sv_cfg s)"
  shows "verifyAgent hmac sha (dialled hmac ff pem we sid punix ver token s) token fp = None"
proof -
  have v: "valid_cmd (CHello (verify_hello ver))" by (simp add: verify_hello_def in64_def MinAgentProtocol_def)
  have cl: "clocks_agree (we_unix we) punix" using assms(7) by (auto simp: clocks_agree_def abs_minus_commute)
  obtain t s' env where a: "answer_hello hmac ff we sid (panel_text hmac punix token ''verify'' (CHello (verify_hello ver))) s = (Some t, s')"
      "read_Envelope t = Some env" "Verify hmac env token punix = None"
    using agent_answers[OF v assms(4-8), of hmac ff sid "''verify''"] cl by auto
  obtain der where "pem cert = Some (''CERTIFICATE'', der)" "fp = ''sha256:'' @ sha der"
    using assms(3) by (auto simp: FingerprintPEM_def Fingerprint_def split: option.splits if_splits)
  then show ?thesis using a assms(2) hex_digest_equal[OF assms(1), of der]
    by (auto simp: verifyAgent_None dialled_def)
qed

lemma Init_receipt:
  assumes "Init ver ie opt d = (Inr c, d')" shows "cf_Fingerprint c = fp \<Longrightarrow> \<exists>cert. dk_cert d' = Some cert \<and> ie_fingerprint ie cert = Some fp"
  using Init_disk[OF assms] by (auto split: option.splits)

lemma CreateOrUpdateNode_total: "db_faults s = [] \<Longrightarrow> \<exists>i s'. CreateOrUpdateNode t n s = (Inr i, s')"
  by (auto simp: CreateOrUpdateNode_def stmt_def split: option.split)

lemma create_node_accepted:
  assumes "DBUp (pn_app P)" "db_faults (app_store (pn_app P)) = []" "cn_Name req \<noteq> []" "Decode (cn_Receipt req) = Inr rc"
    "verifyAgent (pe_hmac e) sha (ve (rc_IP rc) (rc_Port rc)) (rc_Token rc) (rc_FP rc) = None" "handleCreateNode e sha ve user (Inr req) P = (reply, P')"
  shows "rs_Code reply = CodeOK"
proof -
  let ?n = "receipt_node (cn_Name req) (if cn_Region req = [] then ''overseas'' else cn_Region req) rc"
  obtain i Q where "run_app (run_db (CreateOrUpdateNode (pe_unix e) ?n)) P = (Inr i, Q)"
    using CreateOrUpdateNode_total[OF assms(2), of "pe_unix e" ?n] by (auto simp: run_app_def run_db_def Let_def split: prod.split)
  then show ?thesis using assms by (auto simp: handleCreateNode_def decodeJSON_def)
qed

section \<open>Ports and firewall\<close>

lemma Atoi_in64: "in64 (fst (Atoi s))"
proof -
  have "int n < 2 ^ 63" if "n < 2 ^ 63" for n using that of_nat_less_iff[of n "2 ^ 63", where 'a = int] by simp
  moreover have "int n \<le> 2 ^ 63" if "n \<le> 2 ^ 63" for n using that of_nat_le_iff[of n "2 ^ 63", where 'a = int] by simp
  ultimately show ?thesis by (auto simp: Atoi_def ParseInt_def Let_def in64_def split: option.splits)
qed

lemma connRateLimit_in64: "in64 (fst (connRateLimit a))"
  using Atoi_in64 by (auto simp: connRateLimit_def defaultConnRateLimit_def in64_def[of 200] Let_def split: prod.splits sum.splits) (metis fst_conv)+

lemma SyncNode_sent:
  assumes "faultless_db P" "\<And>j. pe_write e j = Written" "node_row i (app_store (pn_app P)) = Some n" "Conn i P = Some (oid, c)" "nc_up c" "nc_conn c" "nc_nodeID c = i"
    "SyncNode e i P = (r, P')"
  shows "r = None \<and> pn_sent P' = pn_sent P @ [(i, rate_cmd i (pn_app P))]"
proof -
  let ?ps = "map desired_proxy (enabled_rows i (app_store (pn_app P)))"
  obtain d P1 where en: "ensure e n ?ps P = (d, P1)" by (cases "ensure e n ?ps P")
  note fr = ensure_frame[OF en]
  then have "EnsureNode (pe_hmac e) (pe_host e) Written n ?ps (pn_frpc P) = (d, pn_frpc P1)" using assms(2) by simp
  from EnsureNode_ok[OF this] have d by simp
  have c1: "Conn i P1 = Some (oid, c)" "map_of (pn_objs P1) oid = Some c" using assms(4) fr by (auto simp: Conn_def split: option.splits)
  have "SyncNode e i P = (None, pushRateLimit e oid (node_ports i (app_store (pn_app P1))) P1)"
    using assms(3,5) en \<open>d\<close> c1 fr by (simp add: SyncNode_def run_GetNode[OF assms(1)] run_desired[OF assms(1)])
  moreover have "faultless_db P1" using fr assms(1) by simp
  ultimately show ?thesis using pushRateLimit_frame[of P1 P' e oid i] assms(5-8) c1(2) fr by simp
qed

text \<open>The rules an agent wants for the ports of a node are those of its enabled mappings.\<close>

definition mapping_rules :: "int \<Rightarrow> Store \<Rightarrow> string set" where
  "mapping_rules i db = {ufwRuleSpec (mt_RemotePort t) (mp_Proto m) |m t. m \<in> set (db_mappings db) \<and> mp_Enabled m \<and> t \<in> set (db_targets db) \<and>
     mt_MappingID t = mp_ID m \<and> mt_NodeID t = i}"

lemma wanted_node_ports: "wanted (node_ports i db) = mapping_rules i db"
  by (auto simp: wanted_def node_ports_def enabled_rows_def mapping_rules_def image_iff) blast+

lemma node_ports_in64: "\<forall>t\<in>set (db_targets db). in64 (mt_RemotePort t) \<Longrightarrow> \<forall>p\<in>set (node_ports i db). in64 (ps_Port p)"
  by (auto simp: node_ports_def enabled_rows_def)

definition ufw_cmds :: "fw_cmd list \<Rightarrow> ufw_cmd list" where
  "ufw_cmds cs = List.map_filter (\<lambda>c. case c of Ufw u \<Rightarrow> Some u | _ \<Rightarrow> None) cs"

lemma ufw_cmds_Apply: "ufw_cmds (fst (ApplyRateLimit h rl)) = fst (ufwSync h (rl_Ports rl))"
proof -
  have "List.map_filter (\<lambda>c. case c of Ufw u \<Rightarrow> Some u | _ \<Rightarrow> None) (map Ufw us) = us" for us
    by (induction us) (simp_all add: List.map_filter_simps)
  moreover have "List.map_filter f (xs @ ys) = List.map_filter f xs @ List.map_filter f ys" for f :: "fw_cmd \<Rightarrow> ufw_cmd option" and xs ys
    by (simp add: List.map_filter_def)
  ultimately show ?thesis
    by (simp add: ufw_cmds_def ApplyRateLimit_def Let_def List.map_filter_simps split: prod.split)
qed

lemma reader_rate:
  assumes "e_Type env = TypeSetRateLimit" "Verify hmac env (cf_AgentToken (sv_cfg s)) (de_unix de) = None"
  shows "\<exists>s'. reader_step hmac de sid (Some env) s = (True, s', None) \<and> s'\<lparr>sv_sessions := []\<rparr> = s\<lparr>sv_sessions := []\<rparr>"
  using assms by (simp add: reader_step_def dispatch_def Let_def message_types enqueueReply_def upd_session_def split: prod.split option.split)

section \<open>Properties\<close>

text \<open>
  C8: what one side writes the other side reads. For every command of the panel and every message of an
  agent within the 64-bit range of their integers, the text on the wire exists, is read as an envelope
  of the same type and request id, verifies under the shared token while the clocks agree, and its
  payload is decoded to the struct that was sent.
\<close>
theorem wire_roundtrip:
  assumes "clocks_agree now now'" "valid_cmd cmd" "valid_payload ff pf (om_Payload m)" "om_TS m = now"
  shows "(\<exists>t env. panel_text hmac now token i cmd = Some t \<and> read_Envelope t = Some env \<and> e_Type env = panel_type cmd \<and> e_ID env = i \<and>
      Verify hmac env token now' = None \<and> agent_reads cmd (e_Payload env)) \<and>
    (\<exists>t env. agent_text hmac ff token m = Some t \<and> read_Envelope t = Some env \<and> e_Type env = om_Type m \<and> e_ID env = om_ID m \<and>
      Verify hmac env token now' = None \<and> panel_reads pf (om_Payload m) (e_Payload env))"
  using panel_text_read[OF assms(2) refl, of hmac now token i] panel_payload_read[OF assms(2)] agent_text_read[OF assms(3), of hmac token]
    agent_payload_read[OF assms(3)] assms(1,4)
  by (auto simp: wire_def)

text \<open>
  C6: a registered node connects. When the driver's token is the agent's, the address is not banned and
  the clocks agree, the hello the panel writes is accepted, the agent's answer is verified and the session
  comes up; the driver then uses the frps token and port of the agent's configuration, the agent keeps
  a session, and the watermark it was told is the newest the panel knows of.
\<close>
theorem handshake_connects:
  assumes "map_of (pn_objs P) oid = Some c" "nd_AgentToken (nc_node c) = cf_AgentToken (sv_cfg s)"
    "\<not> fst (auth_Blocked (we_ip we) (we_now we) (sv_limiter s))" "we_upgrade we" "clocks_agree punix (we_unix we)" "clocks_agree (we_unix we) (sn_unix se)"
    "sn_dial se" "sn_sent se" "in64 (h_LastCommitSeq (session_hello e c P))" "in64 (cf_FrpsBindPort (sv_cfg s))"
    "answer_hello (pe_hmac e) ff we sid (panel_text (pe_hmac e) punix (nd_AgentToken (nc_node c)) (fst (newID (pe_nano e) c)) (CHello (session_hello e c P))) s = (reply, s')"
    "session_start e (se\<lparr>sn_ack := Option.bind reply read_Envelope, sn_decode := read_HelloAck\<rparr>) oid P = (up, P')"
  shows "up \<and> sid \<in> fst ` set (sv_sessions s') \<and> h_LastCommitSeq (session_hello e c P) = max (nd_LastCommitSeq (nc_node c)) (CommitSeq (nc_nodeID c) (pn_app P)) \<and>
    pn_sent P' = pn_sent P @ [(nc_nodeID c, CHello (session_hello e c P))] \<and>
    (\<exists>c'. map_of (pn_objs P') oid = Some c' \<and> nc_up c' \<and> nc_conn c' \<and>
       nd_FrpsToken (nc_node c') = (if cf_FrpsToken (sv_cfg s) = [] then nd_FrpsToken (nc_node c) else cf_FrpsToken (sv_cfg s)) \<and>
       nd_FrpsPort (nc_node c') = (if cf_FrpsBindPort (sv_cfg s) = 0 then nd_FrpsPort (nc_node c) else cf_FrpsBindPort (sv_cfg s)))"
proof -
  let ?h = "session_hello e c P" and ?tok = "nd_AgentToken (nc_node c)" and ?se = "se\<lparr>sn_ack := Option.bind reply read_Envelope, sn_decode := read_HelloAck\<rparr>"
  have v: "valid_cmd (CHello ?h)" using assms(9) by (simp add: session_hello_def Let_def in64_def MinAgentProtocol_def)
  obtain t s0 env where z: "answer_hello (pe_hmac e) ff we sid (panel_text (pe_hmac e) punix ?tok (fst (newID (pe_nano e) c)) (CHello ?h)) s = (Some t, s0)"
      "read_Envelope t = Some env" "\<forall>now. clocks_agree (we_unix we) now \<longrightarrow> Verify (pe_hmac e) env ?tok now = None"
      "read_HelloAck (e_Payload env) = hello_ack we ?h (sv_cfg s)" "sid \<in> fst ` set (sv_sessions s0)"
    using agent_answers[OF v assms(10,3-5,2), of "pe_hmac e" ff sid "fst (newID (pe_nano e) c)"] by blast
  then have a: "reply = Some t" "s0 = s'" "Verify (pe_hmac e) env ?tok (sn_unix se) = None" using assms(6,11) by simp_all
  obtain P1 c1 where P1: "session_start e ?se oid P = (True, session_up e oid (nc_nodeID c) (hello_ack we ?h (sv_cfg s)) (h_LastCommitSeq ?h) (nc_node c) P1)"
      "pn_sent P1 = pn_sent P @ [(nc_nodeID c, CHello ?h)]" "map_of (pn_objs P1) oid = Some c1" "nc_conn c1"
    using session_start_verified[of P oid c ?se env e] assms(1,7,8) a z(2,4) by auto
  let ?ack = "hello_ack we ?h (sv_cfg s)"
  have ln: "nd_FrpsToken (fst (learn ?ack (nc_node c))) = (if cf_FrpsToken (sv_cfg s) = [] then nd_FrpsToken (nc_node c) else cf_FrpsToken (sv_cfg s))"
    "nd_FrpsPort (fst (learn ?ack (nc_node c))) = (if cf_FrpsBindPort (sv_cfg s) = 0 then nd_FrpsPort (nc_node c) else cf_FrpsBindPort (sv_cfg s))"
    by (auto simp: learn_def hello_ack_def Let_def)
  have P': "up" "P' = session_up e oid (nc_nodeID c) ?ack (h_LastCommitSeq ?h) (nc_node c) P1" using assms(12) P1(1) by simp_all
  show ?thesis
    using session_up_learned[OF P1(3), of e "nc_nodeID c" ?ack "h_LastCommitSeq ?h" "nc_node c"] P1(2,4) z(5) a(2) ln P'
    by (auto simp: session_up_sent session_hello_def Let_def)
qed

text \<open>
  C7: an installed agent can be registered. For an agent whose initialisation succeeded, pasting the
  receipt it prints (with blanks anywhere) into the panel registers the node, provided the agent is
  reached at the printed address with its certificate and the clocks agree: the check of the new node
  passes over the wire, and the panel drives the node with the agent's address, token and fingerprint.
\<close>
theorem enrolment:
  assumes "Init ver ie opt d = (Inr cfg, d')" "ie_fingerprint ie = FingerprintPEM pem sha" "hex_digest sha" "s = NewServer cfg d' walfile"
    "wf_receipt (agent_receipt ver cfg)" "filter (\<lambda>c. \<not> blank c) (cn_Receipt req) = BuildReceipt ver cfg" "cn_Name req \<noteq> []"
    "wf_store (app_store (pn_app P))" "DBUp (pn_app P)" "db_faults (app_store (pn_app P)) = []" "we_upgrade we" "clocks_agree punix (we_unix we)"
    "ve (cf_PublicIP cfg) (receipt_port (cf_BindAddr cfg)) = dialled (pe_hmac e) ff pem we sid punix (pe_version e) (cf_AgentToken cfg) s"
    "handleCreateNode e sha ve user (Inr req) P = (reply, P')"
  shows "\<exists>i oid c x. reply = ok (NewNodeID i) \<and> Conn i P' = Some (oid, c) \<and> node_row i (app_store (pn_app P')) = Some x \<and>
    (\<forall>n\<in>{x, nc_node c}. nd_AgentToken n = cf_AgentToken (sv_cfg s) \<and> nd_IP n = cf_PublicIP cfg \<and> nd_AgentPort n = receipt_port (cf_BindAddr cfg) \<and>
       nd_Fingerprint n = cf_Fingerprint cfg)"
proof -
  let ?rc = "agent_receipt ver cfg"
  have dec: "Decode (cn_Receipt req) = Inr ?rc" using Decode_blanks[OF assms(5)] assms(6) by (simp add: BuildReceipt_def)
  have rc: "rc_IP ?rc = cf_PublicIP cfg" "rc_Port ?rc = receipt_port (cf_BindAddr cfg)" "rc_Token ?rc = cf_AgentToken cfg" "rc_FP ?rc = cf_Fingerprint cfg"
    by (simp_all add: agent_receipt_def)
  obtain cert where cert: "dk_cert d' = Some cert" "FingerprintPEM pem sha cert = Some (cf_Fingerprint cfg)" using Init_receipt[OF assms(1) refl] assms(2) by auto
  have "in64 (cf_FrpsBindPort (sv_cfg s))" using assms(5) by (simp add: assms(4) NewServer_def wf_receipt_def agent_receipt_def in64_def)
  then have "verifyAgent (pe_hmac e) sha (ve (rc_IP ?rc) (rc_Port ?rc)) (rc_Token ?rc) (rc_FP ?rc) = None"
    unfolding rc assms(13) using assms(3,11,12) cert
    by (intro verify_succeeds) (simp_all add: assms(4) NewServer_def newAuthLimiter_def auth_Blocked_def)
  then have "rs_Code reply = CodeOK" using create_node_accepted[OF assms(9,10,7) dec _ assms(14)] by simp
  then show ?thesis using create_node_outcome[OF assms(8,14)] dec by (auto simp: rc assms(4) NewServer_def)
qed


section \<open>Examples\<close>

text \<open>An agent installed with the token of the example row, and a working check.\<close>

definition ex_pem :: "string \<Rightarrow> (string \<times> string) option" where "ex_pem cert = Some (''CERTIFICATE'', cert)"
definition ex_sha :: "string \<Rightarrow> string" where "ex_sha der = replicate 64 (CHR ''a'')"

definition ex_install :: init_env where
  "ex_install = (ex_env ''t'')\<lparr>ie_fingerprint := FingerprintPEM ex_pem ex_sha\<rparr>"

definition ex_ws :: ws_env where
  "ex_ws = \<lparr>we_ip = [], we_now = 0, we_unix = 100, we_upgrade = True, we_read = FirstFrame None, we_hello = read_Hello, we_binver = [], we_version = []\<rparr>"

lemma ex_installed:
  "\<exists>cfg d'. Init ''1'' ex_install ex_opt ex_disk = (Inr cfg, d') \<and> cf_AgentToken cfg = ''t'' \<and> cf_BindAddr cfg = '':8443'' \<and> cf_FrpsBindPort cfg = 7000 \<and>
     cf_FrpsToken cfg = ''t'' \<and> cf_PublicIP cfg = ''1.2.3.4'' \<and> cf_Fingerprint cfg \<noteq> []"
  by (auto simp: Init_def Let_def Save_def WriteFrpsTOML_def ensure_cert_def fingerprintOfFile_def base_config_def Load_def ex_env_def ex_install_def
      ex_opt_def ex_disk_def init_defaults_def fresh_config_def FingerprintPEM_def ex_pem_def Fingerprint_def split: option.splits)

lemma ex_clocks: "clocks_agree 100 100" "clocks_agree 100 110"
  by code_simp+

lemma ex_port: "receipt_port '':8443'' = 8443"
proof -
  have "Itoa 8443 = ''8443''" by (simp add: Itoa_def nat_dec.simps digit_char_def char_of_def bit_simps)
  then have "ParseInt ''8443'' 10 64 = (8443, True)" using ParseInt_Itoa[of 8443] by simp
  moreover have "digit_val (CHR ''8'') = Some 8" "digit_val (CHR ''4'') = Some 4" "digit_val (CHR ''3'') = Some 3" by code_simp+
  ultimately show ?thesis by (simp add: receipt_port_def HasPrefix_def scan_colon_port_def)
qed

lemma ex_hex: "hex_digest ex_sha"
  by (auto simp: hex_digest_def ex_sha_def)

theorem enrolment_witness:
  "\<exists>cfg d' req i. Init ''1'' ex_install ex_opt ex_disk = (Inr cfg, d') \<and>
     fst (handleCreateNode ex_panel_env ex_sha (\<lambda>_ _. dialled (\<lambda>_ _. ''mac'') (\<lambda>_. ''0'') ex_pem ex_ws 1 100 ''v'' ''t'' (NewServer cfg d' None)) ''admin'' (Inr req) ex_started) = ok (NewNodeID i)"
proof -
  obtain cfg d' where i: "Init ''1'' ex_install ex_opt ex_disk = (Inr cfg, d')" "cf_AgentToken cfg = ''t''" "cf_BindAddr cfg = '':8443''" "cf_FrpsBindPort cfg = 7000"
      "cf_PublicIP cfg = ''1.2.3.4''" "cf_Fingerprint cfg \<noteq> []" using ex_installed by blast
  define req where "req = \<lparr>cn_Name = ''n'', cn_Region = [], cn_Receipt = BuildReceipt ''1'' cfg\<rparr>"
  let ?s = "NewServer cfg d' None"
  let ?ve = "\<lambda>_ _. dialled (\<lambda>_ _. ''mac'') (\<lambda>_. ''0'') ex_pem ex_ws 1 100 ''v'' ''t'' ?s"
  obtain r P' where h: "handleCreateNode ex_panel_env ex_sha ?ve ''admin'' (Inr req) ex_started = (r, P')" by (cases "handleCreateNode ex_panel_env ex_sha ?ve ''admin'' (Inr req) ex_started")
  have wf: "wf_receipt (agent_receipt ''1'' cfg)" using i(2-6) ex_port by (simp add: wf_receipt_def agent_receipt_def)
  have b: "\<not> blank c" if "c \<in> set (BuildReceipt ''1'' cfg)" for c
    using that set_encode64 alphabet_no_space by (auto simp: BuildReceipt_def Encode_def)
  have req: "filter (\<lambda>c. \<not> blank c) (cn_Receipt req) = BuildReceipt ''1'' cfg" "cn_Name req \<noteq> []" unfolding req_def using b by simp_all
  have env: "ie_fingerprint ex_install = FingerprintPEM ex_pem ex_sha" "we_upgrade ex_ws" "pe_hmac ex_panel_env = (\<lambda>_ _. ''mac'')" "pe_version ex_panel_env = ''v''" "we_unix ex_ws = 100"
    by (simp_all add: ex_install_def ex_ws_def ex_panel_env_def)
  have cl: "clocks_agree 100 (we_unix ex_ws)" unfolding env(5) by (rule ex_clocks)
  have ve: "?ve (cf_PublicIP cfg) (receipt_port (cf_BindAddr cfg)) = dialled (pe_hmac ex_panel_env) (\<lambda>_. ''0'') ex_pem ex_ws 1 100 (pe_version ex_panel_env) (cf_AgentToken cfg) ?s"
    by (simp only: env(3,4) i(2))
  have db: "DBUp (pn_app ex_started)" "db_faults (app_store (pn_app ex_started)) = []" using ex_started_state(1) by blast+
  from enrolment[OF i(1) env(1) ex_hex refl wf req ex_started_store(1) db env(2) cl ve h] have "\<exists>i. r = ok (NewNodeID i)" by blast
  then have "\<exists>i. fst (handleCreateNode ex_panel_env ex_sha ?ve ''admin'' (Inr req) ex_started) = ok (NewNodeID i)" unfolding h by simp
  with i(1) show ?thesis by blast
qed

theorem wire_roundtrip_witness:
  "\<exists>t env. panel_text (\<lambda>_ _. ''mac'') 100 ''t'' ''1-0'' (CSetRateLimit \<lparr>rl_Rate = 200, rl_Ports = [\<lparr>ps_Port = 6000, ps_Proto = ''tcp''\<rparr>]\<rparr>) = Some t \<and>
     read_Envelope t = Some env \<and> read_SetRateLimit (e_Payload env) = \<lparr>rl_Rate = 200, rl_Ports = [\<lparr>ps_Port = 6000, ps_Proto = ''tcp''\<rparr>]\<rparr>"
  using wire_roundtrip[of 100 110 "CSetRateLimit \<lparr>rl_Rate = 200, rl_Ports = [\<lparr>ps_Port = 6000, ps_Proto = ''tcp''\<rparr>]\<rparr>" "\<lambda>_. ''0''" "\<lambda>_. None"
      "sign 100 TypeRateLimitRes ''1-0'' PNone" "\<lambda>_ _. ''mac''" "''t''" "''1-0''"]
    ex_clocks(2)
  by (auto simp: in64_def sign_def)

theorem handshake_connects_witness:
  "\<exists>cfg d' reply s' P'. Init ''1'' ex_install ex_opt ex_disk = (Inr cfg, d') \<and>
     answer_hello (\<lambda>_ _. ''mac'') (\<lambda>_. ''0'') ex_ws 1 (panel_text (\<lambda>_ _. ''mac'') 100 ''t'' (fst (newID 0 ex_conn)) (CHello (session_hello ex_panel_env ex_conn ex_online))) (NewServer cfg d' None) = (reply, s') \<and>
     session_start ex_panel_env (ex_session\<lparr>sn_unix := 100, sn_ack := Option.bind reply read_Envelope, sn_decode := read_HelloAck\<rparr>) 0 ex_online = (True, P')"
proof -
  obtain cfg d' where i: "Init ''1'' ex_install ex_opt ex_disk = (Inr cfg, d')" "cf_AgentToken cfg = ''t''" "cf_FrpsBindPort cfg = 7000" using ex_installed by blast
  let ?s = "NewServer cfg d' None"
  let ?a = "answer_hello (\<lambda>_ _. ''mac'') (\<lambda>_. ''0'') ex_ws 1 (panel_text (\<lambda>_ _. ''mac'') 100 ''t'' (fst (newID 0 ex_conn)) (CHello (session_hello ex_panel_env ex_conn ex_online))) ?s"
  obtain reply s' where a: "?a = (reply, s')" by (cases ?a)
  let ?se = "ex_session\<lparr>sn_unix := 100, sn_ack := Option.bind reply read_Envelope, sn_decode := read_HelloAck\<rparr>"
  obtain up P' where b: "session_start ex_panel_env ?se 0 ex_online = (up, P')" by (cases "session_start ex_panel_env ?se 0 ex_online")
  have c: "map_of (pn_objs ex_online) 0 = Some ex_conn" "nd_AgentToken (nc_node ex_conn) = ''t''" by (simp_all add: ex_online_def ex_conn_def ex_row_def)
  have e: "pe_hmac ex_panel_env = (\<lambda>_ _. ''mac'')" "pe_nano ex_panel_env = 0" by (simp_all add: ex_panel_env_def)
  have l: "in64 (h_LastCommitSeq (session_hello ex_panel_env ex_conn ex_online))"
    by (simp add: session_hello_def ex_online_def ex_conn_def newNodeConn_def ex_row_def CommitSeq_def ex_started_def ex_panel_def tryStartAll_def run_app_def run_db_def ListNodes_def
        db_read_def NewNodeManager_def New_def CreateOrUpdateNode_def empty_store_def nm_start_def Let_def on_app_def InitNode_def NewFrpcManager_def in64_def new_nodeState_def NewSeqTracker_def seq_Last_def)
  have up
    using handshake_connects[OF c(1), of ?s ex_ws 100 "ex_session\<lparr>sn_unix := 100\<rparr>" ex_panel_env "\<lambda>_. ''0''" 1 reply s' up P'] a b c(2) e i(2,3) l
    by (simp add: NewServer_def newAuthLimiter_def auth_Blocked_def ex_ws_def ex_clocks ex_session_def in64_def)
  then show ?thesis using i(1) a b by auto
qed

text \<open>The example panel with its node connected and one mapping in its database.\<close>

definition ex_rows :: Store where "ex_rows = ex_db\<lparr>db_nodes := [ex_row]\<rparr>"

definition ex_mapped :: Panel where
  "ex_mapped = on_app (\<lambda>a. a\<lparr>app_store := ex_rows\<rparr>) (snd (session_start ex_panel_env ex_session 0 ex_started))"

lemma ex_mapped_state: "panel_reach ex_mapped" "app_store (pn_app ex_mapped) = ex_rows" "\<exists>c. Conn 1 ex_mapped = Some (0, c) \<and> nc_up c \<and> nc_conn c"
proof -
  show "panel_reach ex_mapped" unfolding ex_mapped_def ex_started_def ex_panel_def by (intro panel_reach.intros)
  show "app_store (pn_app ex_mapped) = ex_rows" by (simp add: ex_mapped_def)
  obtain c where c: "map_of (pn_objs ex_started) 0 = Some c" using ex_started_state(3) by blast
  obtain P1 c1 a l n where P1: "snd (session_start ex_panel_env ex_session 0 ex_started) = session_up ex_panel_env 0 (nc_nodeID c) a l n P1" "map_of (pn_objs P1) 0 = Some c1" "nc_conn c1"
    using session_start_verified[OF c ex_session_ok ex_verify] by fastforce
  have "pn_conns (snd (session_start ex_panel_env ex_session 0 ex_started)) = [(1, 0)]"
    using session_start_up[OF ex_started_state(1) c ex_session_ok ex_verify refl] ex_started_state(2) by simp
  then show "\<exists>c. Conn 1 ex_mapped = Some (0, c) \<and> nc_up c \<and> nc_conn c"
    using session_up_learned[OF P1(2), of ex_panel_env "nc_nodeID c" a l n] P1(1,3) by (auto simp: Conn_def ex_mapped_def)
qed

lemma ex_rows_rules: "db_faults ex_rows = []" "node_row 1 ex_rows = Some ex_row" "\<forall>t\<in>set (db_targets ex_rows). in64 (mt_RemotePort t)" "mapping_rules 1 ex_rows = {ufwRuleSpec 6000 ''tcp''}"
  by (auto simp: ex_rows_def ex_db_eq with_mapping_def ex_targets_def ex_mapping_def empty_store_def node_row_def ex_row_def in64_def mapping_rules_def)


end
