(* ===== verification/Browser.thy ===== *)
theory Browser
  imports Session Pipeline
begin

text \<open>
  The WebSocket side of \<^verbatim>\<open>internal/panel/hub.go\<close>: \<^verbatim>\<open>ServeWS\<close>, \<^verbatim>\<open>sendInit\<close>, the write loop and their interleaving
  with broadcasts. The first part runs an admission to its end on the panel's state. The second part is
  a step relation over the goroutines of all clients: the serving goroutine of each, its writer, and a
  broadcast, which holds the hub's mutex while it walks over the registered clients. The three \<^verbatim>\<open>select\<close>
  statements of \<^verbatim>\<open>trySend\<close> are separate steps, because the client's writer and its own first message
  run in between. A send on a closed channel panics; the lemmas show that it cannot happen.
\<close>

section \<open>Admission\<close>

text \<open>The message a new client is backfilled with; nodes without samples have no series.\<close>

definition init_statuses :: "App \<Rightarrow> (int, string) gomap \<times> App" where
  "init_statuses a =
     (if \<not> DBUp a then ([], a)
      else case run_db ListNodes a of
             (Inl _, a) \<Rightarrow> ([], a)
           | (Inr nodes, a) \<Rightarrow> (fold (\<lambda>n. AList.update (nd_ID n) (nd_Status n)) nodes [], a))"

definition init_series :: "App \<Rightarrow> (int, wsPoint list) gomap" where
  "init_series a =
     List.map_filter (\<lambda>i. let pts = map point_of (RingSnapshot i a) in if pts = [] then None else Some (i, pts)) (map fst (app_pipe a))"

definition sendInit :: "App \<Rightarrow> ws_msg \<times> App" where
  "sendInit a = (let (st, a) = init_statuses a in (wsInit (app_panelName a) st (init_series a), a))"

datatype serve_result = Refused AppError | NotUpgraded | Serving

text \<open>
  \<^verbatim>\<open>ServeWS\<close> up to its read loop for the client \<open>k\<close>. The upgrade checks the origin; whether the rest of the
  handshake succeeds is \<open>handshake\<close>.
\<close>

definition ServeWS :: "auth_lib \<Rightarrow> int \<Rightarrow> string option \<Rightarrow> (string \<Rightarrow> string option) \<Rightarrow> string \<Rightarrow> string \<Rightarrow> bool \<Rightarrow> int \<Rightarrow> Auth \<Rightarrow> App \<Rightarrow> serve_result \<times> App" where
  "ServeWS lib now cookie parse_host origin host handshake k au a =
     (case claimsFromRequest lib now cookie au a of
        (Inl err, a) \<Rightarrow> (Refused err, a)
      | (Inr _, a) \<Rightarrow>
          if \<not> CheckOrigin parse_host origin host \<or> \<not> handshake then (NotUpgraded, a)
          else
            (let a = a\<lparr>app_hub := AList.update k \<lparr>bc_send = []\<rparr> (app_hub a)\<rparr>; (m, a) = sendInit a
             in (Serving, a\<lparr>app_hub := map (\<lambda>(j, c). (j, if j = k then trySend m c else c)) (app_hub a)\<rparr>)))"

text \<open>What it does when the read loop ends.\<close>

definition ServeWS_end :: "int \<Rightarrow> App \<Rightarrow> App" where
  "ServeWS_end k a = a\<lparr>app_hub := AList.delete k (app_hub a)\<rparr>"

section \<open>The read loop\<close>

text \<open>
  \<^verbatim>\<open>ReadMessage\<close> is a library function: what it returns for a deadline and the frames that arrive, with
  their times in nanoseconds. A successful read gives its time and the frames left.
\<close>

datatype frame = Data | Control

type_synonym arrivals = "(int \<times> frame) list"

datatype read_result = ReadError int | ReadOK int arrivals

definition readDeadline :: int where "readDeadline = 70 * 1000000000"

inductive read_loop :: "(int \<Rightarrow> arrivals \<Rightarrow> read_result) \<Rightarrow> int \<Rightarrow> arrivals \<Rightarrow> int \<Rightarrow> bool" for rd where
  leave: "rd (now + readDeadline) fs = ReadError t \<Longrightarrow> read_loop rd now fs t"
| again: "rd (now + readDeadline) fs = ReadOK t fs' \<Longrightarrow> read_loop rd t fs' fin \<Longrightarrow> read_loop rd now fs fin"

inductive_cases read_loopE: "read_loop rd now fs fin"

text \<open>
  What the library documents of reading: data ends a read, control frames are handled inside it, and
  at the deadline it fails.
\<close>

definition ws_reader :: "(int \<Rightarrow> arrivals \<Rightarrow> read_result) \<Rightarrow> bool" where
  "ws_reader rd \<longleftrightarrow> (\<forall>d t f fs. (t \<le> d \<longrightarrow> rd d ((t, Data) # fs) = ReadOK t fs) \<and> (t \<le> d \<longrightarrow> rd d ((t, Control) # fs) = rd d fs) \<and>
     (d < t \<longrightarrow> rd d ((t, f) # fs) = ReadError d) \<and> rd d [] = ReadError d)"

lemma controls_only: "ws_reader rd \<Longrightarrow> \<forall>(t, f)\<in>set fs. f = Control \<Longrightarrow> rd d fs = ReadError d"
proof (induction fs)
  case (Cons e fs)
  obtain t f where "e = (t, f)" by (cases e)
  with Cons show ?case by (cases "t \<le> d") (auto simp: ws_reader_def)
qed (simp add: ws_reader_def)

text \<open>A reader that satisfies the laws.\<close>

fun deadline_reader :: "int \<Rightarrow> arrivals \<Rightarrow> read_result" where
  "deadline_reader d [] = ReadError d"
| "deadline_reader d ((t, f) # fs) = (if d < t then ReadError d else case f of Data \<Rightarrow> ReadOK t fs | Control \<Rightarrow> deadline_reader d fs)"

lemma deadline_reader_ok: "ws_reader deadline_reader"
  by (auto simp: ws_reader_def)

text \<open>
  The read deadline is set once per message and not when a pong arrives, so a browser, which sends no
  messages, is dropped seventy seconds after it connected, however many pings it answers.
\<close>

lemma silent_client_dropped: "ws_reader rd \<Longrightarrow> \<forall>(t, f)\<in>set fs. f = Control \<Longrightarrow> read_loop rd now fs fin \<longleftrightarrow> fin = now + readDeadline"
  by (auto simp: controls_only elim: read_loopE intro: read_loop.leave)

section \<open>Goroutines\<close>

text \<open>Where a goroutine is inside \<^verbatim>\<open>trySend\<close>: at the first offer, taking one message out, at the second offer.\<close>

datatype try_pc = Try1 | Try2 | Try3

text \<open>
  The serving goroutine of a client: upgraded, registered, sending the first message, reading, leaving,
  removed from the map, channel closed, connection closed.
\<close>

datatype serve_pc = Upgraded | Registered | Filling ws_msg try_pc | Reading | Leaving | Unregistered | Closing | Gone

datatype writer_pc = Writing | Stopped

record ws_client =
  wc_registered :: bool
  wc_send :: "ws_msg list"
  wc_closed :: bool
  wc_serve :: serve_pc
  wc_writer :: writer_pc
  wc_wire :: "ws_msg list"

record hub_state =
  hs_clients :: "int \<Rightarrow> ws_client option"
  hs_walk :: "(ws_msg \<times> int list \<times> try_pc) option"
  hs_panic :: bool

definition new_client :: ws_client where
  "new_client = \<lparr>wc_registered = False, wc_send = [], wc_closed = False, wc_serve = Upgraded, wc_writer = Writing, wc_wire = []\<rparr>"

definition hub_start :: hub_state where
  "hub_start = \<lparr>hs_clients = (\<lambda>_. None), hs_walk = None, hs_panic = False\<rparr>"

definition set_client :: "int \<Rightarrow> ws_client \<Rightarrow> hub_state \<Rightarrow> hub_state" where
  "set_client k c h = h\<lparr>hs_clients := (hs_clients h)(k \<mapsto> c)\<rparr>"

text \<open>
  One step of \<^verbatim>\<open>trySend\<close> on a client: its new queue and where the sender is next (\<open>None\<close>: it has returned).
  The outer option is \<open>None\<close> when the send panics.
\<close>

definition try_step :: "ws_msg \<Rightarrow> try_pc \<Rightarrow> ws_client \<Rightarrow> (ws_client \<times> try_pc option) option" where
  "try_step m pc c =
     (case pc of
        Try2 \<Rightarrow> Some (c\<lparr>wc_send := tl (wc_send c)\<rparr>, Some Try3)
      | _ \<Rightarrow>
          if wc_closed c then None
          else (case offer browserSendBuffer m (wc_send c) of
                  Some ms \<Rightarrow> Some (c\<lparr>wc_send := ms\<rparr>, None)
                | None \<Rightarrow> Some (c, if pc = Try1 then Some Try2 else None)))"

inductive hub_step :: "hub_state \<Rightarrow> hub_state \<Rightarrow> bool" where
  accept: "hs_clients h k = None \<Longrightarrow> hub_step h (set_client k new_client h)"
| enters: "hs_clients h k = Some c \<Longrightarrow> wc_serve c = Upgraded \<Longrightarrow> hs_walk h = None \<Longrightarrow>
     hub_step h (set_client k (c\<lparr>wc_registered := True, wc_serve := Registered\<rparr>) h)"
| backfill: "hs_clients h k = Some c \<Longrightarrow> wc_serve c = Registered \<Longrightarrow> hub_step h (set_client k (c\<lparr>wc_serve := Filling m Try1\<rparr>) h)"
| fills: "hs_clients h k = Some c \<Longrightarrow> wc_serve c = Filling m pc \<Longrightarrow> try_step m pc c = Some (c', next) \<Longrightarrow>
     hub_step h (set_client k (c'\<lparr>wc_serve := (case next of None \<Rightarrow> Reading | Some pc' \<Rightarrow> Filling m pc')\<rparr>) h)"
| fill_panics: "hs_clients h k = Some c \<Longrightarrow> wc_serve c = Filling m pc \<Longrightarrow> try_step m pc c = None \<Longrightarrow> hub_step h (h\<lparr>hs_panic := True\<rparr>)"
| read_fails: "hs_clients h k = Some c \<Longrightarrow> wc_serve c = Reading \<Longrightarrow> hub_step h (set_client k (c\<lparr>wc_serve := Leaving\<rparr>) h)"
| leaves: "hs_clients h k = Some c \<Longrightarrow> wc_serve c = Leaving \<Longrightarrow> hs_walk h = None \<Longrightarrow>
     hub_step h (set_client k (c\<lparr>wc_registered := False, wc_serve := Unregistered\<rparr>) h)"
| closes: "hs_clients h k = Some c \<Longrightarrow> wc_serve c = Unregistered \<Longrightarrow> hub_step h (set_client k (c\<lparr>wc_closed := True, wc_serve := Closing\<rparr>) h)"
| hangs_up: "hs_clients h k = Some c \<Longrightarrow> wc_serve c = Closing \<Longrightarrow> hub_step h (set_client k (c\<lparr>wc_serve := Gone\<rparr>) h)"
| writes: "hs_clients h k = Some c \<Longrightarrow> wc_writer c = Writing \<Longrightarrow> wc_serve c \<noteq> Upgraded \<Longrightarrow> wc_serve c \<noteq> Gone \<Longrightarrow> wc_send c = m # ms \<Longrightarrow>
     hub_step h (set_client k (c\<lparr>wc_send := ms, wc_wire := wc_wire c @ [m]\<rparr>) h)"
| write_fails: "hs_clients h k = Some c \<Longrightarrow> wc_writer c = Writing \<Longrightarrow> wc_serve c \<noteq> Upgraded \<Longrightarrow> wc_send c = m # ms \<Longrightarrow>
     hub_step h (set_client k (c\<lparr>wc_send := ms, wc_writer := Stopped\<rparr>) h)"
| ping_fails: "hs_clients h k = Some c \<Longrightarrow> wc_writer c = Writing \<Longrightarrow> wc_serve c \<noteq> Upgraded \<Longrightarrow> hub_step h (set_client k (c\<lparr>wc_writer := Stopped\<rparr>) h)"
| drained: "hs_clients h k = Some c \<Longrightarrow> wc_writer c = Writing \<Longrightarrow> wc_closed c \<Longrightarrow> wc_send c = [] \<Longrightarrow>
     hub_step h (set_client k (c\<lparr>wc_writer := Stopped\<rparr>) h)"
| walk: "hs_walk h = None \<Longrightarrow> set ks = {k. \<exists>c. hs_clients h k = Some c \<and> wc_registered c} \<Longrightarrow> distinct ks \<Longrightarrow> hub_step h (h\<lparr>hs_walk := Some (m, ks, Try1)\<rparr>)"
| walks: "hs_walk h = Some (m, k # ks, pc) \<Longrightarrow> hs_clients h k = Some c \<Longrightarrow> try_step m pc c = Some (c', next) \<Longrightarrow>
     hub_step h ((set_client k c' h)\<lparr>hs_walk := Some (m, case next of None \<Rightarrow> (ks, Try1) | Some pc' \<Rightarrow> (k # ks, pc'))\<rparr>)"
| walk_panics: "hs_walk h = Some (m, k # ks, pc) \<Longrightarrow> hs_clients h k = Some c \<Longrightarrow> try_step m pc c = None \<Longrightarrow> hub_step h (h\<lparr>hs_panic := True\<rparr>)"
| walked: "hs_walk h = Some (m, [], pc) \<Longrightarrow> hub_step h (h\<lparr>hs_walk := None\<rparr>)"

inductive hub_reach :: "hub_state \<Rightarrow> bool" where
  starts: "hub_reach hub_start"
| steps: "hub_reach h \<Longrightarrow> hub_step h h' \<Longrightarrow> hub_reach h'"

section \<open>The invariant\<close>

definition client_inv :: "ws_client \<Rightarrow> bool" where
  "client_inv c \<longleftrightarrow> length (wc_send c) \<le> browserSendBuffer \<and> (wc_closed c \<longleftrightarrow> wc_serve c \<in> {Closing, Gone}) \<and>
     (wc_registered c \<longleftrightarrow> wc_serve c \<notin> {Upgraded, Unregistered, Closing, Gone})"

definition hub_inv :: "hub_state \<Rightarrow> bool" where
  "hub_inv h \<longleftrightarrow> \<not> hs_panic h \<and> (\<forall>k c. hs_clients h k = Some c \<longrightarrow> client_inv c) \<and>
     (\<forall>m ks pc. hs_walk h = Some (m, ks, pc) \<longrightarrow> (\<forall>k\<in>set ks. \<exists>c. hs_clients h k = Some c \<and> wc_registered c))"

lemma try_step_inv:
  assumes "try_step m pc c = Some (c', n)" "client_inv c"
  shows "client_inv c' \<and> wc_registered c' = wc_registered c \<and> wc_serve c' = wc_serve c \<and> wc_closed c' = wc_closed c"
  using assms by (auto simp: try_step_def offer_def client_inv_def split: try_pc.splits if_splits)

lemma try_step_open: "\<not> wc_closed c \<Longrightarrow> try_step m pc c \<noteq> None"
  by (auto simp: try_step_def split: try_pc.split option.split)

lemma hub_inv_set:
  assumes "hub_inv h" "client_inv c'" "hs_walk h = None \<or> (\<exists>c. hs_clients h k = Some c \<and> (wc_registered c \<longrightarrow> wc_registered c'))"
  shows "hub_inv (set_client k c' h)"
  using assms by (fastforce simp: hub_inv_def set_client_def)

lemma hub_inv_writer:
  assumes "hub_inv h" "hs_clients h k = Some c" "length ms \<le> length (wc_send c)"
  shows "hub_inv (set_client k (c\<lparr>wc_send := ms, wc_wire := w\<rparr>) h)" "hub_inv (set_client k (c\<lparr>wc_send := ms, wc_writer := x\<rparr>) h)"
    "hub_inv (set_client k (c\<lparr>wc_writer := x\<rparr>) h)"
proof -
  have "client_inv c" using assms(1,2) by (simp add: hub_inv_def)
  then have "client_inv (c\<lparr>wc_send := ms, wc_wire := w\<rparr>)" "client_inv (c\<lparr>wc_send := ms, wc_writer := x\<rparr>)" "client_inv (c\<lparr>wc_writer := x\<rparr>)"
    using assms(3) by (auto simp: client_inv_def)
  then show "hub_inv (set_client k (c\<lparr>wc_send := ms, wc_wire := w\<rparr>) h)" "hub_inv (set_client k (c\<lparr>wc_send := ms, wc_writer := x\<rparr>) h)"
    "hub_inv (set_client k (c\<lparr>wc_writer := x\<rparr>) h)"
    using assms(1,2) by (auto intro!: hub_inv_set)
qed

text \<open>Run without interruption, the steps of \<^verbatim>\<open>trySend\<close> are the operation of \<open>Hub\<close>.\<close>

fun try_run :: "ws_msg \<Rightarrow> try_pc list \<Rightarrow> ws_client \<Rightarrow> ws_client" where
  "try_run m [] c = c"
| "try_run m (pc # pcs) c = (case try_step m pc c of None \<Rightarrow> c | Some (c', None) \<Rightarrow> c' | Some (c', Some _) \<Rightarrow> try_run m pcs c')"

lemma try_run_trySend:
  "\<not> wc_closed c \<Longrightarrow> try_run m [Try1, Try2, Try3] c = c\<lparr>wc_send := bc_send (trySend m \<lparr>bc_send = wc_send c\<rparr>)\<rparr>"
  by (simp add: try_step_def trySend_def Let_def offer_def browserSendBuffer_def)

lemma client_inv_open: "client_inv c \<Longrightarrow> wc_registered c \<Longrightarrow> \<not> wc_closed c"
  by (auto simp: client_inv_def)

lemma hub_step_inv: "hub_step h h' \<Longrightarrow> hub_inv h \<Longrightarrow> hub_inv h'"
proof (induction rule: hub_step.induct)
  case (accept h k)
  then have "k \<notin> set ks" if "hs_walk h = Some (m, ks, pc)" for m ks pc using that by (fastforce simp: hub_inv_def)
  with accept show ?case by (auto simp: hub_inv_def set_client_def new_client_def client_inv_def)
next
  case (fills h k c m pc c' n)
  then have "client_inv c" by (simp add: hub_inv_def)
  note t = try_step_inv[OF fills.hyps(3) this]
  have "client_inv (c'\<lparr>wc_serve := (case n of None \<Rightarrow> Reading | Some pc' \<Rightarrow> Filling m pc')\<rparr>)"
    using t fills.hyps(2) by (auto simp: client_inv_def split: option.split)
  moreover have "wc_registered c'" using t fills.hyps(2) by (auto simp: client_inv_def)
  ultimately show ?case using fills.prems fills.hyps(1) by (intro hub_inv_set) auto
next
  case (fill_panics h k c m pc)
  then have "client_inv c" by (simp add: hub_inv_def)
  then have "\<not> wc_closed c" using fill_panics.hyps(2) by (simp add: client_inv_def)
  then show ?case using try_step_open fill_panics.hyps(3) by blast
next
  case (walk h ks m)
  then show ?case by (auto simp: hub_inv_def)
next
  case (walks h m k ks pc c c' n)
  then have "client_inv c" by (simp add: hub_inv_def)
  note t = try_step_inv[OF walks.hyps(3) this]
  have "hub_inv (set_client k c' h)" using walks.prems walks.hyps(2) t by (intro hub_inv_set) auto
  then show ?case using walks.hyps(1) by (auto simp: hub_inv_def set_client_def split: option.splits)
next
  case (walk_panics h m k ks pc c)
  then have "client_inv c" "wc_registered c" by (auto simp: hub_inv_def)
  then have "\<not> wc_closed c" by (rule client_inv_open)
  then show ?case using try_step_open walk_panics.hyps(3) by blast
next
  case (walked h m pc)
  then show ?case by (simp add: hub_inv_def)
next
  case (ping_fails h k c)
  then show ?case by (intro hub_inv_writer(3)) auto
next
  case (drained h k c)
  then show ?case by (intro hub_inv_writer(3)) auto
next
  case (writes h k c m ms)
  then show ?case by (intro hub_inv_writer(1)) auto
next
  case (write_fails h k c m ms)
  then show ?case by (intro hub_inv_writer(2)) auto
qed (rule hub_inv_set; auto simp: hub_inv_def client_inv_def)+

lemma hub_reach_inv: "hub_reach h \<Longrightarrow> hub_inv h"
proof (induction rule: hub_reach.induct)
  case starts
  show ?case by (simp add: hub_inv_def hub_start_def)
qed (rule hub_step_inv)

section \<open>Nobody waits\<close>

text \<open>What is left of a broadcast: up to three steps for each client, and the unlocking.\<close>

definition try_left :: "try_pc \<Rightarrow> nat" where
  "try_left pc = (case pc of Try1 \<Rightarrow> 3 | Try2 \<Rightarrow> 2 | Try3 \<Rightarrow> 1)"

definition walk_left :: "hub_state \<Rightarrow> nat" where
  "walk_left h = (case hs_walk h of None \<Rightarrow> 0 | Some (m, [], pc) \<Rightarrow> 1 | Some (m, k # ks, pc) \<Rightarrow> 1 + 3 * length ks + try_left pc)"

text \<open>What is left of a writer whose channel is closed: the messages queued, and the end.\<close>

definition writer_left :: "int \<Rightarrow> hub_state \<Rightarrow> nat" where
  "writer_left k h = (case hs_clients h k of None \<Rightarrow> 0 | Some c \<Rightarrow> if wc_writer c = Stopped then 0 else 1 + length (wc_send c))"

lemma try_step_progress: "try_step m pc c = Some (c', n) \<Longrightarrow> (case n of None \<Rightarrow> 0 | Some pc' \<Rightarrow> try_left pc') < try_left pc"
  by (auto simp: try_step_def try_left_def split: try_pc.splits if_splits option.splits)

lemma walk_left_walks:
  assumes "hs_walk h = Some (m, k # ks, pc)" "try_step m pc c = Some (c', n)"
  shows "walk_left ((set_client k c' h)\<lparr>hs_walk := Some (m, case n of None \<Rightarrow> (ks, Try1) | Some pc' \<Rightarrow> (k # ks, pc'))\<rparr>) < walk_left h"
  using try_step_progress[OF assms(2)] assms(1) by (cases ks; cases n) (auto simp: walk_left_def try_left_def split: try_pc.splits)

lemma walk_left_set [simp]: "walk_left (set_client k c h) = walk_left h" "hs_walk (set_client k c h) = hs_walk h"
  by (simp_all add: walk_left_def set_client_def)

text \<open>Only the broadcast itself changes what is left of it, and then there is less.\<close>

lemma hub_step_walk:
  "hub_step h h' \<Longrightarrow> hs_walk h \<noteq> None \<Longrightarrow> hs_walk h' = hs_walk h \<or> walk_left h' < walk_left h"
proof (induction rule: hub_step.induct)
  case (walks h m k ks pc c c' n)
  then show ?case using walk_left_walks by blast
qed (auto simp: walk_left_def)

lemma walk_enabled:
  assumes "hub_inv h" "hs_walk h = Some (m, ks, pc)"
  shows "\<exists>h'. hub_step h h' \<and> walk_left h' < walk_left h"
proof (cases ks)
  case Nil
  then have "hub_step h (h\<lparr>hs_walk := None\<rparr>)" using assms(2) by (auto intro: hub_step.walked)
  then show ?thesis using assms(2) Nil by (auto simp: walk_left_def)
next
  case (Cons k ks')
  then obtain c where c: "hs_clients h k = Some c" "wc_registered c" "client_inv c" using assms by (auto simp: hub_inv_def)
  then obtain c' n where "try_step m pc c = Some (c', n)" using try_step_open[OF client_inv_open, of c m pc] by auto
  then show ?thesis using hub_step.walks[OF assms(2)[unfolded Cons] c(1)] walk_left_walks[OF assms(2)[unfolded Cons]] by blast
qed

lemma hub_step_writer:
  assumes "hub_step h h'" "hub_inv h" "hs_clients h k = Some c" "wc_closed c"
  shows "writer_left k h' \<le> writer_left k h \<and> (\<exists>c'. hs_clients h' k = Some c' \<and> wc_closed c')"
  using assms
proof (induction rule: hub_step.induct)
  case (fills h j d m pc d' n)
  then have "j \<noteq> k" by (auto simp: hub_inv_def client_inv_def)
  then show ?case using fills by (auto simp: writer_left_def set_client_def)
next
  case (walks h m j ks pc d d' n)
  then have "wc_registered d" "client_inv d" by (auto simp: hub_inv_def)
  then have "j \<noteq> k" using walks.hyps(2) walks.prems client_inv_open by auto
  then show ?case using walks by (auto simp: writer_left_def set_client_def)
qed (auto simp: writer_left_def set_client_def)

lemma writer_enabled:
  assumes "hub_inv h" "hs_clients h k = Some c" "wc_closed c" "wc_writer c = Writing"
  shows "\<exists>h'. hub_step h h' \<and> writer_left k h' < writer_left k h"
proof (cases "wc_send c")
  case Nil
  then have "hub_step h (set_client k (c\<lparr>wc_writer := Stopped\<rparr>) h)" using assms by (intro hub_step.drained)
  then show ?thesis using assms(2,4) by (auto simp: writer_left_def set_client_def)
next
  case (Cons m ms)
  moreover have "wc_serve c \<noteq> Upgraded" using assms(1-3) by (auto simp: hub_inv_def client_inv_def)
  ultimately have "hub_step h (set_client k (c\<lparr>wc_send := ms, wc_writer := Stopped\<rparr>) h)" using assms by (intro hub_step.write_fails)
  then show ?thesis using assms(2,4) by (auto simp: writer_left_def set_client_def)
qed

section \<open>Runs\<close>

text \<open>
  An endless run of the hub. Its scheduler is fair to a goroutine that can go on: a broadcast, and a
  writer whose channel was closed, are not passed over forever.
\<close>

definition hub_run :: "(nat \<Rightarrow> hub_state) \<Rightarrow> bool" where
  "hub_run f \<longleftrightarrow> hub_reach (f 0) \<and> (\<forall>i. hub_step (f i) (f (Suc i)))"

definition scheduled :: "(nat \<Rightarrow> hub_state) \<Rightarrow> bool" where
  "scheduled f \<longleftrightarrow> (\<forall>i. hs_walk (f i) \<noteq> None \<longrightarrow> (\<exists>j\<ge>i. hs_walk (f j) \<noteq> hs_walk (f i))) \<and>
     (\<forall>i k c. hs_clients (f i) k = Some c \<and> wc_closed c \<and> wc_writer c = Writing \<longrightarrow> (\<exists>j\<ge>i. writer_left k (f j) \<noteq> writer_left k (f i)))"

lemma hub_run_inv: "hub_run f \<Longrightarrow> hub_inv (f i)"
proof -
  assume r: "hub_run f"
  have "hub_reach (f i)" by (induction i) (use r in \<open>auto simp: hub_run_def intro: hub_reach.steps\<close>)
  then show ?thesis by (rule hub_reach_inv)
qed

lemma walk_ends:
  assumes "hub_run f" "scheduled f"
  shows "\<exists>j\<ge>i. hs_walk (f j) = None"
proof (induction "walk_left (f i)" arbitrary: i rule: less_induct)
  case less
  show ?case
  proof (cases "hs_walk (f i)")
    case (Some w)
    let ?P = "\<lambda>j. i \<le> j \<and> hs_walk (f j) \<noteq> hs_walk (f i)"
    have "\<exists>j. ?P j" using assms(2) Some unfolding scheduled_def by (metis option.distinct(1))
    then obtain j where j: "?P j" and least: "\<And>j'. j' < j \<Longrightarrow> \<not> ?P j'" using exists_least_iff[of ?P] by blast
    then obtain j' where j': "j = Suc j'" "i \<le> j'" by (cases j) (auto simp: le_Suc_eq)
    then have "hs_walk (f j') = hs_walk (f i)" using least[of j'] by simp
    moreover have "hub_step (f j') (f j)" using assms(1) j'(1) by (simp add: hub_run_def)
    ultimately have "walk_left (f j) < walk_left (f i)" using hub_step_walk[of "f j'" "f j"] j Some by (auto simp: walk_left_def)
    from less[OF this] show ?thesis using j by (meson le_trans)
  qed auto
qed

lemma closed_stays:
  assumes "hub_run f" "hs_clients (f i) k = Some c" "wc_closed c" "i \<le> j"
  shows "writer_left k (f j) \<le> writer_left k (f i) \<and> (\<exists>c'. hs_clients (f j) k = Some c' \<and> wc_closed c')"
  using assms(4)
proof (induction rule: dec_induct)
  case (step n)
  then obtain c' where "hs_clients (f n) k = Some c'" "wc_closed c'" by blast
  moreover have "hub_step (f n) (f (Suc n))" using assms(1) by (simp add: hub_run_def)
  ultimately have "writer_left k (f (Suc n)) \<le> writer_left k (f n) \<and> (\<exists>c'. hs_clients (f (Suc n)) k = Some c' \<and> wc_closed c')"
    using hub_step_writer hub_run_inv[OF assms(1)] by blast
  then show ?case using step.IH by auto
qed (use assms in auto)

lemma writer_ends:
  assumes "hub_run f" "scheduled f"
  shows "hs_clients (f i) k = Some c \<Longrightarrow> wc_closed c \<Longrightarrow> \<exists>j\<ge>i. \<exists>c'. hs_clients (f j) k = Some c' \<and> wc_writer c' = Stopped"
proof (induction "writer_left k (f i)" arbitrary: i c rule: less_induct)
  case less
  show ?case
  proof (cases "wc_writer c")
    case Writing
    then obtain j where j: "i \<le> j" "writer_left k (f j) \<noteq> writer_left k (f i)" using assms(2) less.prems unfolding scheduled_def by blast
    then obtain c' where "hs_clients (f j) k = Some c'" "wc_closed c'" "writer_left k (f j) < writer_left k (f i)"
      using closed_stays[OF assms(1) less.prems j(1)] by auto
    then show ?thesis using less.hyps j(1) by (meson le_trans)
  qed (use less.prems in auto)
qed

section \<open>An example run\<close>

text \<open>
  A browser connects, a broadcast of \<open>ex_live\<close> runs between its registration and its first message
  \<open>ex_init\<close>, and it leaves with both in its queue.
\<close>

definition ex_live :: ws_msg where "ex_live = wsNodeStatus 1 ''online''"
definition ex_init :: ws_msg where "ex_init = wsInit ''panel'' [] []"

abbreviation ex_c :: "bool \<Rightarrow> ws_msg list \<Rightarrow> bool \<Rightarrow> serve_pc \<Rightarrow> writer_pc \<Rightarrow> ws_msg list \<Rightarrow> ws_client" where
  "ex_c r ms x pc w out \<equiv> \<lparr>wc_registered = r, wc_send = ms, wc_closed = x, wc_serve = pc, wc_writer = w, wc_wire = out\<rparr>"

definition ex_hub :: "bool \<Rightarrow> ws_msg list \<Rightarrow> bool \<Rightarrow> serve_pc \<Rightarrow> writer_pc \<Rightarrow> ws_msg list \<Rightarrow> hub_state" where
  "ex_hub r ms x pc w out = set_client 7 (ex_c r ms x pc w out) hub_start"

lemma ex_hub_fields [simp]:
  "hs_clients (ex_hub r ms x pc w out) k = (if k = 7 then Some (ex_c r ms x pc w out) else None)"
  "hs_walk (ex_hub r ms x pc w out) = None"
  "set_client 7 (ex_c r' ms' x' pc' w' out') (ex_hub r ms x pc w out) = ex_hub r' ms' x' pc' w' out'"
  by (simp_all add: ex_hub_def set_client_def hub_start_def)

lemma ex_hub_walked:
  "((set_client 7 (ex_c r' ms' x' pc' w' out') ((ex_hub r ms x pc w out)\<lparr>hs_walk := y\<rparr>))\<lparr>hs_walk := z\<rparr>)
     = (ex_hub r' ms' x' pc' w' out')\<lparr>hs_walk := z\<rparr>" "(ex_hub r ms x pc w out)\<lparr>hs_walk := None\<rparr> = ex_hub r ms x pc w out"
  by (simp_all add: ex_hub_def set_client_def hub_start_def)

lemma ex_connects: "hub_reach (ex_hub True [ex_live] False Registered Writing [])"
proof -
  have "hub_step hub_start (ex_hub False [] False Upgraded Writing [])" using hub_step.accept[of hub_start 7] by (simp add: ex_hub_def new_client_def hub_start_def)
  then have "hub_reach (ex_hub False [] False Upgraded Writing [])" by (rule hub_reach.steps[OF hub_reach.starts])
  moreover have "hub_step (ex_hub False [] False Upgraded Writing []) (ex_hub True [] False Registered Writing [])"
    using hub_step.enters[of "ex_hub False [] False Upgraded Writing []" 7] by simp
  ultimately have "hub_reach (ex_hub True [] False Registered Writing [])" by (rule hub_reach.steps)
  moreover have "hub_step (ex_hub True [] False Registered Writing []) ((ex_hub True [] False Registered Writing [])\<lparr>hs_walk := Some (ex_live, [7], Try1)\<rparr>)"
    by (rule hub_step.walk) auto
  ultimately have "hub_reach ((ex_hub True [] False Registered Writing [])\<lparr>hs_walk := Some (ex_live, [7], Try1)\<rparr>)" by (rule hub_reach.steps)
  moreover have "hub_step ((ex_hub True [] False Registered Writing [])\<lparr>hs_walk := Some (ex_live, [7], Try1)\<rparr>) ((ex_hub True [ex_live] False Registered Writing [])\<lparr>hs_walk := Some (ex_live, [], Try1)\<rparr>)"
    using hub_step.walks[of "(ex_hub True [] False Registered Writing [])\<lparr>hs_walk := Some (ex_live, [7], Try1)\<rparr>" ex_live 7 "[]" Try1 "ex_c True [] False Registered Writing []"]
    by (simp add: try_step_def offer_def browserSendBuffer_def ex_hub_walked)
  ultimately have "hub_reach ((ex_hub True [ex_live] False Registered Writing [])\<lparr>hs_walk := Some (ex_live, [], Try1)\<rparr>)" by (rule hub_reach.steps)
  moreover have "hub_step ((ex_hub True [ex_live] False Registered Writing [])\<lparr>hs_walk := Some (ex_live, [], Try1)\<rparr>) (ex_hub True [ex_live] False Registered Writing [])"
    using hub_step.walked[of "(ex_hub True [ex_live] False Registered Writing [])\<lparr>hs_walk := Some (ex_live, [], Try1)\<rparr>"] by (simp add: ex_hub_walked)
  ultimately show ?thesis by (rule hub_reach.steps)
qed

lemma ex_closed: "hub_reach (ex_hub False [ex_live, ex_init] True Closing Writing [])"
proof -
  let ?q = "[ex_live, ex_init]"
  have "hub_step (ex_hub True [ex_live] False Registered Writing []) (ex_hub True [ex_live] False (Filling ex_init Try1) Writing [])"
    using hub_step.backfill[of "ex_hub True [ex_live] False Registered Writing []" 7 "ex_c True [ex_live] False Registered Writing []" ex_init] by simp
  then have "hub_reach (ex_hub True [ex_live] False (Filling ex_init Try1) Writing [])" by (rule hub_reach.steps[OF ex_connects])
  moreover have "hub_step (ex_hub True [ex_live] False (Filling ex_init Try1) Writing []) (ex_hub True ?q False Reading Writing [])"
    using hub_step.fills[of "ex_hub True [ex_live] False (Filling ex_init Try1) Writing []" 7 "ex_c True [ex_live] False (Filling ex_init Try1) Writing []" ex_init Try1] by (simp add: try_step_def offer_def browserSendBuffer_def)
  ultimately have "hub_reach (ex_hub True ?q False Reading Writing [])" by (rule hub_reach.steps)
  moreover have "hub_step (ex_hub True ?q False Reading Writing []) (ex_hub True ?q False Leaving Writing [])"
    using hub_step.read_fails[of "ex_hub True ?q False Reading Writing []" 7] by simp
  ultimately have "hub_reach (ex_hub True ?q False Leaving Writing [])" by (rule hub_reach.steps)
  moreover have "hub_step (ex_hub True ?q False Leaving Writing []) (ex_hub False ?q False Unregistered Writing [])"
    using hub_step.leaves[of "ex_hub True ?q False Leaving Writing []" 7] by simp
  ultimately have "hub_reach (ex_hub False ?q False Unregistered Writing [])" by (rule hub_reach.steps)
  moreover have "hub_step (ex_hub False ?q False Unregistered Writing []) (ex_hub False ?q True Closing Writing [])"
    using hub_step.closes[of "ex_hub False ?q False Unregistered Writing []" 7] by simp
  ultimately show ?thesis by (rule hub_reach.steps)
qed

text \<open>
  A live update can reach a browser before the backfill: the client is registered before its first
  message is queued.
\<close>

lemma live_before_init: "\<exists>h c. hub_reach h \<and> hs_clients h 7 = Some c \<and> wc_wire c = [ex_live, ex_init]"
proof -
  have "hub_step (ex_hub False [ex_live, ex_init] True Closing Writing []) (ex_hub False [ex_init] True Closing Writing [ex_live])"
    using hub_step.writes[of "ex_hub False [ex_live, ex_init] True Closing Writing []" 7 "ex_c False [ex_live, ex_init] True Closing Writing []" ex_live "[ex_init]"] by simp
  then have "hub_reach (ex_hub False [ex_init] True Closing Writing [ex_live])" by (rule hub_reach.steps[OF ex_closed])
  moreover have "hub_step (ex_hub False [ex_init] True Closing Writing [ex_live]) (ex_hub False [] True Closing Writing [ex_live, ex_init])"
    using hub_step.writes[of "ex_hub False [ex_init] True Closing Writing [ex_live]" 7 "ex_c False [ex_init] True Closing Writing [ex_live]" ex_init "[]"] by simp
  ultimately have "hub_reach (ex_hub False [] True Closing Writing [ex_live, ex_init])" by (rule hub_reach.steps)
  then show ?thesis by (intro exI[of _ "ex_hub False [] True Closing Writing [ex_live, ex_init]"]) simp
qed

text \<open>
  An endless run: the writer of the browser that left fails to write, and from then on broadcasts to
  nobody start and end.
\<close>

definition ex_run :: "nat \<Rightarrow> hub_state" where
  "ex_run i =
     (if i = 0 then ex_hub False [ex_live, ex_init] True Closing Writing []
      else if even i then (ex_hub False [ex_init] True Closing Stopped [])\<lparr>hs_walk := Some (ex_live, [], Try1)\<rparr>
      else ex_hub False [ex_init] True Closing Stopped [])"

lemma ex_run_steps: "hub_run ex_run"
proof -
  have "hub_step (ex_hub False [ex_live, ex_init] True Closing Writing []) (ex_hub False [ex_init] True Closing Stopped [])"
    using hub_step.write_fails[of "ex_hub False [ex_live, ex_init] True Closing Writing []" 7 "ex_c False [ex_live, ex_init] True Closing Writing []" ex_live "[ex_init]"] by simp
  moreover have "hub_step (ex_hub False [ex_init] True Closing Stopped []) ((ex_hub False [ex_init] True Closing Stopped [])\<lparr>hs_walk := Some (ex_live, [], Try1)\<rparr>)"
    by (rule hub_step.walk) auto
  moreover have "hub_step ((ex_hub False [ex_init] True Closing Stopped [])\<lparr>hs_walk := Some (ex_live, [], Try1)\<rparr>) (ex_hub False [ex_init] True Closing Stopped [])"
    using hub_step.walked[of "(ex_hub False [ex_init] True Closing Stopped [])\<lparr>hs_walk := Some (ex_live, [], Try1)\<rparr>"] by (simp add: ex_hub_walked)
  ultimately show ?thesis using ex_closed by (auto simp: hub_run_def ex_run_def)
qed

lemma ex_run_scheduled: "scheduled ex_run"
  unfolding scheduled_def
proof (intro conjI allI impI)
  fix i assume "hs_walk (ex_run i) \<noteq> None"
  then have "hs_walk (ex_run (Suc i)) \<noteq> hs_walk (ex_run i)" by (auto simp: ex_run_def split: if_splits)
  then show "\<exists>j\<ge>i. hs_walk (ex_run j) \<noteq> hs_walk (ex_run i)" by (auto intro!: exI[of _ "Suc i"])
next
  fix i k c assume "hs_clients (ex_run i) k = Some c \<and> wc_closed c \<and> wc_writer c = Writing"
  then have "i = 0" "k = 7" by (auto simp: ex_run_def split: if_splits)
  then show "\<exists>j\<ge>i. writer_left k (ex_run j) \<noteq> writer_left k (ex_run i)" by (auto simp: ex_run_def writer_left_def intro!: exI[of _ "Suc 0"])
qed

section \<open>Properties\<close>

text \<open>
  C14: the hub never sends on a closed channel. In every interleaving of connecting and leaving browsers,
  their first messages, their writers and broadcasts, no send panics, no queue exceeds its 256
  messages, a client whose channel is closed is not in the map any more, and a client is in the map
  exactly from its registration to its removal.
\<close>
theorem hub_safe:
  assumes "hub_reach h"
  shows "\<not> hs_panic h \<and> (\<forall>k c. hs_clients h k = Some c \<longrightarrow> length (wc_send c) \<le> browserSendBuffer \<and> (wc_closed c \<longrightarrow> \<not> wc_registered c) \<and>
    (wc_registered c \<longleftrightarrow> wc_serve c \<notin> {Upgraded, Unregistered, Closing, Gone}))"
  using hub_reach_inv[OF assms] by (auto simp: hub_inv_def client_inv_def)

theorem hub_safe_witness:
  "\<not> hs_panic (ex_hub False [ex_live, ex_init] True Closing Writing []) \<and> length [ex_live, ex_init] \<le> browserSendBuffer"
  using hub_safe[OF ex_closed] by (auto dest!: spec[of _ 7])

text \<open>
  C15: the hub's goroutines end. Neither a broadcast, which holds the mutex, nor the writer of a client
  whose channel was closed ever waits for another goroutine: each has a step that leaves less of its
  work. So in every run whose scheduler does not pass a goroutine over forever, every broadcast gives
  the mutex back and every such writer returns, however slow or stuck the browsers are.
\<close>
theorem hub_goroutines_end:
  assumes "hub_run f" "scheduled f"
  shows "(hs_walk (f i) \<noteq> None \<longrightarrow> (\<exists>h'. hub_step (f i) h' \<and> walk_left h' < walk_left (f i)) \<and> (\<exists>j\<ge>i. hs_walk (f j) = None)) \<and>
    (hs_clients (f i) k = Some c \<and> wc_closed c \<longrightarrow>
       (wc_writer c = Writing \<longrightarrow> (\<exists>h'. hub_step (f i) h' \<and> writer_left k h' < writer_left k (f i))) \<and>
       (\<exists>j\<ge>i. \<exists>c'. hs_clients (f j) k = Some c' \<and> wc_writer c' = Stopped))"
  using hub_run_inv[OF assms(1), of i] walk_enabled[of "f i"] writer_enabled[of "f i" k c] walk_ends[OF assms, of i] writer_ends[OF assms, of i k c]
  by (auto simp: split_paired_all)

theorem hub_goroutines_end_witness:
  "hs_walk (ex_run 2) \<noteq> None \<and> (\<exists>j\<ge>2. hs_walk (ex_run j) = None) \<and> (\<exists>j\<ge>0. \<exists>c'. hs_clients (ex_run j) 7 = Some c' \<and> wc_writer c' = Stopped)"
proof -
  have w: "hs_walk (ex_run 2) \<noteq> None" by (simp add: ex_run_def)
  have c: "hs_clients (ex_run 0) 7 = Some (ex_c False [ex_live, ex_init] True Closing Writing [])" by (simp add: ex_run_def)
  show ?thesis
    using w c hub_goroutines_end[OF ex_run_steps ex_run_scheduled, of 2 7] hub_goroutines_end[OF ex_run_steps ex_run_scheduled, of 0 7 "ex_c False [ex_live, ex_init] True Closing Writing []"]
    by auto
qed

end
