(* ===== verification/Sdnotify.thy ===== *)
theory Sdnotify
  imports Prelude "HOL-Library.Signed_Division"
begin

text \<open>
  \<^verbatim>\<open>internal/sdnotify/sdnotify.go\<close>: messages to the service manager and the watchdog. The environment
  variables, and whether the socket can be dialled and written, are in \<open>sd_env\<close>; an unset variable is the
  empty string, as \<^verbatim>\<open>os.Getenv\<close> has it. The interval is a \<^verbatim>\<open>time.Duration\<close>, 64 bits with wrap-around.
\<close>

record sd_env =
  sd_NOTIFY_SOCKET :: string
  sd_WATCHDOG_USEC :: string
  sd_dial :: bool
  sd_write :: "string \<Rightarrow> bool"

text \<open>Whether no error is returned, and the datagrams sent.\<close>

definition notify :: "sd_env \<Rightarrow> string \<Rightarrow> bool \<times> string list" where
  "notify e state =
     (if sd_NOTIFY_SOCKET e = [] then (True, [])
      else if \<not> sd_dial e then (False, [])
      else if sd_write e state then (True, [state]) else (False, []))"

definition sd_Ready :: "sd_env \<Rightarrow> bool \<times> string list" where "sd_Ready e = notify e ''READY=1''"

definition sd_Status :: "sd_env \<Rightarrow> string \<Rightarrow> bool \<times> string list" where "sd_Status e s = notify e (''STATUS='' @ s)"

definition WatchdogInterval :: "sd_env \<Rightarrow> int64" where
  "WatchdogInterval e =
     (let usec = sd_WATCHDOG_USEC e
      in if usec = [] then 0
         else let (n, ok) = ParseInt usec 10 64
              in if \<not> ok \<or> n \<le> 0 then 0 else word_of_int (sint (word_of_int n * 1000 :: int64) sdiv 2))"

text \<open>\<open>n\<close> ticks of the ticker before the context ends. \<^verbatim>\<open>NewTicker\<close> panics unless the interval is positive.\<close>

definition RunWatchdog :: "sd_env \<Rightarrow> nat \<Rightarrow> string list" where
  "RunWatchdog e n = (let iv = WatchdogInterval e in if iv \<le>s 0 then [] else concat (replicate n (snd (notify e ''WATCHDOG=1''))))"

text \<open>
  For a timeout that a duration can hold, the interval is half of it in nanoseconds, to the nanosecond,
  so two intervals never exceed the timeout.
\<close>

lemma WatchdogInterval_half:
  assumes "sd_WATCHDOG_USEC e = Itoa n" "0 < n" "n * 1000 < 2 ^ 63"
  shows "sint (WatchdogInterval e) = n * 500"
proof -
  have p: "ParseInt (sd_WATCHDOG_USEC e) 10 64 = (n, True)" using assms by (simp add: ParseInt_Itoa)
  then have "sd_WATCHDOG_USEC e \<noteq> []" by (auto simp: ParseInt_def)
  moreover note p
  moreover have r: "sint (word_of_int k :: int64) = k" if "0 \<le> k" "k < 2 ^ 63" for k
    using that by (simp add: sint_sbintrunc' signed_take_bit_int_eq_self)
  have "sint (word_of_int n * 1000 :: int64) = n * 1000" using r[of "n * 1000"] assms(2,3) by simp
  then have "WatchdogInterval e = word_of_int (n * 500)" using calculation assms(2) by (simp add: WatchdogInterval_def Let_def signed_divide_int_def)
  then show ?thesis using r[of "n * 500"] assms(2,3) by simp
qed

lemma RunWatchdog_pings:
  assumes "sd_WATCHDOG_USEC e = Itoa n" "0 < n" "n * 1000 < 2 ^ 63" "sd_NOTIFY_SOCKET e \<noteq> []" "sd_dial e" "sd_write e ''WATCHDOG=1''"
  shows "RunWatchdog e k = replicate k ''WATCHDOG=1''"
proof -
  have "\<not> WatchdogInterval e \<le>s 0" using WatchdogInterval_half[OF assms(1-3)] assms(2) by (simp add: word_sle_eq)
  then show ?thesis using assms(4-6) by (induction k) (simp_all add: RunWatchdog_def notify_def)
qed

end
