(* ===== verification/Cli.thy ===== *)
theory Cli
  imports Prelude
begin

text \<open>
  What both programs use of Go's \<^verbatim>\<open>flag\<close> package: string flags with defaults, parsed with \<^verbatim>\<open>ExitOnError\<close>.
  A flag set maps the names of its flags to their current values.
\<close>

datatype flags = Parsed "(string, string) gomap" "string list" | FlagHelp | FlagBad

text \<open>A flag: one or two dashes, a name and perhaps \<^verbatim>\<open>=value\<close>; \<open>None\<close> when the syntax is wrong.\<close>

definition read_flag :: "string \<Rightarrow> (string \<times> string option) option" where
  "read_flag s =
     (let body = (if s ! 1 = CHR ''-'' then drop 2 s else tl s); name = takeWhile (\<lambda>c. c \<noteq> CHR ''='') body
      in if body = [] \<or> hd body = CHR ''-'' \<or> hd body = CHR ''='' then None
         else Some (name, if length name = length body then None else Some (drop (Suc (length name)) body)))"

fun parse_flags :: "(string, string) gomap \<Rightarrow> string list \<Rightarrow> flags" where
  "parse_flags fs [] = Parsed fs []"
| "parse_flags fs (s # args) =
     (if length s < 2 \<or> hd s \<noteq> CHR ''-'' then Parsed fs (s # args)
      else if s = ''--'' then Parsed fs args
      else case read_flag s of
             None \<Rightarrow> FlagBad
           | Some (name, val) \<Rightarrow>
               if map_of fs name = None then (if name = ''help'' \<or> name = ''h'' then FlagHelp else FlagBad)
               else (case val of
                       Some v \<Rightarrow> parse_flags (AList.update name v fs) args
                     | None \<Rightarrow> (case args of [] \<Rightarrow> FlagBad | v # args' \<Rightarrow> parse_flags (AList.update name v fs) args')))"

text \<open>\<^verbatim>\<open>ExitOnError\<close>: the process exits with 0 when help was asked for and with 2 on a wrong command line.\<close>

definition fs_Parse :: "(string, string) gomap \<Rightarrow> string list \<Rightarrow> int + (string, string) gomap" where
  "fs_Parse fs args = (case parse_flags fs args of Parsed fs' _ \<Rightarrow> Inr fs' | FlagHelp \<Rightarrow> Inl 0 | FlagBad \<Rightarrow> Inl 2)"

text \<open>A flag set keeps its flags, so every flag has a value after parsing.\<close>

lemma parse_flags_flag:
  assumes "\<not> (length s < 2 \<or> hd s \<noteq> CHR ''-'')" "s \<noteq> ''--''" "parse_flags fs (s # args) = Parsed fs' rest"
  obtains name v where "map_of fs name \<noteq> None" "parse_flags (AList.update name v fs) args = Parsed fs' rest"
  | name v args' where "map_of fs name \<noteq> None" "args = v # args'" "parse_flags (AList.update name v fs) args' = Parsed fs' rest"
proof -
  note p = assms(3)[unfolded parse_flags.simps(2) if_not_P[OF assms(1)] if_not_P[OF assms(2)]]
  show thesis
  proof (cases "read_flag s")
    case (Some nv)
    obtain name val where nv: "nv = (name, val)" by (cases nv)
    have m: "map_of fs name \<noteq> None" using p Some nv by (auto simp del: parse_flags.simps split: if_split_asm)
    show thesis
    proof (cases val)
      case None
      then obtain v args' where "args = v # args'" using p Some nv m by (cases args) (auto simp del: parse_flags.simps)
      then show thesis using that(2)[OF m] p Some nv m None by (simp del: parse_flags.simps)
    qed (use that(1)[OF m] p Some nv m in \<open>simp del: parse_flags.simps\<close>)
  qed (use p in simp)
qed

lemma parse_flags_dom: "parse_flags fs args = Parsed fs' rest \<Longrightarrow> fst ` set fs' = fst ` set fs"
proof (induction args arbitrary: fs rule: length_induct)
  case (1 args)
  have d: "fst ` set (AList.update name v fs) = fst ` set fs" if "map_of fs name \<noteq> None" for name v
    using that by (auto simp: dom_update map_of_eq_None_iff)
  show ?case
  proof (cases args)
    case Nil
    then show ?thesis using "1.prems" by simp
  next
    case (Cons s as)
    show ?thesis
    proof (cases "length s < 2 \<or> hd s \<noteq> CHR ''-''")
      case True
      then show ?thesis using "1.prems" by (simp only: Cons parse_flags.simps(2) if_P) simp
    next
      case False
      show ?thesis
      proof (cases "s = ''--''")
        case True
        then show ?thesis using "1.prems" by (simp add: Cons)
      next
        case s: False
        have ih: "length bs < length args \<Longrightarrow> parse_flags (AList.update name v fs) bs = Parsed fs' rest \<Longrightarrow> map_of fs name \<noteq> None \<Longrightarrow> ?thesis" for name v bs
          using "1.IH" d by blast
        show ?thesis
        proof (rule parse_flags_flag[OF False s "1.prems"[unfolded Cons]])
          fix name v assume "map_of fs name \<noteq> None" "parse_flags (AList.update name v fs) as = Parsed fs' rest"
          then show ?thesis using ih[of as] Cons by (simp del: parse_flags.simps)
        next
          fix name v as' assume "map_of fs name \<noteq> None" "as = v # as'" "parse_flags (AList.update name v fs) as' = Parsed fs' rest"
          then show ?thesis using ih[of as'] Cons by (simp del: parse_flags.simps)
        qed
      qed
    qed
  qed
qed

lemma fs_Parse_dom: "fs_Parse fs args = Inr fs' \<Longrightarrow> map_of fs' k = None \<longleftrightarrow> map_of fs k = None"
  by (cases "parse_flags fs args") (simp_all add: fs_Parse_def map_of_eq_None_iff parse_flags_dom)

end
