(* ===== verification/Panel_Main.thy ===== *)
theory Panel_Main
  imports Cli Sdnotify Setup Sync
begin

text \<open>
  The panel's process: \<^verbatim>\<open>panel/main.go\<close>, \<^verbatim>\<open>Connect\<close> of \<^verbatim>\<open>db.go\<close>, \<^verbatim>\<open>New\<close> of \<^verbatim>\<open>app.go\<close>, \<^verbatim>\<open>StartAll\<close> of \<^verbatim>\<open>nodemgr.go\<close> and
  \<^verbatim>\<open>Start\<close> of \<^verbatim>\<open>server.go\<close>. A command is a function of its arguments, its surroundings and the database
  server; it gives its exit status, what it prints on the standard output, and the server afterwards.
  The lemmas are about the two commands an operator runs when nobody can log in, and about a panel
  that starts before its database.
\<close>

section \<open>Surroundings\<close>

text \<open>
  \<open>me_file\<close>: the readable files; \<open>me_yaml\<close>: the decoder of the configuration; \<open>me_open\<close>: whether the driver
  accepts a data source name; \<open>me_ping\<close>: whether the first ping is answered; \<open>me_bytes\<close>: the random bytes of
  a password; \<open>me_hash\<close>: bcrypt; \<open>me_entries\<close>: the embedded migrations.
\<close>

record main_env =
  me_file :: "string \<Rightarrow> string option"
  me_yaml :: "string \<Rightarrow> panel_Config option"
  me_open :: "string \<Rightarrow> bool"
  me_ping :: bool
  me_now :: int
  me_bytes :: "nat list"
  me_hash :: "string \<Rightarrow> string option"
  me_entries :: "string list"
  me_version :: string
  me_sd :: sd_env

record dbms =
  dm_schema :: schema
  dm_store :: Store

datatype line = VersionLine string | MigratedLine | AdminExists | AdminCreated string | AdminReset string

type_synonym command = "main_env \<Rightarrow> string list \<Rightarrow> dbms \<Rightarrow> int \<times> line list \<times> dbms"

section \<open>Commands\<close>

definition loadCfg :: "main_env \<Rightarrow> string list \<Rightarrow> int + panel_Config" where
  "loadCfg e args =
     (case fs_Parse [(''config'', ''/etc/frp-panel/config.yaml'')] args of
        Inl code \<Rightarrow> Inl code
      | Inr fs \<Rightarrow> (case panel_LoadConfig (me_yaml e) (me_file e (mget [] fs ''config'')) of Inl _ \<Rightarrow> Inl 1 | Inr cfg \<Rightarrow> Inr cfg))"

text \<open>Opening the pool only checks the data source name; the first statement connects.\<close>

definition Connect :: "main_env \<Rightarrow> panel_Config \<Rightarrow> bool" where
  "Connect e cfg = me_open e (DSN (pg_MySQL cfg))"

definition on_schema :: "main_env \<Rightarrow> dbms \<Rightarrow> bool \<times> dbms" where
  "on_schema e d = (let (fine, s) = Migrate (me_entries e) (dm_schema d) in (fine, d\<lparr>dm_schema := s\<rparr>))"

definition on_store :: "'a db \<Rightarrow> dbms \<Rightarrow> (db_error + 'a) \<times> dbms" where
  "on_store f d = (let (r, s) = f (dm_store d) in (r, d\<lparr>dm_store := s\<rparr>))"

definition cmdMigrate :: command where
  "cmdMigrate e args d =
     (case loadCfg e args of
        Inl code \<Rightarrow> (code, [], d)
      | Inr cfg \<Rightarrow>
          if \<not> Connect e cfg then (1, [], d)
          else case on_schema e d of (False, d) \<Rightarrow> (1, [], d) | (True, d) \<Rightarrow> (0, [MigratedLine], d))"

definition cmdEnsureAdmin :: command where
  "cmdEnsureAdmin e args d =
     (case loadCfg e args of
        Inl code \<Rightarrow> (code, [], d)
      | Inr cfg \<Rightarrow>
          if \<not> Connect e cfg then (1, [], d)
          else case on_schema e d of
                 (False, d) \<Rightarrow> (1, [], d)
               | (True, d) \<Rightarrow>
                   (case on_store (GetUserByUsername ''admin'') d of
                      (Inl _, d) \<Rightarrow> (1, [], d)
                    | (Inr (Some _), d) \<Rightarrow> (0, [AdminExists], d)
                    | (Inr None, d) \<Rightarrow>
                        (let pw = RandomPassword (me_bytes e)
                         in case me_hash e pw of
                              None \<Rightarrow> (1, [], d)
                            | Some hash \<Rightarrow>
                                (case on_store (CreateUser (me_now e) ''admin'' hash) d of
                                   (Inl _, d) \<Rightarrow> (1, [], d)
                                 | (Inr _, d) \<Rightarrow> (0, [AdminCreated pw], d)))))"

text \<open>The error of the lookup is dropped, so a failed lookup counts as a missing user.\<close>

definition cmdResetAdmin :: command where
  "cmdResetAdmin e args d =
     (case loadCfg e args of
        Inl code \<Rightarrow> (code, [], d)
      | Inr cfg \<Rightarrow>
          if \<not> Connect e cfg then (1, [], d)
          else case on_schema e d of
                 (False, d) \<Rightarrow> (1, [], d)
               | (True, d) \<Rightarrow>
                   (let pw = RandomPassword (me_bytes e)
                    in case me_hash e pw of
                         None \<Rightarrow> (1, [], d)
                       | Some hash \<Rightarrow>
                           (case on_store (GetUserByUsername ''admin'') d of
                              (Inr (Some u), d) \<Rightarrow>
                                (case on_store (UpdatePassword (me_now e) (u_ID u) hash) d of
                                   (Inl _, d) \<Rightarrow> (1, [], d)
                                 | (Inr _, d) \<Rightarrow> (0, [AdminReset pw], d))
                            | (_, d) \<Rightarrow>
                                (case on_store (CreateUser (me_now e) ''admin'' hash) d of
                                   (Inl _, d) \<Rightarrow> (1, [], d)
                                 | (Inr _, d) \<Rightarrow> (0, [AdminReset pw], d)))))"

section \<open>The service\<close>

text \<open>\<^verbatim>\<open>New\<close>: the application's state, with the managers of frpc and of the nodes.\<close>

definition app_New :: "panel_Config \<Rightarrow> Store \<Rightarrow> Panel" where
  "app_New cfg s = NewNodeManager (New s (pg_PanelName cfg) (pg_UpdateBaseURL cfg)) (NewFrpcManager (pg_DataDir cfg @ ''/frpc.d'') (pg_JWTSecret cfg))"

text \<open>What \<^verbatim>\<open>runService\<close> does before it serves: migrations and settings, when the database answers.\<close>

definition boot :: "main_env \<Rightarrow> panel_Config \<Rightarrow> dbms \<Rightarrow> Panel \<times> schema" where
  "boot e cfg d =
     (let P = app_New cfg (dm_store d)
      in if \<not> me_ping e then (P, dm_schema d)
         else case Migrate (me_entries e) (dm_schema d) of
                (False, s) \<Rightarrow> (P, s)
              | (True, s) \<Rightarrow> (on_app LoadRuntimeSettings P, s))"

text \<open>
  \<^verbatim>\<open>StartAll\<close>: the attempts of the call itself and of its ticker, until one succeeds. Each comes with the
  outside at that time and with what the rest of the panel did since the attempt before.
\<close>

fun StartAll :: "(panel_env \<times> (Panel \<Rightarrow> Panel)) list \<Rightarrow> Panel \<Rightarrow> bool \<times> Panel" where
  "StartAll [] P = (False, P)"
| "StartAll ((e, g) # ts) P = (case tryStartAll e (g P) of (True, P) \<Rightarrow> (True, P) | (False, P) \<Rightarrow> StartAll ts P)"

text \<open>
  How serving ends: the listener fails, or the context ended and the server was shut down. \<open>ts\<close> are the
  attempts of \<^verbatim>\<open>StartAll\<close>, \<open>g\<close> what the loops and handlers did after them.
\<close>

datatype serving = ListenFailed | ShutDown

definition Start :: "(panel_env \<times> (Panel \<Rightarrow> Panel)) list \<Rightarrow> (Panel \<Rightarrow> Panel) \<Rightarrow> serving \<Rightarrow> Panel \<Rightarrow> bool \<times> Panel" where
  "Start ts g fin P =
     (let P = g (snd (StartAll ts P))
      in case fin of ListenFailed \<Rightarrow> (False, P) | ShutDown \<Rightarrow> (True, nm_StopAll P))"

text \<open>The exit status, the datagrams to the service manager, and the panel if it came to serve.\<close>

definition runService :: "main_env \<Rightarrow> string list \<Rightarrow> (panel_env \<times> (Panel \<Rightarrow> Panel)) list \<Rightarrow> (Panel \<Rightarrow> Panel) \<Rightarrow> serving \<Rightarrow> dbms \<Rightarrow> int \<times> string list \<times> Panel option \<times> schema" where
  "runService e args ts g fin d =
     (case loadCfg e args of
        Inl code \<Rightarrow> (code, [], None, dm_schema d)
      | Inr cfg \<Rightarrow>
          if \<not> Connect e cfg then (1, [], None, dm_schema d)
          else let (P, s) = boot e cfg d; msgs = snd (sd_Ready (me_sd e)) @ snd (sd_Status (me_sd e) ''running''); (fine, P) = Start ts g fin P
               in (if fine then 0 else 1, msgs, Some P, s))"

datatype invocation = Printed "int \<times> line list \<times> dbms" | Service "string list"

text \<open>\<^verbatim>\<open>main\<close>: which command the arguments ask for (\<open>args\<close> without the program's name).\<close>

definition panel_main :: "main_env \<Rightarrow> string list \<Rightarrow> dbms \<Rightarrow> invocation" where
  "panel_main e args d =
     (case args of
        [] \<Rightarrow> Service []
      | cmd # rest \<Rightarrow>
          if cmd \<in> {''version'', ''-v'', ''--version''} then Printed (0, [VersionLine (me_version e)], d)
          else if cmd = ''migrate'' then Printed (cmdMigrate e rest d)
          else if cmd = ''ensure-admin'' then Printed (cmdEnsureAdmin e rest d)
          else if cmd = ''reset-admin'' then Printed (cmdResetAdmin e rest d)
          else if cmd = ''run'' then Service rest
          else Service args)"

section \<open>A working database server\<close>

lemma migrate_files_fine: "sc_faults s = [] \<Longrightarrow> fst (migrate_files zs s) \<and> sc_faults (snd (migrate_files zs s)) = []"
  by (induction zs arbitrary: s) (simp_all add: sc_stmt_def Let_def)

lemma on_schema_fine: "sc_faults (dm_schema d) = [] \<Longrightarrow> \<exists>s. on_schema e d = (True, d\<lparr>dm_schema := s\<rparr>)"
  using migrate_files_fine[of "dm_schema d" "sort (me_entries e)"] by (auto simp: on_schema_def Migrate_def sc_stmt_def split: prod.split)

abbreviation admin_row :: "Store \<Rightarrow> User option" where
  "admin_row s \<equiv> find (\<lambda>u. u_Username u = ''admin'') (db_users s)"

text \<open>A command line and a configuration with which a command comes to the database.\<close>

definition reaches_db :: "main_env \<Rightarrow> string list \<Rightarrow> dbms \<Rightarrow> bool" where
  "reaches_db e args d \<longleftrightarrow> (\<exists>cfg. loadCfg e args = Inr cfg \<and> Connect e cfg) \<and> sc_faults (dm_schema d) = []"

text \<open>What the reset does to the users.\<close>

definition reset_users :: "main_env \<Rightarrow> string \<Rightarrow> Store \<Rightarrow> Store" where
  "reset_users e hash s =
     (case admin_row s of
        None \<Rightarrow> s\<lparr>db_users := db_users s @ [\<lparr>u_ID = db_nextUser s, u_Username = ''admin'', u_PasswordHash = hash, u_PwdVersion = 1, u_CreatedAt = me_now e, u_UpdatedAt = me_now e\<rparr>],
                  db_nextUser := db_nextUser s + 1\<rparr>
      | Some u \<Rightarrow> s\<lparr>db_users := map (\<lambda>v. if u_ID v = u_ID u then v\<lparr>u_PasswordHash := hash, u_PwdVersion := u_PwdVersion v + 1, u_UpdatedAt := me_now e\<rparr> else v) (db_users s)\<rparr>)"

lemma reset_admin_effect:
  assumes "reaches_db e args d" "db_faults (dm_store d) = []" "me_hash e (RandomPassword (me_bytes e)) = Some hash"
  shows "\<exists>s. cmdResetAdmin e args d = (0, [AdminReset (RandomPassword (me_bytes e))], d\<lparr>dm_schema := s, dm_store := reset_users e hash (dm_store d)\<rparr>)"
proof -
  obtain cfg where c: "loadCfg e args = Inr cfg" "Connect e cfg" using assms(1) by (auto simp: reaches_db_def)
  obtain s where s: "on_schema e d = (True, d\<lparr>dm_schema := s\<rparr>)" using on_schema_fine assms(1) unfolding reaches_db_def by blast
  show ?thesis
  proof (cases "admin_row (dm_store d)")
    case None
    then show ?thesis using c s assms(2,3) by (auto simp: cmdResetAdmin_def on_store_def GetUserByUsername_def CreateUser_def db_defs reset_users_def)
  next
    case (Some u)
    then have "u \<in> set (db_users (dm_store d))" by (auto simp: find_Some_iff)
    then have "find (\<lambda>v. u_ID v = u_ID u) (db_users (dm_store d)) \<noteq> None" by (auto simp: find_None_iff)
    then obtain v where "find (\<lambda>v. u_ID v = u_ID u) (db_users (dm_store d)) = Some v" by blast
    with Some show ?thesis using c s assms(2,3)
      by (auto simp: cmdResetAdmin_def on_store_def GetUserByUsername_def UpdatePassword_def db_defs reset_users_def find_map_pres)
  qed
qed

lemma reset_users_admin: "\<exists>v. admin_row (reset_users e hash s) = Some v \<and> u_PasswordHash v = hash \<and> u_Username v = ''admin''"
proof (cases "admin_row s")
  case None
  then have "find (\<lambda>u. u_Username u = ''admin'') (db_users s @ [w]) = Some w" if "u_Username w = ''admin''" for w
    using that by (simp add: find_append)
  then show ?thesis using None by (simp add: reset_users_def)
next
  case (Some u)
  moreover have "u_Username u = ''admin''" using Some by (auto simp: find_Some_iff)
  ultimately show ?thesis by (simp add: reset_users_def find_map_pres)
qed

lemma find_key: "distinct (map f xs) \<Longrightarrow> x \<in> set xs \<Longrightarrow> find (\<lambda>y. f y = f x) xs = Some x"
  by (induction xs) auto

lemma reset_users_version:
  assumes "wf_store s" "admin_row s = Some u"
  shows "\<exists>v. find (\<lambda>v. u_ID v = u_ID u) (db_users (reset_users e hash s)) = Some v \<and> u_PwdVersion v = u_PwdVersion u + 1"
proof -
  have "distinct (map u_ID (db_users s))" using assms(1) by (simp add: wf_store_simps ids_ok_def strict_sorted_iff)
  moreover have "u \<in> set (db_users s)" using assms(2) by (auto simp: find_Some_iff)
  ultimately have "find (\<lambda>v. u_ID v = u_ID u) (db_users s) = Some u" by (rule find_key)
  then show ?thesis using assms(2) by (simp add: reset_users_def find_map_pres)
qed

text \<open>A login with the right name and password, on a panel whose database works.\<close>

lemma login_succeeds:
  assumes "DBUp a" "db_faults (app_store a) = []" "find (\<lambda>u. u_Username u = name) (db_users (app_store a)) = Some v" "lib_check lib (u_PasswordHash v) pw"
    "\<not> fst (login_Blocked (rq_IP r) (now * 1000000000) (au_limiter au))" "\<forall>c. lib_sign lib (au_secret au) c \<noteq> None"
  shows "rs_Code (fst (fst (handleLogin lib now csrf r (Inr \<lparr>lr_Username = name, lr_Password = pw\<rparr>) au a))) = CodeOK"
proof -
  obtain l where l: "login_Blocked (rq_IP r) (now * 1000000000) (au_limiter au) = (False, l)" using assms(5) by (cases "login_Blocked (rq_IP r) (now * 1000000000) (au_limiter au)") auto
  have g: "run_db (GetUserByUsername name) a = (Inr (Some v), a)" using assms(2,3) by (simp add: run_db_def GetUserByUsername_def db_defs)
  obtain tok where "Issue lib now v (au\<lparr>au_limiter := login_Success (rq_IP r) l\<rparr>) = Some tok" using assms(6) by (auto simp: Issue_def)
  then show ?thesis using l g assms(1,4) by (simp add: handleLogin_def decodeJSON_def Let_def)
qed

section \<open>Starting nodes\<close>

lemma nm_start_conns:
  "pn_conns (nm_start e n P) = (if map_of (pn_conns P) (nd_ID n) = None then AList.update (nd_ID n) (pn_next P) (pn_conns P) else pn_conns P)"
  using nm_start_new[of P n e] by (auto simp: keeps_ids_def nm_start_def)

lemma nm_start_keeps: "map_of (pn_conns P) i = Some oid \<Longrightarrow> map_of (pn_conns (nm_start e n P)) i = Some oid"
  by (auto simp: nm_start_conns map_of_update)

lemma fold_start_keeps: "map_of (pn_conns P) i = Some oid \<Longrightarrow> map_of (pn_conns (fold (nm_start e) ns P)) i = Some oid"
  by (induction ns arbitrary: P) (simp_all add: nm_start_keeps)

lemma fold_start_all: "n \<in> set ns \<Longrightarrow> map_of (pn_conns (fold (nm_start e) ns P)) (nd_ID n) \<noteq> None"
proof (induction ns arbitrary: P)
  case (Cons m ns)
  show ?case
  proof (cases "n = m")
    case True
    then have "map_of (pn_conns (nm_start e n P)) (nd_ID n) \<noteq> None" by (simp add: nm_start_conns map_of_update)
    then show ?thesis using True by (auto dest: fold_start_keeps)
  qed (use Cons in simp)
qed simp

text \<open>An attempt that can read the node list manages every node in it and keeps the drivers there are.\<close>

lemma tryStartAll_ok:
  assumes "tryStartAll e P = (True, P')"
  shows "(\<forall>n\<in>set (db_nodes (app_store (pn_app P))). map_of (pn_conns P') (nd_ID n) \<noteq> None) \<and> (\<forall>i oid. map_of (pn_conns P) i = Some oid \<longrightarrow> map_of (pn_conns P') i = Some oid)"
proof -
  obtain ns Q where q: "run_app (run_db ListNodes) P = (Inr ns, Q)" "P' = fold (nm_start e) ns Q"
    using assms by (auto simp: tryStartAll_def split: prod.splits sum.splits)
  then have "ns = db_nodes (app_store (pn_app P))" "pn_conns Q = pn_conns P"
    by (auto simp: run_app_def run_db_def ListNodes_def stmt_def db_read_def Let_def split: prod.splits list.splits if_splits)
  then show ?thesis using q(2) fold_start_all[of _ ns e Q] fold_start_keeps[of Q _ _ e ns] by simp
qed

lemma tryStartAll_works: "db_faults (app_store (pn_app P)) = [] \<Longrightarrow> fst (tryStartAll e P)"
  by (simp add: tryStartAll_def run_app_def run_db_def ListNodes_def db_defs split: prod.split)

lemma StartAll_attempt:
  assumes "StartAll ts P = (True, P')"
  shows "\<exists>e g Q. (e, g) \<in> set ts \<and> tryStartAll e (g Q) = (True, P')"
  using assms
proof (induction ts P rule: StartAll.induct)
  case (2 e g ts P)
  obtain x Q where t: "tryStartAll e (g P) = (x, Q)" by (cases "tryStartAll e (g P)")
  show ?case
  proof (cases x)
    case False
    then have "\<exists>e' g' Q. (e', g') \<in> set ts \<and> tryStartAll e' (g' Q) = (True, P')" using 2 t by simp
    then show ?thesis by auto
  qed (use t "2.prems" in auto)
qed simp

lemma StartAll_works:
  assumes "(e, g) \<in> set ts" "\<And>Q. db_faults (app_store (pn_app (g Q))) = []"
  shows "fst (StartAll ts P)"
  using assms(1)
proof (induction ts P rule: StartAll.induct)
  case (2 e' g' ts P)
  show ?case
  proof (cases "tryStartAll e' (g' P)")
    case (Pair b Q)
    then show ?thesis using 2 tryStartAll_works[OF assms(2), of e P] by (cases b) auto
  qed
qed simp

text \<open>Starting nodes only reads the database.\<close>

lemma nm_start_nodes: "db_nodes (app_store (pn_app (nm_start e n P))) = db_nodes (app_store (pn_app P))"
proof -
  have r: "db_nodes (app_store (pn_app Q')) = db_nodes (app_store (pn_app Q))" if "run_app (desiredProxies i) Q = (x, Q')" for i Q x Q'
    using that by (auto simp: run_app_def desiredProxies_def run_db_def EnabledProxiesForNode_def stmt_def db_read_def Let_def split: prod.splits sum.splits list.splits if_splits)
  have c: "db_nodes (app_store (pn_app (snd (ensure e n ps Q)))) = db_nodes (app_store (pn_app Q))" for ps Q by (cases "ensure e n ps Q") (simp add: ensure_frame)
  have i: "app_store (pn_app (on_app (InitNode j v) Q)) = app_store (pn_app Q)" for j v Q by (simp add: on_app_def InitNode_def Let_def split: option.split)
  have a: "app_store (InitNode j v b) = app_store b" for j v b by (simp add: InitNode_def Let_def split: option.split)
  show ?thesis by (simp add: nm_start_def Let_def i split: prod.split sum.split) (auto simp: c i a dest!: r)
qed

lemma tryStartAll_nodes: "tryStartAll e P = (b, P') \<Longrightarrow> db_nodes (app_store (pn_app P')) = db_nodes (app_store (pn_app P))"
proof -
  have f: "db_nodes (app_store (pn_app (fold (nm_start e) ns Q))) = db_nodes (app_store (pn_app Q))" for ns Q
    by (induction ns arbitrary: Q) (simp_all add: nm_start_nodes)
  assume "tryStartAll e P = (b, P')"
  then show ?thesis
    by (auto simp: tryStartAll_def f run_app_def run_db_def ListNodes_def stmt_def db_read_def Let_def split: prod.splits sum.splits list.splits if_splits)
qed

lemma StartAll_reach:
  assumes "StartAll ts P = (b, P')" "panel_reach P" "\<forall>(e, g)\<in>set ts. \<forall>Q. panel_reach Q \<longrightarrow> panel_reach (g Q)"
  shows "panel_reach P'"
  using assms
proof (induction ts P rule: StartAll.induct)
  case (2 e g ts P)
  obtain x Q where t: "tryStartAll e (g P) = (x, Q)" by (cases "tryStartAll e (g P)")
  have "panel_reach (g P)" using 2(3,4) by auto
  then have "panel_reach Q" using panel_reach.start_all[of "g P" e] t by simp
  then show ?case using 2 t by (cases x) auto
qed simp

section \<open>Other commands\<close>

text \<open>\<^verbatim>\<open>ensure-admin\<close> creates the account at most once: a second run prints that it exists and changes no user.\<close>

lemma ensure_admin_once:
  assumes "cmdEnsureAdmin e args d = (0, out, d')" "out \<noteq> []" "db_faults (dm_store d') = []" "reaches_db e' args' d'"
  shows "\<exists>d''. cmdEnsureAdmin e' args' d' = (0, [AdminExists], d'') \<and> dm_store d'' = dm_store d'"
proof -
  have "admin_row (dm_store d') \<noteq> None"
  proof (cases "admin_row (dm_store d)")
    case None
    then show ?thesis using assms(1,2)
      by (auto simp: cmdEnsureAdmin_def on_schema_def on_store_def GetUserByUsername_def CreateUser_def stmt_def db_read_def Let_def find_append
          split: sum.splits if_splits prod.splits bool.splits list.splits option.splits)
  next
    case (Some u)
    then show ?thesis using assms(1,2)
      by (auto simp: cmdEnsureAdmin_def on_schema_def on_store_def GetUserByUsername_def CreateUser_def stmt_def db_read_def Let_def
          split: sum.splits if_splits prod.splits bool.splits list.splits option.splits)
  qed
  then obtain u where u: "admin_row (dm_store d') = Some u" by blast
  obtain cfg where c: "loadCfg e' args' = Inr cfg" "Connect e' cfg" using assms(4) by (auto simp: reaches_db_def)
  obtain s where s: "on_schema e' d' = (True, d'\<lparr>dm_schema := s\<rparr>)" using on_schema_fine assms(4) unfolding reaches_db_def by blast
  show ?thesis using u c s assms(3) by (simp add: cmdEnsureAdmin_def on_store_def GetUserByUsername_def db_defs)
qed

text \<open>
  A panel that starts while its database is away serves with the schema and the panel name it has: nothing
  after the start applies migrations or loads the name.
\<close>

lemma degraded_start:
  assumes "\<not> me_ping e" "runService e args ts g fin d = (code, msgs, P, s)"
  shows "s = dm_schema d \<and> (\<forall>cfg. app_panelName (pn_app (fst (boot e cfg d))) = pg_PanelName cfg)"
  using assms by (auto simp: runService_def boot_def app_New_def NewNodeManager_def New_def Let_def split: sum.splits if_splits prod.splits)

section \<open>A concrete installation\<close>

definition ex_cfg :: panel_Config where
  "ex_cfg = \<lparr>pg_Listen = [], pg_MySQL = \<lparr>my_Host = [], my_Port = 0, my_User = [], my_Password = [], my_Database = []\<rparr>, pg_JWTSecret = ''s'',
     pg_TLS = \<lparr>tls_Enabled = False, tls_CertFile = [], tls_KeyFile = []\<rparr>, pg_DataDir = [], pg_FrpcBin = [], pg_PanelName = [], pg_UpdateBaseURL = [], pg_Debug = False\<rparr>"

definition ex_main :: main_env where
  "ex_main = \<lparr>me_file = (\<lambda>_. Some []), me_yaml = (\<lambda>_. Some ex_cfg), me_open = (\<lambda>_. True), me_ping = True, me_now = 7, me_bytes = replicate 16 0, me_hash = Some,
     me_entries = [], me_version = [], me_sd = \<lparr>sd_NOTIFY_SOCKET = [], sd_WATCHDOG_USEC = [], sd_dial = True, sd_write = (\<lambda>_. True)\<rparr>\<rparr>"

definition ex_dbms :: "bool list \<Rightarrow> dbms" where
  "ex_dbms fs = \<lparr>dm_schema = empty_schema, dm_store = (app_store ex_admin)\<lparr>db_faults := fs\<rparr>\<rparr>"

lemma ex_reaches: "reaches_db ex_main [] (ex_dbms fs)"
  by (auto simp: reaches_db_def loadCfg_def fs_Parse_def panel_LoadConfig_def ex_main_def ex_cfg_def Connect_def ex_dbms_def empty_schema_def)

lemma ex_dbms_store: "wf_store (dm_store (ex_dbms []))" "dm_store (ex_dbms []) = app_store ex_admin"
proof -
  show "dm_store (ex_dbms []) = app_store ex_admin" using ex_admin_simps(2) by (simp add: ex_dbms_def)
  then show "wf_store (dm_store (ex_dbms []))" by (simp add: ex_admin_def New_def) (rule keepsD[OF keeps_users(3) wf_empty_store])
qed

section \<open>Properties\<close>


text \<open>
  A reset that does nothing. When the admin account exists and only the statement that looks it up
  fails, \<^verbatim>\<open>reset-admin\<close> still exits with status 0 and prints a new password, but no user has changed: the
  insert it falls back to leaves an existing row as it is, so the printed password is not the admin's.
\<close>
theorem reset_admin_silent_failure:
  assumes "reaches_db e args d" "admin_row (dm_store d) = Some u" "db_faults (dm_store d) = [True]" "me_hash e (RandomPassword (me_bytes e)) = Some hash"
    "panel_main e (''reset-admin'' # args) d = Printed (code, out, d')"
  shows "code = 0 \<and> out = [AdminReset (RandomPassword (me_bytes e))] \<and> db_users (dm_store d') = db_users (dm_store d) \<and> admin_row (dm_store d') = Some u"
proof -
  obtain cfg where c: "loadCfg e args = Inr cfg" "Connect e cfg" using assms(1) by (auto simp: reaches_db_def)
  obtain s where s: "on_schema e d = (True, d\<lparr>dm_schema := s\<rparr>)" using on_schema_fine assms(1) unfolding reaches_db_def by blast
  show ?thesis using assms(2-5) c s
    by (auto simp: panel_main_def cmdResetAdmin_def on_store_def GetUserByUsername_def CreateUser_def stmt_def db_read_def Let_def)
qed

text \<open>
  C16: a panel that starts before its database starts all nodes once the database answers. However many
  attempts fail, and whatever else the panel does in between, the first attempt that finds the database
  working ends the retries, and then every node of the database has a driver that was not stopped.
\<close>
theorem start_all_recovers:
  assumes "panel_reach P" "\<forall>(e, g)\<in>set ts. \<forall>Q. panel_reach Q \<longrightarrow> panel_reach (g Q)" "(e, g) \<in> set ts" "\<forall>Q. db_faults (app_store (pn_app (g Q))) = []"
    "StartAll ts P = (fin, P')"
  shows "fin \<and> (\<forall>n\<in>set (db_nodes (app_store (pn_app P'))). \<exists>oid c. Conn (nd_ID n) P' = Some (oid, c) \<and> nc_nodeID c = nd_ID n \<and> \<not> nc_cancelled c)"
proof -
  have d: "fin" using StartAll_works[OF assms(3), of P] assms(4,5) by simp
  then obtain e' g' Q where t: "tryStartAll e' (g' Q) = (True, P')" using StartAll_attempt[of ts P P'] assms(5) by auto
  have wf: "panel_wf P'" by (rule panel_reach_wf[OF StartAll_reach[OF assms(5,1,2)]])
  have "\<exists>oid c. Conn (nd_ID n) P' = Some (oid, c) \<and> nc_nodeID c = nd_ID n \<and> \<not> nc_cancelled c" if n: "n \<in> set (db_nodes (app_store (pn_app P')))" for n
  proof -
    have "map_of (pn_conns P') (nd_ID n) \<noteq> None" using tryStartAll_ok[OF t] tryStartAll_nodes[OF t] n by simp
    then obtain oid where o: "map_of (pn_conns P') (nd_ID n) = Some oid" by blast
    from panel_wf_conns[OF wf o] obtain c where "map_of (pn_objs P') oid = Some c" "nc_nodeID c = nd_ID n" "\<not> nc_cancelled c" by blast
    then show ?thesis using o by (simp add: Conn_def)
  qed
  then show ?thesis using d by blast
qed


theorem reset_admin_silent_failure_witness:
  "\<exists>out d'. panel_main ex_main [''reset-admin''] (ex_dbms [True]) = Printed (0, out, d') \<and> db_users (dm_store d') = db_users (app_store ex_admin)"
proof -
  obtain code out d' where m: "panel_main ex_main [''reset-admin''] (ex_dbms [True]) = Printed (code, out, d')"
    by (cases "panel_main ex_main [''reset-admin''] (ex_dbms [True])") (auto simp: panel_main_def)
  obtain u where u: "admin_row (dm_store (ex_dbms [True])) = Some u" by (simp add: ex_dbms_def ex_admin_def New_def CreateUser_def empty_store_def)
  have f: "db_faults (dm_store (ex_dbms [True])) = [True]" "db_users (dm_store (ex_dbms [True])) = db_users (app_store ex_admin)" by (simp_all add: ex_dbms_def)
  have h: "me_hash ex_main (RandomPassword (me_bytes ex_main)) = Some (RandomPassword (me_bytes ex_main))" by (simp add: ex_main_def)
  from reset_admin_silent_failure[OF ex_reaches u f(1) h m] show ?thesis using m f(2) by auto
qed

theorem start_all_recovers_witness:
  "let faults = (\<lambda>fs. on_app (\<lambda>a. a\<lparr>app_store := (app_store a)\<lparr>db_faults := fs\<rparr>\<rparr>)); (fin, P') = StartAll [(ex_panel_env, faults [True]), (ex_panel_env, faults [])] ex_panel
   in fin \<and> (\<forall>n\<in>set (db_nodes (app_store (pn_app P'))). \<exists>oid c. Conn (nd_ID n) P' = Some (oid, c) \<and> nc_nodeID c = nd_ID n \<and> \<not> nc_cancelled c)"
proof -
  let ?faults = "\<lambda>fs. on_app (\<lambda>a. a\<lparr>app_store := (app_store a)\<lparr>db_faults := fs\<rparr>\<rparr>)"
  let ?ts = "[(ex_panel_env, ?faults [True]), (ex_panel_env, ?faults [])]"
  obtain fin P' where s: "StartAll ?ts ex_panel = (fin, P')" by (cases "StartAll ?ts ex_panel")
  have "panel_reach ex_panel" unfolding ex_panel_def by (rule panel_reach.init)
  moreover have "\<forall>(e, g)\<in>set ?ts. \<forall>Q. panel_reach Q \<longrightarrow> panel_reach (g Q)" by (auto intro: panel_reach.shared)
  ultimately show ?thesis using start_all_recovers[of ex_panel ?ts ex_panel_env "?faults []" fin P'] s by (simp add: Let_def)
qed

end
