(* ===== verification/Agent_Main.thy ===== *)
theory Agent_Main
  imports Cli Sdnotify Codec Agent
begin

text \<open>
  The agent's process: \<^verbatim>\<open>agent/main.go\<close>, \<^verbatim>\<open>Run\<close> and the loops of \<^verbatim>\<open>server.go\<close>, the public address and the
  receipt box of \<^verbatim>\<open>geninit.go\<close>, the client of \<^verbatim>\<open>frpsapi.go\<close> and the commands of \<^verbatim>\<open>frps.go\<close>. The network, the
  processes started and the listener are arguments; so are the files, one \<open>agent_disk\<close> for each data
  directory. The lemmas show that what an installation prints is what the panel reads and what the
  service then runs with.
\<close>

section \<open>Random tokens\<close>

definition randHex :: "nat list \<Rightarrow> string" where
  "randHex bs = concat (map (\<lambda>b. [hex_char (b div 16), hex_char (b mod 16)]) bs)"

text \<open>\<^verbatim>\<open>RandomToken\<close> of the panel's \<^verbatim>\<open>auth.go\<close> is the same function.\<close>

definition RandomToken :: "nat list \<Rightarrow> string" where
  "RandomToken bs = randHex bs"

section \<open>The public address\<close>

definition word_char :: "char \<Rightarrow> bool" where
  "word_char c \<longleftrightarrow> is_digit c \<or> (CHR ''a'' \<le> c \<and> c \<le> CHR ''z'') \<or> (CHR ''A'' \<le> c \<and> c \<le> CHR ''Z'') \<or> c = CHR ''_''"

text \<open>
  \<^verbatim>\<open>ipv4re\<close> from a position where a word starts: \<open>k\<close> groups of one to three digits and a dot, then one to
  three digits at whose end a word ends. A group takes the whole run of digits, since nothing shorter is
  followed by a dot or by the end of a word.
\<close>

fun quad :: "nat \<Rightarrow> string \<Rightarrow> string option" where
  "quad k s =
     (let ds = takeWhile is_digit s; rest = drop (length ds) s
      in if length ds < 1 \<or> 3 < length ds then None
         else case k of
                0 \<Rightarrow> if rest = [] \<or> \<not> word_char (hd rest) then Some ds else None
              | Suc j \<Rightarrow> (case rest of [] \<Rightarrow> None | c # t \<Rightarrow> if c = CHR ''.'' then map_option (\<lambda>m. ds @ ''.'' @ m) (quad j t) else None))"

text \<open>\<^verbatim>\<open>FindString\<close>: the leftmost match, or the empty string. \<open>inword\<close>: whether a word character is before the position.\<close>

fun FindString :: "bool \<Rightarrow> string \<Rightarrow> string" where
  "FindString inword [] = []"
| "FindString inword (c # s) = (case (if inword then None else quad 3 (c # s)) of Some m \<Rightarrow> m | None \<Rightarrow> FindString (word_char c) s)"

text \<open>\<^verbatim>\<open>net.ParseIP\<close> on a dotted text: four numbers up to 255 without leading zeros.\<close>

definition octet :: "string \<Rightarrow> nat option" where
  "octet ds =
     (if ds = [] \<or> (1 < length ds \<and> hd ds = CHR ''0'') then None
      else case read_digits 10 0 ds of None \<Rightarrow> None | Some n \<Rightarrow> if n \<le> 255 then Some n else None)"

definition ParseIP4 :: "string \<Rightarrow> (nat \<times> nat \<times> nat \<times> nat) option" where
  "ParseIP4 s =
     (case map octet (Split CHR ''.'' s) of
        [Some a, Some b, Some c, Some d] \<Rightarrow> Some (a, b, c, d)
      | _ \<Rightarrow> None)"

definition IsPrivate :: "nat \<times> nat \<times> nat \<times> nat \<Rightarrow> bool" where
  "IsPrivate ip = (case ip of (a, b, c, d) \<Rightarrow> a = 10 \<or> (a = 172 \<and> b div 16 = 1) \<or> (a = 192 \<and> b = 168))"

definition IsLoopback :: "nat \<times> nat \<times> nat \<times> nat \<Rightarrow> bool" where
  "IsLoopback ip = (fst ip = 127)"

definition probe_sources :: "string list" where
  "probe_sources = [''https://api.ipify.org'', ''https://ifconfig.me/ip'', ''https://ipinfo.io/ip'', ''https://4.ipw.cn'', ''http://ip.3322.net'']"

text \<open>\<open>fetch\<close>: the body of the answer of a source, whatever its status; at most 256 bytes are read.\<close>

fun probe :: "(string \<Rightarrow> string option) \<Rightarrow> string list \<Rightarrow> string" where
  "probe fetch [] = []"
| "probe fetch (u # us) =
     (case fetch u of
        None \<Rightarrow> probe fetch us
      | Some body \<Rightarrow>
          (let m = FindString False (take 256 body)
           in case ParseIP4 m of
                None \<Rightarrow> probe fetch us
              | Some ip \<Rightarrow> if \<not> IsPrivate ip \<and> \<not> IsLoopback ip then m else probe fetch us))"

definition ProbePublicIP :: "(string \<Rightarrow> string option) \<Rightarrow> string" where
  "ProbePublicIP fetch = probe fetch probe_sources"

section \<open>Client addresses\<close>

text \<open>\<^verbatim>\<open>net.SplitHostPort\<close>.\<close>

definition SplitHostPort :: "string \<Rightarrow> (string \<times> string) option" where
  "SplitHostPort s =
     (case LastIndexByte s CHR '':'' of
        None \<Rightarrow> None
      | Some i \<Rightarrow>
          if hd s = CHR ''['' then
            (case IndexByte s CHR '']'' of
               None \<Rightarrow> None
             | Some e \<Rightarrow>
                 if e + 1 \<noteq> i \<or> CHR ''['' \<in> set (drop 1 s) \<or> CHR '']'' \<in> set (drop (e + 1) s) then None
                 else Some (drop 1 (take e s), drop (i + 1) s))
          else if CHR '':'' \<in> set (take i s) \<or> CHR ''['' \<in> set s \<or> CHR '']'' \<in> set s then None
          else Some (take i s, drop (i + 1) s))"

definition agent_clientIP :: "string \<Rightarrow> string" where
  "agent_clientIP remoteAddr = (case SplitHostPort remoteAddr of None \<Rightarrow> remoteAddr | Some (host, _) \<Rightarrow> host)"

definition panel_ClientIP :: "string \<Rightarrow> string" where
  "panel_ClientIP remoteAddr = (case SplitHostPort remoteAddr of None \<Rightarrow> remoteAddr | Some (host, _) \<Rightarrow> TrimSpace host)"

section \<open>frps\<close>

record FrpsClient =
  fc_base :: string
  fc_user :: string
  fc_pass :: string

definition NewFrpsClient :: "Config \<Rightarrow> FrpsClient" where
  "NewFrpsClient c = \<lparr>fc_base = ''http://'' @ cf_FrpsAdminAddr c @ '':'' @ Itoa (cf_FrpsAdminPort c), fc_user = cf_FrpsAdminUser c, fc_pass = cf_FrpsAdminPass c\<rparr>"

text \<open>
  An answer of the admin API: status and body; \<open>None\<close> when the request fails. \<^verbatim>\<open>Decode\<close> of a decoder reads the
  first value of the body and leaves the rest.
\<close>

type_synonym admin_api = "string \<Rightarrow> string \<Rightarrow> string \<Rightarrow> (int \<times> string) option"

definition frps_get :: "admin_api \<Rightarrow> 'r setter \<Rightarrow> 'r \<Rightarrow> FrpsClient \<Rightarrow> string \<Rightarrow> 'r option" where
  "frps_get http st zero c path =
     (case http (fc_base c @ path) (fc_user c) (fc_pass c) of
        None \<Rightarrow> None
      | Some (status, body) \<Rightarrow>
          if status \<noteq> 200 then None
          else case parse_value (2 * length body + 2) body of
                 None \<Rightarrow> None
               | Some (v, _) \<Rightarrow> (let (r, fine) = fill st v zero in if fine then Some r else None))"

record serverInfo =
  si_Version :: string
  si_BindPort :: int

definition set_serverInfo :: "serverInfo setter" where
  "set_serverInfo k v r =
     (if k = ''version'' then put dec_string si_Version si_Version_update v r
      else if k = ''bindport'' then put dec_int si_BindPort si_BindPort_update v r
      else (r, True))"

definition ServerInfo :: "admin_api \<Rightarrow> FrpsClient \<Rightarrow> string \<times> bool" where
  "ServerInfo http c =
     (case frps_get http set_serverInfo \<lparr>si_Version = [], si_BindPort = 0\<rparr> c ''/api/serverinfo'' of
        None \<Rightarrow> ([], False)
      | Some si \<Rightarrow> (si_Version si, True))"

text \<open>A pointer to a struct with the remote port: \<^verbatim>\<open>null\<close> clears it.\<close>

definition dec_conf :: "json \<Rightarrow> int option \<Rightarrow> int option option" where
  "dec_conf v old =
     (if v = JNull then Some None
      else let (p, fine) = fill (\<lambda>k v p. if k = ''remoteport'' then (case dec_int v p of None \<Rightarrow> (p, False) | Some x \<Rightarrow> (x, True)) else (p, True)) v (case old of None \<Rightarrow> 0 | Some p \<Rightarrow> p)
           in if fine then Some (Some p) else None)"

definition set_proxy_entry :: "proxy_entry setter" where
  "set_proxy_entry k v r =
     (if k = ''name'' then put dec_string pe_Name pe_Name_update v r
      else if k = ''conf'' then put dec_conf pe_Conf pe_Conf_update v r
      else if k = ''todaytrafficin'' then put dec_word pe_TodayTrafficIn pe_TodayTrafficIn_update v r
      else if k = ''todaytrafficout'' then put dec_word pe_TodayTrafficOut pe_TodayTrafficOut_update v r
      else if k = ''status'' then put dec_string pe_Status pe_Status_update v r
      else (r, True))"

definition zero_proxy_entry :: proxy_entry where
  "zero_proxy_entry = \<lparr>pe_Name = [], pe_Conf = None, pe_TodayTrafficIn = 0, pe_TodayTrafficOut = 0, pe_Status = []\<rparr>"

definition set_proxyResp :: "proxy_entry list setter" where
  "set_proxyResp k v r = (if k = ''proxies'' then fill_slice set_proxy_entry zero_proxy_entry v r else (r, True))"

text \<open>What \<^verbatim>\<open>Proxies\<close> asks for a protocol.\<close>

definition frps_api :: "admin_api \<Rightarrow> FrpsClient \<Rightarrow> string \<Rightarrow> proxy_entry list option" where
  "frps_api http c proto = frps_get http set_proxyResp [] c (''/api/proxy/'' @ proto)"

definition client_Proxies :: "admin_api \<Rightarrow> FrpsClient \<Rightarrow> ProxyInfo list \<times> bool" where
  "client_Proxies http c = Proxies (frps_api http c)"

text \<open>\<^verbatim>\<open>run\<close>: the trimmed output of a command and whether it succeeded. \<open>exec\<close> runs a program within fifteen seconds.\<close>

definition frps_run :: "(string \<Rightarrow> string list \<Rightarrow> string \<times> bool) \<Rightarrow> string \<Rightarrow> string list \<Rightarrow> string \<times> bool" where
  "frps_run exec name args = (let (out, fine) = exec name args in (TrimSpace out, fine))"

definition BinVersion :: "(string \<Rightarrow> string list \<Rightarrow> string \<times> bool) \<Rightarrow> Config \<Rightarrow> string" where
  "BinVersion exec c = (let (out, fine) = frps_run exec (FrpsBin c) [''--version''] in if fine then TrimSpace out else [])"

section \<open>Serving\<close>

text \<open>The ticks of \<^verbatim>\<open>metricsLoop\<close> and \<^verbatim>\<open>maintenanceLoop\<close>, and what the request handlers do in between.\<close>

datatype agent_tick = SampleTick sample_env | EnsureTick | RotateTick rotate_io int | Handlers "Server \<Rightarrow> Server"

text \<open>The server, and the commands given to systemd.\<close>

definition agent_step :: "(string \<Rightarrow> string list \<Rightarrow> string \<times> bool) \<Rightarrow> agent_tick \<Rightarrow> Server \<times> string list list \<Rightarrow> Server \<times> string list list" where
  "agent_step exec t st =
     (case st of
        (s, cmds) \<Rightarrow>
          (case t of
             SampleTick e \<Rightarrow> (sampleAndBroadcast e s, cmds)
           | EnsureTick \<Rightarrow> (s, cmds @ (if EnsureUp (fst (frps_run exec ''systemctl'' [''is-active'', ''frps''])) then [[''systemctl'', ''start'', ''frps'']] else []))
           | RotateTick io now \<Rightarrow> (rotate_tick io now s, cmds)
           | Handlers g \<Rightarrow> (g s, cmds)))"

datatype agent_end = ServeFailed | ServerClosed

text \<open>\<open>keypair\<close>: whether the certificate and the key on disk can be loaded. Whether no error is returned.\<close>

definition agent_Run :: "(string \<Rightarrow> string list \<Rightarrow> string \<times> bool) \<Rightarrow> bool \<Rightarrow> agent_tick list \<Rightarrow> agent_end \<Rightarrow> Server \<Rightarrow> bool \<times> Server" where
  "agent_Run exec keypair ticks fin s =
     (if \<not> keypair then (False, s)
      else (fin = ServerClosed, fst (fold (agent_step exec) ticks (s, []))))"

section \<open>The receipt box\<close>

definition box_rule :: string where "box_rule = replicate 68 (CHR ''='')"

definition box_hint :: string where
  "box_hint =
     ''  '' @ [CHR 0xE8, CHR 0x8A, CHR 0x82, CHR 0xE7, CHR 0x82, CHR 0xB9, CHR 0xE6, CHR 0xB3, CHR 0xA8, CHR 0xE5, CHR 0x86, CHR 0x8C, CHR 0xE5, CHR 0x9B,
     CHR 0x9E, CHR 0xE6, CHR 0x89, CHR 0xA7] @ '' '' @ [CHR 0xE2, CHR 0x80, CHR 0x94, CHR 0xE2, CHR 0x80, CHR 0x94] @ '' '' @ [CHR 0xE8, CHR 0xAF, CHR
     0xB7, CHR 0xE5, CHR 0xAE, CHR 0x8C, CHR 0xE6, CHR 0x95, CHR 0xB4, CHR 0xE5, CHR 0xA4, CHR 0x8D, CHR 0xE5, CHR 0x88, CHR 0xB6, CHR 0xE4, CHR 0xBB, CHR
     0xA5, CHR 0xE4, CHR 0xB8, CHR 0x8B, CHR 0xE4, CHR 0xB8, CHR 0x80, CHR 0xE8, CHR 0xA1, CHR 0x8C, CHR 0xE5, CHR 0x86, CHR 0x85, CHR 0xE5, CHR 0xAE, CHR
     0xB9, CHR 0xEF, CHR 0xBC, CHR 0x8C, CHR 0xE7, CHR 0xB2, CHR 0x98, CHR 0xE8, CHR 0xB4, CHR 0xB4, CHR 0xE5, CHR 0x88, CHR 0xB0, CHR 0xE9, CHR 0x9D, CHR
     0xA2, CHR 0xE6, CHR 0x9D, CHR 0xBF]"

definition box_details :: "Config \<Rightarrow> string" where
  "box_details c =
     ''  '' @ [CHR 0xEF, CHR 0xBC, CHR 0x88, CHR 0xE5, CHR 0x85, CHR 0xAC, CHR 0xE7, CHR 0xBD, CHR 0x91] @ ''IP='' @ cf_PublicIP c @
     ''  '' @ [CHR 0xE7, CHR 0xAE, CHR 0xA1, CHR 0xE7, CHR 0x90, CHR 0x86, CHR 0xE7, CHR 0xAB, CHR 0xAF, CHR 0xE5, CHR 0x8F, CHR 0xA3] @ ''='' @ cf_BindAddr c @
     ''  frps'' @ [CHR 0xE7, CHR 0xAB, CHR 0xAF, CHR 0xE5, CHR 0x8F, CHR 0xA3] @ ''='' @ Itoa (cf_FrpsBindPort c) @
     [CHR 0xEF, CHR 0xBC, CHR 0x89]"

definition PrintReceiptBox :: "string \<Rightarrow> Config \<Rightarrow> string" where
  "PrintReceiptBox ver c =
     (let nl = [CHR 0x0A]
      in nl @ box_rule @ nl @ box_hint @ nl @ box_details c @ nl @ box_rule @ nl @ BuildReceipt ver c @ nl @ box_rule @ nl @ nl)"

section \<open>Commands\<close>

text \<open>
  \<open>am_wal\<close>: whether the write-ahead log can be opened, and its text; \<open>am_keypair\<close>, \<open>am_ticks\<close>, \<open>am_end\<close>: how serving
  goes.
\<close>

record agent_env =
  am_version :: string
  am_info :: string
  am_init :: init_env
  am_wal :: "string option option"
  am_exec :: "string \<Rightarrow> string list \<Rightarrow> string \<times> bool"
  am_keypair :: bool
  am_ticks :: "agent_tick list"
  am_end :: agent_end
  am_sd :: sd_env

type_synonym disks = "string \<Rightarrow> agent_disk"

definition cmdInit :: "agent_env \<Rightarrow> string list \<Rightarrow> disks \<Rightarrow> int \<times> string \<times> disks" where
  "cmdInit e args ds =
     (case fs_Parse [(''datadir'', DefaultDataDir), (''bind'', '':8443''), (''ip'', [])] args of
        Inl code \<Rightarrow> (code, [], ds)
      | Inr fs \<Rightarrow>
          (let opt = \<lparr>io_DataDir = mget [] fs ''datadir'', io_BindAddr = mget [] fs ''bind'', io_ManualIP = mget [] fs ''ip''\<rparr>; dir = io_DataDir (init_defaults opt)
           in case Init (am_version e) (am_init e) opt (ds dir) of
                (Inl _, d) \<Rightarrow> (1, [], ds(dir := d))
              | (Inr cfg, d) \<Rightarrow> (0, PrintReceiptBox (am_version e) cfg, ds(dir := d))))"

definition cmdReceipt :: "agent_env \<Rightarrow> string list \<Rightarrow> disks \<Rightarrow> int \<times> string" where
  "cmdReceipt e args ds =
     (case fs_Parse [(''datadir'', DefaultDataDir)] args of
        Inl code \<Rightarrow> (code, [])
      | Inr fs \<Rightarrow>
          (case Load (mget [] fs ''datadir'') (ds (mget [] fs ''datadir'')) of
             Inl _ \<Rightarrow> (1, [])
           | Inr cfg \<Rightarrow> (0, PrintReceiptBox (am_version e) cfg)))"

text \<open>The server the service starts with.\<close>

definition agent_boot :: "agent_env \<Rightarrow> string list \<Rightarrow> disks \<Rightarrow> int + Server" where
  "agent_boot e args ds =
     (case fs_Parse [(''datadir'', DefaultDataDir)] args of
        Inl code \<Rightarrow> Inl code
      | Inr fs \<Rightarrow>
          (case Load (mget [] fs ''datadir'') (ds (mget [] fs ''datadir'')) of
             Inl _ \<Rightarrow> Inl 1
           | Inr cfg \<Rightarrow> (case am_wal e of None \<Rightarrow> Inl 1 | Some file \<Rightarrow> Inr (NewServer cfg (ds (mget [] fs ''datadir'')) file))))"

definition agent_runService :: "agent_env \<Rightarrow> string list \<Rightarrow> disks \<Rightarrow> int \<times> string list \<times> Server option" where
  "agent_runService e args ds =
     (case agent_boot e args ds of
        Inl code \<Rightarrow> (code, [], None)
      | Inr s \<Rightarrow>
          (let msgs = snd (sd_Ready (am_sd e)) @ snd (sd_Status (am_sd e) ''running''); (fine, s) = agent_Run (am_exec e) (am_keypair e) (am_ticks e) (am_end e) s
           in (if fine then 0 else 1, msgs, Some s)))"

datatype agent_call = AVersion string | AInit "int \<times> string \<times> disks" | AReceipt "int \<times> string" | AService "int \<times> string list \<times> Server option"

definition agent_main :: "agent_env \<Rightarrow> string list \<Rightarrow> disks \<Rightarrow> agent_call" where
  "agent_main e args ds =
     (case args of
        [] \<Rightarrow> AService (agent_runService e [] ds)
      | cmd # rest \<Rightarrow>
          if cmd \<in> {''version'', ''-v'', ''--version''} then AVersion (''frpanel-agent '' @ am_info e)
          else if cmd = ''init'' then AInit (cmdInit e rest ds)
          else if cmd = ''receipt'' then AReceipt (cmdReceipt e rest ds)
          else if cmd = ''run'' then AService (agent_runService e rest ds)
          else AService (agent_runService e args ds))"

section \<open>Addresses\<close>

lemma probe_public: "probe fetch us \<noteq> [] \<Longrightarrow> \<exists>ip. ParseIP4 (probe fetch us) = Some ip \<and> \<not> IsPrivate ip \<and> \<not> IsLoopback ip"
  by (induction us) (auto simp: Let_def split: option.splits if_splits)

text \<open>An address is taken although it is not public: link-local addresses are neither private nor loopback.\<close>

lemma probe_link_local: "ProbePublicIP (\<lambda>_. Some ''169.254.0.1'') = ''169.254.0.1''"
  by code_simp

text \<open>The limiters count by host: the ports of two connections from one address do not matter.\<close>

lemma SplitHostPort_join:
  assumes "set host \<inter> {CHR '':'', CHR ''['', CHR '']''} = {}" "set port \<inter> {CHR '':'', CHR ''['', CHR '']''} = {}"
  shows "SplitHostPort (host @ '':'' @ port) = Some (host, port)"
proof -
  have "LastIndexByte (host @ '':'' @ port) CHR '':'' = Some (length host)" using assms by (simp add: LastIndexByte_def IndexByte_append)
  moreover have "hd (host @ '':'' @ port) \<noteq> CHR ''[''" using assms by (cases host) auto
  ultimately show ?thesis using assms by (auto simp: SplitHostPort_def)
qed

section \<open>The box\<close>

lemma box_no_newline: "CHR 0x0A \<notin> set box_rule" "CHR 0x0A \<notin> set box_hint" "CHR 0x0A \<notin> set (cf_PublicIP c @ cf_BindAddr c) \<Longrightarrow> CHR 0x0A \<notin> set (box_details c)"
  by (simp_all add: box_rule_def box_hint_def box_details_def Itoa_no_char)

lemma receipt_no_newline: "CHR 0x0A \<notin> set (BuildReceipt ver c)"
proof -
  have "\<not> blank x" if "x \<in> set (BuildReceipt ver c)" for x using that set_encode64 alphabet_no_space by (auto simp: BuildReceipt_def Encode_def)
  then show ?thesis by (auto simp: blank_def)
qed

lemma box_line:
  assumes "CHR 0x0A \<notin> set (cf_PublicIP c @ cf_BindAddr c)"
  shows "Split CHR 0x0A (PrintReceiptBox ver c) ! 5 = BuildReceipt ver c"
  using Split_append_sep[of _ "[]"] assms by (simp add: PrintReceiptBox_def Let_def Split_append_sep box_no_newline receipt_no_newline)

section \<open>Installation\<close>

lemma Init_DataDir: "Init ver ie opt d = (Inr c, d') \<Longrightarrow> cf_DataDir c \<noteq> []"
proof -
  assume i: "Init ver ie opt d = (Inr c, d')"
  have "io_DataDir (init_defaults opt) \<noteq> []" by (simp add: init_defaults_def Let_def DefaultDataDir_def)
  then have "cf_DataDir (base_config ver ie (init_defaults opt) d) \<noteq> []"
    by (auto simp: base_config_def Load_def fresh_config_def Let_def split: option.split)
  moreover have "cf_DataDir c = cf_DataDir (base_config ver ie (init_defaults opt) d)"
    using i by (auto simp: Init_def Let_def split: if_splits option.splits prod.splits)
  ultimately show ?thesis by simp
qed

lemma parse_datadir: "fs_Parse [(''datadir'', x)] [''-datadir'', dir] = Inr [(''datadir'', dir)]"
  by (simp add: fs_Parse_def read_flag_def Let_def)

lemma cmdInit_ok:
  assumes "cmdInit e args ds = (0, out, ds')" "out \<noteq> []"
  shows "\<exists>dir opt cfg. Init (am_version e) (am_init e) opt (ds dir) = (Inr cfg, ds' dir) \<and> out = PrintReceiptBox (am_version e) cfg"
  using assms by (auto simp: cmdInit_def Let_def split: sum.splits prod.splits) metis

section \<open>Properties\<close>

text \<open>
  C22: what an installation prints. When \<^verbatim>\<open>agent init\<close> succeeds, the line of its output below the second rule
  is the receipt of the saved configuration, and the panel decodes it to that configuration's address,
  port, token and fingerprint; \<^verbatim>\<open>agent receipt\<close> for the same directory prints the same text, and \<^verbatim>\<open>agent run\<close> starts
  a server with the same configuration on the same certificate.
\<close>
theorem printed_receipt:
  assumes "agent_main e (''init'' # args) ds = AInit (0, out, ds')" "out \<noteq> []" "am_version e' = am_version e" "am_wal e' = Some file"
  shows "\<exists>dir cfg. dk_config (ds' dir) = Some cfg \<and>
    (CHR 0x0A \<notin> set (cf_PublicIP cfg @ cf_BindAddr cfg) \<and> wf_receipt (agent_receipt (am_version e) cfg) \<longrightarrow>
       Decode (Split CHR 0x0A out ! 5) = Inr (agent_receipt (am_version e) cfg)) \<and>
    agent_main e' [''receipt'', ''-datadir'', dir] ds' = AReceipt (0, out) \<and>
    agent_boot e' [''-datadir'', dir] ds' = Inr (NewServer cfg (ds' dir) file)"
proof -
  obtain dir opt cfg where i: "Init (am_version e) (am_init e) opt (ds dir) = (Inr cfg, ds' dir)" "out = PrintReceiptBox (am_version e) cfg"
    using cmdInit_ok[of e args ds out ds'] assms(1,2) by (auto simp: agent_main_def)
  have c: "dk_config (ds' dir) = Some cfg" using Init_disk[OF i(1)] by blast
  have l: "Load dir (ds' dir) = Inr cfg" using c Init_DataDir[OF i(1)] by (simp add: Load_def)
  have "Decode (Split CHR 0x0A out ! 5) = Inr (agent_receipt (am_version e) cfg)"
    if "CHR 0x0A \<notin> set (cf_PublicIP cfg @ cf_BindAddr cfg)" "wf_receipt (agent_receipt (am_version e) cfg)"
  proof -
    have "filter (\<lambda>x. \<not> blank x) (BuildReceipt (am_version e) cfg) = Encode (agent_receipt (am_version e) cfg)"
      using set_encode64 alphabet_no_space by (auto simp: BuildReceipt_def Encode_def filter_id_conv)
    then show ?thesis using Decode_blanks[OF that(2)] box_line[OF that(1)] i(2) by simp
  qed
  moreover have "agent_main e' [''receipt'', ''-datadir'', dir] ds' = AReceipt (0, out)"
    using l i(2) assms(3) by (simp add: agent_main_def cmdReceipt_def parse_datadir mget_def)
  moreover have "agent_boot e' [''-datadir'', dir] ds' = Inr (NewServer cfg (ds' dir) file)"
    using l assms(4) by (simp add: agent_boot_def parse_datadir mget_def)
  ultimately show ?thesis using c by blast
qed

definition ex_agent_env :: agent_env where
  "ex_agent_env = \<lparr>am_version = ''1'', am_info = [], am_init = ex_env ''t'', am_wal = Some None, am_exec = (\<lambda>_ _. ([], True)), am_keypair = True, am_ticks = [], am_end = ServerClosed,
     am_sd = \<lparr>sd_NOTIFY_SOCKET = [], sd_WATCHDOG_USEC = [], sd_dial = True, sd_write = (\<lambda>_. True)\<rparr>\<rparr>"

theorem printed_receipt_witness:
  "\<exists>out ds' dir cfg. agent_main ex_agent_env [''init''] (\<lambda>_. ex_disk) = AInit (0, out, ds') \<and> agent_main ex_agent_env [''receipt'', ''-datadir'', dir] ds' = AReceipt (0, out) \<and>
     agent_boot ex_agent_env [''-datadir'', dir] ds' = Inr (NewServer cfg (ds' dir) None)"
proof -
  let ?o = "\<lparr>io_DataDir = DefaultDataDir, io_BindAddr = '':8443'', io_ManualIP = []\<rparr>"
  have "\<exists>cfg d'. Init ''1'' (ex_env ''t'') ?o ex_disk = (Inr cfg, d')"
    by (auto simp: Init_def Let_def Save_def WriteFrpsTOML_def ensure_cert_def fingerprintOfFile_def base_config_def Load_def ex_env_def
      ex_disk_def init_defaults_def fresh_config_def split: option.splits)
  then obtain cfg d' where i: "Init ''1'' (ex_env ''t'') ?o ex_disk = (Inr cfg, d')" by blast
  have m: "agent_main ex_agent_env [''init''] (\<lambda>_. ex_disk) = AInit (0, PrintReceiptBox ''1'' cfg, (\<lambda>_. ex_disk)(DefaultDataDir := d'))"
    using i by (simp add: agent_main_def cmdInit_def fs_Parse_def mget_def init_defaults_def DefaultDataDir_def ex_agent_env_def)
  have "PrintReceiptBox ''1'' cfg \<noteq> []" "am_wal ex_agent_env = Some None" by (simp_all add: PrintReceiptBox_def Let_def ex_agent_env_def)
  from printed_receipt[OF m this(1) refl this(2)] show ?thesis using m by blast
qed

end
