(* ===== verification/Spec2Isabelle.thy ===== *)
theory Spec2Isabelle
  imports Frpcfg Portutil Limiter Accounting Replay Sync Session Mappings_Api Nodes_Api Misc_Api Setup
    Codec Configfile Certs Endtoend Browser Sdnotify Cli Panel_Main Agent_Main
begin

text \<open>
  FRPanel manages frp tunnels from one panel. The panel keeps nodes and port mappings in MySQL, runs
  one frpc process for each node, drives a control connection to the agent on each node, and serves
  the REST API and live data to browsers. The agent on a node supervises frps, programs the firewall,
  samples metrics and keeps a log of the traffic samples, which it replays when the panel reconnects.
  This development models the Go code under \<^verbatim>\<open>src/internal\<close> and the two programs as executable functions over explicit
  states and proves what makes the parts correct, including the places where they are not.

  \<^bold>\<open>The parts and their theories.\<close>
  \<^item> \<open>Prelude\<close>, \<open>Gotime\<close>, \<open>Json\<close>: the Go values and library functions the code uses (maps, strings,
    decimal numbers, line scanning, dates, \<^verbatim>\<open>encoding/json\<close>), with their round trips and orders.
  \<^item> \<open>Protocol\<close> (\<^verbatim>\<open>protocol/protocol.go\<close>, \<^verbatim>\<open>sign.go\<close>): envelopes, messages, \<^verbatim>\<open>Sign\<close> and \<^verbatim>\<open>Verify\<close>;
    \<open>Codec\<close> the JSON of every message, reading and writing of envelopes.
  \<^item> \<open>Frpcfg\<close> (\<^verbatim>\<open>frpcfg.go\<close>): the TOML of frpc and frps, the allowed port ranges, proxy names. \<open>Portutil\<close>
    (\<^verbatim>\<open>portutil\<close>): the port policy and socket tables. \<open>Procmetrics\<close> (\<^verbatim>\<open>procmetrics\<close>): the samples of a host.
  \<^item> \<open>Receipt\<close> (\<^verbatim>\<open>receipt.go\<close>), \<open>Certs\<close> (\<^verbatim>\<open>certutil.go\<close>), \<open>Selfupdate\<close> (\<^verbatim>\<open>selfupdate.go\<close>), \<open>Sdnotify\<close> (\<^verbatim>\<open>sdnotify.go\<close>).
  \<^item> The agent: \<open>Limiter\<close> (\<^verbatim>\<open>ratelimit.go\<close>, and the login limiter of \<^verbatim>\<open>auth.go\<close>), \<open>Agentcfg\<close> (\<^verbatim>\<open>config.go\<close>,
    \<^verbatim>\<open>geninit.go\<close>, \<^verbatim>\<open>frps.go\<close>, \<^verbatim>\<open>frpsapi.go\<close>), \<open>Configfile\<close> (the text of \<^verbatim>\<open>config.json\<close>), \<open>Firewall\<close> (\<^verbatim>\<open>firewall.go\<close>, \<^verbatim>\<open>nftlimit.go\<close>), \<open>Wal\<close> (\<^verbatim>\<open>wal.go\<close>),
    \<open>Agent\<close> and \<open>Replay\<close> (\<^verbatim>\<open>server.go\<close>).
  \<^item> The panel's data: \<open>Store\<close>, \<open>Store_Inv\<close>, \<open>Store_Tx\<close> (\<^verbatim>\<open>models.go\<close>, \<^verbatim>\<open>store.go\<close>, \<^verbatim>\<open>store_metrics.go\<close>),
    \<open>Metrics\<close> (\<^verbatim>\<open>metrics.go\<close>), \<open>Hub\<close> and \<open>Browser\<close> (\<^verbatim>\<open>hub.go\<close>), \<open>App\<close> (\<^verbatim>\<open>app.go\<close>), \<open>Pipeline\<close> and \<open>Accounting\<close> (\<^verbatim>\<open>pipeline.go\<close>).
  \<^item> The panel's control of nodes: \<open>Frpcmgr\<close> (\<^verbatim>\<open>frpcmgr.go\<close>), \<open>Nodeconn\<close>, \<open>Nodemgr\<close> and \<open>Sync\<close>
    (\<^verbatim>\<open>nodeconn.go\<close>, \<^verbatim>\<open>nodemgr.go\<close>).
  \<^item> The API: \<open>Resp\<close> (\<^verbatim>\<open>errs.go\<close>, \<^verbatim>\<open>resp.go\<close>, \<^verbatim>\<open>handlers_common.go\<close>), \<open>Session\<close> (\<^verbatim>\<open>auth.go\<close>, \<^verbatim>\<open>handlers_auth.go\<close>),
    \<open>Mappings_Api\<close>, \<open>Nodes_Api\<close>, \<open>Misc_Api\<close> (the handlers), \<open>Setup\<close> (\<^verbatim>\<open>config.go\<close>, \<^verbatim>\<open>db.go\<close>, \<^verbatim>\<open>server.go\<close>).
  \<^item> The processes: \<open>Cli\<close> (command line flags), \<open>Panel_Main\<close> (\<^verbatim>\<open>panel/main.go\<close>, \<^verbatim>\<open>Start\<close>, \<^verbatim>\<open>StartAll\<close>), \<open>Agent_Main\<close>
    (\<^verbatim>\<open>agent/main.go\<close>, \<^verbatim>\<open>Run\<close>, the receipt box, the admin API client).
  \<^item> \<open>Endtoend\<close> connects both programs by the text on the wire: the operations of one side, the decoders
    of \<open>Codec\<close> and the operations of the other side.

  \<^bold>\<open>State.\<close> A Go struct is a record with the fields of the source. The panel is the record \<open>Panel\<close>: the
  shared state \<open>App\<close> (database tables, hub, pipeline, caches), the frpc manager, the table of node
  connections and the heap of drivers they point to, since a driver that was stopped still runs and
  several theorems are about that; what was sent to agents is recorded in \<open>pn_sent\<close>. A database is the
  record of its tables with a script of failing statements; transactions restore the tables on an
  error. Errors are values: a sum, an option or the reply of a handler.

  \<^bold>\<open>What the theorems show.\<close>
  \<^item> Data: the integrity of every reachable database, the optimistic lock, the rollups, and that traffic
    is counted exactly once over deliveries, duplicates, replays, flushes and restarts.
  \<^item> Delivery: the traffic log returns what was appended over restarts and rotations; the order of a
    session in every interleaving of replay, sampling and writing (a step relation); the replay ends
    and delivers.
  \<^item> Control: request ids correlate, one driver for each node in every reachable panel, and the
    refinement of the abstract data plane: after a synchronisation the frpc files are the function of
    the database they are meant to be. Creating a mapping composes all of it, from validation to
    the running frpc.
  \<^item> Security: what \<^verbatim>\<open>Verify\<close>, the agent's handshake, the session guards and the registration accept; the
    bounds on failed attempts; password changes revoke sessions; updates install only verified bytes.
  \<^item> Configuration: the allowed ranges, agreement of the panel's policy with frps, the firewall
    commands, initialisation, a configuration file that survives interrupted saves, settings read back, migrations
    that resume.
  \<^item> Both sides together: what one side writes the other reads and verifies; the handshake of a
    registered node succeeds; the receipt an installation prints registers the node, over the wire
    and back; the ports of the mappings become exactly the firewall rules of the node.
  \<^item> Processes: no goroutine of the hub sends on a closed channel and none waits forever (a step relation
    over all clients, and runs of a fair scheduler); a panel that starts before its database starts
    every node once it answers; an operator who is locked out gets back in.
  \<^item> Errors: what the code loses or refuses where its comments say otherwise. The manifest lists them.

  \<^bold>\<open>Interfaces.\<close> Locales state the contracts that components share and are interpreted on the model:
  \<open>bounded_buffer\<close> (ring and browser queue), \<open>watermark\<close> (sequence tracker), \<open>throttle\<close> (both limiters),
  \<open>table_invariant\<close> (the Hoare logic of the store), \<open>line_codec\<close> (the log's lines), \<open>backoff_loop\<close> (the
  supervisor of frpc and the reconnecting driver), \<open>struct_codec\<close> (the JSON of a message type; one
  interpretation for each struct of the protocol).

  \<^bold>\<open>Arguments.\<close> Code outside the repository and the world are arguments: HMAC, SHA-256, JWT, bcrypt and the
  YAML decoder, clocks and random bytes, what peers answer, which files can be written and how much of
  a write reaches the disk, which statements fail. Hypotheses about them are stated where they are used.

  \<^bold>\<open>Bounds.\<close> The JSON reader takes fuel \<open>2 * length + 2\<close>, enough for every text it is given by a lemma of
  \<open>Json\<close>; the replay loop runs at most its 24 rounds, as in the source. All other recursions are
  structural or terminate by a measure; the read loop of a browser's connection, which may go on as long
  as messages arrive, is an inductive relation. Byte counters are 64-bit words; sequence numbers, ports, ids
  and times are unbounded integers, as they are only compared and incremented. Handlers and manager
  operations run without interleaving, except for the replay (\<open>link_step\<close>), the requests of a driver
  (\<open>corr_reach\<close>), the goroutines of the hub (\<open>hub_step\<close>) and the attempts of \<open>StartAll\<close>, between which anything
  may happen.

  \<^bold>\<open>Not modelled.\<close> Waiting on sockets and timers (the loops are modelled by their ticks), TLS, WebSocket and
  HTTP transport, starting and signalling processes, key generation and the DER and PEM encodings,
  logging, embedded assets, the output of \<^verbatim>\<open>mysqldump\<close>, and
  a rotation of the log while a replay reads it. User-facing texts, Chinese in the source, are ASCII
  keys, except for the receipt box.
\<close>

end
